(* ===== verification/Prelude.thy ===== *)
theory Prelude
  imports Main "HOL-Library.Word"
begin

text \<open>
  Shared ground of the development: the names of the C++ integer types, the result type
  of operations that throw, the sequencing of such operations, the layout of an integer
  in memory (little-endian, as the server is built for), and the generic lemmas on lists
  and words the components share.
\<close>

unbundle bit_operations_syntax

type_synonym u8 = "8 word"
type_synonym u16 = "16 word"
type_synonym u32 = "32 word"
type_synonym u64 = "64 word"

named_theorems bind_simps \<open>sequencing of operations that may throw\<close>
named_theorems bytes_simps \<open>integers as byte lists\<close>

subsection \<open>Operations that may throw\<close>

text \<open>
  A C++ operation on an object is a function of the object's state that returns the new
  state and a value of a sum type: \<open>Inl\<close> is what is thrown (or the ASSERT that fails),
  \<open>Inr\<close> the normal result. The state returned with an \<open>Inl\<close> is what the object holds
  while the exception propagates. \<open>bindS\<close> is the semicolon.
\<close>

type_synonym ('s, 'e, 'a) io = "'s \<Rightarrow> ('e + 'a) \<times> 's"

definition retS :: "'a \<Rightarrow> ('s, 'e, 'a) io" where
  "retS a = (\<lambda>s. (Inr a, s))"

definition throwS :: "'e \<Rightarrow> ('s, 'e, 'a) io" where
  "throwS e = (\<lambda>s. (Inl e, s))"

definition bindS :: "('s, 'e, 'a) io \<Rightarrow> ('a \<Rightarrow> ('s, 'e, 'b) io) \<Rightarrow> ('s, 'e, 'b) io" where
  "bindS m f = (\<lambda>s. case m s of (Inl e, t) \<Rightarrow> (Inl e, t) | (Inr a, t) \<Rightarrow> f a t)"

definition seqS :: "('s, 'e, unit) io \<Rightarrow> ('s, 'e, 'b) io \<Rightarrow> ('s, 'e, 'b) io" where
  "seqS m n = bindS m (\<lambda>_. n)"

text \<open>The loops: for every element, collecting results, and with an accumulator.\<close>

fun forS :: "('a \<Rightarrow> ('s, 'e, unit) io) \<Rightarrow> 'a list \<Rightarrow> ('s, 'e, unit) io" where
  "forS f [] = retS ()"
| "forS f (x # xs) = seqS (f x) (forS f xs)"

fun foldS :: "('a \<Rightarrow> 'b \<Rightarrow> ('s, 'e, 'b) io) \<Rightarrow> 'a list \<Rightarrow> 'b \<Rightarrow> ('s, 'e, 'b) io" where
  "foldS f [] acc = retS acc"
| "foldS f (x # xs) acc = bindS (f x acc) (foldS f xs)"

fun repeatS :: "nat \<Rightarrow> ('s, 'e, 'a) io \<Rightarrow> ('s, 'e, 'a list) io" where
  "repeatS 0 m = retS []"
| "repeatS (Suc n) m = bindS m (\<lambda>x. bindS (repeatS n m) (\<lambda>xs. retS (x # xs)))"

fun mapS :: "('a \<Rightarrow> ('s, 'e, 'b) io) \<Rightarrow> 'a list \<Rightarrow> ('s, 'e, 'b list) io" where
  "mapS f [] = retS []"
| "mapS f (x # xs) = bindS (f x) (\<lambda>y. bindS (mapS f xs) (\<lambda>ys. retS (y # ys)))"

lemma repeatS_eq_mapS: "repeatS n m = mapS (\<lambda>_. m) (replicate n u)"
  by (induction n) simp_all

lemma retS_apply [simp]: "retS a s = (Inr a, s)"
  by (simp add: retS_def)

lemma throwS_apply [simp]: "throwS e s = (Inl e, s)"
  by (simp add: throwS_def)

lemma bindS_Inr [simp]: "m s = (Inr a, t) \<Longrightarrow> bindS m f s = f a t"
  by (simp add: bindS_def)

lemma bindS_Inl [simp]: "m s = (Inl e, t) \<Longrightarrow> bindS m f s = (Inl e, t)"
  by (simp add: bindS_def)

lemma seqS_Inr [simp]: "m s = (Inr u, t) \<Longrightarrow> seqS m n s = n t"
  by (simp add: seqS_def)

lemma seqS_Inl [simp]: "m s = (Inl e, t) \<Longrightarrow> seqS m n s = (Inl e, t)"
  by (simp add: seqS_def)

lemma bindS_retS [simp]: "bindS (retS a) f = f a"
  by (simp add: bindS_def retS_def)

lemma bindS_retS_right [simp]: "bindS m retS = m"
  by (auto simp: bindS_def retS_def fun_eq_iff split: prod.splits sum.splits)

lemma seqS_retS [simp]: "seqS (retS u) n = n"
  by (simp add: seqS_def)

lemma bindS_assoc [bind_simps]: "bindS (bindS m f) g = bindS m (\<lambda>x. bindS (f x) g)"
  by (auto simp: bindS_def fun_eq_iff split: prod.splits sum.splits)

lemma seqS_assoc [bind_simps]: "seqS (seqS m n) k = seqS m (seqS n k)"
  by (simp add: seqS_def bindS_assoc)

lemma bindS_eq_Inr [bind_simps]:
  "bindS m f s = (Inr b, u) \<longleftrightarrow> (\<exists>a t. m s = (Inr a, t) \<and> f a t = (Inr b, u))"
  by (auto simp: bindS_def split: prod.splits sum.splits)

lemma forS_append [bind_simps]: "forS f (xs @ ys) = seqS (forS f xs) (forS f ys)"
  by (induction xs) (simp_all add: seqS_assoc)

text \<open>\<open>keepsS P m\<close>: whatever the outcome of \<open>m\<close>, the state property \<open>P\<close> survives it;
  \<open>avoidsS e m P\<close>: from states with \<open>P\<close> the operation never ends in \<open>e\<close>.\<close>

definition keepsS :: "('s \<Rightarrow> bool) \<Rightarrow> ('s, 'e, 'a) io \<Rightarrow> bool" where
  "keepsS P m \<longleftrightarrow> (\<forall>s. P s \<longrightarrow> P (snd (m s)))"

definition avoidsS :: "('s \<Rightarrow> bool) \<Rightarrow> 'e \<Rightarrow> ('s, 'e, 'a) io \<Rightarrow> bool" where
  "avoidsS P e m \<longleftrightarrow> (\<forall>s. P s \<longrightarrow> fst (m s) \<noteq> Inl e)"

named_theorems keeps_intros \<open>state properties through the sequencing operations\<close>

lemma keepsS_retS [keeps_intros]: "keepsS P (retS a)"
  by (simp add: keepsS_def)

lemma keepsS_bindS [keeps_intros]:
  "keepsS P m \<Longrightarrow> (\<And>a. keepsS P (f a)) \<Longrightarrow> keepsS P (bindS m f)"
  unfolding keepsS_def bindS_def by (auto split: prod.splits sum.splits)

lemma keepsS_seqS [keeps_intros]: "keepsS P m \<Longrightarrow> keepsS P n \<Longrightarrow> keepsS P (seqS m n)"
  by (simp add: seqS_def keeps_intros)

lemma keepsS_forS [keeps_intros]: "(\<And>x. keepsS P (f x)) \<Longrightarrow> keepsS P (forS f xs)"
  by (induction xs) (simp_all add: keeps_intros)

lemma keepsS_foldS [keeps_intros]: "(\<And>x a. keepsS P (f x a)) \<Longrightarrow> keepsS P (foldS f xs acc)"
  by (induction xs arbitrary: acc) (simp_all add: keeps_intros)

lemma keepsS_repeatS [keeps_intros]: "keepsS P m \<Longrightarrow> keepsS P (repeatS n m)"
  by (induction n) (simp_all add: keeps_intros)

lemma avoidsS_retS [keeps_intros]: "avoidsS P e (retS a)"
  by (simp add: avoidsS_def)

lemma avoidsS_bindS [keeps_intros]:
  "keepsS P m \<Longrightarrow> avoidsS P e m \<Longrightarrow> (\<And>a. avoidsS P e (f a)) \<Longrightarrow> avoidsS P e (bindS m f)"
  unfolding keepsS_def avoidsS_def bindS_def
  by (auto split: prod.splits sum.splits)

lemma avoidsS_seqS [keeps_intros]:
  "keepsS P m \<Longrightarrow> avoidsS P e m \<Longrightarrow> avoidsS P e n \<Longrightarrow> avoidsS P e (seqS m n)"
  by (simp add: seqS_def keeps_intros)

lemma avoidsS_forS [keeps_intros]:
  "(\<And>x. keepsS P (f x)) \<Longrightarrow> (\<And>x. avoidsS P e (f x)) \<Longrightarrow> avoidsS P e (forS f xs)"
  by (induction xs) (simp_all add: keeps_intros)

lemma avoidsS_foldS [keeps_intros]:
  "(\<And>x a. keepsS P (f x a)) \<Longrightarrow> (\<And>x a. avoidsS P e (f x a)) \<Longrightarrow> avoidsS P e (foldS f xs acc)"
  by (induction xs arbitrary: acc) (simp_all add: keeps_intros)

lemma avoidsS_repeatS [keeps_intros]:
  "keepsS P m \<Longrightarrow> avoidsS P e m \<Longrightarrow> avoidsS P e (repeatS n m)"
  by (induction n) (simp_all add: keeps_intros)

subsection \<open>Lists\<close>

text \<open>
  \<open>splice_at i src dst\<close> is \<open>memcpy\<close> of \<open>src\<close> onto \<open>dst\<close> from index \<open>i\<close> on, where
  the caller has made sure that it fits.
\<close>

definition splice_at :: "nat \<Rightarrow> 'a list \<Rightarrow> 'a list \<Rightarrow> 'a list" where
  "splice_at i src dst = take i dst @ src @ drop (i + length src) dst"

lemma length_splice_at [simp]:
  "i + length src \<le> length dst \<Longrightarrow> length (splice_at i src dst) = length dst"
  by (simp add: splice_at_def)

lemma nth_splice_at:
  assumes "i + length src \<le> length dst" and "k < length dst"
  shows "splice_at i src dst ! k = (if i \<le> k \<and> k < i + length src then src ! (k - i) else dst ! k)"
  using assms by (auto simp: splice_at_def nth_append min_def)

lemma splice_at_end [simp]: "splice_at (length dst) src dst = dst @ src"
  by (simp add: splice_at_def)

lemma take_drop_splice_at:
  assumes "i + length src \<le> length dst"
  shows "take (length src) (drop i (splice_at i src dst)) = src"
  using assms by (simp add: splice_at_def)

text \<open>\<open>resize_to n xs\<close> is \<open>vector::resize\<close>: cut, or extend with zeros.\<close>

definition resize_to :: "nat \<Rightarrow> 'a::zero list \<Rightarrow> 'a list" where
  "resize_to n xs = take n xs @ replicate (n - length xs) 0"

lemma length_resize_to [simp]: "length (resize_to n xs) = n"
  by (simp add: resize_to_def)

lemma resize_to_same [simp]: "n = length xs \<Longrightarrow> resize_to n xs = xs"
  by (simp add: resize_to_def)

lemma splice_at_resize_end [simp]:
  "splice_at (length xs) src (resize_to (length xs + length src) xs) = xs @ src"
  by (simp add: splice_at_def resize_to_def)

lemma take_drop_append_mid:
  "take (length ys) (drop (length xs) (xs @ ys @ zs)) = ys"
  by simp

lemma nth_append_mid: "(xs @ y # ys) ! length xs = y"
  by simp

subsection \<open>Words\<close>

lemma and_mask_numerals:
  "(x::u64) AND 0xFFFFFFFF = take_bit 32 x"
  "(x::u64) AND 0xFFFFF = take_bit 20 x"
  "(x::u64) AND 0xFFFF = take_bit 16 x"
  "(x::u64) AND 0x7FFFFF = take_bit 23 x"
  "(x::u64) AND 0x3F = take_bit 6 x"
  "(x::u64) AND 0xFF = take_bit 8 x"
  "(w::u32) AND 0xFFF = take_bit 12 w"
  "(w::u32) AND 0xFFFF = take_bit 16 w"
  "(w::u32) AND 0x7FFFFF = take_bit 23 w"
  by (simp_all add: take_bit_eq_mask mask_eq_exp_minus_1)

lemma bit_lt_exp: 
  fixes x :: "'a::len word"
  assumes "x < 2 ^ n" "bit x i" shows "i < n"
proof -
  have "take_bit n x = x" using less_mask_eq[OF assms(1)] by (simp add: take_bit_eq_mask)
  then show ?thesis using assms(2) by (metis bit_take_bit_iff)
qed

lemma take_bit_of_lt:
  fixes x :: "'a::len word"
  assumes "x < 2 ^ n" "n \<le> m"
  shows "take_bit m x = x"
proof (rule bit_word_eqI)
  fix i
  show "bit (take_bit m x) i = bit x i"
    using bit_lt_exp[OF assms(1), of i] assms(2) by (auto simp: bit_take_bit_iff)
qed

lemma bit_ge_length: "LENGTH('a) \<le> n \<Longrightarrow> \<not> bit (x::'a::len word) n"
  using bit_imp_le_length by (metis leD)

lemma ucast_u32_eq_0: "ucast (l::u32) = (0::u64) \<longleftrightarrow> l = 0"
  using bit_ge_length[where x = l] by (auto simp: bit_eq_iff bit_simps) (meson not_le)

lemma ucast_u32_u64_u32 [simp]: "ucast (ucast (w :: u32) :: u64) = w"
  by (rule bit_word_eqI) (auto simp: bit_simps)

end
