(* ===== verification/Guid.thy ===== *)
theory Guid
  imports Prelude
begin

text \<open>
  Object identifiers: \<open>src/server/shared/Guid.h\<close> and \<open>Guid.cpp\<close>. A 64-bit guid packs
  a high part (the kind of object), an entry and a counter; the 6.x client speaks 128-bit
  guids, and \<open>Guid64To128\<close> / \<open>Guid128To64\<close> convert. The enums are datatypes with the
  numeric values of the source, the switches are association lists in the source's order.
\<close>

subsection \<open>High parts of 64-bit guids\<close>

datatype HighGuid =
    HIGHGUID_ITEM | HIGHGUID_CONTAINER | HIGHGUID_PLAYER | HIGHGUID_GAMEOBJECT
  | HIGHGUID_TRANSPORT | HIGHGUID_UNIT | HIGHGUID_PET | HIGHGUID_VEHICLE
  | HIGHGUID_DYNAMICOBJECT | HIGHGUID_CORPSE | HIGHGUID_AREATRIGGER
  | HIGHGUID_TYPE_BATTLEGROUND | HIGHGUID_MO_TRANSPORT | HIGHGUID_GROUP | HIGHGUID_GUILD
  | HIGHGUID_INSTANCE_SAVE | HIGHGUID_LOOT | HIGHGUID_SCENEOBJECT | HIGHGUID_BNET_ACCOUNT
  | HIGHGUID_WOW_ACCOUNT | HIGHGUID_VIGNETTE | HIGHGUID_BATTLE_PET | HIGHGUID_CONVERSATION
  | HIGHGUID_MAIL | HIGHGUID_PET_NUMBER | HIGHGUID_EQUIPMENT_SET

fun highguid_val :: "HighGuid \<Rightarrow> 'a::len word" where
  "highguid_val HIGHGUID_ITEM = 0x400"
| "highguid_val HIGHGUID_CONTAINER = 0x400"
| "highguid_val HIGHGUID_PLAYER = 0x018"
| "highguid_val HIGHGUID_GAMEOBJECT = 0xF11"
| "highguid_val HIGHGUID_TRANSPORT = 0xF12"
| "highguid_val HIGHGUID_UNIT = 0xF13"
| "highguid_val HIGHGUID_PET = 0xF14"
| "highguid_val HIGHGUID_VEHICLE = 0xF15"
| "highguid_val HIGHGUID_DYNAMICOBJECT = 0xF10"
| "highguid_val HIGHGUID_CORPSE = 0xF101"
| "highguid_val HIGHGUID_AREATRIGGER = 0xF1B"
| "highguid_val HIGHGUID_TYPE_BATTLEGROUND = 0x1F1"
| "highguid_val HIGHGUID_MO_TRANSPORT = 0x1FC"
| "highguid_val HIGHGUID_GROUP = 0x1F5"
| "highguid_val HIGHGUID_GUILD = 0x1FF"
| "highguid_val HIGHGUID_INSTANCE_SAVE = 0x104"
| "highguid_val HIGHGUID_LOOT = 0xF19"
| "highguid_val HIGHGUID_SCENEOBJECT = 0x18F"
| "highguid_val HIGHGUID_BNET_ACCOUNT = 0xE4E"
| "highguid_val HIGHGUID_WOW_ACCOUNT = 0xD4E"
| "highguid_val HIGHGUID_VIGNETTE = 0x200"
| "highguid_val HIGHGUID_BATTLE_PET = 0x201"
| "highguid_val HIGHGUID_CONVERSATION = 0x202"
| "highguid_val HIGHGUID_MAIL = 0x800"
| "highguid_val HIGHGUID_PET_NUMBER = 0x900"
| "highguid_val HIGHGUID_EQUIPMENT_SET = 0x700"

text \<open>The shift of the high part: corpses and area triggers carry a 16-bit one.\<close>

definition MAKE_NEW_GUID :: "u64 \<Rightarrow> u64 \<Rightarrow> u64 \<Rightarrow> u64" where
  "MAKE_NEW_GUID l e h =
     (if l = 0 then 0
      else l OR push_bit 32 e OR
        push_bit (if h = highguid_val HIGHGUID_CORPSE \<or> h = highguid_val HIGHGUID_AREATRIGGER
                  then 48 else 52) h)"

definition GUID_HIPART :: "u64 \<Rightarrow> u32" where
  "GUID_HIPART guid =
     (let t = ucast (drop_bit 48 guid AND 0x0000FFFF) :: u32
      in if t = highguid_val HIGHGUID_CORPSE \<or> t = highguid_val HIGHGUID_AREATRIGGER
         then t else drop_bit 4 t AND 0x00000FFF)"

definition GUID_ENPART_2 :: "u64 \<Rightarrow> u32" where
  "GUID_ENPART_2 x = 0"

definition GUID_ENPART_3 :: "u64 \<Rightarrow> u32" where
  "GUID_ENPART_3 x = ucast (drop_bit 32 x AND 0x00000000000FFFFF)"

definition GUID_LOPART_2 :: "u64 \<Rightarrow> u32" where
  "GUID_LOPART_2 x = ucast (x AND 0x00000000FFFFFFFF)"

definition GUID_LOPART_3 :: "u64 \<Rightarrow> u32" where
  "GUID_LOPART_3 x = ucast (x AND 0x00000000FFFFFFFF)"

definition IsGuidHaveEnPart :: "u64 \<Rightarrow> bool" where
  "IsGuidHaveEnPart guid \<longleftrightarrow>
     GUID_HIPART guid \<notin> {highguid_val HIGHGUID_ITEM, highguid_val HIGHGUID_PLAYER,
       highguid_val HIGHGUID_DYNAMICOBJECT, highguid_val HIGHGUID_CORPSE,
       highguid_val HIGHGUID_GROUP, highguid_val HIGHGUID_GUILD,
       highguid_val HIGHGUID_CONVERSATION}"

definition GUID_ENPART :: "u64 \<Rightarrow> u32" where
  "GUID_ENPART x = (if IsGuidHaveEnPart x then GUID_ENPART_3 x else GUID_ENPART_2 x)"

definition GUID_LOPART :: "u64 \<Rightarrow> u32" where
  "GUID_LOPART x = (if IsGuidHaveEnPart x then GUID_LOPART_3 x else GUID_LOPART_2 x)"

text \<open>The classification macros.\<close>

definition IS_EMPTY_GUID :: "u64 \<Rightarrow> bool" where
  "IS_EMPTY_GUID g \<longleftrightarrow> g = 0"

definition IS_CREATURE_GUID :: "u64 \<Rightarrow> bool" where
  "IS_CREATURE_GUID g \<longleftrightarrow> GUID_HIPART g = highguid_val HIGHGUID_UNIT"

definition IS_PET_GUID :: "u64 \<Rightarrow> bool" where
  "IS_PET_GUID g \<longleftrightarrow> GUID_HIPART g = highguid_val HIGHGUID_PET"

definition IS_VEHICLE_GUID :: "u64 \<Rightarrow> bool" where
  "IS_VEHICLE_GUID g \<longleftrightarrow> GUID_HIPART g = highguid_val HIGHGUID_VEHICLE"

definition IS_CRE_OR_VEH_GUID :: "u64 \<Rightarrow> bool" where
  "IS_CRE_OR_VEH_GUID g \<longleftrightarrow> IS_CREATURE_GUID g \<or> IS_VEHICLE_GUID g"

definition IS_CRE_OR_VEH_OR_PET_GUID :: "u64 \<Rightarrow> bool" where
  "IS_CRE_OR_VEH_OR_PET_GUID g \<longleftrightarrow> IS_CRE_OR_VEH_GUID g \<or> IS_PET_GUID g"

definition IS_PLAYER_GUID :: "u64 \<Rightarrow> bool" where
  "IS_PLAYER_GUID g \<longleftrightarrow> GUID_HIPART g = highguid_val HIGHGUID_PLAYER \<and> g \<noteq> 0"

definition IS_GUILD_GUID :: "u64 \<Rightarrow> bool" where
  "IS_GUILD_GUID g \<longleftrightarrow> GUID_HIPART g = highguid_val HIGHGUID_GUILD \<and> g \<noteq> 0"

definition IS_UNIT_GUID :: "u64 \<Rightarrow> bool" where
  "IS_UNIT_GUID g \<longleftrightarrow> IS_CRE_OR_VEH_OR_PET_GUID g \<or> IS_PLAYER_GUID g"

definition GetLogNameForGuid :: "u64 \<Rightarrow> string" where
  "GetLogNameForGuid guid =
     (let h = GUID_HIPART guid in
      if h = highguid_val HIGHGUID_ITEM then ''item''
      else if h = highguid_val HIGHGUID_PLAYER then (if guid \<noteq> 0 then ''player'' else ''none'')
      else if h = highguid_val HIGHGUID_GAMEOBJECT then ''gameobject''
      else if h = highguid_val HIGHGUID_TRANSPORT then ''transport''
      else if h = highguid_val HIGHGUID_UNIT then ''creature''
      else if h = highguid_val HIGHGUID_PET then ''pet''
      else if h = highguid_val HIGHGUID_VEHICLE then ''vehicle''
      else if h = highguid_val HIGHGUID_DYNAMICOBJECT then ''dynobject''
      else if h = highguid_val HIGHGUID_CORPSE then ''corpse''
      else if h = highguid_val HIGHGUID_MO_TRANSPORT then ''mo_transport''
      else if h = highguid_val HIGHGUID_GROUP then ''group''
      else if h = highguid_val HIGHGUID_GUILD then ''guild''
      else if h = highguid_val HIGHGUID_AREATRIGGER then ''areatrigger''
      else if h = highguid_val HIGHGUID_VIGNETTE then ''vignette''
      else if h = highguid_val HIGHGUID_CONVERSATION then ''conversation''
      else ''<unknown>'')"

subsection \<open>128-bit guids\<close>

datatype Guid128Type =
    GUID_TYPE_NONE | GUID_TYPE_PLAYER | GUID_TYPE_ITEM | GUID_TYPE_CONTAINER
  | GUID_TYPE_STATIC_DOOR | GUID_TYPE_MO_TRANSPORT | GUID_TYPE_CONVERSATION | GUID_TYPE_UNIT
  | GUID_TYPE_VEHICLE | GUID_TYPE_PET | GUID_TYPE_GAMEOBJECT | GUID_TYPE_DYNAMIC_OBJECT
  | GUID_TYPE_AREATRIGGER | GUID_TYPE_CORPSE | GUID_TYPE_LOOT | GUID_TYPE_SCENE_OBJECT
  | GUID_TYPE_SCENARIO | GUID_TYPE_AI_GROUP | GUID_TYPE_DYNAMIC_DOOR | GUID_TYPE_CLIENT_ACTOR
  | GUID_TYPE_VIGNETTE | GUID_TYPE_CALL_FOR_HELP | GUID_TYPE_AI_RESOURCE | GUID_TYPE_AI_LOCK
  | GUID_TYPE_AI_LOCK_TICKET | GUID_TYPE_CHAT_CHANNEL | GUID_TYPE_GROUP | GUID_TYPE_GUILD
  | GUID_TYPE_WOW_ACC | GUID_TYPE_BNET_ACC | GUID_TYPE_GM_TASK | GUID_TYPE_MOBILE_SESSION
  | GUID_TYPE_RAID_GROUP | GUID_TYPE_SPELL | GUID_TYPE_MAIL | GUID_TYPE_WEB_OBJ
  | GUID_TYPE_LFG_OBJECT | GUID_TYPE_LFG_LIST | GUID_TYPE_USER_ROUTER
  | GUID_TYPE_PVP_QUEUE_GROUP | GUID_TYPE_USER_CLIENT | GUID_TYPE_PET_BATTLE
  | GUID_TYPE_UNIQUE_USER_CLIENT | GUID_TYPE_BATTLE_PET | GUID_TYPE_TRANSPORT
  | GUID_TYPE_BATTLEGROUND | GUID_TYPE_INSTANCE_SAVE

fun guidtype_val :: "Guid128Type \<Rightarrow> 'a::len word" where
  "guidtype_val GUID_TYPE_NONE = 0x00"
| "guidtype_val GUID_TYPE_PLAYER = 0x02"
| "guidtype_val GUID_TYPE_ITEM = 0x03"
| "guidtype_val GUID_TYPE_CONTAINER = 0x03"
| "guidtype_val GUID_TYPE_STATIC_DOOR = 0x04"
| "guidtype_val GUID_TYPE_MO_TRANSPORT = 0x05"
| "guidtype_val GUID_TYPE_CONVERSATION = 0x06"
| "guidtype_val GUID_TYPE_UNIT = 0x07"
| "guidtype_val GUID_TYPE_VEHICLE = 0x08"
| "guidtype_val GUID_TYPE_PET = 0x09"
| "guidtype_val GUID_TYPE_GAMEOBJECT = 0x0A"
| "guidtype_val GUID_TYPE_DYNAMIC_OBJECT = 0x0B"
| "guidtype_val GUID_TYPE_AREATRIGGER = 0x0C"
| "guidtype_val GUID_TYPE_CORPSE = 0x0D"
| "guidtype_val GUID_TYPE_LOOT = 0x0E"
| "guidtype_val GUID_TYPE_SCENE_OBJECT = 0x0F"
| "guidtype_val GUID_TYPE_SCENARIO = 0x10"
| "guidtype_val GUID_TYPE_AI_GROUP = 0x11"
| "guidtype_val GUID_TYPE_DYNAMIC_DOOR = 0x12"
| "guidtype_val GUID_TYPE_CLIENT_ACTOR = 0x13"
| "guidtype_val GUID_TYPE_VIGNETTE = 0x14"
| "guidtype_val GUID_TYPE_CALL_FOR_HELP = 0x15"
| "guidtype_val GUID_TYPE_AI_RESOURCE = 0x16"
| "guidtype_val GUID_TYPE_AI_LOCK = 0x17"
| "guidtype_val GUID_TYPE_AI_LOCK_TICKET = 0x18"
| "guidtype_val GUID_TYPE_CHAT_CHANNEL = 0x19"
| "guidtype_val GUID_TYPE_GROUP = 0x1A"
| "guidtype_val GUID_TYPE_GUILD = 0x1B"
| "guidtype_val GUID_TYPE_WOW_ACC = 0x1C"
| "guidtype_val GUID_TYPE_BNET_ACC = 0x1D"
| "guidtype_val GUID_TYPE_GM_TASK = 0x1E"
| "guidtype_val GUID_TYPE_MOBILE_SESSION = 0x1F"
| "guidtype_val GUID_TYPE_RAID_GROUP = 0x20"
| "guidtype_val GUID_TYPE_SPELL = 0x21"
| "guidtype_val GUID_TYPE_MAIL = 0x22"
| "guidtype_val GUID_TYPE_WEB_OBJ = 0x23"
| "guidtype_val GUID_TYPE_LFG_OBJECT = 0x24"
| "guidtype_val GUID_TYPE_LFG_LIST = 0x25"
| "guidtype_val GUID_TYPE_USER_ROUTER = 0x26"
| "guidtype_val GUID_TYPE_PVP_QUEUE_GROUP = 0x27"
| "guidtype_val GUID_TYPE_USER_CLIENT = 0x28"
| "guidtype_val GUID_TYPE_PET_BATTLE = 0x29"
| "guidtype_val GUID_TYPE_UNIQUE_USER_CLIENT = 0x2A"
| "guidtype_val GUID_TYPE_BATTLE_PET = 0x2B"
| "guidtype_val GUID_TYPE_TRANSPORT = 0x2C"
| "guidtype_val GUID_TYPE_BATTLEGROUND = 0x2D"
| "guidtype_val GUID_TYPE_INSTANCE_SAVE = 0x2E"

text \<open>\<open>m_Data[0]\<close> is the low half, \<open>m_Data[1]\<close> the high half.\<close>

record Guid128 =
  g128_low :: u64
  g128_hi :: u64

definition GetType :: "Guid128 \<Rightarrow> u8" where
  "GetType g = ucast (drop_bit 58 (g128_hi g) AND 0x3F)"

definition GetMid :: "Guid128 \<Rightarrow> u32" where
  "GetMid g = ucast (drop_bit 6 (g128_hi g) AND 0x7FFFFF)"

definition Make :: "Guid128Type \<Rightarrow> u32 \<Rightarrow> u32 \<Rightarrow> u64 \<Rightarrow> Guid128" where
  "Make ty realm entry ident =
     \<lparr>g128_low = ident,
      g128_hi = push_bit 58 (guidtype_val ty) OR push_bit 42 (ucast (realm AND 0xFFFF))
                OR push_bit 6 (ucast (entry AND 0x7FFFFF))\<rparr>"

definition IsValid :: "Guid128 \<Rightarrow> bool" where
  "IsValid g \<longleftrightarrow> GetType g \<noteq> 0"

definition IsNull :: "Guid128 \<Rightarrow> bool" where
  "IsNull g \<longleftrightarrow> (g128_low g = 0 \<and> g128_hi g = 0) \<or> (IsValid g \<and> g128_low g = 0)"

definition IsType :: "Guid128 \<Rightarrow> Guid128Type \<Rightarrow> bool" where
  "IsType g ty \<longleftrightarrow> GetType g = guidtype_val ty"

definition Guid128_eq :: "Guid128 \<Rightarrow> Guid128 \<Rightarrow> bool" where
  "Guid128_eq a b \<longleftrightarrow> g128_low a = g128_low b \<and> g128_hi a = g128_hi b"

definition Guid128_gt :: "Guid128 \<Rightarrow> Guid128 \<Rightarrow> bool" where
  "Guid128_gt a b \<longleftrightarrow>
     (if g128_hi a = g128_hi b then g128_low a > g128_low b else g128_hi a > g128_hi b)"

definition Guid128_lt :: "Guid128 \<Rightarrow> Guid128 \<Rightarrow> bool" where
  "Guid128_lt a b \<longleftrightarrow> \<not> Guid128_gt a b"

subsection \<open>Conversions\<close>

text \<open>The two switches of \<open>Guid.cpp\<close>, case by case.\<close>

definition hi_to_type :: "(u32 \<times> Guid128Type) list" where
  "hi_to_type =
    [(highguid_val HIGHGUID_ITEM, GUID_TYPE_ITEM),
     (highguid_val HIGHGUID_PLAYER, GUID_TYPE_PLAYER),
     (highguid_val HIGHGUID_GAMEOBJECT, GUID_TYPE_GAMEOBJECT),
     (highguid_val HIGHGUID_TRANSPORT, GUID_TYPE_TRANSPORT),
     (highguid_val HIGHGUID_UNIT, GUID_TYPE_UNIT),
     (highguid_val HIGHGUID_PET, GUID_TYPE_PET),
     (highguid_val HIGHGUID_VEHICLE, GUID_TYPE_VEHICLE),
     (highguid_val HIGHGUID_DYNAMICOBJECT, GUID_TYPE_DYNAMIC_OBJECT),
     (highguid_val HIGHGUID_CORPSE, GUID_TYPE_CORPSE),
     (highguid_val HIGHGUID_AREATRIGGER, GUID_TYPE_AREATRIGGER),
     (highguid_val HIGHGUID_TYPE_BATTLEGROUND, GUID_TYPE_BATTLEGROUND),
     (highguid_val HIGHGUID_MO_TRANSPORT, GUID_TYPE_MO_TRANSPORT),
     (highguid_val HIGHGUID_GROUP, GUID_TYPE_GROUP),
     (highguid_val HIGHGUID_GUILD, GUID_TYPE_GUILD),
     (highguid_val HIGHGUID_INSTANCE_SAVE, GUID_TYPE_INSTANCE_SAVE),
     (highguid_val HIGHGUID_LOOT, GUID_TYPE_LOOT),
     (highguid_val HIGHGUID_SCENEOBJECT, GUID_TYPE_SCENE_OBJECT),
     (highguid_val HIGHGUID_BNET_ACCOUNT, GUID_TYPE_BNET_ACC),
     (highguid_val HIGHGUID_WOW_ACCOUNT, GUID_TYPE_WOW_ACC),
     (highguid_val HIGHGUID_VIGNETTE, GUID_TYPE_VIGNETTE),
     (highguid_val HIGHGUID_BATTLE_PET, GUID_TYPE_BATTLE_PET),
     (highguid_val HIGHGUID_CONVERSATION, GUID_TYPE_CONVERSATION)]"

definition type_to_hi :: "(u8 \<times> u32) list" where
  "type_to_hi =
    [(guidtype_val GUID_TYPE_ITEM, highguid_val HIGHGUID_ITEM),
     (guidtype_val GUID_TYPE_PLAYER, highguid_val HIGHGUID_PLAYER),
     (guidtype_val GUID_TYPE_GAMEOBJECT, highguid_val HIGHGUID_GAMEOBJECT),
     (guidtype_val GUID_TYPE_TRANSPORT, highguid_val HIGHGUID_TRANSPORT),
     (guidtype_val GUID_TYPE_UNIT, highguid_val HIGHGUID_UNIT),
     (guidtype_val GUID_TYPE_PET, highguid_val HIGHGUID_PET),
     (guidtype_val GUID_TYPE_VEHICLE, highguid_val HIGHGUID_VEHICLE),
     (guidtype_val GUID_TYPE_DYNAMIC_OBJECT, highguid_val HIGHGUID_DYNAMICOBJECT),
     (guidtype_val GUID_TYPE_CORPSE, highguid_val HIGHGUID_CORPSE),
     (guidtype_val GUID_TYPE_AREATRIGGER, highguid_val HIGHGUID_AREATRIGGER),
     (guidtype_val GUID_TYPE_BATTLEGROUND, highguid_val HIGHGUID_TYPE_BATTLEGROUND),
     (guidtype_val GUID_TYPE_MO_TRANSPORT, highguid_val HIGHGUID_MO_TRANSPORT),
     (guidtype_val GUID_TYPE_GROUP, highguid_val HIGHGUID_GROUP),
     (guidtype_val GUID_TYPE_GUILD, highguid_val HIGHGUID_GUILD),
     (guidtype_val GUID_TYPE_INSTANCE_SAVE, highguid_val HIGHGUID_INSTANCE_SAVE),
     (guidtype_val GUID_TYPE_LOOT, highguid_val HIGHGUID_LOOT),
     (guidtype_val GUID_TYPE_SCENE_OBJECT, highguid_val HIGHGUID_SCENEOBJECT),
     (guidtype_val GUID_TYPE_BNET_ACC, highguid_val HIGHGUID_BNET_ACCOUNT),
     (guidtype_val GUID_TYPE_WOW_ACC, highguid_val HIGHGUID_WOW_ACCOUNT),
     (guidtype_val GUID_TYPE_VIGNETTE, highguid_val HIGHGUID_VIGNETTE),
     (guidtype_val GUID_TYPE_BATTLE_PET, highguid_val HIGHGUID_BATTLE_PET),
     (guidtype_val GUID_TYPE_CONVERSATION, highguid_val HIGHGUID_CONVERSATION)]"

definition Guid64To128 :: "u64 \<Rightarrow> Guid128" where
  "Guid64To128 g =
     (if g = 0 then \<lparr>g128_low = 0, g128_hi = 0\<rparr>
      else
        let low = ucast (GUID_LOPART g);
            mid = GUID_ENPART g;
            ty = (case map_of hi_to_type (GUID_HIPART g) of Some t \<Rightarrow> t | None \<Rightarrow> GUID_TYPE_NONE);
            realm = (if ty = GUID_TYPE_BNET_ACC \<or> ty = GUID_TYPE_WOW_ACC then 0 else 1)
        in Make ty realm mid low)"

definition Guid128To64 :: "Guid128 \<Rightarrow> u64" where
  "Guid128To64 g =
     (let low = ucast (g128_low g) :: u32;
          mid = GetMid g;
          ty = (case map_of type_to_hi (GetType g) of Some h \<Rightarrow> h | None \<Rightarrow> 0)
      in MAKE_NEW_GUID (ucast low) (ucast mid) (ucast ty))"

subsection \<open>The parts of a packed guid\<close>

lemma highguid_val_small:
  "h \<noteq> HIGHGUID_CORPSE \<Longrightarrow> (highguid_val h :: u64) < 2 ^ 12"
  by (cases h) simp_all

lemma ucast_highguid_val: "ucast (highguid_val h :: u64) = (highguid_val h :: u32)"
  "ucast (highguid_val h :: u32) = (highguid_val h :: u64)"
  by (cases h; simp)+

lemma ucast_guidtype_val: "ucast (guidtype_val t :: u64) = (guidtype_val t :: u8)"
  by (cases t; simp)

lemma guidtype_val_small: "(guidtype_val t :: u64) < 2 ^ 6"
  by (cases t) simp_all

text \<open>
  \<open>guid_at l e h\<close> is the guid \<open>Object::_Create\<close> gives an object: \<open>MAKE_NEW_GUID\<close> on two
  32-bit numbers and a high part. \<open>entry_ok h e\<close>: kinds without an entry part get entry
  0, area triggers an entry of at most 16 bits (their high part is 16 bits wide), the
  others one of at most 20 bits.
\<close>

definition guid_at :: "u32 \<Rightarrow> u32 \<Rightarrow> HighGuid \<Rightarrow> u64" where
  "guid_at l e h = MAKE_NEW_GUID (ucast l) (ucast e) (highguid_val h)"

definition entry_ok :: "HighGuid \<Rightarrow> u32 \<Rightarrow> bool" where
  "entry_ok h e \<longleftrightarrow>
     (if h \<in> {HIGHGUID_ITEM, HIGHGUID_CONTAINER, HIGHGUID_PLAYER, HIGHGUID_DYNAMICOBJECT,
              HIGHGUID_CORPSE, HIGHGUID_GROUP, HIGHGUID_GUILD, HIGHGUID_CONVERSATION}
      then e = 0
      else if h = HIGHGUID_AREATRIGGER then e < 2 ^ 16 else e < 2 ^ 20)"

definition hi_shift :: "HighGuid \<Rightarrow> nat" where
  "hi_shift h = (if h = HIGHGUID_CORPSE \<or> h = HIGHGUID_AREATRIGGER then 48 else 52)"

lemma highguid_wide: 
  "(highguid_val h :: u64) = highguid_val HIGHGUID_CORPSE \<or> (highguid_val h :: u64) = highguid_val HIGHGUID_AREATRIGGER
    \<longleftrightarrow> h = HIGHGUID_CORPSE \<or> h = HIGHGUID_AREATRIGGER"
  by (cases h) auto

lemma guid_at_eq:
  "l \<noteq> 0 \<Longrightarrow> guid_at l e h = ucast l OR push_bit 32 (ucast e) OR push_bit (hi_shift h) (highguid_val h)"
  using highguid_wide[of h]
  by (simp add: guid_at_def MAKE_NEW_GUID_def hi_shift_def ucast_u32_eq_0)

lemma highguid_narrow_hipart:
  assumes "h \<notin> {HIGHGUID_CORPSE, HIGHGUID_AREATRIGGER}" and "e < 2 ^ 20"
  shows "take_bit 12 (drop_bit 4 (ucast (take_bit 16 (drop_bit 48 (ucast (l::u32) OR push_bit 32 (ucast e) OR push_bit 52 (highguid_val h :: u64)))) :: u32))
     = highguid_val h"
proof (rule bit_word_eqI)
  fix n
  assume "n < LENGTH(32)"
  have h: "bit (highguid_val h :: u32) i = (bit (highguid_val h :: u64) i)" if "i < 32" for i
    using that by (simp add: bit_simps flip: ucast_highguid_val(1))
  have h12: "bit (highguid_val h :: u64) i \<Longrightarrow> i < 12" for i
    using assms(1) by (intro bit_lt_exp[OF highguid_val_small]) auto
  have e: "\<not> bit e (20 + i)" for i using bit_lt_exp[OF assms(2)] by (metis not_add_less1)
  show "bit (take_bit 12 (drop_bit 4 (ucast (take_bit 16 (drop_bit 48 (ucast l OR push_bit 32 (ucast e) OR push_bit 52 (highguid_val h :: u64)))) :: u32))) n =
        bit (highguid_val h :: u32) n"
    using h12[of n] e[of n] \<open>n < LENGTH(32)\<close>
    by (auto simp add: bit_simps h bit_ge_length)
qed

lemma GUID_HIPART_eq:
  assumes hi: "take_bit 12 (drop_bit 4 (ucast (take_bit 16 (drop_bit 48 g)) :: u32)) = (highguid_val h :: u32)"
    and h: "h \<notin> {HIGHGUID_CORPSE, HIGHGUID_AREATRIGGER, HIGHGUID_DYNAMICOBJECT}"
  shows "GUID_HIPART g = highguid_val h"
proof -
  let ?t = "ucast (take_bit 16 (drop_bit 48 g)) :: u32"
  have "?t \<noteq> 0xF101"
  proof
    assume "?t = 0xF101"
    with hi have "(highguid_val h :: u32) = take_bit 12 (drop_bit 4 0xF101)" by simp
    then show False using h by (cases h) simp_all
  qed
  moreover have "?t \<noteq> 0xF1B"
  proof
    assume "?t = 0xF1B"
    with hi have "(highguid_val h :: u32) = take_bit 12 (drop_bit 4 0xF1B)" by simp
    then show False using h by (cases h) simp_all
  qed
  ultimately show ?thesis using hi
    by (simp add: GUID_HIPART_def Let_def and_mask_numerals)
qed

lemma hipart_wide:
  assumes "e < 2 ^ 16" and "hv < 2 ^ 16"
  shows "take_bit 16 (drop_bit 48 (ucast (l::u32) OR push_bit 32 (ucast (e::u32)) OR push_bit 48 (hv :: u64))) = hv"
proof (rule bit_word_eqI)
  fix n
  assume "n < LENGTH(64)"
  have "bit hv i \<Longrightarrow> i < 16" for i using bit_lt_exp[OF assms(2)] .
  moreover have "\<not> bit e (16 + i)" for i using bit_lt_exp[OF assms(1)] by (metis not_add_less1)
  ultimately show "bit (take_bit 16 (drop_bit 48 (ucast l OR push_bit 32 (ucast e) OR push_bit 48 hv))) n = bit hv n"
    using \<open>n < LENGTH(64)\<close> by (auto simp add: bit_simps bit_ge_length)
qed

lemma GUID_HIPART_guid_at:
  assumes l: "l \<noteq> 0" and e: "entry_ok h e"
  shows "GUID_HIPART (guid_at l e h) = highguid_val h"
proof -
  consider (wide) "h = HIGHGUID_CORPSE \<or> h = HIGHGUID_AREATRIGGER" | (dyn) "h = HIGHGUID_DYNAMICOBJECT"
    | (narrow) "h \<notin> {HIGHGUID_CORPSE, HIGHGUID_AREATRIGGER, HIGHGUID_DYNAMICOBJECT}" by auto
  then show ?thesis
  proof cases
    case wide
    then have "e < 2 ^ 16" using e by (auto simp: entry_ok_def)
    moreover have "(highguid_val h :: u64) < 2 ^ 16" by (cases h) simp_all
    ultimately have "take_bit 16 (drop_bit 48 (guid_at l e h)) = highguid_val h"
      using hipart_wide[of e "highguid_val h" l] wide l by (simp add: guid_at_eq hi_shift_def)
    then show ?thesis using wide
      by (auto simp add: GUID_HIPART_def Let_def and_mask_numerals(1-6))
  next
    case dyn
    then have [simp]: "e = 0" using e by (simp add: entry_ok_def)
    have "take_bit 16 (drop_bit 48 (ucast l OR push_bit 52 0xF10 :: u64)) = (0xF100 :: u64)"
    proof -
      have "drop_bit 48 (ucast l OR push_bit 52 0xF10 :: u64) = push_bit 4 0xF10"
        using bit_lt_exp[of "0xF10 :: u64" 12]
        by (intro bit_word_eqI) (force simp add: bit_simps bit_ge_length simp del: push_bit_numeral)
      then show ?thesis by simp
    qed
    then show ?thesis using dyn l
      by (simp add: guid_at_eq hi_shift_def GUID_HIPART_def Let_def and_mask_numerals)
  next
    case narrow
    then have "e < 2 ^ 20"
      using e by (auto simp: entry_ok_def split: if_splits)
    then have "take_bit 12 (drop_bit 4 (ucast (take_bit 16 (drop_bit 48 (guid_at l e h))) :: u32))
        = highguid_val h"
      using highguid_narrow_hipart[of h e l] narrow l by (simp add: guid_at_eq hi_shift_def)
    then show ?thesis using narrow by (rule GUID_HIPART_eq)
  qed
qed

lemma GUID_LOPART_guid_at:
  assumes "l \<noteq> 0"
  shows "GUID_LOPART (guid_at l e h) = l"
proof -
  have "ucast (take_bit 32 (ucast l OR push_bit 32 (ucast e) OR push_bit (hi_shift h) (highguid_val h) :: u64)) = l"
    by (rule bit_word_eqI) (auto simp: bit_simps hi_shift_def)
  with assms show ?thesis
    by (simp add: GUID_LOPART_def GUID_LOPART_2_def GUID_LOPART_3_def and_mask_numerals guid_at_eq)
qed
lemma highguid_val_eq_iff:
  "(highguid_val h :: u32) = highguid_val k \<longleftrightarrow>
     h = k \<or> {h, k} = {HIGHGUID_ITEM, HIGHGUID_CONTAINER}"
  by (cases h; cases k; simp add: doubleton_eq_iff)

lemma enpart_narrow:
  assumes "e < 2 ^ 20"
  shows "ucast (take_bit 20 (drop_bit 32 (ucast (l::u32) OR push_bit 32 (ucast (e::u32)) OR push_bit 52 (hv :: u64)))) = e"
proof (rule bit_word_eqI)
  fix n
  assume "n < LENGTH(32)"
  have "bit e i \<Longrightarrow> i < 20" for i using bit_lt_exp[OF assms] .
  then show "bit (ucast (take_bit 20 (drop_bit 32 (ucast l OR push_bit 32 (ucast e) OR push_bit 52 hv))) :: u32) n = bit e n"
    using \<open>n < LENGTH(32)\<close> by (auto simp add: bit_simps bit_ge_length)
qed

lemma enpart_wide_bits:
  assumes "e < 2 ^ 16"
  shows "ucast (take_bit 20 (drop_bit 32 (ucast (l::u32) OR push_bit 32 (ucast (e::u32)) OR push_bit 48 (hv :: u64))))
       = e OR push_bit 16 (ucast (take_bit 4 hv))"
proof (rule bit_word_eqI)
  fix n
  assume "n < LENGTH(32)"
  have "bit e i \<Longrightarrow> i < 16" for i using bit_lt_exp[OF assms] .
  then show "bit (ucast (take_bit 20 (drop_bit 32 (ucast l OR push_bit 32 (ucast e) OR push_bit 48 hv))) :: u32) n
       = bit (e OR push_bit 16 (ucast (take_bit 4 hv))) n"
    using \<open>n < LENGTH(32)\<close>
    by (cases "n < 16") (auto simp add: bit_simps bit_ge_length)
qed

lemma enpart_wide:
  assumes "e < 2 ^ 16"
  shows "ucast (take_bit 20 (drop_bit 32 (ucast (l::u32) OR push_bit 32 (ucast (e::u32)) OR push_bit 48 (0xF1B :: u64)))) = e OR 0xB0000"
  unfolding enpart_wide_bits[OF assms] by simp

lemma IsGuidHaveEnPart_guid_at:
  assumes "l \<noteq> 0" and "entry_ok h e"
  shows "IsGuidHaveEnPart (guid_at l e h) \<longleftrightarrow>
    h \<notin> {HIGHGUID_ITEM, HIGHGUID_CONTAINER, HIGHGUID_PLAYER, HIGHGUID_DYNAMICOBJECT,
          HIGHGUID_CORPSE, HIGHGUID_GROUP, HIGHGUID_GUILD, HIGHGUID_CONVERSATION}"
  using GUID_HIPART_guid_at[OF assms]
  by (cases h) (simp_all add: IsGuidHaveEnPart_def)

lemma GUID_ENPART_guid_at:
  assumes l: "l \<noteq> 0" and e: "entry_ok h e"
  shows "GUID_ENPART (guid_at l e h) = (if h = HIGHGUID_AREATRIGGER then e OR 0xB0000 else e)"
proof (cases "IsGuidHaveEnPart (guid_at l e h)")
  case False
  then show ?thesis using e IsGuidHaveEnPart_guid_at[OF l e]
    by (auto simp: GUID_ENPART_def GUID_ENPART_2_def entry_ok_def)
next
  case True
  then have h: "h \<noteq> HIGHGUID_CORPSE" and eb: "if h = HIGHGUID_AREATRIGGER then e < 2 ^ 16 else e < 2 ^ 20"
    using e IsGuidHaveEnPart_guid_at[OF l e] by (auto simp: entry_ok_def split: if_splits)
  show ?thesis
  proof (cases "h = HIGHGUID_AREATRIGGER")
    case at: True
    then show ?thesis using True eb l enpart_wide[of e l]
      by (simp add: GUID_ENPART_def GUID_ENPART_3_def and_mask_numerals guid_at_eq hi_shift_def)
  next
    case False
    then show ?thesis using True eb l h enpart_narrow[of e l]
      by (simp add: GUID_ENPART_def GUID_ENPART_3_def and_mask_numerals guid_at_eq hi_shift_def)
  qed
qed

lemma GetType_Make: "GetType (Make ty realm entry i) = guidtype_val ty"
proof -
  let ?w = "push_bit 58 (guidtype_val ty) OR push_bit 42 (ucast (take_bit 16 realm))
     OR push_bit 6 (ucast (take_bit 23 entry)) :: u64"
  have "take_bit 6 (drop_bit 58 ?w) = guidtype_val ty"
    using bit_lt_exp[OF guidtype_val_small[of ty]]
    by (intro bit_word_eqI) (auto simp: bit_simps)
  then show ?thesis
    by (simp add: GetType_def Make_def and_mask_numerals ucast_guidtype_val)
qed

lemma GetMid_Make: "GetMid (Make ty realm entry i) = take_bit 23 entry"
proof -
  let ?w = "push_bit 58 (guidtype_val ty) OR push_bit 42 (ucast (take_bit 16 realm))
     OR push_bit 6 (ucast (take_bit 23 entry)) :: u64"
  have "ucast (take_bit 23 (drop_bit 6 ?w)) = take_bit 23 entry"
    by (intro bit_word_eqI) (auto simp: bit_simps)
  then show ?thesis
    by (simp add: GetMid_def Make_def and_mask_numerals)
qed

lemma low_Make [simp]: "g128_low (Make ty realm entry i) = i"
  by (simp add: Make_def)

lemma type_to_hi_of_hi_to_type:
  "map_of hi_to_type (highguid_val h) = Some ty \<Longrightarrow> map_of type_to_hi (guidtype_val ty) = Some (highguid_val h)"
  by (cases h) (auto simp: hi_to_type_def type_to_hi_def)

lemma guid_at_neq_0: "l \<noteq> 0 \<Longrightarrow> guid_at l e h \<noteq> 0"
  by (simp add: guid_at_eq ucast_u32_eq_0 or_eq_0_iff)

lemma areatrigger_or:
  assumes "e < 2 ^ 16"
  shows "ucast l OR push_bit 32 (ucast ((e::u32) OR 0xB0000)) OR push_bit 48 (0xF1B :: u64)
       = ucast (l::u32) OR push_bit 32 (ucast e) OR push_bit 48 0xF1B"
proof -
  have "push_bit 32 (ucast (e OR 0xB0000)) = (push_bit 32 (ucast e) OR push_bit 48 (0xB :: u64))"
  proof -
    have "ucast (e OR 0xB0000) = (ucast e OR 0xB0000 :: u64)" 
      by (simp add: unsigned_or_eq)
    then show ?thesis by (simp add: push_bit_or)
  qed
  moreover have "push_bit 48 (0xB :: u64) OR push_bit 48 0xF1B = push_bit 48 0xF1B" by simp
  ultimately show ?thesis by (simp add: or.assoc)
qed

subsection \<open>Properties\<close>

lemma Guid128To64_Guid64To128:
  assumes "l \<noteq> 0" and "entry_ok h e" and "map_of hi_to_type (highguid_val h) \<noteq> None"
  shows "Guid128To64 (Guid64To128 (guid_at l e h)) = guid_at l e h"
proof -
  let ?g = "guid_at l e h"
  obtain ty where ty: "map_of hi_to_type (highguid_val h) = Some ty" using assms(3) by auto
  let ?mid = "GUID_ENPART ?g"
  have "Guid128To64 (Guid64To128 ?g) = MAKE_NEW_GUID (ucast l) (ucast (take_bit 23 ?mid)) (highguid_val h)"
    using assms(1) ty type_to_hi_of_hi_to_type[OF ty]
    by (simp add: Guid64To128_def guid_at_neq_0 Let_def Guid128To64_def GetType_Make GetMid_Make
      GUID_HIPART_guid_at[OF assms(1,2)] GUID_LOPART_guid_at ucast_highguid_val)
  also have "\<dots> = guid_at l (take_bit 23 ?mid) h" by (simp add: guid_at_def)
  also have "\<dots> = guid_at l e h"
  proof (cases "h = HIGHGUID_AREATRIGGER")
    case True
    then have e: "e < 2 ^ 16" using assms(2) by (simp add: entry_ok_def)
    have "take_bit 23 (e OR 0xB0000) = e OR 0xB0000" 
      using take_bit_of_lt[OF e, of 23] by (simp add: take_bit_or)
    then have "take_bit 23 ?mid = e OR 0xB0000"
      unfolding GUID_ENPART_guid_at[OF assms(1,2)] using True by simp
    moreover have "guid_at l (e OR 0xB0000) h = guid_at l e h"
      unfolding guid_at_eq[OF assms(1)] hi_shift_def using areatrigger_or[OF e] True by simp
    ultimately show ?thesis by simp
  next
    case False
    then have "e < 2 ^ 20" using assms(2) by (auto simp: entry_ok_def split: if_splits)
    then have "take_bit 23 e = e"
      by (rule take_bit_of_lt) simp
    with False show ?thesis by (simp add: GUID_ENPART_guid_at[OF assms(1,2)])
  qed
  finally show ?thesis .
qed



text \<open>The accessors read back the three parts \<open>MAKE_NEW_GUID\<close> packed, for every kind of
  object but area triggers.\<close>

theorem guid_parts:
  assumes "l \<noteq> 0" and "entry_ok h e" and "h \<noteq> HIGHGUID_AREATRIGGER"
  shows "GUID_HIPART (guid_at l e h) = highguid_val h \<and> GUID_ENPART (guid_at l e h) = e
    \<and> GUID_LOPART (guid_at l e h) = l"
  using assms by (simp add: GUID_HIPART_guid_at GUID_ENPART_guid_at GUID_LOPART_guid_at)

theorem guid_parts_witness:
  "GUID_HIPART (guid_at 7 448 HIGHGUID_UNIT) = 0xF13 \<and> GUID_ENPART (guid_at 7 448 HIGHGUID_UNIT) = 448
    \<and> GUID_LOPART (guid_at 7 448 HIGHGUID_UNIT) = 7"
  using guid_parts[of 7 HIGHGUID_UNIT 448] by (simp add: entry_ok_def)

text \<open>For an area trigger the entry accessor does not read back the entry: the mask of
  \<open>GUID_ENPART\<close> takes 20 bits, of which the upper four belong to the 16-bit high part.\<close>

theorem areatrigger_entry_part:
  assumes "l \<noteq> 0" and "e < 2 ^ 16"
  shows "GUID_ENPART (guid_at l e HIGHGUID_AREATRIGGER) = e OR 0xB0000"
  using assms by (simp add: GUID_ENPART_guid_at entry_ok_def)

theorem areatrigger_entry_part_witness:
  "GUID_ENPART (guid_at 7 5 HIGHGUID_AREATRIGGER) = 0xB0005"
  using areatrigger_entry_part[of 7 5] by simp

lemma Guid128_lt_is_le:
  "Guid128_lt a b \<longleftrightarrow> g128_hi a < g128_hi b \<or> (g128_hi a = g128_hi b \<and> g128_low a \<le> g128_low b)"
  by (auto simp: Guid128_lt_def Guid128_gt_def not_less)

text \<open>\<open>Guid128::operator<\<close> is reflexive: it is the negation of \<open>operator>\<close>, so a total
  order of the lexicographic kind, and not the strict one its name promises.\<close>

theorem Guid128_lt_total:
  "Guid128_lt a a \<and> (Guid128_lt a b \<or> Guid128_lt b a) \<and>
   (Guid128_lt a b \<and> Guid128_lt b a) = Guid128_eq a b"
  by (auto simp: Guid128_lt_is_le Guid128_eq_def)

end
