(* ===== verification/Bits.thy ===== *)
theory Bits
  imports Prelude
begin

text \<open>
  Bytes and bits: integers as little-endian byte lists (\<open>memcpy\<close> of an integer on the
  server's platforms), bytes as bit lists, most significant bit first (the order in which
  the packet code fills a byte), and bit positions with their padding to the next byte.
\<close>

subsection \<open>Bytes of integers\<close>

definition le_bytes :: "'a::len word \<Rightarrow> u8 list" where
  "le_bytes v = map (\<lambda>i. ucast (drop_bit (8 * i) v)) [0..<LENGTH('a) div 8]"

fun of_le_bytes :: "u8 list \<Rightarrow> 'a::len word" where
  "of_le_bytes [] = 0"
| "of_le_bytes (b # bs) = ucast b OR push_bit 8 (of_le_bytes bs)"

lemma length_le_bytes [simp]: "length (le_bytes (v :: 'a::len word)) = LENGTH('a) div 8"
  by (simp add: le_bytes_def)

lemma bit_of_le_bytes:
  "bit (of_le_bytes bs :: 'a::len word) n \<longleftrightarrow>
     n < LENGTH('a) \<and> n div 8 < length bs \<and> bit (bs ! (n div 8)) (n mod 8)"
proof (induction bs arbitrary: n)
  case (Cons x bs)
  show ?case
  proof (cases "n < 8")
    case True
    then show ?thesis by (auto simp: bit_simps)
  next
    case False
    then have "n div 8 = Suc ((n - 8) div 8)" "n mod 8 = (n - 8) mod 8"
      by (simp_all add: le_div_geq le_mod_geq)
    with False show ?thesis
      by (auto simp: bit_simps Cons.IH bit_ge_length)
  qed
qed simp

lemma of_le_bytes_le_bytes [simp]:
  assumes "8 dvd LENGTH('a)"
  shows "of_le_bytes (le_bytes v) = (v :: 'a::len word)"
proof (rule bit_word_eqI)
  fix n assume n: "n < LENGTH('a)"
  obtain m where m: "LENGTH('a) = 8 * m" using assms by (rule dvdE)
  with n have "n div 8 < m" by (simp add: less_mult_imp_div_less mult.commute)
  with m n show "bit (of_le_bytes (le_bytes v) :: 'a word) n = bit v n"
    by (auto simp: bit_of_le_bytes le_bytes_def bit_simps)
qed

subsection \<open>Bits\<close>

definition val_bits :: "nat \<Rightarrow> 'a::len word \<Rightarrow> bool list" where
  "val_bits n v = map (bit v) (rev [0..<n])"

definition byte_bits :: "u8 \<Rightarrow> bool list" where
  "byte_bits x = map (\<lambda>i. bit x (7 - i)) [0..<8]"

definition bits_of :: "u8 list \<Rightarrow> bool list" where
  "bits_of bs = concat (map byte_bits bs)"

lemma length_val_bits [simp]: "length (val_bits n v) = n"
  by (simp add: val_bits_def)

lemma nth_val_bits: "i < n \<Longrightarrow> val_bits n v ! i = bit v (n - 1 - i)"
  by (simp add: val_bits_def rev_nth)

lemma length_byte_bits [simp]: "length (byte_bits x) = 8"
  by (simp add: byte_bits_def)

lemma nth_byte_bits: "i < 8 \<Longrightarrow> byte_bits x ! i = bit x (7 - i)"
  by (simp add: byte_bits_def)

lemma byte_bits_inj: "byte_bits x = byte_bits y \<longleftrightarrow> x = y"
proof
  assume *: "byte_bits x = byte_bits y"
  show "x = y"
  proof (rule bit_word_eqI)
    fix n assume "n < LENGTH(8)"
    then show "bit x n = bit y n"
      using arg_cong[OF *, of "\<lambda>l. l ! (7 - n)"] by (simp add: nth_byte_bits)
  qed
qed simp

lemma bits_of_simps [simp]:
  "bits_of [] = []" "bits_of (x # bs) = byte_bits x @ bits_of bs" "bits_of (as @ bs) = bits_of as @ bits_of bs"
  by (simp_all add: bits_of_def)

lemma length_bits_of [simp]: "length (bits_of bs) = 8 * length bs"
  by (induction bs) simp_all

lemma nth_bits_of:
  "k < 8 * length bs \<Longrightarrow> bits_of bs ! k = bit (bs ! (k div 8)) (7 - k mod 8)"
proof (induction bs arbitrary: k)
  case (Cons x bs)
  show ?case
  proof (cases "k < 8")
    case False
    then have "k div 8 = Suc ((k - 8) div 8)" "k mod 8 = (k - 8) mod 8"
      by (simp_all add: le_div_geq le_mod_geq)
    with False show ?thesis using Cons.prems by (simp add: nth_append Cons.IH)
  qed (simp add: nth_append nth_byte_bits)
qed simp

lemma bits_of_inj: "bits_of as = bits_of bs \<longleftrightarrow> as = bs"
proof
  show "bits_of as = bits_of bs \<Longrightarrow> as = bs"
  proof (induction as arbitrary: bs)
    case Nil
    then show ?case by (metis length_0_conv length_bits_of list.size(3) mult_eq_0_iff zero_neq_numeral)
  next
    case (Cons a as)
    then show ?case by (cases bs) (auto simp: byte_bits_inj dest: arg_cong[of _ _ length])
  qed
qed simp

lemma take_bits_of: "take (8 * n) (bits_of bs) = bits_of (take n bs)"
proof (induction bs arbitrary: n)
  case (Cons x bs)
  then show ?case by (cases n) (simp_all add: distrib_left)
qed simp

lemma drop_bits_of: "drop (8 * n) (bits_of bs) = bits_of (drop n bs)"
proof (induction bs arbitrary: n)
  case (Cons x bs)
  then show ?case by (cases n) (simp_all add: distrib_left)
qed simp

text \<open>The padding that takes a bit position to the next byte boundary.\<close>

definition pad :: "nat \<Rightarrow> bool list" where
  "pad k = replicate ((8 - k mod 8) mod 8) False"

lemma ceil_div_8: "(k + 7) div 8 = (if k mod 8 = 0 then k div 8 else Suc (k div 8))" for k :: nat
  by presburger

lemma ceil_pad: "k + length (pad k) = 8 * ((k + 7) div 8)"
proof (cases "k mod 8 = 0")
  case False
  then have "(8 - k mod 8) mod 8 = 8 - k mod 8" by simp
  moreover have "k + (8 - k mod 8) = 8 * Suc (k div 8)"
  proof -
    define q r where "q = k div 8" and "r = k mod 8"
    have "k = q * 8 + r" and "r < 8" by (simp_all add: q_def r_def)
    then show ?thesis by (simp flip: q_def r_def)
  qed
  ultimately show ?thesis using False by (simp add: pad_def ceil_div_8)
qed (simp add: pad_def ceil_div_8 mult_div_mod_eq minus_mod_eq_mult_div[symmetric])

lemma dvd_pad: "8 dvd k + length (pad k)"
  by (simp add: ceil_pad)

lemma pad_aligned [simp]: "k mod 8 = 0 \<Longrightarrow> pad k = []"
  by (simp add: pad_def)

lemma segment_bytes:
  assumes "bits_of st = pre @ pad (length pre) @ bits_of bs @ post"
  shows "take (length bs) (drop ((length pre + 7) div 8) st) = bs"
proof -
  let ?q = "(length pre + 7) div 8"
  have "bits_of (take (length bs) (drop ?q st)) = take (8 * length bs) (drop (8 * ?q) (bits_of st))"
    by (simp add: take_bits_of drop_bits_of)
  also have "\<dots> = bits_of bs"
    unfolding assms ceil_pad[symmetric] by simp
  finally show ?thesis by (simp add: bits_of_inj)
qed

definition segment :: "u8 list \<Rightarrow> nat \<Rightarrow> bool list \<Rightarrow> bool" where
  "segment st k bs \<longleftrightarrow> (\<exists>pre post. bits_of st = pre @ bs @ post \<and> length pre = k)"

lemma segment_append:
  "segment st k (as @ bs) \<longleftrightarrow> segment st k as \<and> segment st (k + length as) bs"
proof
  assume "segment st k as \<and> segment st (k + length as) bs"
  then obtain pre post pre' post' where
    1: "bits_of st = pre @ as @ post" "length pre = k" and
    2: "bits_of st = pre' @ bs @ post'" "length pre' = k + length as"
    unfolding segment_def by blast
  have "pre' = pre @ as"
    using 1 2 by (metis append.assoc append_eq_append_conv length_append)
  with 1 2 show "segment st k (as @ bs)" unfolding segment_def by auto
next
  assume "segment st k (as @ bs)"
  then obtain pre post where "bits_of st = pre @ as @ bs @ post" "length pre = k"
    unfolding segment_def by auto
  then show "segment st k as \<and> segment st (k + length as) bs"
    unfolding segment_def
    by (intro conjI exI[of _ pre] exI[of _ "pre @ as"] exI[of _ "bs @ post"] exI[of _ post]) auto
qed

lemma segment_Cons: "segment st k (x # bs) \<longleftrightarrow> segment st k [x] \<and> segment st (Suc k) bs"
  using segment_append[of st k "[x]" bs] by simp

lemma segment_single: "segment st k [x] \<Longrightarrow> k < 8 * length st \<and> bits_of st ! k = x"
proof -
  assume "segment st k [x]"
  then obtain pre post where "bits_of st = pre @ x # post" "length pre = k"
    unfolding segment_def by auto
  moreover from this have "8 * length st = k + Suc (length post)"
    by (metis length_append length_bits_of list.size(4) add_Suc_right add.right_neutral One_nat_def)
  ultimately show ?thesis by (auto simp: nth_append)
qed

lemma segment_bytesD:
  assumes "segment st k (pad k @ bits_of bs)"
  shows "take (length bs) (drop ((k + 7) div 8) st) = bs" and "(k + 7) div 8 + length bs \<le> length st"
proof -
  obtain pre post where *: "bits_of st = pre @ pad k @ bits_of bs @ post" "length pre = k"
    using assms unfolding segment_def by auto
  then show "take (length bs) (drop ((k + 7) div 8) st) = bs"
    using segment_bytes[of st pre bs post] by simp
  have "8 * length st = k + length (pad k) + 8 * length bs + length post"
    using arg_cong[OF *(1), of length] *(2) by simp
  then show "(k + 7) div 8 + length bs \<le> length st" using ceil_pad[of k] by linarith
qed

subsection \<open>Codecs\<close>

text \<open>The bits of a sequence of fields, each of which may depend on the position it starts at.\<close>

fun enc_list :: "('a \<Rightarrow> nat \<Rightarrow> bool list) \<Rightarrow> 'a list \<Rightarrow> nat \<Rightarrow> bool list" where
  "enc_list e [] k = []"
| "enc_list e (x # xs) k = e x k @ enc_list e xs (k + length (e x k))"

lemma enc_list_singleton: "enc_list (\<lambda>x k. [p x]) xs = (\<lambda>k. map p xs)"
  by (rule ext, induction xs) auto

lemma val_bits_Suc: "val_bits (Suc n) v = bit v n # val_bits n v"
  by (simp add: val_bits_def)

lemma take_bit_Suc_or: "take_bit (Suc n) v = (if bit v n then push_bit n 1 OR take_bit n v else take_bit n v)"
  for v :: "'a::len word"
  by (rule bit_word_eqI) (auto simp: bit_simps less_Suc_eq)

lemma take_set_bit:
  assumes "w < 8" and "\<not> bit cur w"
  shows "take (8 - w) (byte_bits (if v then cur OR push_bit w 1 else cur)) =
         take (8 - Suc w) (byte_bits cur) @ [v]"
proof (rule nth_equalityI)
  fix i assume "i < length (take (8 - w) (byte_bits (if v then cur OR push_bit w 1 else cur)))"
  then have i: "i < 8 - w" by simp
  show "take (8 - w) (byte_bits (if v then cur OR push_bit w 1 else cur)) ! i =
         (take (8 - Suc w) (byte_bits cur) @ [v]) ! i"
  proof (cases "i = 7 - w")
    case True
    with assms show ?thesis by (simp add: nth_append nth_byte_bits bit_simps)
  next
    case False
    with i have "i < 7 - w" by simp
    then show ?thesis using assms by (auto simp: nth_append nth_byte_bits bit_simps)
  qed
qed (use assms in simp)

text \<open>
  The contract of a packet format: an operation \<open>wr\<close> that writes a field onto an output
  and an operation \<open>rd\<close> that reads one of a given shape off an input, both of which may
  throw. The provider promises that \<open>wr\<close> appends the bits \<open>enc\<close> gives the field at the
  position reached, as long as the output fits, and that \<open>rd\<close>, standing at bits that are
  the encoding of a field, returns that field and moves past it.
\<close>

locale packet_codec =
  fixes wr :: "'f \<Rightarrow> ('s, 'e, unit) io"
    and rd :: "'h \<Rightarrow> ('t, 'x, 'f) io"
    and shape :: "'f \<Rightarrow> 'h"
    and enc :: "'f \<Rightarrow> nat \<Rightarrow> bool list"
    and ok :: "'f \<Rightarrow> bool"
    and outp :: "'s \<Rightarrow> bool list \<Rightarrow> bool"
    and inp :: "'t \<Rightarrow> bool list \<Rightarrow> nat \<Rightarrow> bool"
    and fits :: "nat \<Rightarrow> bool"
  assumes fits_mono: "fits (a + b) \<Longrightarrow> fits a"
    and wr_enc: "outp s bs \<Longrightarrow> ok f \<Longrightarrow> fits (length bs + length (enc f (length bs)))
      \<Longrightarrow> \<exists>s'. wr f s = (Inr (), s') \<and> outp s' (bs @ enc f (length bs))"
    and rd_enc: "inp t (pre @ enc f (length pre) @ post) (length pre) \<Longrightarrow> ok f
      \<Longrightarrow> \<exists>t'. rd (shape f) t = (Inr f, t')
            \<and> inp t' (pre @ enc f (length pre) @ post) (length pre + length (enc f (length pre)))"
begin

lemma write_all:
  assumes "outp s bs" and "\<forall>f\<in>set fs. ok f" and "fits (length bs + length (enc_list enc fs (length bs)))"
  shows "\<exists>s'. forS wr fs s = (Inr (), s') \<and> outp s' (bs @ enc_list enc fs (length bs))"
  using assms
proof (induction fs arbitrary: s bs)
  case (Cons f fs)
  let ?e = "enc f (length bs)"
  have "fits ((length bs + length ?e) + length (enc_list enc fs (length bs + length ?e)))"
    using Cons.prems(3) by (simp add: add.assoc)
  then have "fits (length bs + length ?e)" by (rule fits_mono)
  then obtain s1 where s1: "wr f s = (Inr (), s1)" "outp s1 (bs @ ?e)"
    using wr_enc[of s bs f] Cons.prems(1,2) by auto
  then obtain s2 where "forS wr fs s1 = (Inr (), s2)" "outp s2 ((bs @ ?e) @ enc_list enc fs (length (bs @ ?e)))"
    using Cons.IH[of s1 "bs @ ?e"] Cons.prems(2,3) by (auto simp: add.assoc)
  with s1 show ?case by simp
qed simp

lemma read_all:
  assumes "inp t (pre @ enc_list enc fs (length pre) @ post) (length pre)" and "\<forall>f\<in>set fs. ok f"
  shows "\<exists>t'. mapS rd (map shape fs) t = (Inr fs, t')
    \<and> inp t' (pre @ enc_list enc fs (length pre) @ post) (length pre + length (enc_list enc fs (length pre)))"
  using assms
proof (induction fs arbitrary: t pre)
  case (Cons f fs)
  let ?e = "enc f (length pre)" and ?r = "enc_list enc fs (length pre + length (enc f (length pre)))"
  have "inp t (pre @ ?e @ (?r @ post)) (length pre)" "ok f" using Cons.prems by simp_all
  then obtain t1 where t1: "rd (shape f) t = (Inr f, t1)" "inp t1 (pre @ ?e @ (?r @ post)) (length pre + length ?e)"
    using rd_enc by blast
  then obtain t2 where "mapS rd (map shape fs) t1 = (Inr fs, t2)"
      "inp t2 ((pre @ ?e) @ ?r @ post) (length (pre @ ?e) + length ?r)"
    using Cons.IH[of t1 "pre @ ?e"] Cons.prems by auto
  with t1 show ?case by (simp add: bindS_def add.assoc)
qed simp

text \<open>The round trip: what a sequence of writes left on an output, a sequence of reads of
  the same shapes returns, wherever in the stream it stands.\<close>

lemma roundtrip:
  assumes "outp s bs" and "\<forall>f\<in>set fs. ok f"
    and "fits (length bs + length (enc_list enc fs (length bs)))"
    and "\<And>s'. outp s' (bs @ enc_list enc fs (length bs)) \<Longrightarrow>
      \<exists>post. inp (handover s') (bs @ enc_list enc fs (length bs) @ post) (length bs)"
  shows "\<exists>s' t'. forS wr fs s = (Inr (), s') \<and> mapS rd (map shape fs) (handover s') = (Inr fs, t')"
  using write_all[OF assms(1-3)] assms(4) read_all[OF _ assms(2)] by meson

end

end
