(* ===== verification/ByteBuffer.thy ===== *)
theory ByteBuffer
  imports Guid Bits
begin

text \<open>
  The packet buffer: \<open>src/server/shared/Packets/ByteBuffer.h\<close>. Its state is a byte vector
  with a read and a write position and one byte of bit state, shared by the bit reader and
  the bit writer. Every operation is a state function that may throw; positions are
  \<open>size_t\<close>, so sums wrap at \<open>2 ^ 64\<close> (\<open>size_add\<close>). Integers are stored little-endian (the
  byte order of the server's platforms, for which \<open>EndianConvert\<close> does nothing); floating
  point values are their bit patterns. The code is the one compiled without \<open>CROSS\<close>.
\<close>

subsection \<open>ObjectGuid\<close>

text \<open>A 64-bit guid with access to its bytes; \<open>operator[]\<close> asserts the index.\<close>

type_synonym ObjectGuid = u64

datatype bb_exn =
    PositionException bool nat nat nat
  | SourceException nat nat nat
  | AssertFailed
  | UndefinedBehaviour

definition og_byte :: "ObjectGuid \<Rightarrow> nat \<Rightarrow> u8" where
  "og_byte g i = ucast (drop_bit (8 * i) g)"

definition og_get :: "ObjectGuid \<Rightarrow> nat \<Rightarrow> ('s, bb_exn, u8) io" where
  "og_get g i = (if i < 8 then retS (og_byte g i) else throwS AssertFailed)"

definition og_put :: "ObjectGuid \<Rightarrow> nat \<Rightarrow> u8 \<Rightarrow> ObjectGuid" where
  "og_put g i b = (g AND NOT (push_bit (8 * i) 0xFF)) OR push_bit (8 * i) (ucast b)"

definition og_set :: "ObjectGuid \<Rightarrow> nat \<Rightarrow> u8 \<Rightarrow> ('s, bb_exn, ObjectGuid) io" where
  "og_set g i b = (if i < 8 then retS (og_put g i b) else throwS AssertFailed)"

definition og_IsEmpty :: "ObjectGuid \<Rightarrow> bool" where
  "og_IsEmpty g \<longleftrightarrow> g \<noteq> 0"

subsection \<open>State\<close>

record ByteBuffer =
  rpos :: nat
  wpos :: nat
  wbitpos :: nat
  rbitpos :: nat
  curbitval :: u8
  storage :: "u8 list"

type_synonym 'a bb = "(ByteBuffer, bb_exn, 'a) io"

abbreviation bb_size :: "ByteBuffer \<Rightarrow> nat" where
  "bb_size b \<equiv> length (storage b)"

definition bb_new :: ByteBuffer where
  "bb_new = \<lparr>rpos = 0, wpos = 0, wbitpos = 8, rbitpos = 8, curbitval = 0, storage = []\<rparr>"

definition bb_copy :: "ByteBuffer \<Rightarrow> ByteBuffer" where
  "bb_copy b = b\<lparr>rbitpos := 8\<rparr>"

definition bb_clear :: "ByteBuffer \<Rightarrow> ByteBuffer" where
  "bb_clear b = b\<lparr>storage := [], rpos := 0, wpos := 0, curbitval := 0, wbitpos := 8, rbitpos := 8\<rparr>"

text \<open>\<open>size_t\<close> addition.\<close>

definition size_add :: "nat \<Rightarrow> nat \<Rightarrow> nat" where
  "size_add a b = (a + b) mod 2 ^ 64"

text \<open>\<open>eraseFirst\<close> leaves the positions as they are. A negative count is undefined.\<close>

definition eraseFirst :: "int \<Rightarrow> unit bb" where
  "eraseFirst num b =
     (if num < 0 then (Inl UndefinedBehaviour, b)
      else if int (bb_size b) \<ge> num then (Inr (), b\<lparr>storage := drop (nat num) (storage b)\<rparr>)
      else (Inr (), b))"

definition bb_empty :: "ByteBuffer \<Rightarrow> bool" where
  "bb_empty b \<longleftrightarrow> storage b = []"

definition set_rpos :: "nat \<Rightarrow> ByteBuffer \<Rightarrow> ByteBuffer" where
  "set_rpos p b = b\<lparr>rpos := p, rbitpos := 8\<rparr>"

definition rfinish :: "ByteBuffer \<Rightarrow> ByteBuffer" where
  "rfinish b = b\<lparr>rpos := wpos b\<rparr>"

definition set_wpos :: "nat \<Rightarrow> ByteBuffer \<Rightarrow> ByteBuffer" where
  "set_wpos p b = b\<lparr>wpos := p\<rparr>"

definition bitwpos :: "ByteBuffer \<Rightarrow> nat" where
  "bitwpos b = wpos b * 8 + 8 - wbitpos b"

definition set_bitwpos :: "nat \<Rightarrow> ByteBuffer \<Rightarrow> ByteBuffer" where
  "set_bitwpos p b = b\<lparr>wpos := p div 8, wbitpos := 8 - p mod 8\<rparr>"

definition bb_resize :: "nat \<Rightarrow> ByteBuffer \<Rightarrow> ByteBuffer" where
  "bb_resize n b = b\<lparr>storage := resize_to n (storage b), rpos := 0, wpos := n\<rparr>"

definition ResetBitReading :: "ByteBuffer \<Rightarrow> ByteBuffer" where
  "ResetBitReading b = b\<lparr>rbitpos := 8\<rparr>"

subsection \<open>Writing\<close>

text \<open>The \<open>append\<close> all others end in: it writes at \<open>_wpos\<close>, growing the storage if needed.\<close>

definition append_bytes :: "u8 list \<Rightarrow> unit bb" where
  "append_bytes src b =
     (if src = [] then (Inl (SourceException (wpos b) (bb_size b) 0), b)
      else if \<not> bb_size b < 10000000 then (Inl AssertFailed, b)
      else
        let st = (if bb_size b < wpos b + length src then resize_to (wpos b + length src) (storage b)
                  else storage b)
        in (Inr (), b\<lparr>storage := splice_at (wpos b) src st, wpos := wpos b + length src\<rparr>))"

definition FlushBits :: "unit bb" where
  "FlushBits b =
     (if wbitpos b = 8 then (Inr (), b)
      else seqS (append_bytes [curbitval b])
             (\<lambda>c. (Inr (), c\<lparr>curbitval := 0, wbitpos := 8\<rparr>)) b)"

definition append_val :: "'a::len word \<Rightarrow> unit bb" where
  "append_val v = seqS FlushBits (append_bytes (le_bytes v))"

definition WriteBit :: "u32 \<Rightarrow> bool bb" where
  "WriteBit v b =
     (let w = wbitpos b - 1;
          c = b\<lparr>wbitpos := w,
                curbitval := (if v \<noteq> 0 then curbitval b OR push_bit w 1 else curbitval b)\<rparr>
      in if w = 0
         then seqS (append_bytes [curbitval c])
                (\<lambda>d. (Inr (v \<noteq> 0), d\<lparr>curbitval := 0\<rparr>)) (c\<lparr>wbitpos := 8\<rparr>)
         else (Inr (v \<noteq> 0), c))"

definition write_bit :: "u32 \<Rightarrow> unit bb" where
  "write_bit v = bindS (WriteBit v) (\<lambda>_. retS ())"

text \<open>A shift by the width of the promoted type or more is undefined.\<close>

definition WriteBits :: "'a::len word \<Rightarrow> nat \<Rightarrow> unit bb" where
  "WriteBits v n = forS (\<lambda>i. if i < max 32 LENGTH('a) then write_bit (ucast (drop_bit i v AND 1))
                              else throwS UndefinedBehaviour) (rev [0..<n])"

definition WriteBitInOrder :: "ObjectGuid \<Rightarrow> nat list \<Rightarrow> unit bb" where
  "WriteBitInOrder g = forS (\<lambda>i. bindS (og_get g i) (\<lambda>x. write_bit (ucast x)))"

definition WriteGuidMaskList :: "ObjectGuid \<Rightarrow> nat list \<Rightarrow> unit bb" where
  "WriteGuidMaskList g = forS (\<lambda>off. bindS (og_get g off) (\<lambda>x. write_bit (ucast x)))"

definition WriteByteSeq :: "u8 \<Rightarrow> unit bb" where
  "WriteByteSeq x = (if x \<noteq> 0 then append_val (x XOR 1) else retS ())"

definition WriteBytesSeq :: "ObjectGuid \<Rightarrow> nat list \<Rightarrow> unit bb" where
  "WriteBytesSeq g = forS (\<lambda>i. bindS (og_get g i) WriteByteSeq)"

definition WriteGuidBytesList :: "ObjectGuid \<Rightarrow> nat list \<Rightarrow> unit bb" where
  "WriteGuidBytesList g = forS (\<lambda>off. bindS (og_get g off) WriteByteSeq)"

definition write_string :: "u8 list \<Rightarrow> unit bb" where
  "write_string s = seqS (if s \<noteq> [] then append_bytes s else retS ()) (append_val (0 :: u8))"

text \<open>\<open>const char *\<close>: a null pointer or the characters before the terminator.\<close>

definition write_cstr :: "u8 list option \<Rightarrow> unit bb" where
  "write_cstr str =
     (let s = (case str of None \<Rightarrow> [] | Some s \<Rightarrow> takeWhile (\<lambda>c. c \<noteq> 0) s)
      in seqS (if s \<noteq> [] then append_bytes s else retS ()) (append_val (0 :: u8)))"

definition write_bool :: "bool \<Rightarrow> unit bb" where
  "write_bool v = append_val (of_bool v :: u8)"

definition WriteString :: "u8 list \<Rightarrow> unit bb" where
  "WriteString s = seqS FlushBits (if s \<noteq> [] then append_bytes s else retS ())"

definition append_buffer :: "ByteBuffer \<Rightarrow> unit bb" where
  "append_buffer src = (if wpos src \<noteq> 0 then
       (if wpos src \<le> bb_size src then append_bytes (take (wpos src) (storage src))
        else throwS UndefinedBehaviour) else retS ())"

definition put_bytes :: "nat \<Rightarrow> u8 list \<Rightarrow> unit bb" where
  "put_bytes pos src b =
     (if size_add pos (length src) > bb_size b
      then (Inl (PositionException True pos (length src) (bb_size b)), b)
      else if pos + length src > bb_size b then (Inl UndefinedBehaviour, b)
      else (Inr (), b\<lparr>storage := splice_at pos src (storage b)\<rparr>))"

definition put_val :: "nat \<Rightarrow> 'a::len word \<Rightarrow> unit bb" where
  "put_val pos v = put_bytes pos (le_bytes v)"

text \<open>One step of the loop of \<open>PutBits\<close>, and the whole.\<close>

definition put_bit_at :: "nat \<Rightarrow> bool \<Rightarrow> unit bb" where
  "put_bit_at p v b =
     (let wp = p div 8; bit = p mod 8
      in if wp < bb_size b
         then (Inr (), b\<lparr>storage := (storage b)[wp := (if v then storage b ! wp OR push_bit (7 - bit) 1
                            else storage b ! wp AND NOT (push_bit (7 - bit) 1))]\<rparr>)
         else (Inl UndefinedBehaviour, b))"

definition PutBits :: "nat \<Rightarrow> 'a::len word \<Rightarrow> nat \<Rightarrow> unit bb" where
  "PutBits pos v n b =
     (if n = 0 then (Inl (SourceException (pos div 8) (bb_size b) 0), b)
      else if size_add pos n > bb_size b * 8
      then (Inl (PositionException False (size_add pos n div 8) (bb_size b) ((n - 1) div 8 + 1)), b)
      else forS (\<lambda>i. if n - i - 1 < max 32 LENGTH('a)
                     then put_bit_at (size_add pos i) (bit v (n - i - 1))
                     else throwS UndefinedBehaviour) [0..<n] b)"

subsection \<open>Reading\<close>

definition read_at :: "nat \<Rightarrow> 'a::len word bb" where
  "read_at pos b =
     (let n = LENGTH('a) div 8 in
      if size_add pos n > bb_size b then (Inl (PositionException False pos n (bb_size b)), b)
      else if pos + n > bb_size b then (Inl UndefinedBehaviour, b)
      else (Inr (of_le_bytes (take n (drop pos (storage b)))), b\<lparr>rbitpos := 8\<rparr>))"

definition read_val :: "'a::len word bb" where
  "read_val b = bindS (read_at (rpos b))
     (\<lambda>r c. (Inr r, c\<lparr>rpos := size_add (rpos c) (LENGTH('a) div 8)\<rparr>)) b"

definition read_skip :: "nat \<Rightarrow> unit bb" where
  "read_skip skip b =
     (if size_add (rpos b) skip > bb_size b
      then (Inl (PositionException False (rpos b) skip (bb_size b)), b)
      else (Inr (), b\<lparr>rpos := size_add (rpos b) skip, rbitpos := 8\<rparr>))"

definition read_bytes :: "nat \<Rightarrow> u8 list bb" where
  "read_bytes len b =
     (if size_add (rpos b) len > bb_size b
      then (Inl (PositionException False (rpos b) len (bb_size b)), b)
      else if rpos b + len > bb_size b then (Inl UndefinedBehaviour, b)
      else (Inr (take len (drop (rpos b) (storage b))),
            b\<lparr>rpos := size_add (rpos b) len, rbitpos := 8\<rparr>))"

definition ReadBit :: "bool bb" where
  "ReadBit b =
     (let c = b\<lparr>rbitpos := size_add (rbitpos b) 1\<rparr>
      in bindS (if rbitpos c > 7
                then bindS read_val (\<lambda>x d. (Inr (), d\<lparr>curbitval := x, rbitpos := 0\<rparr>))
                else retS ())
           (\<lambda>_ d. (Inr (bit (curbitval d) (7 - rbitpos d)), d)) c)"

definition ReadBits :: "nat \<Rightarrow> u32 bb" where
  "ReadBits n = foldS (\<lambda>i v. bindS ReadBit (\<lambda>x. if \<not> x then retS v
                         else if i < 32 then retS (v OR push_bit i 1) else throwS UndefinedBehaviour))
                  (rev [0..<n]) 0"

definition ReadBitInOrder :: "ObjectGuid \<Rightarrow> nat list \<Rightarrow> ObjectGuid bb" where
  "ReadBitInOrder g order = foldS (\<lambda>i g. bindS ReadBit (\<lambda>x. og_set g i (of_bool x))) order g"

definition ReadGuidMaskList :: "ObjectGuid \<Rightarrow> nat list \<Rightarrow> ObjectGuid bb" where
  "ReadGuidMaskList g offs = foldS (\<lambda>off g. bindS ReadBit (\<lambda>x. og_set g off (of_bool x))) offs g"

definition ReadByteSeq :: "u8 \<Rightarrow> u8 bb" where
  "ReadByteSeq x = (if x \<noteq> 0 then bindS read_val (\<lambda>r. retS (x XOR r)) else retS x)"

definition ReadBytesSeq :: "ObjectGuid \<Rightarrow> nat list \<Rightarrow> ObjectGuid bb" where
  "ReadBytesSeq g order =
     foldS (\<lambda>i g. bindS (og_get g i) (\<lambda>x. bindS (ReadByteSeq x) (og_set g i))) order g"

definition ReadGuidBytesList :: "ObjectGuid \<Rightarrow> nat list \<Rightarrow> ObjectGuid bb" where
  "ReadGuidBytesList g offs =
     foldS (\<lambda>off g. bindS (og_get g off) (\<lambda>x. bindS (ReadByteSeq x) (og_set g off))) offs g"

definition read_bool :: "bool bb" where
  "read_bool = bindS read_val (\<lambda>c. retS (0 <s (c :: u8)))"

text \<open>
  The loop of \<open>operator>>(std::string)\<close>, one byte per round; the fuel is the number of
  bytes left, which \<open>read_string_unfold\<close> shows to be enough.
\<close>

fun read_string_loop :: "nat \<Rightarrow> u8 list \<Rightarrow> u8 list bb" where
  "read_string_loop 0 acc = retS acc"
| "read_string_loop (Suc k) acc =
     (\<lambda>b. if rpos b < bb_size b
          then bindS read_val (\<lambda>c. if c = 0 then retS acc else read_string_loop k (acc @ [c])) b
          else (Inr acc, b))"

definition read_string :: "u8 list bb" where
  "read_string b = read_string_loop (bb_size b - rpos b) [] b"

definition ReadString :: "nat \<Rightarrow> u8 list bb" where
  "ReadString n = (if n = 0 then retS []
     else bindS (read_bytes n) (\<lambda>buf. retS (takeWhile (\<lambda>c. c \<noteq> 0) buf)))"

definition bb_index :: "nat \<Rightarrow> u8 bb" where
  "bb_index pos b = (if pos \<ge> bb_size b then (Inl (PositionException False pos 1 (bb_size b)), b)
                     else (Inr (storage b ! pos), b))"

subsection \<open>What is written\<close>

text \<open>
  A buffer being written: the write position is the end, and the bits of \<open>curbitval\<close> not
  yet filled are clear. \<open>written\<close> is its contents as a bit list. \<open>writes m enc\<close>: from
  such a state, and as long as the size stays within what \<open>append\<close> asserts, \<open>m\<close> succeeds
  and appends the bits \<open>enc\<close> gives for the position reached.
\<close>

definition writer :: "ByteBuffer \<Rightarrow> bool" where
  "writer b \<longleftrightarrow> wpos b = bb_size b \<and> 1 \<le> wbitpos b \<and> wbitpos b \<le> 8
     \<and> (\<forall>i<wbitpos b. \<not> bit (curbitval b) i)"

definition written :: "ByteBuffer \<Rightarrow> bool list" where
  "written b = bits_of (storage b) @ take (8 - wbitpos b) (byte_bits (curbitval b))"

definition max_bits :: nat where
  "max_bits = 80000000"

definition writes :: "unit bb \<Rightarrow> (nat \<Rightarrow> bool list) \<Rightarrow> bool" where
  "writes m enc \<longleftrightarrow> (\<forall>b. writer b \<and> length (written b) + length (enc (length (written b))) \<le> max_bits \<longrightarrow>
     (\<exists>c. m b = (Inr (), c) \<and> writer c \<and> written c = written b @ enc (length (written b))
        \<and> rpos c = rpos b \<and> rbitpos c = rbitpos b))"

lemma writesI:
  assumes "\<And>b. writer b \<Longrightarrow> length (written b) + length (enc (length (written b))) \<le> max_bits \<Longrightarrow>
     \<exists>c. m b = (Inr (), c) \<and> writer c \<and> written c = written b @ enc (length (written b))
        \<and> rpos c = rpos b \<and> rbitpos c = rbitpos b"
  shows "writes m enc"
  using assms unfolding writes_def by blast

lemma writesD:
  assumes "writes m enc" and "writer b" and "length (written b) + length (enc (length (written b))) \<le> max_bits"
  obtains c where "m b = (Inr (), c)" "writer c" "written c = written b @ enc (length (written b))"
    "rpos c = rpos b" "rbitpos c = rbitpos b"
  using assms unfolding writes_def by blast

lemma length_written: "length (written b) = 8 * bb_size b + (8 - wbitpos b)"
  by (simp add: written_def)

lemma writes_retS: "writes (retS ()) (\<lambda>_. [])"
  by (rule writesI) simp

lemma writes_seqS:
  assumes m: "writes m f" and n: "writes n g"
  shows "writes (seqS m n) (\<lambda>k. f k @ g (k + length (f k)))"
proof (rule writesI)
  fix b
  let ?k = "length (written b)"
  assume b: "writer b" and len: "?k + length (f ?k @ g (?k + length (f ?k))) \<le> max_bits"
  from len have "?k + length (f ?k) \<le> max_bits" by simp
  with b obtain c where c: "m b = (Inr (), c)" "writer c" "written c = written b @ f ?k"
    "rpos c = rpos b" "rbitpos c = rbitpos b"
    by (rule writesD[OF m])
  have "length (written c) + length (g (length (written c))) \<le> max_bits" using len c by simp
  with c(2) obtain d where "n c = (Inr (), d)" "writer d" "written d = written c @ g (length (written c))"
    "rpos d = rpos c" "rbitpos d = rbitpos c"
    by (rule writesD[OF n])
  with c show "\<exists>d. seqS m n b = (Inr (), d) \<and> writer d
      \<and> written d = written b @ f ?k @ g (?k + length (f ?k))
      \<and> rpos d = rpos b \<and> rbitpos d = rbitpos b" by simp
qed

lemma writes_forS:
  assumes "\<And>x. x \<in> set xs \<Longrightarrow> writes (f x) (e x)"
  shows "writes (forS f xs) (enc_list e xs)"
  using assms
proof (induction xs)
  case (Cons x xs)
  have "enc_list e (x # xs) = (\<lambda>k. e x k @ enc_list e xs (k + length (e x k)))" by auto
  with Cons show ?case using writes_seqS[of "f x" "e x" "forS f xs" "enc_list e xs"] by simp
qed (simp add: writes_retS[unfolded fun_eq_iff] writes_def)

lemma append_bytes_end:
  assumes "wpos b = bb_size b" and "src \<noteq> []" and "bb_size b < 10000000"
  shows "append_bytes src b = (Inr (), b\<lparr>storage := storage b @ src, wpos := bb_size b + length src\<rparr>)"
  using assms by (simp add: append_bytes_def Let_def)

lemma size_of_written: "8 * bb_size b \<le> length (written b)"
  by (simp add: length_written)

lemma writes_write_bit: "writes (write_bit v) (\<lambda>_. [v \<noteq> 0])"
proof (rule writesI)
  fix b
  assume b: "writer b" and len: "length (written b) + length [v \<noteq> 0] \<le> max_bits"
  define w where "w = wbitpos b - 1"
  define cur where "cur = (if v \<noteq> 0 then curbitval b OR push_bit w 1 else curbitval b)"
  have w: "wbitpos b = Suc w" "w < 8" "\<not> bit (curbitval b) w" and wpos: "wpos b = bb_size b"
    using b by (auto simp: writer_def w_def)
  have cur_bits: "take (8 - w) (byte_bits cur) = take (8 - wbitpos b) (byte_bits (curbitval b)) @ [v \<noteq> 0]"
    using take_set_bit[OF w(2,3), of "v \<noteq> 0"] by (simp add: cur_def w(1))
  have low: "\<not> bit cur i" if "i < w" for i
    using b that w(1) by (auto simp: cur_def writer_def bit_simps)
  show "\<exists>c. write_bit v b = (Inr (), c) \<and> writer c \<and> written c = written b @ [v \<noteq> 0]
        \<and> rpos c = rpos b \<and> rbitpos c = rbitpos b"
  proof (cases "w = 0")
    case True
    have "bb_size b < 10000000" using len size_of_written[of b] by (simp add: max_bits_def)
    with True wpos w(1) have eq: "write_bit v b =
       (Inr (), b\<lparr>wbitpos := 8, curbitval := 0, storage := storage b @ [cur], wpos := bb_size b + 1\<rparr>)"
      by (cases "v = 0") (simp_all add: write_bit_def bindS_def WriteBit_def append_bytes_end cur_def)
    show ?thesis unfolding eq using cur_bits True by (simp add: writer_def written_def)
  next
    case False
    then have eq: "write_bit v b = (Inr (), b\<lparr>wbitpos := w, curbitval := cur\<rparr>)"
      using w(1) by (simp add: write_bit_def bindS_def WriteBit_def cur_def)
    show ?thesis unfolding eq using cur_bits low False w by (simp add: writer_def written_def wpos)
  qed
qed

lemma writes_FlushBits: "writes FlushBits pad"
proof (rule writesI)
  fix b
  assume b: "writer b" and len: "length (written b) + length (pad (length (written b))) \<le> max_bits"
  have wpos: "wpos b = bb_size b" using b by (simp add: writer_def)
  show "\<exists>c. FlushBits b = (Inr (), c) \<and> writer c \<and> written c = written b @ pad (length (written b))
        \<and> rpos c = rpos b \<and> rbitpos c = rbitpos b"
  proof (cases "wbitpos b = 8")
    case True
    then have "pad (length (written b)) = []" by (simp add: length_written pad_def)
    with True b show ?thesis by (simp add: FlushBits_def)
  next
    case False
    with b have w: "1 \<le> wbitpos b" "wbitpos b < 8" by (auto simp: writer_def)
    then have k: "length (written b) mod 8 = 8 - wbitpos b"
      by (subst length_written, subst mod_mult_self4, intro mod_less) simp
    with w have pad: "pad (length (written b)) = replicate (wbitpos b) False"
      by (simp add: pad_def)
    have "byte_bits (curbitval b) = take (8 - wbitpos b) (byte_bits (curbitval b)) @ replicate (wbitpos b) False"
      using b w by (intro nth_equalityI) (auto simp: nth_append nth_byte_bits writer_def)
    moreover have "bb_size b < 10000000"
      using len size_of_written[of b] w by (simp add: pad max_bits_def)
    then have "FlushBits b = (Inr (), b\<lparr>storage := storage b @ [curbitval b], wpos := bb_size b + 1,
       curbitval := 0, wbitpos := 8\<rparr>)"
      using False by (simp add: FlushBits_def append_bytes_end wpos)
    ultimately show ?thesis unfolding pad by (simp add: writer_def written_def)
  qed
qed

lemma writer_aligned: "writer b \<Longrightarrow> 8 dvd length (written b) \<Longrightarrow> wbitpos b = 8"
proof -
  assume b: "writer b" and d: "8 dvd length (written b)"
  from d have "8 dvd 8 - wbitpos b"
    unfolding length_written by (subst (asm) dvd_add_right_iff) simp_all
  with b have "8 - wbitpos b = 0" by (auto simp: writer_def dest: dvd_imp_le)
  with b show "wbitpos b = 8" by (simp add: writer_def)
qed

lemma writes_flush_append:
  assumes src: "src \<noteq> []"
  shows "writes (seqS FlushBits (append_bytes src)) (\<lambda>k. pad k @ bits_of src)"
proof (rule writesI)
  fix b
  let ?k = "length (written b)"
  assume b: "writer b" and len: "?k + length (pad ?k @ bits_of src) \<le> max_bits"
  from len have "?k + length (pad ?k) \<le> max_bits" by simp
  with b obtain c where c: "FlushBits b = (Inr (), c)" "writer c" "written c = written b @ pad ?k"
    "rpos c = rpos b" "rbitpos c = rbitpos b"
    by (rule writesD[OF writes_FlushBits])
  have wb: "wbitpos c = 8"
    using writer_aligned[OF c(2)] dvd_pad[of ?k] c(3) by simp
  have "8 * bb_size c + 8 \<le> max_bits"
    using len size_of_written[of c] c(3) src by (cases src) auto
  then have app: "append_bytes src c =
      (Inr (), c\<lparr>storage := storage c @ src, wpos := bb_size c + length src\<rparr>)"
    using c(2) src by (intro append_bytes_end) (simp_all add: writer_def max_bits_def)
  let ?d = "c\<lparr>storage := storage c @ src, wpos := bb_size c + length src\<rparr>"
  have "written ?d = written c @ bits_of src" "writer ?d"
    using wb c(2) by (simp_all add: written_def writer_def)
  then show "\<exists>d. seqS FlushBits (append_bytes src) b = (Inr (), d) \<and> writer d
      \<and> written d = written b @ pad ?k @ bits_of src \<and> rpos d = rpos b \<and> rbitpos d = rbitpos b"
    using c app by simp
qed

lemma writes_append_val:
  assumes "8 \<le> LENGTH('a)"
  shows "writes (append_val (v :: 'a::len word)) (\<lambda>k. pad k @ bits_of (le_bytes v))"
proof -
  have "le_bytes v \<noteq> []"
    using assms by (auto dest!: arg_cong[of _ _ length] simp: div_eq_0_iff)
  then show ?thesis unfolding append_val_def by (rule writes_flush_append)
qed

lemma writes_WriteString: "writes (WriteString s) (\<lambda>k. pad k @ bits_of s)"
  using writes_flush_append[of s] writes_FlushBits
  by (cases "s = []") (auto simp: WriteString_def bind_simps seqS_def)

lemma writes_WriteBits:
  assumes "n \<le> max 32 LENGTH('a)"
  shows "writes (WriteBits (v :: 'a::len word) n) (\<lambda>k. val_bits n v)"
proof -
  have one: "(ucast (drop_bit i v AND 1) :: u32) \<noteq> 0 \<longleftrightarrow> bit v i" for i
  proof -
    have "drop_bit i v AND 1 = of_bool (bit v i)"
      by (rule bit_word_eqI) (auto simp: bit_simps)
    then show ?thesis by simp
  qed
  have "writes (WriteBits v n) (enc_list (\<lambda>i k. [bit v i]) (rev [0..<n]))"
    unfolding WriteBits_def
  proof (rule writes_forS)
    fix i assume "i \<in> set (rev [0..<n])"
    then have "i < max 32 LENGTH('a)" using assms by simp
    then show "writes (if i < max 32 LENGTH('a) then write_bit (ucast (drop_bit i v AND 1))
         else throwS UndefinedBehaviour) (\<lambda>k. [bit v i])"
      using writes_write_bit[of "ucast (drop_bit i v AND 1)"] by (simp add: one)
  qed
  then show ?thesis by (simp add: enc_list_singleton val_bits_def)
qed

subsection \<open>What is read\<close>

text \<open>
  \<open>reader_at b k\<close>: the first \<open>k\<close> bits of the storage are consumed, some of them perhaps
  in the middle of a byte, of which \<open>curbitval\<close> holds a copy. \<open>reads m st k v k'\<close>: on the
  storage \<open>st\<close>, \<open>m\<close> moves the reader from bit \<open>k\<close> to bit \<open>k'\<close> and returns \<open>v\<close>.
\<close>

definition reader_at :: "ByteBuffer \<Rightarrow> nat \<Rightarrow> bool" where
  "reader_at b k \<longleftrightarrow> rpos b = (k + 7) div 8 \<and> k \<le> 8 * bb_size b \<and> bb_size b < 2 ^ 60 \<and> rbitpos b \<le> 8
     \<and> (7 \<le> rbitpos b \<longrightarrow> k mod 8 = 0)
     \<and> (rbitpos b < 7 \<longrightarrow> k mod 8 = Suc (rbitpos b) \<and> curbitval b = storage b ! (k div 8))"

definition reads :: "'a bb \<Rightarrow> u8 list \<Rightarrow> nat \<Rightarrow> 'a \<Rightarrow> nat \<Rightarrow> bool" where
  "reads m st k v k' \<longleftrightarrow> (\<forall>b. reader_at b k \<and> storage b = st \<longrightarrow>
     (\<exists>c. m b = (Inr v, c) \<and> reader_at c k' \<and> storage c = st))"

lemma readsI:
  assumes "\<And>b. reader_at b k \<Longrightarrow> storage b = st \<Longrightarrow> \<exists>c. m b = (Inr v, c) \<and> reader_at c k' \<and> storage c = st"
  shows "reads m st k v k'"
  using assms unfolding reads_def by blast

lemma readsD:
  assumes "reads m st k v k'" and "reader_at b k" and "storage b = st"
  obtains c where "m b = (Inr v, c)" "reader_at c k'" "storage c = st"
  using assms unfolding reads_def by blast

lemma reads_retS [intro]: "reads (retS v) st k v k"
  by (auto intro: readsI)

lemma reads_bindS:
  assumes "reads m st k v k'" and "reads (f v) st k' w k''"
  shows "reads (bindS m f) st k w k''"
proof (rule readsI)
  fix b assume b: "reader_at b k" "storage b = st"
  obtain c where c: "m b = (Inr v, c)" "reader_at c k'" "storage c = st" using assms(1) b by (rule readsD)
  obtain d where d: "f v c = (Inr w, d)" "reader_at d k''" "storage d = st" using assms(2) c(2,3) by (rule readsD)
  show "\<exists>d. bindS m f b = (Inr w, d) \<and> reader_at d k'' \<and> storage d = st" using c d by simp
qed

lemma size_add_small [simp]: "a + b < 2 ^ 64 \<Longrightarrow> size_add a b = a + b"
  unfolding size_add_def by (rule mod_less)

lemma reads_read_val:
  assumes "segment st k (pad k @ bits_of bs)" and n: "length bs = LENGTH('a) div 8" and small: "LENGTH('a) \<le> 64"
  shows "reads (read_val :: 'a::len word bb) st k (of_le_bytes bs) (k + length (pad k) + 8 * length bs)"
proof (rule readsI)
  fix b assume b: "reader_at b k" "storage b = st"
  let ?q = "(k + 7) div 8"
  note seg = segment_bytesD[OF assms(1)]
  have st: "length st < 2 ^ 60" and rpos: "rpos b = ?q" using b by (auto simp: reader_at_def)
  have le8: "LENGTH('a) div 8 \<le> 8" using small by linarith
  have q: "?q + length bs \<le> length st" by (rule seg(2))
  have add: "size_add ?q (length bs) = ?q + length bs"
    using q st by (intro size_add_small) simp
  have read: "read_val b = (Inr (of_le_bytes bs :: 'a word), b\<lparr>rbitpos := 8, rpos := ?q + length bs\<rparr>)"
    using q seg(1) by (simp add: read_val_def bindS_def read_at_def Let_def b(2) rpos add flip: n)
  have "k + length (pad k) + 8 * length bs = 8 * (?q + length bs)" by (simp add: ceil_pad)
  then have "reader_at (b\<lparr>rbitpos := 8, rpos := ?q + length bs\<rparr>) (k + length (pad k) + 8 * length bs)"
    using q st by (simp add: reader_at_def b(2))
  with read show "\<exists>c. read_val b = (Inr (of_le_bytes bs :: 'a word), c)
      \<and> reader_at c (k + length (pad k) + 8 * length bs) \<and> storage c = st"
    using b(2) by simp
qed

lemma reads_ReadBit:
  assumes "k < 8 * length st"
  shows "reads ReadBit st k (bits_of st ! k) (Suc k)"
proof (rule readsI)
  fix b assume b: "reader_at b k" "storage b = st"
  have st: "length st < 2 ^ 60" and rpos: "rpos b = (k + 7) div 8" and rb: "rbitpos b \<le> 8"
    using b by (auto simp: reader_at_def)
  have kq: "k div 8 < length st" using assms by (simp add: less_mult_imp_div_less mult.commute)
  have nth: "bits_of st ! k = bit (st ! (k div 8)) (7 - k mod 8)"
    using assms by (rule nth_bits_of)
  show "\<exists>c. ReadBit b = (Inr (bits_of st ! k), c) \<and> reader_at c (Suc k) \<and> storage c = st"
  proof (cases "7 \<le> rbitpos b")
    case True
    then have k0: "k mod 8 = 0" using b by (simp add: reader_at_def)
    then have q: "(k + 7) div 8 = k div 8" by (simp add: ceil_div_8)
    have "take 1 (drop (k div 8) st) = [st ! (k div 8)]"
      using kq by (simp add: take_Suc_conv_app_nth hd_drop_conv_nth take_Suc)
    then have "ReadBit b = (Inr (bits_of st ! k), b\<lparr>rbitpos := 0, rpos := k div 8 + 1, curbitval := st ! (k div 8)\<rparr>)"
      using True rb st kq k0 nth
      by (simp add: ReadBit_def bindS_def read_val_def read_at_def Let_def rpos q b(2))
    moreover have "reader_at (b\<lparr>rbitpos := 0, rpos := k div 8 + 1, curbitval := st ! (k div 8)\<rparr>) (Suc k)"
    proof -
      have "Suc k mod 8 = 1" "Suc k div 8 = k div 8" "(Suc k + 7) div 8 = k div 8 + 1"
        using k0 ceil_div_8[of "Suc k"] by (simp_all add: mod_Suc div_Suc)
      then show ?thesis using st assms by (simp add: reader_at_def b(2))
    qed
    ultimately show ?thesis by (simp add: b(2))
  next
    case False
    then have k1: "k mod 8 = Suc (rbitpos b)" "curbitval b = st ! (k div 8)"
      using b by (simp_all add: reader_at_def)
    have read: "ReadBit b = (Inr (bits_of st ! k), b\<lparr>rbitpos := Suc (rbitpos b)\<rparr>)"
      using False k1 nth by (simp add: ReadBit_def)
    have "reader_at (b\<lparr>rbitpos := Suc (rbitpos b)\<rparr>) (Suc k)"
    proof (cases "rbitpos b = 6")
      case True
      then have "Suc k mod 8 = 0" "(Suc k + 7) div 8 = (k + 7) div 8"
        using k1(1) ceil_div_8[of k] ceil_div_8[of "Suc k"] by (simp_all add: mod_Suc div_Suc)
      then show ?thesis using True st assms rpos by (simp add: reader_at_def b(2))
    next
      case 6: False
      with False have "rbitpos b < 6" by simp
      then have "Suc k mod 8 = Suc (Suc (rbitpos b))" "Suc k div 8 = k div 8" "(Suc k + 7) div 8 = (k + 7) div 8"
        using k1(1) ceil_div_8[of k] ceil_div_8[of "Suc k"] by (simp_all add: mod_Suc div_Suc)
      then show ?thesis using 6 False st assms rpos k1(2) by (simp add: reader_at_def b(2))
    qed
    with read show ?thesis by (simp add: b(2))
  qed
qed

lemma reads_ReadBits_aux:
  assumes "segment st k (val_bits n v)" and "n \<le> 32"
  shows "reads (foldS (\<lambda>i v. bindS ReadBit (\<lambda>x. if \<not> x then retS v
           else if i < 32 then retS (v OR push_bit i 1) else throwS UndefinedBehaviour)) (rev [0..<n]) acc)
         st k (acc OR take_bit n (v :: u32)) (k + n)"
  using assms
proof (induction n arbitrary: k acc)
  case (Suc n)
  from Suc.prems have "segment st k [bit v n]" and seg: "segment st (Suc k) (val_bits n v)"
    by (simp_all only: val_bits_Suc segment_Cons[of st k "bit v n" "val_bits n v"])
  then have "k < 8 * length st" "bits_of st ! k = bit v n" using segment_single by blast+
  then have "reads ReadBit st k (bit v n) (Suc k)" using reads_ReadBit[of k st] by simp
  moreover have "reads (retS (if bit v n then acc OR push_bit n 1 else acc)) st (Suc k)
     (if bit v n then acc OR push_bit n 1 else acc) (Suc k)" ..
  moreover note Suc.IH[OF seg, of "if bit v n then acc OR push_bit n 1 else acc"]
  ultimately show ?case using Suc.prems(2)
    by (auto simp: take_bit_Suc_or or.assoc intro!: reads_bindS)
qed (simp add: reads_retS)

lemma reads_ReadBits:
  assumes "segment st k (val_bits n v)" and "n \<le> 32"
  shows "reads (ReadBits n) st k (take_bit n (v :: u32)) (k + n)"
  using reads_ReadBits_aux[OF assms, of 0] by (simp add: ReadBits_def)

lemma writes_weaken: "writes m e \<Longrightarrow> (\<And>k. e k = f k) \<Longrightarrow> writes m f"
  by (subgoal_tac "e = f") auto

subsection \<open>ObjectGuid bytes\<close>

lemma og_byte_put: "i < 8 \<Longrightarrow> j < 8 \<Longrightarrow> og_byte (og_put g i x) j = (if i = j then x else og_byte g j)"
proof -
  assume "i < 8" "j < 8"
  have ff: "(0xFF :: u64) = mask 8" by (simp add: mask_eq_exp_minus_1)
  show ?thesis
  proof (cases "i = j")
    case True
    then show ?thesis using \<open>i < 8\<close>
      unfolding og_byte_def og_put_def ff by (intro bit_word_eqI) (auto simp: bit_simps)
  next
    case False
    have "\<not> (8 * i \<le> 8 * j + n \<and> 8 * j + n - 8 * i < 8)" if "n < 8" for n
      using False that by auto
    then show ?thesis using False \<open>j < 8\<close>
      unfolding og_byte_def og_put_def ff
      by (intro bit_word_eqI) (auto simp: bit_simps bit_ge_length)
  qed
qed

lemma og_ext: "(\<And>i. i < 8 \<Longrightarrow> og_byte g i = og_byte h i) \<Longrightarrow> g = h"
proof (rule bit_word_eqI)
  fix n assume *: "\<And>i. i < 8 \<Longrightarrow> og_byte g i = og_byte h i" and n: "n < LENGTH(64)"
  then have "bit (og_byte g (n div 8)) (n mod 8) = bit (og_byte h (n div 8)) (n mod 8)" by simp
  then show "bit g n = bit h n" by (simp add: og_byte_def bit_simps)
qed

text \<open>Putting a byte computed from each index, for a list of indices.\<close>

definition og_fill :: "(nat \<Rightarrow> u8) \<Rightarrow> nat list \<Rightarrow> ObjectGuid \<Rightarrow> ObjectGuid" where
  "og_fill c order g = fold (\<lambda>i h. og_put h i (c i)) order g"

lemma og_byte_fill:
  "set order \<subseteq> {0..<8} \<Longrightarrow> j < 8 \<Longrightarrow>
     og_byte (og_fill c order g) j = (if j \<in> set order then c j else og_byte g j)"
  by (induction order arbitrary: g) (auto simp: og_fill_def og_byte_put)

lemma og_fill_Cons [simp]: "og_fill c (i # order) g = og_fill c order (og_put g i (c i))"
  by (simp add: og_fill_def)

lemma og_fill_Nil [simp]: "og_fill c [] g = g"
  by (simp add: og_fill_def)

lemma og_fill_all: "set order = {0..<8} \<Longrightarrow> og_fill (og_byte g) order h = g"
  by (rule og_ext) (simp add: og_byte_fill)

subsection \<open>Guids as masks and bytes\<close>

definition enc_byteseq :: "u8 \<Rightarrow> nat \<Rightarrow> bool list" where
  "enc_byteseq x k = (if x \<noteq> 0 then pad k @ byte_bits (x XOR 1) else [])"

lemma le_bytes_u8 [simp]: "le_bytes (x :: u8) = [x]"
  by (simp add: le_bytes_def)

lemma of_le_bytes_u8 [simp]: "of_le_bytes [x] = (x :: u8)"
  by simp

lemma writes_WriteByteSeq: "writes (WriteByteSeq x) (enc_byteseq x)"
  using writes_append_val[of "x XOR 1"] writes_retS
  by (auto simp: WriteByteSeq_def enc_byteseq_def intro: writes_weaken)

lemma writes_og_get: "i < 8 \<Longrightarrow> writes (f (og_byte g i)) e \<Longrightarrow> writes (bindS (og_get g i) f) e"
  by (simp add: og_get_def)

lemma ucast_u8_u32_0: "(ucast (x :: u8) :: u32) = 0 \<longleftrightarrow> x = 0"
  using bit_ge_length[where x = x] by (auto simp: bit_eq_iff bit_simps) (meson not_le)

lemma writes_WriteGuidMaskList:
  assumes "set offs \<subseteq> {0..<8}"
  shows "writes (WriteGuidMaskList g offs) (\<lambda>k. map (\<lambda>i. og_byte g i \<noteq> 0) offs)"
proof -
  have "writes (WriteGuidMaskList g offs) (enc_list (\<lambda>i k. [og_byte g i \<noteq> 0]) offs)"
    unfolding WriteGuidMaskList_def
  proof (rule writes_forS)
    fix i assume "i \<in> set offs"
    with assms have "i < 8" by auto
    then show "writes (bindS (og_get g i) (\<lambda>x. write_bit (ucast x))) (\<lambda>k. [og_byte g i \<noteq> 0])"
      using writes_write_bit[of "ucast (og_byte g i)"]
      by (intro writes_og_get) (simp_all add: ucast_u8_u32_0)
  qed
  then show ?thesis by (simp add: enc_list_singleton)
qed

lemma writes_WriteGuidBytesList:
  assumes "set offs \<subseteq> {0..<8}"
  shows "writes (WriteGuidBytesList g offs) (enc_list (\<lambda>i. enc_byteseq (og_byte g i)) offs)"
  unfolding WriteGuidBytesList_def
  by (intro writes_forS writes_og_get writes_WriteByteSeq) (use assms in auto)

lemma reads_foldS_og:
  assumes "set offs \<subseteq> {0..<8}" and "segment st k (enc_list e offs k)" and "P g"
    and step: "\<And>i h k. i \<in> set offs \<Longrightarrow> P h \<Longrightarrow> segment st k (e i k) \<Longrightarrow>
       reads (f i h) st k (og_put h i (c i)) (k + length (e i k))"
    and keep: "\<And>i h. i \<in> set offs \<Longrightarrow> P h \<Longrightarrow> P (og_put h i (c i))"
  shows "reads (foldS f offs g) st k (og_fill c offs g) (k + length (enc_list e offs k))"
  using assms
proof (induction offs arbitrary: g k)
  case (Cons i offs)
  from Cons.prems(2) have 1: "segment st k (e i k)"
    and 2: "segment st (k + length (e i k)) (enc_list e offs (k + length (e i k)))"
    by (simp_all add: segment_append)
  have "reads (foldS f offs (og_put g i (c i))) st (k + length (e i k)) (og_fill c offs (og_put g i (c i)))
     (k + length (e i k) + length (enc_list e offs (k + length (e i k))))"
    using Cons.prems 2 by (intro Cons.IH) auto
  moreover have "reads (f i g) st k (og_put g i (c i)) (k + length (e i k))"
    using Cons.prems 1 by simp
  ultimately show ?case by (simp add: reads_bindS add.assoc)
qed (auto intro: reads_retS)

lemma reads_ReadGuidMaskList:
  assumes "set offs \<subseteq> {0..<8}" and "segment st k (map m offs)"
  shows "reads (ReadGuidMaskList g offs) st k (og_fill (\<lambda>i. of_bool (m i)) offs g) (k + length offs)"
proof -
  have "segment st k (enc_list (\<lambda>i k. [m i]) offs k)" using assms(2) by (simp add: enc_list_singleton)
  then have "reads (ReadGuidMaskList g offs) st k (og_fill (\<lambda>i. of_bool (m i)) offs g)
     (k + length (enc_list (\<lambda>i k. [m i]) offs k))"
    unfolding ReadGuidMaskList_def
  proof (rule reads_foldS_og[OF assms(1), where P = "\<lambda>_. True"])
    fix i h k assume i: "i \<in> set offs" and "segment st k [m i]"
    then have "reads ReadBit st k (m i) (Suc k)"
      using reads_ReadBit[of k st] segment_single[of st k "m i"] by simp
    moreover have "reads (og_set h i (of_bool (m i))) st (Suc k) (og_put h i (of_bool (m i))) (Suc k)"
      using i assms(1) by (auto simp: og_set_def intro: reads_retS)
    ultimately show "reads (bindS ReadBit (\<lambda>x. og_set h i (of_bool x))) st k (og_put h i (of_bool (m i))) (k + length [m i])"
      by (auto intro: reads_bindS)
  qed simp_all
  then show ?thesis by (simp add: enc_list_singleton)
qed

lemma reads_ReadByteSeq:
  assumes "segment st k (enc_byteseq x k)"
  shows "reads (ReadByteSeq (of_bool (x \<noteq> 0))) st k x (k + length (enc_byteseq x k))"
proof (cases "x = 0")
  case False
  then have "segment st k (pad k @ bits_of [x XOR 1])" using assms by (simp add: enc_byteseq_def)
  then have "reads read_val st k (x XOR 1) (k + length (enc_byteseq x k))"
    using reads_read_val[where 'a = 8, of st k "[x XOR 1]"] False
    by (simp add: enc_byteseq_def add.assoc)
  then have "reads (bindS read_val (\<lambda>r. retS (1 XOR r))) st k (1 XOR (x XOR 1)) (k + length (enc_byteseq x k))"
    by (rule reads_bindS) (rule reads_retS)
  moreover have "1 XOR (x XOR 1) = x" by (rule bit_word_eqI) (auto simp: bit_simps)
  ultimately show ?thesis using False by (simp add: ReadByteSeq_def)
qed (auto simp: enc_byteseq_def ReadByteSeq_def intro: reads_retS)

lemma reads_ReadGuidBytesList:
  assumes offs: "set offs \<subseteq> {0..<8}" "distinct offs"
    and seg: "segment st k (enc_list (\<lambda>i. enc_byteseq (c i)) offs k)"
    and mask: "\<And>i. i \<in> set offs \<Longrightarrow> og_byte g i = of_bool (c i \<noteq> 0)"
  shows "reads (ReadGuidBytesList g offs) st k (og_fill c offs g)
     (k + length (enc_list (\<lambda>i. enc_byteseq (c i)) offs k))"
  using assms
proof (induction offs arbitrary: g k)
  case (Cons i offs)
  let ?e = "enc_byteseq (c i) k"
  have i: "i < 8" using Cons.prems by simp
  have seg: "segment st k ?e" "segment st (k + length ?e) (enc_list (\<lambda>i. enc_byteseq (c i)) offs (k + length ?e))"
    using Cons.prems(3) by (simp_all add: segment_append)
  have step: "reads (bindS (og_get g i) (\<lambda>x. bindS (ReadByteSeq x) (og_set g i))) st k (og_put g i (c i)) (k + length ?e)"
  proof -
    have "reads (bindS (ReadByteSeq (of_bool (c i \<noteq> 0))) (og_set g i)) st k (og_put g i (c i)) (k + length ?e)"
      using i reads_ReadByteSeq[OF seg(1)] by (rule_tac reads_bindS) (auto simp: og_set_def intro: reads_retS)
    then show ?thesis using i Cons.prems(4)[of i] by (simp add: og_get_def)
  qed
  have "og_byte (og_put g i (c i)) j = of_bool (c j \<noteq> 0)" if "j \<in> set offs" for j
    using that Cons.prems i by (subst og_byte_put) auto
  then have "reads (ReadGuidBytesList (og_put g i (c i)) offs) st (k + length ?e) (og_fill c offs (og_put g i (c i)))
     (k + length ?e + length (enc_list (\<lambda>i. enc_byteseq (c i)) offs (k + length ?e)))"
    using Cons.prems seg(2) by (intro Cons.IH) auto
  with step show ?case by (simp add: ReadGuidBytesList_def reads_bindS add.assoc)
qed (auto simp: ReadGuidBytesList_def intro: reads_retS)

subsection \<open>Fields\<close>

text \<open>
  A packet format is a list of fields: bit fields, integers, strings of known length
  (\<open>WriteString\<close> / \<open>ReadString\<close>), guids as a bit mask followed by their nonzero bytes, in
  orders the packet chooses. \<open>ReadString\<close> stops at a zero byte, and for length 0 does not
  move to a byte boundary where \<open>WriteString\<close> does, so \<open>field_ok\<close> asks for nonempty strings
  without zeros.
\<close>

datatype field =
    F_bits nat u32 | F_u8 u8 | F_u16 u16 | F_u32 u32 | F_u64 u64 | F_string "u8 list"
  | F_guid "nat list" "nat list" u64

datatype field_shape =
    H_bits nat | H_u8 | H_u16 | H_u32 | H_u64 | H_string nat | H_guid "nat list" "nat list"

fun field_shape_of :: "field \<Rightarrow> field_shape" where
  "field_shape_of (F_bits n v) = H_bits n"
| "field_shape_of (F_u8 v) = H_u8"
| "field_shape_of (F_u16 v) = H_u16"
| "field_shape_of (F_u32 v) = H_u32"
| "field_shape_of (F_u64 v) = H_u64"
| "field_shape_of (F_string s) = H_string (length s)"
| "field_shape_of (F_guid mo bo g) = H_guid mo bo"

fun field_ok :: "field \<Rightarrow> bool" where
  "field_ok (F_bits n v) \<longleftrightarrow> n \<le> 32 \<and> take_bit n v = v"
| "field_ok (F_string s) \<longleftrightarrow> s \<noteq> [] \<and> (\<forall>c\<in>set s. c \<noteq> 0)"
| "field_ok (F_guid mo bo g) \<longleftrightarrow> set mo = {0..<8} \<and> distinct mo \<and> set bo = {0..<8} \<and> distinct bo"
| "field_ok _ \<longleftrightarrow> True"

fun write_field :: "field \<Rightarrow> unit bb" where
  "write_field (F_bits n v) = WriteBits v n"
| "write_field (F_u8 v) = append_val v"
| "write_field (F_u16 v) = append_val v"
| "write_field (F_u32 v) = append_val v"
| "write_field (F_u64 v) = append_val v"
| "write_field (F_string s) = WriteString s"
| "write_field (F_guid mo bo g) = seqS (WriteGuidMaskList g mo) (WriteGuidBytesList g bo)"

fun read_field :: "field_shape \<Rightarrow> field bb" where
  "read_field (H_bits n) = bindS (ReadBits n) (\<lambda>v. retS (F_bits n v))"
| "read_field H_u8 = bindS read_val (\<lambda>v. retS (F_u8 v))"
| "read_field H_u16 = bindS read_val (\<lambda>v. retS (F_u16 v))"
| "read_field H_u32 = bindS read_val (\<lambda>v. retS (F_u32 v))"
| "read_field H_u64 = bindS read_val (\<lambda>v. retS (F_u64 v))"
| "read_field (H_string n) = bindS (ReadString n) (\<lambda>s. retS (F_string s))"
| "read_field (H_guid mo bo) = bindS (ReadGuidMaskList 0 mo) (\<lambda>g.
     bindS (ReadGuidBytesList g bo) (\<lambda>g. retS (F_guid mo bo g)))"

fun enc_field :: "field \<Rightarrow> nat \<Rightarrow> bool list" where
  "enc_field (F_bits n v) k = val_bits n v"
| "enc_field (F_u8 v) k = pad k @ bits_of (le_bytes v)"
| "enc_field (F_u16 v) k = pad k @ bits_of (le_bytes v)"
| "enc_field (F_u32 v) k = pad k @ bits_of (le_bytes v)"
| "enc_field (F_u64 v) k = pad k @ bits_of (le_bytes v)"
| "enc_field (F_string s) k = pad k @ bits_of s"
| "enc_field (F_guid mo bo g) k = map (\<lambda>i. og_byte g i \<noteq> 0) mo
     @ enc_list (\<lambda>i. enc_byteseq (og_byte g i)) bo (k + length mo)"

lemma writes_write_field: "field_ok f \<Longrightarrow> writes (write_field f) (enc_field f)"
proof (cases f)
  case (F_bits n v)
  assume "field_ok f"
  then have "writes (WriteBits v n) (\<lambda>k. val_bits n v)" using F_bits by (intro writes_WriteBits) simp
  then show ?thesis using F_bits by (auto intro: writes_weaken)
next
  case (F_guid mo bo g)
  assume "field_ok f"
  then have s: "set mo \<subseteq> {0..<8}" "set bo \<subseteq> {0..<8}" using F_guid by auto
  show ?thesis using F_guid
    writes_seqS[OF writes_WriteGuidMaskList[OF s(1)] writes_WriteGuidBytesList[OF s(2)], of g g]
    by (auto intro: writes_weaken)
qed (auto intro: writes_weaken[OF writes_append_val] writes_weaken[OF writes_WriteString])


lemma reads_read_bytes:
  assumes "segment st k (pad k @ bits_of bs)"
  shows "reads (read_bytes (length bs)) st k bs (k + length (pad k) + 8 * length bs)"
proof (rule readsI)
  fix b assume b: "reader_at b k" "storage b = st"
  let ?q = "(k + 7) div 8"
  note seg = segment_bytesD[OF assms]
  have st: "length st < 2 ^ 60" and rpos: "rpos b = ?q" using b by (auto simp: reader_at_def)
  have add: "size_add ?q (length bs) = ?q + length bs"
    using seg(2) st by (intro size_add_small) simp
  have "read_bytes (length bs) b = (Inr bs, b\<lparr>rpos := ?q + length bs, rbitpos := 8\<rparr>)"
    using seg by (simp add: read_bytes_def b(2) rpos add)
  moreover have "k + length (pad k) + 8 * length bs = 8 * (?q + length bs)" by (simp add: ceil_pad)
  then have "reader_at (b\<lparr>rpos := ?q + length bs, rbitpos := 8\<rparr>) (k + length (pad k) + 8 * length bs)"
    using seg(2) st by (simp add: reader_at_def b(2))
  ultimately show "\<exists>c. read_bytes (length bs) b = (Inr bs, c)
      \<and> reader_at c (k + length (pad k) + 8 * length bs) \<and> storage c = st"
    using b(2) by simp
qed

lemma reads_field_val:
  assumes "segment st k (pad k @ bits_of (le_bytes (v :: 'a::len word)))" and "8 dvd LENGTH('a)" and "LENGTH('a) \<le> 64"
  shows "reads (bindS read_val (\<lambda>v. retS (F v))) st k (F v) (k + length (pad k) + 8 * (LENGTH('a) div 8))"
  using reads_read_val[where 'a = 'a, of st k "le_bytes v"] assms
  by (auto intro!: reads_bindS[OF _ reads_retS])

lemma reads_read_field:
  assumes seg: "segment st k (enc_field f k)" and ok: "field_ok f"
  shows "reads (read_field (field_shape_of f)) st k f (k + length (enc_field f k))"
proof (cases f)
  case (F_bits n v)
  then show ?thesis
    using reads_ReadBits[of st k n v] seg ok by (auto intro!: reads_bindS[OF _ reads_retS])
next
  case (F_string s)
  then have tw: "takeWhile (\<lambda>c. c \<noteq> 0) s = s" and ne: "s \<noteq> []"
    using ok by (auto simp: takeWhile_eq_all_conv)
  have "reads (read_bytes (length s)) st k s (k + length (pad k) + 8 * length s)"
    using reads_read_bytes[of st k s] seg F_string by simp
  then have "reads (bindS (read_bytes (length s)) (\<lambda>buf. retS (takeWhile (\<lambda>c. c \<noteq> 0) buf))) st k
      (takeWhile (\<lambda>c. c \<noteq> 0) s) (k + length (pad k) + 8 * length s)"
    by (rule reads_bindS) (rule reads_retS)
  then have "reads (ReadString (length s)) st k s (k + length (enc_field (F_string s) k))"
    unfolding tw using ne by (simp add: ReadString_def add.assoc)
  then show ?thesis unfolding F_string field_shape_of.simps read_field.simps
    by (rule reads_bindS) (rule reads_retS)
next
  case (F_guid mo bo g)
  let ?m = "og_fill (\<lambda>i. of_bool (og_byte g i \<noteq> 0)) mo 0"
  let ?e = "enc_list (\<lambda>i. enc_byteseq (og_byte g i)) bo (k + length mo)"
  have mo: "set mo = {0..<8}" "distinct mo" and bo: "set bo = {0..<8}" "distinct bo"
    using ok F_guid by auto
  have sm: "segment st k (map (\<lambda>i. og_byte g i \<noteq> 0) mo)" and sb: "segment st (k + length mo) ?e"
    using seg F_guid by (simp_all add: segment_append)
  have "reads (ReadGuidMaskList 0 mo) st k ?m (k + length mo)"
    using reads_ReadGuidMaskList[OF _ sm] mo by simp
  moreover have "reads (ReadGuidBytesList ?m bo) st (k + length mo) (og_fill (og_byte g) bo ?m) (k + length mo + length ?e)"
    by (rule reads_ReadGuidBytesList[OF _ bo(2) sb]) (use mo bo in \<open>auto simp: og_byte_fill\<close>)
  ultimately show ?thesis using F_guid og_fill_all[OF bo(1)]
    by (auto simp: add.assoc intro!: reads_bindS[OF _ reads_retS] intro: reads_bindS)
qed (use seg reads_field_val[where F = F_u8] reads_field_val[where F = F_u16]
      reads_field_val[where F = F_u32] reads_field_val[where F = F_u64] in \<open>auto simp: add.assoc\<close>)

text \<open>
  The buffer provides the contract \<open>packet_codec\<close>, with itself as output and as input.
\<close>

definition bb_out :: "ByteBuffer \<Rightarrow> bool list \<Rightarrow> bool" where
  "bb_out b bs \<longleftrightarrow> writer b \<and> written b = bs \<and> rpos b = 0 \<and> rbitpos b = 8"

definition bb_in :: "ByteBuffer \<Rightarrow> bool list \<Rightarrow> nat \<Rightarrow> bool" where
  "bb_in b bs k \<longleftrightarrow> reader_at b k \<and> bits_of (storage b) = bs"

interpretation bb: packet_codec write_field read_field field_shape_of enc_field field_ok
  bb_out bb_in "\<lambda>n. n \<le> max_bits"
proof unfold_locales
  fix s bs f
  assume "bb_out s bs" "field_ok f" "length bs + length (enc_field f (length bs)) \<le> max_bits"
  then show "\<exists>s'. write_field f s = (Inr (), s') \<and> bb_out s' (bs @ enc_field f (length bs))"
    using writes_write_field[of f] unfolding writes_def bb_out_def by fastforce
next
  fix t pre f post
  assume t: "bb_in t (pre @ enc_field f (length pre) @ post) (length pre)" and ok: "field_ok f"
  then have "segment (storage t) (length pre) (enc_field f (length pre))"
    unfolding bb_in_def segment_def by auto
  from reads_read_field[OF this ok] t
  show "\<exists>t'. read_field (field_shape_of f) t = (Inr f, t') \<and> bb_in t' (pre @ enc_field f (length pre) @ post)
      (length pre + length (enc_field f (length pre)))"
    unfolding reads_def bb_in_def by auto
qed simp

lemma bb_new_out: "bb_out bb_new []"
  by (simp add: bb_out_def bb_new_def writer_def written_def)

definition packet_bits :: "field list \<Rightarrow> nat" where
  "packet_bits fs = length (enc_list enc_field fs 0)"

lemma FlushBits_out:
  assumes "bb_out s bs" and "length bs + length (pad (length bs)) \<le> max_bits"
  shows "\<exists>b. FlushBits s = (Inr (), b) \<and> bb_in b (bs @ pad (length bs)) 0"
proof -
  have s: "writer s" "length (written s) + length (pad (length (written s))) \<le> max_bits"
    using assms by (simp_all add: bb_out_def)
  obtain b where b: "FlushBits s = (Inr (), b)" "writer b" "written b = written s @ pad (length (written s))"
    "rpos b = rpos s" "rbitpos b = rbitpos s"
    by (rule writesD[OF writes_FlushBits s])
  have "wbitpos b = 8" using writer_aligned[OF b(2)] dvd_pad[of "length (written s)"] b(3) by simp
  then have *: "bits_of (storage b) = written b" by (simp add: written_def)
  moreover have "bb_size b < 2 ^ 60" 
    using arg_cong[OF *, of length] b(3) s(2) by (simp add: max_bits_def)
  ultimately show ?thesis using b assms
    by (auto simp: bb_in_def bb_out_def reader_at_def)
qed

lemma write_flush_read_back:
  assumes "\<forall>f\<in>set fs. field_ok f" and "packet_bits fs + 7 \<le> max_bits"
  shows "\<exists>b c. seqS (forS write_field fs) FlushBits bb_new = (Inr (), b)
    \<and> mapS read_field (map field_shape_of fs) b = (Inr fs, c)"
proof -
  have "\<exists>s. forS write_field fs bb_new = (Inr (), s) \<and> bb_out s (enc_list enc_field fs 0)"
    using bb.write_all[OF bb_new_out assms(1)] assms(2) by (simp add: packet_bits_def)
  then obtain s where s: "forS write_field fs bb_new = (Inr (), s)" "bb_out s (enc_list enc_field fs 0)" by blast
  have "length (pad n) \<le> 7" for n by (simp add: pad_def)
  then obtain b where b: "FlushBits s = (Inr (), b)"
     "bb_in b (enc_list enc_field fs 0 @ pad (packet_bits fs)) 0"
    using FlushBits_out[OF s(2)] assms(2) unfolding packet_bits_def by (meson add_left_mono order_trans)
  then show ?thesis using s bb.read_all[of b "[]" fs "pad (packet_bits fs)"] assms(1) by auto
qed

text \<open>C16. A sequence of fields is written into a fresh buffer and flushed; then a reader of the same format gets the
  same fields back, in any order and at any bit alignment. The fields are bit fields of at most 32 bits whose value
  fits, integers of 8 to 64 bits, strings that are not empty and hold no zero byte (an empty one is written with a
  flush but read without one), and guids whose eight mask bits and eight bytes come in any order that is a permutation;
  the whole packet stays below the bound \<open>max_bits\<close>.\<close>

theorem packet_roundtrip:
  assumes "\<forall>f\<in>set fs. field_ok f" and "packet_bits fs + 7 \<le> max_bits"
  shows "\<exists>b c. seqS (forS write_field fs) FlushBits bb_new = (Inr (), b)
    \<and> mapS read_field (map field_shape_of fs) b = (Inr fs, c)"
  using assms by (rule write_flush_read_back)

definition sample_packet :: "field list" where
  "sample_packet = [F_bits 3 5, F_guid (rev [0..<8]) [0..<8] 0xAB00010000000300,
     F_string [65, 66], F_u32 7]"

theorem packet_roundtrip_witness:
  "\<exists>b c. seqS (forS write_field sample_packet) FlushBits bb_new = (Inr (), b)
    \<and> mapS read_field (map field_shape_of sample_packet) b = (Inr sample_packet, c)"
proof (rule packet_roundtrip)
  show "\<forall>f\<in>set sample_packet. field_ok f" by (simp add: sample_packet_def)
  show "packet_bits sample_packet + 7 \<le> max_bits"
    by (simp add: packet_bits_def sample_packet_def upt_rec og_byte_def enc_byteseq_def pad_def max_bits_def)
qed

end
