(* ===== verification/PackedData.thy ===== *)
theory PackedData
  imports ByteBuffer
begin

text \<open>
  The compound encodings of \<open>ByteBuffer.h\<close>: packed guids (two mask bytes and the nonzero
  bytes of a 128-bit guid), packed times, and the stream operators on containers.
\<close>

subsection \<open>Packed guids\<close>

definition readPackGUID_half :: "u8 \<Rightarrow> u64 bb" where
  "readPackGUID_half msk = foldS (\<lambda>i acc. if bit msk i
       then bindS read_val (\<lambda>x :: u8. retS (acc OR push_bit (8 * i) (ucast x))) else retS acc)
     [0..<8] 0"

definition readPackGUID :: "u64 bb" where
  "readPackGUID b =
     (if size_add (rpos b) 1 > bb_size b
      then (Inl (PositionException False (rpos b) 1 (bb_size b)), b)
      else bindS read_val (\<lambda>maskLow. bindS read_val (\<lambda>maskHi.
             bindS (readPackGUID_half maskLow) (\<lambda>low. bindS (readPackGUID_half maskHi) (\<lambda>hi.
               retS (Guid128To64 \<lparr>g128_low = low, g128_hi = hi\<rparr>))))) b)"

definition or_at :: "nat \<Rightarrow> u8 \<Rightarrow> unit bb" where
  "or_at p x b = (if p < bb_size b
     then (Inr (), b\<lparr>storage := (storage b)[p := storage b ! p OR x]\<rparr>)
     else (Inl UndefinedBehaviour, b))"

definition appendPackGUID_half :: "nat \<Rightarrow> u64 \<Rightarrow> unit bb" where
  "appendPackGUID_half start v = forS (\<lambda>i.
     let cur = ucast (drop_bit (8 * i) v AND 0xFF) :: u8
     in if cur \<noteq> 0 then seqS (or_at start (push_bit i 1)) (append_val cur) else retS ()) [0..<8]"

definition appendPackGUID :: "u64 \<Rightarrow> unit bb" where
  "appendPackGUID guid b =
     (let g = Guid64To128 guid; start = wpos b mod 2 ^ 32
      in seqS (append_val (0 :: u8)) (seqS (append_val (0 :: u8))
           (seqS (appendPackGUID_half start (g128_low g))
                 (appendPackGUID_half (start + 1) (g128_hi g)))) b)"

subsection \<open>Packed times\<close>

text \<open>
  \<open>struct tm\<close>, as far as the buffer uses it. \<open>localtime_r\<close>, \<open>mktime\<close> and \<open>timezone\<close> depend
  on the host's time zone and are parameters.
\<close>

record tm =
  tm_min :: int
  tm_hour :: int
  tm_mday :: int
  tm_mon :: int
  tm_year :: int
  tm_wday :: int

definition pack_time :: "tm \<Rightarrow> u32" where
  "pack_time lt = push_bit 24 (word_of_int (tm_year lt - 100)) OR push_bit 20 (word_of_int (tm_mon lt))
     OR push_bit 14 (word_of_int (tm_mday lt - 1)) OR push_bit 11 (word_of_int (tm_wday lt))
     OR push_bit 6 (word_of_int (tm_hour lt)) OR word_of_int (tm_min lt)"

definition AppendPackedTime :: "(int \<Rightarrow> tm) \<Rightarrow> int \<Rightarrow> unit bb" where
  "AppendPackedTime localtime t = append_val (pack_time (localtime t))"

definition unpack_time :: "u32 \<Rightarrow> tm" where
  "unpack_time d = \<lparr>tm_min = uint (d AND 0x3F), tm_hour = uint (drop_bit 6 d AND 0x1F),
     tm_mday = uint (drop_bit 14 d AND 0x3F) + 1, tm_mon = uint (drop_bit 20 d AND 0xF),
     tm_year = uint (drop_bit 24 d AND 0x1F) + 100, tm_wday = 0\<rparr>"

definition ReadPackedTime :: "(tm \<Rightarrow> int) \<Rightarrow> int \<Rightarrow> u32 bb" where
  "ReadPackedTime mktime timezone =
     bindS read_val (\<lambda>d. retS (word_of_int (mktime (unpack_time d) + timezone)))"

subsection \<open>Containers\<close>

text \<open>The stream operators on vectors and lists, for an element type with stream operators.\<close>

definition write_vector :: "('a \<Rightarrow> unit bb) \<Rightarrow> 'a list \<Rightarrow> unit bb" where
  "write_vector wr v = seqS (append_val (word_of_nat (length v) :: u32)) (forS wr v)"

definition read_vector :: "'a bb \<Rightarrow> 'a list bb" where
  "read_vector rd = bindS read_val (\<lambda>n :: u32. repeatS (unat n) rd)"

text \<open>Maps: written in key order, read by \<open>insert\<close>, which keeps the first of equal keys.\<close>

definition write_map :: "('k \<Rightarrow> unit bb) \<Rightarrow> ('v \<Rightarrow> unit bb) \<Rightarrow> ('k \<times> 'v) list \<Rightarrow> unit bb" where
  "write_map wk wv m = seqS (append_val (word_of_nat (length m) :: u32))
     (forS (\<lambda>(k, v). seqS (wk k) (wv v)) m)"

definition map_insert :: "'k \<Rightarrow> 'v \<Rightarrow> ('k \<rightharpoonup> 'v) \<Rightarrow> ('k \<rightharpoonup> 'v)" where
  "map_insert k v m = (if m k = None then m(k \<mapsto> v) else m)"

definition read_map :: "'k bb \<Rightarrow> 'v bb \<Rightarrow> ('k \<rightharpoonup> 'v) bb" where
  "read_map rk rv = bindS read_val (\<lambda>n :: u32.
     bindS (repeatS (unat n) (bindS rk (\<lambda>k. bindS rv (\<lambda>v. retS (k, v)))))
       (\<lambda>kvs. retS (fold (\<lambda>(k, v). map_insert k v) kvs Map.empty)))"

subsection \<open>Packed guids: bytes written and read back\<close>

text \<open>
  \<open>nz_mask\<close> and \<open>nz_bytes\<close> are the mask and the nonzero bytes of one half,
  \<open>pack_bytes\<close> the whole encoding.
\<close>

definition nz_mask :: "u64 \<Rightarrow> nat list \<Rightarrow> u8" where
  "nz_mask v is = foldr (\<lambda>i m. if og_byte v i \<noteq> 0 then push_bit i 1 OR m else m) is 0"

definition nz_bytes :: "u64 \<Rightarrow> nat list \<Rightarrow> u8 list" where
  "nz_bytes v is = filter (\<lambda>x. x \<noteq> 0) (map (og_byte v) is)"

lemma nz_simps [simp]:
  "nz_mask v [] = 0" "nz_bytes v [] = []"
  "nz_mask v (i # is) = (if og_byte v i \<noteq> 0 then push_bit i 1 OR nz_mask v is else nz_mask v is)"
  "nz_bytes v (i # is) = (if og_byte v i \<noteq> 0 then og_byte v i # nz_bytes v is else nz_bytes v is)"
  by (simp_all add: nz_mask_def nz_bytes_def)

lemma length_nz_bytes: "length (nz_bytes v is) \<le> length is"
  unfolding nz_bytes_def by (metis length_filter_le length_map)

lemma bit_nz_mask: "set is \<subseteq> {0..<8} \<Longrightarrow> bit (nz_mask v is) n \<longleftrightarrow> n \<in> set is \<and> og_byte v n \<noteq> 0"
  by (induction "is") (auto simp: bit_simps)

lemma cur_eq_og_byte: "(ucast (drop_bit (8 * i) v AND 0xFF) :: u8) = og_byte v i"
  by (rule bit_word_eqI) (auto simp: and_mask_numerals og_byte_def bit_simps)

lemma append_val_aligned:
  assumes "wbitpos b = 8" and "wpos b = bb_size b" and "bb_size b < 10000000"
  shows "append_val (x :: u8) b = (Inr (), b\<lparr>storage := storage b @ [x], wpos := bb_size b + 1\<rparr>)"
  using assms by (simp add: append_val_def FlushBits_def append_bytes_end)

lemma append_val_pending:
  assumes "wpos b = bb_size b" and "bb_size b + 1 < 10000000" and "wbitpos b \<noteq> 8"
  shows "append_val (x :: u8) b = (Inr (), b\<lparr>storage := storage b @ [curbitval b, x], wpos := bb_size b + 2,
     wbitpos := 8, curbitval := 0\<rparr>)"
  using assms by (simp add: append_val_def FlushBits_def append_bytes_end)

lemma appendPackGUID_half_eq:
  assumes "wbitpos b = 8" and "wpos b = bb_size b" and "start < bb_size b" and "bb_size b + length is \<le> 10000000"
  shows "forS (\<lambda>i. let cur = ucast (drop_bit (8 * i) v AND 0xFF) :: u8
     in if cur \<noteq> 0 then seqS (or_at start (push_bit i 1)) (append_val cur) else retS ()) is b =
    (Inr (), b\<lparr>storage := (storage b)[start := storage b ! start OR nz_mask v is] @ nz_bytes v is,
       wpos := bb_size b + length (nz_bytes v is)\<rparr>)"
  using assms
proof (induction "is" arbitrary: b)
  case (Cons i "is")
  show ?case
  proof (cases "og_byte v i = 0")
    case True
    then show ?thesis using Cons.IH[of b] Cons.prems by (simp add: cur_eq_og_byte)
  next
    case False
    let ?c = "b\<lparr>storage := (storage b)[start := storage b ! start OR push_bit i 1] @ [og_byte v i], wpos := bb_size b + 1\<rparr>"
    have "append_val (og_byte v i) (b\<lparr>storage := (storage b)[start := storage b ! start OR push_bit i 1]\<rparr>) = (Inr (), ?c)"
      using Cons.prems by (subst append_val_aligned) simp_all
    moreover have "or_at start (push_bit i 1) b = (Inr (), b\<lparr>storage := (storage b)[start := storage b ! start OR push_bit i 1]\<rparr>)"
      using Cons.prems by (simp add: or_at_def)
    ultimately show ?thesis
      using Cons.IH[of ?c] Cons.prems False
      by (simp add: cur_eq_og_byte list_update_append nth_append or.assoc)
  qed
qed simp

lemma appendPackGUID_eq:
  fixes guid :: u64
  assumes "writer b" and "bb_size b + 19 \<le> 10000000"
  defines "g \<equiv> Guid64To128 guid" and "pend \<equiv> (if wbitpos b = 8 then [] else [curbitval b])"
  defines "st \<equiv> storage b @ pend @ [0, 0]" and "n \<equiv> bb_size b"
  defines "bytes \<equiv> nz_bytes (g128_low g) [0..<8] @ nz_bytes (g128_hi g) [0..<8]"
  shows "appendPackGUID guid b = (Inr (), b\<lparr>
     storage := st[n := st ! n OR nz_mask (g128_low g) [0..<8],
                   Suc n := st ! Suc n OR nz_mask (g128_hi g) [0..<8]] @ bytes,
     wpos := length st + length bytes, wbitpos := 8, curbitval := 0\<rparr>)"
proof -
  let ?c = "b\<lparr>storage := st, wpos := length st, wbitpos := 8, curbitval := 0\<rparr>"
  have wpos: "wpos b = bb_size b" using assms(1) by (simp add: writer_def)
  have cur0: "curbitval b = 0" if "wbitpos b = 8"
    using assms(1) that bit_ge_length[of _ "curbitval b"] by (intro bit_word_eqI) (auto simp: writer_def)
  have start: "wpos b mod 2 ^ 32 = n" using assms(2) by (simp add: wpos n_def)
  have pre: "seqS (append_val (0 :: u8)) (append_val (0 :: u8)) b = (Inr (), ?c)"
  proof (cases "wbitpos b = 8")
    case True
    then have "curbitval b = 0" by (rule cur0)
    then show ?thesis using True assms(2) wpos
      by (simp add: append_val_aligned st_def pend_def seqS_def bindS_def)
  next
    case False
    then show ?thesis using assms(2) wpos
      by (simp add: append_val_pending append_val_aligned st_def pend_def seqS_def bindS_def)
  qed
  let ?d = "?c\<lparr>storage := st[n := st ! n OR nz_mask (g128_low g) [0..<8]] @ nz_bytes (g128_low g) [0..<8],
       wpos := length st + length (nz_bytes (g128_low g) [0..<8])\<rparr>"
  have lst: "length st \<le> n + 3" "Suc n < length st" by (simp_all add: st_def pend_def n_def)
  have low: "appendPackGUID_half n (g128_low g) ?c = (Inr (), ?d)"
    unfolding appendPackGUID_half_def using lst assms(2)
    by (subst appendPackGUID_half_eq) (simp_all add: n_def)
  have "length (nz_bytes (g128_low g) [0..<8]) \<le> 8"
    using length_nz_bytes[of "g128_low g" "[0..<8]"] by simp
  then have hi: "appendPackGUID_half (Suc n) (g128_hi g) ?d = (Inr (), b\<lparr>
     storage := st[n := st ! n OR nz_mask (g128_low g) [0..<8],
                   Suc n := st ! Suc n OR nz_mask (g128_hi g) [0..<8]] @ bytes,
     wpos := length st + length bytes, wbitpos := 8, curbitval := 0\<rparr>)"
    unfolding appendPackGUID_half_def using lst assms(2)
    by (subst appendPackGUID_half_eq) (simp_all add: n_def bytes_def list_update_append nth_append)
  show ?thesis
    using pre low hi
    by (simp add: appendPackGUID_def Let_def start[simplified] flip: g_def seqS_assoc)
qed

lemma pack_aligned:
  fixes guid :: u64
  assumes "writer b" and "wbitpos b = 8" and "bb_size b + 19 \<le> 10000000"
  defines "g \<equiv> Guid64To128 guid"
  defines "bytes \<equiv> nz_bytes (g128_low g) [0..<8] @ nz_bytes (g128_hi g) [0..<8]"
  shows "appendPackGUID guid b = (Inr (), b\<lparr>
     storage := storage b @ [nz_mask (g128_low g) [0..<8], nz_mask (g128_hi g) [0..<8]] @ bytes,
     wpos := bb_size b + 2 + length bytes, wbitpos := 8, curbitval := 0\<rparr>)"
  unfolding appendPackGUID_eq[OF assms(1,3)] 
  by (simp add: assms(2) g_def bytes_def nth_append list_update_append)


lemma reads_u8:
  assumes "segment st (8 * q) (bits_of (x # bs))"
  shows "reads (read_val :: u8 bb) st (8 * q) x (8 * Suc q)" and "segment st (8 * Suc q) (bits_of bs)"
proof -
  have "segment st (8 * q) (byte_bits x)" and s: "segment st (8 * q + 8) (bits_of bs)"
    using assms by (simp_all add: segment_append)
  then have "segment st (8 * q) (pad (8 * q) @ bits_of [x])" by simp
  from reads_read_val[where 'a = 8, OF this] show "reads (read_val :: u8 bb) st (8 * q) x (8 * Suc q)"
    by (simp add: add.commute)
  show "segment st (8 * Suc q) (bits_of bs)" using s by (simp add: add.commute)
qed

lemma reads_half_aux:
  fixes acc :: u64
  assumes "segment st (8 * q) (bits_of (nz_bytes v is))" and "\<And>i. i \<in> set is \<Longrightarrow> bit msk i \<longleftrightarrow> og_byte v i \<noteq> 0"
  shows "reads (foldS (\<lambda>i acc. if bit msk i
       then bindS read_val (\<lambda>x :: u8. retS (acc OR push_bit (8 * i) (ucast x))) else retS acc) is acc)
     st (8 * q) (fold (\<lambda>i a. a OR push_bit (8 * i) (ucast (og_byte v i))) is acc) (8 * (q + length (nz_bytes v is)))"
  using assms
proof (induction "is" arbitrary: q acc)
  case Nil
  show ?case unfolding foldS.simps nz_simps by (simp add: reads_retS del: retS_apply)
next
  case (Cons i "is")
  show ?case
  proof (cases "og_byte v i = 0")
    case True
    then show ?thesis using Cons.IH[of q acc] Cons.prems by simp
  next
    case False
    then have s: "segment st (8 * q) (bits_of (og_byte v i # nz_bytes v is))" using Cons.prems(1) by simp
    have "reads (bindS read_val (\<lambda>x :: u8. retS (acc OR push_bit (8 * i) (ucast x)))) st (8 * q)
       (acc OR push_bit (8 * i) (ucast (og_byte v i))) (8 * Suc q)"
      by (rule reads_bindS[OF reads_u8(1)[OF s]]) (rule reads_retS)
    moreover note Cons.IH[OF reads_u8(2)[OF s], of "acc OR push_bit (8 * i) (ucast (og_byte v i))"]
    ultimately show ?thesis using False Cons.prems(2)[of i] Cons.prems(2)
      by (auto intro: reads_bindS)
  qed
qed

lemma bit_fold_or_bytes:
  assumes "set is \<subseteq> {0..<8}"
  shows "bit (fold (\<lambda>i a. a OR push_bit (8 * i) (ucast (og_byte v i))) is (acc :: u64)) n \<longleftrightarrow>
     bit acc n \<or> n < 64 \<and> n div 8 \<in> set is \<and> bit v n"
  using assms
proof (induction "is" arbitrary: acc)
  case (Cons i "is")
  have "bit (push_bit (8 * i) (ucast (og_byte v i)) :: u64) n \<longleftrightarrow> n < 64 \<and> n div 8 = i \<and> bit v n"
    by (auto simp: bit_simps og_byte_def div_nat_eqI)
  then show ?case using Cons by (auto simp: bit_simps)
qed simp

lemma reads_half:
  assumes "segment st (8 * q) (bits_of (nz_bytes v [0..<8]))"
  shows "reads (readPackGUID_half (nz_mask v [0..<8])) st (8 * q) v (8 * (q + length (nz_bytes v [0..<8])))"
proof -
  have eq: "fold (\<lambda>i a. a OR push_bit (8 * i) (ucast (og_byte v i))) [0..<8] 0 = v"
    by (rule bit_word_eqI) (simp add: bit_fold_or_bytes less_mult_imp_div_less)
  show ?thesis unfolding readPackGUID_half_def
    by (rule reads_half_aux[OF assms, of "nz_mask v [0..<8]" 0, unfolded eq]) (simp add: bit_nz_mask)
qed

definition pack_bytes :: "Guid128 \<Rightarrow> u8 list" where
  "pack_bytes g = [nz_mask (g128_low g) [0..<8], nz_mask (g128_hi g) [0..<8]]
     @ nz_bytes (g128_low g) [0..<8] @ nz_bytes (g128_hi g) [0..<8]"

lemma reads_readPackGUID:
  assumes "segment st (8 * q) (bits_of (pack_bytes g))"
  shows "reads readPackGUID st (8 * q) (Guid128To64 g) (8 * (q + length (pack_bytes g)))"
proof -
  let ?l = "nz_bytes (g128_low g) [0..<8]" and ?h = "nz_bytes (g128_hi g) [0..<8]"
  let ?m = "nz_mask (g128_low g) [0..<8]" and ?n = "nz_mask (g128_hi g) [0..<8]"
  have s: "segment st (8 * q) (bits_of (?m # ?n # ?l @ ?h))" using assms by (simp add: pack_bytes_def)
  note s1 = reads_u8[OF s] note s2 = reads_u8[OF s1(2)]
  have "segment st (8 * Suc (Suc q)) (bits_of ?l)" and sh: "segment st (8 * (Suc (Suc q) + length ?l)) (bits_of ?h)"
    using s2(2) by (simp_all add: segment_append distrib_left add.assoc)
  note l = reads_half[OF this(1)] and h = reads_half[OF sh]
  let ?body = "bindS read_val (\<lambda>maskLow. bindS read_val (\<lambda>maskHi.
             bindS (readPackGUID_half maskLow) (\<lambda>low. bindS (readPackGUID_half maskHi) (\<lambda>hi.
               retS (Guid128To64 \<lparr>g128_low = low, g128_hi = hi\<rparr>)))))"
  have body: "reads ?body st (8 * q) (Guid128To64 \<lparr>g128_low = g128_low g, g128_hi = g128_hi g\<rparr>)
      (8 * (Suc (Suc q) + length ?l + length ?h))"
    by (intro reads_bindS[OF s1(1)] reads_bindS[OF s2(1)] reads_bindS[OF l] reads_bindS[OF h] reads_retS)
  have g: "\<lparr>g128_low = g128_low g, g128_hi = g128_hi g\<rparr> = g" by simp
  show ?thesis
  proof (rule readsI)
    fix b assume b: "reader_at b (8 * q)" "storage b = st"
    have "8 * q < 8 * length st"
      using segment_single[of st "8 * q"] s by (auto simp: byte_bits_def upt_rec segment_Cons[where bs = "_ # _"])
    then have "\<not> size_add (rpos b) 1 > bb_size b"
      using b by (simp add: reader_at_def)
    then have "readPackGUID b = ?body b" by (simp add: readPackGUID_def)
    moreover have "Suc (Suc q) + length ?l + length ?h = q + length (pack_bytes g)"
      by (simp add: pack_bytes_def)
    ultimately show "\<exists>c. readPackGUID b = (Inr (Guid128To64 g), c)
       \<and> reader_at c (8 * (q + length (pack_bytes g))) \<and> storage c = st"
      using body b unfolding reads_def g by metis
  qed
qed

lemma packguid_read_back:
  assumes "writer b" and "wbitpos b = 8" and "bb_size b + 19 \<le> 10000000"
  shows "\<exists>c d. appendPackGUID guid b = (Inr (), c)
    \<and> readPackGUID (set_rpos (bb_size b) c) = (Inr (Guid128To64 (Guid64To128 guid)), d)
    \<and> rpos d = bb_size c"
proof -
  let ?g = "Guid64To128 guid"
  let ?c = "b\<lparr>storage := storage b @ pack_bytes ?g, wpos := bb_size b + length (pack_bytes ?g), wbitpos := 8, curbitval := 0\<rparr>"
  have app: "appendPackGUID guid b = (Inr (), ?c)"
    using pack_aligned[OF assms, of guid] by (simp add: pack_bytes_def)
  let ?r = "set_rpos (bb_size b) ?c"
  have len: "length (pack_bytes ?g) \<le> 18"
    using length_nz_bytes[of "g128_low ?g" "[0..<8]"] length_nz_bytes[of "g128_hi ?g" "[0..<8]"]
    by (simp add: pack_bytes_def)
  have "reader_at ?r (8 * bb_size b)" using len assms(3) by (simp add: reader_at_def set_rpos_def)
  moreover have "segment (storage ?r) (8 * bb_size b) (bits_of (pack_bytes ?g))"
    unfolding segment_def by (rule exI[of _ "bits_of (storage b)"]) (simp add: set_rpos_def)
  ultimately obtain d where d: "readPackGUID ?r = (Inr (Guid128To64 ?g), d)"
      "reader_at d (8 * (bb_size b + length (pack_bytes ?g)))"
    using reads_readPackGUID unfolding reads_def by blast
  from d(2) have "rpos d = bb_size b + length (pack_bytes ?g)" by (simp add: reader_at_def)
  with app d(1) show ?thesis by auto
qed



text \<open>After unflushed bits a packed guid is not readable: \<open>appendPackGUID\<close> takes the write
  position before its first \<open>append\<close> flushes, so the low mask lands in the byte of the
  pending bits and the high mask where the low one belongs.\<close>

theorem packguid_after_bits:
  assumes "writer b" and "wbitpos b \<noteq> 8" and "bb_size b + 19 \<le> 10000000"
  shows "\<exists>c. appendPackGUID guid b = (Inr (), c) \<and> storage c = storage b
     @ [curbitval b OR nz_mask (g128_low (Guid64To128 guid)) [0..<8],
        nz_mask (g128_hi (Guid64To128 guid)) [0..<8], 0]
     @ nz_bytes (g128_low (Guid64To128 guid)) [0..<8] @ nz_bytes (g128_hi (Guid64To128 guid)) [0..<8]"
  using assms(2) unfolding appendPackGUID_eq[OF assms(1,3)]
  by (simp add: nth_append list_update_append)

definition one_bit_buffer :: ByteBuffer where
  "one_bit_buffer = snd (write_bit 1 bb_new)"

lemma one_bit_buffer_eq:
  "one_bit_buffer = \<lparr>rpos = 0, wpos = 0, wbitpos = 7, rbitpos = 8, curbitval = 0x80, storage = []\<rparr>"
  by (simp add: one_bit_buffer_def write_bit_def bindS_def WriteBit_def bb_new_def)

lemma one_bit_buffer_writer: "writer one_bit_buffer"
proof -
  have b: "writer bb_new" "length (written bb_new) + length [(1 :: u32) \<noteq> 0] \<le> max_bits"
    by (simp_all add: bb_new_def writer_def written_def max_bits_def)
  obtain c where "write_bit 1 bb_new = (Inr (), c)" "writer c"
    using writesD[OF writes_write_bit b] by blast
  then show ?thesis by (simp add: one_bit_buffer_def)
qed

theorem packguid_after_bits_witness:
  "\<exists>c. appendPackGUID 0 one_bit_buffer = (Inr (), c) \<and> storage c = [0x80, 0, 0]"
  using packguid_after_bits[OF one_bit_buffer_writer, of 0]
  by (simp add: one_bit_buffer_eq Guid64To128_def nz_mask_def nz_bytes_def og_byte_def upt_rec)

subsection \<open>Packed times\<close>

lemma int_bit_lt: "0 \<le> x \<Longrightarrow> x < 2 ^ k \<Longrightarrow> bit x i \<Longrightarrow> i < k" for x :: int
  by (metis bit_take_bit_iff take_bit_int_eq_self)

definition tm_packable :: "tm \<Rightarrow> bool" where
  "tm_packable t \<longleftrightarrow> 0 \<le> tm_min t \<and> tm_min t < 60 \<and> 0 \<le> tm_hour t \<and> tm_hour t < 24
     \<and> 1 \<le> tm_mday t \<and> tm_mday t \<le> 31 \<and> 0 \<le> tm_mon t \<and> tm_mon t < 12
     \<and> 100 \<le> tm_year t \<and> tm_year t < 132 \<and> 0 \<le> tm_wday t \<and> tm_wday t < 7"

lemma packed_field:
  fixes p :: u32
  assumes x: "0 \<le> x" "x < 2 ^ k" "k \<le> 32" and "take_bit k (drop_bit s p) = word_of_int x"
  shows "uint (take_bit k (drop_bit s p)) = x"
proof -
  have "x < 2 ^ 32" using x by (meson less_le_trans power_increasing one_le_numeral)
  then show ?thesis using x unfolding assms(4) by (simp add: uint_word_of_int)
qed

lemma packed_time_bits:
  assumes y: "0 \<le> y" "y < 2 ^ 5" and mo: "0 \<le> mo" "mo < 2 ^ 4" and d: "0 \<le> d" "d < 2 ^ 6"
    and w: "0 \<le> w" "w < 2 ^ 3" and h: "0 \<le> h" "h < 2 ^ 5" and mi: "0 \<le> mi" "mi < 2 ^ 6"
  defines "p \<equiv> push_bit 24 (word_of_int y) OR push_bit 20 (word_of_int mo)
           OR push_bit 14 (word_of_int d) OR push_bit 11 (word_of_int w)
           OR push_bit 6 (word_of_int h) OR word_of_int mi :: u32"
  shows "take_bit 6 (drop_bit 0 p) = word_of_int mi" and "take_bit 5 (drop_bit 6 p) = word_of_int h"
    and "take_bit 6 (drop_bit 14 p) = word_of_int d" and "take_bit 4 (drop_bit 20 p) = word_of_int mo"
    and "take_bit 5 (drop_bit 24 p) = word_of_int y"
proof -
  note lt = int_bit_lt[OF y] int_bit_lt[OF mo] int_bit_lt[OF d] int_bit_lt[OF w] int_bit_lt[OF h] int_bit_lt[OF mi]
  have p: "bit p n \<longleftrightarrow> n < 32 \<and> (24 \<le> n \<and> bit y (n - 24) \<or> 20 \<le> n \<and> bit mo (n - 20)
     \<or> 14 \<le> n \<and> bit d (n - 14) \<or> 11 \<le> n \<and> bit w (n - 11) \<or> 6 \<le> n \<and> bit h (n - 6) \<or> bit mi n)" for n
    by (auto simp: p_def bit_simps)
  show "take_bit 6 (drop_bit 0 p) = word_of_int mi"
    using lt by (intro bit_word_eqI) (auto simp: bit_simps p)
  show "take_bit 5 (drop_bit 6 p) = word_of_int h"
    using lt by (intro bit_word_eqI) (force simp: bit_simps p)
  show "take_bit 6 (drop_bit 14 p) = word_of_int d"
    using lt by (intro bit_word_eqI) (force simp: bit_simps p)
  show "take_bit 4 (drop_bit 20 p) = word_of_int mo"
    using lt by (intro bit_word_eqI) (force simp: bit_simps p)
  show "take_bit 5 (drop_bit 24 p) = word_of_int y"
    using lt by (intro bit_word_eqI) (force simp: bit_simps p)
qed


lemma unpack_packed_time:
  assumes "tm_packable t"
  shows "unpack_time (pack_time t) = t\<lparr>tm_wday := 0\<rparr>"
proof -
  have b: "0 \<le> tm_year t - 100" "tm_year t - 100 < 2 ^ 5" "0 \<le> tm_mon t" "tm_mon t < 2 ^ 4"
    "0 \<le> tm_mday t - 1" "tm_mday t - 1 < 2 ^ 6" "0 \<le> tm_wday t" "tm_wday t < 2 ^ 3"
    "0 \<le> tm_hour t" "tm_hour t < 2 ^ 5" "0 \<le> tm_min t" "tm_min t < 2 ^ 6"
    using assms by (auto simp: tm_packable_def)
  note bits = packed_time_bits[OF b, folded pack_time_def]
  have m: "(w :: u32) AND 0x3F = take_bit 6 w" "w AND 0x1F = take_bit 5 w" "w AND 0xF = take_bit 4 w" for w
    by (simp_all add: take_bit_eq_mask mask_eq_exp_minus_1)
  have "uint (take_bit 6 (drop_bit 0 (pack_time t))) = tm_min t"
    by (rule packed_field[OF b(11,12) _ bits(1)]) simp
  moreover have "uint (take_bit 5 (drop_bit 6 (pack_time t))) = tm_hour t"
    by (rule packed_field[OF b(9,10) _ bits(2)]) simp
  moreover have "uint (take_bit 6 (drop_bit 14 (pack_time t))) = tm_mday t - 1"
    by (rule packed_field[OF b(5,6) _ bits(3)]) simp
  moreover have "uint (take_bit 4 (drop_bit 20 (pack_time t))) = tm_mon t"
    by (rule packed_field[OF b(3,4) _ bits(4)]) simp
  moreover have "uint (take_bit 5 (drop_bit 24 (pack_time t))) = tm_year t - 100"
    by (rule packed_field[OF b(1,2) _ bits(5)]) simp
  ultimately show ?thesis by (simp only: unpack_time_def m drop_bit_0 id_apply) simp
qed

lemma append_val_read_back:
  fixes v :: "'a::len word"
  assumes "writer b" and "wbitpos b = 8" and "bb_size b < 10000000"
    and l: "8 dvd LENGTH('a)" "LENGTH('a) \<le> 64"
  shows "\<exists>c d. append_val v b = (Inr (), c) \<and> read_val (set_rpos (bb_size b) c) = (Inr v, d)"
proof -
  let ?c = "b\<lparr>storage := storage b @ le_bytes v, wpos := bb_size b + length (le_bytes v)\<rparr>"
  have "8 \<le> LENGTH('a)" using l(1) by (simp add: dvd_imp_le)
  then have ne: "le_bytes v \<noteq> []" by (auto dest!: arg_cong[of _ _ length] simp: div_eq_0_iff)
  have app: "append_val v b = (Inr (), ?c)"
    using assms(1-3) ne by (simp add: append_val_def FlushBits_def append_bytes_end writer_def)
  have "segment (storage ?c) (8 * bb_size b) (pad (8 * bb_size b) @ bits_of (le_bytes v))"
    unfolding segment_def by (rule exI[of _ "bits_of (storage b)"]) simp
  from reads_read_val[where 'a = 'a, OF this]
  have "reads read_val (storage ?c) (8 * bb_size b) v (8 * bb_size b + 8 * (LENGTH('a) div 8))"
    using l by simp
  moreover have "LENGTH('a) div 8 \<le> 8" using l(2) by linarith
  then have "reader_at (set_rpos (bb_size b) ?c) (8 * bb_size b)"
    using assms(3) by (simp add: reader_at_def set_rpos_def)
  moreover have "storage (set_rpos (bb_size b) ?c) = storage ?c" by (simp add: set_rpos_def)
  ultimately obtain d where "read_val (set_rpos (bb_size b) ?c) = (Inr v, d)"
    unfolding reads_def by blast
  with app show ?thesis by blast
qed

text \<open>A packed time read back is the same local time up to the day of the week, to which
  \<open>ReadPackedTime\<close> then adds the time zone.\<close>

theorem packed_time_roundtrip:
  assumes "tm_packable (localtime t)" and "writer b" and "wbitpos b = 8" and "bb_size b < 10000000"
  shows "\<exists>c d. AppendPackedTime localtime t b = (Inr (), c)
    \<and> ReadPackedTime mktime timezone (set_rpos (bb_size b) c)
      = (Inr (word_of_int (mktime ((localtime t)\<lparr>tm_wday := 0\<rparr>) + timezone)), d)"
proof -
  obtain c d where c: "AppendPackedTime localtime t b = (Inr (), c)"
    "read_val (set_rpos (bb_size b) c) = (Inr (pack_time (localtime t)), d)"
    using append_val_read_back[OF assms(2-4), of "pack_time (localtime t)"]
    by (auto simp: AppendPackedTime_def)
  have "ReadPackedTime mktime timezone (set_rpos (bb_size b) c)
      = (Inr (word_of_int (mktime ((localtime t)\<lparr>tm_wday := 0\<rparr>) + timezone)), d)"
    unfolding ReadPackedTime_def
    by (simp add: c(2) unpack_packed_time[OF assms(1)])
  with c(1) show ?thesis by blast
qed

definition utc_day_one :: "int \<Rightarrow> tm" where
  "utc_day_one t = \<lparr>tm_min = t div 60 mod 60, tm_hour = t div 3600, tm_mday = 1, tm_mon = 0, tm_year = 100, tm_wday = 6\<rparr>"

theorem packed_time_roundtrip_witness:
  "\<exists>c d. AppendPackedTime utc_day_one 4500 bb_new = (Inr (), c)
    \<and> ReadPackedTime (\<lambda>lt. 60 * tm_min lt + 3600 * tm_hour lt) 3600 (set_rpos 0 c) = (Inr 8100, d)"
  using packed_time_roundtrip[of utc_day_one 4500 bb_new "\<lambda>lt. 60 * tm_min lt + 3600 * tm_hour lt" 3600]
  by (simp add: tm_packable_def utc_day_one_def bb_new_def writer_def)

subsection \<open>Containers of fields\<close>

text \<open>A vector (or list) whose elements have stream operators is read back as written:
  here for elements that are packet fields of one shape.\<close>

theorem vector_roundtrip:
  assumes "\<forall>f\<in>set v. field_ok f \<and> field_shape_of f = h" and "length v < 2 ^ 32"
    and "packet_bits (F_u32 (word_of_nat (length v)) # v) + 7 \<le> max_bits"
  shows "\<exists>b c. seqS (write_vector write_field v) FlushBits bb_new = (Inr (), b)
    \<and> read_vector (read_field h) b = (Inr v, c)"
proof -
  let ?n = "word_of_nat (length v) :: u32"
  have shapes: "map field_shape_of v = replicate (length v) h"
    using assms(1) by (simp add: map_replicate_const[symmetric])
  obtain b c where w: "seqS (forS write_field (F_u32 ?n # v)) FlushBits bb_new = (Inr (), b)"
    and r: "mapS read_field (map field_shape_of (F_u32 ?n # v)) b = (Inr (F_u32 ?n # v), c)"
    using write_flush_read_back[of "F_u32 ?n # v"] assms(1,3) by auto
  have n: "unat ?n = length v" using assms(2) by (simp add: unsigned_of_nat take_bit_nat_eq_self)
  have "repeatS n (read_field h) = mapS read_field (replicate n h)" for n
    by (induction n) simp_all
  then have "\<exists>c. read_vector (read_field h) b = (Inr v, c)"
    using r unfolding read_vector_def by (auto simp: bind_simps shapes n)
  then show ?thesis using w by (auto simp: write_vector_def)
qed

theorem vector_roundtrip_witness:
  "\<exists>b c. seqS (write_vector write_field [F_u16 300, F_u16 7]) FlushBits bb_new = (Inr (), b)
    \<and> read_vector (read_field H_u16) b = (Inr [F_u16 300, F_u16 7], c)"
  using vector_roundtrip[of "[F_u16 300, F_u16 7]" H_u16]
  by (simp add: packet_bits_def pad_def max_bits_def)

end
