(* ===== verification/BufferSafety.thy ===== *)
theory BufferSafety
  imports PackedData
begin

text \<open>
  Strings in the stream, edits in place (\<open>PutBits\<close>), and the memory safety of the read
  operations of \<open>ByteBuffer.h\<close>.
\<close>

subsection \<open>Strings in the stream\<close>

text \<open>A string written with the stream operator after unflushed bits precedes them: only
  its terminator flushes.\<close>

theorem string_after_bits:
  assumes "writer b" and "wbitpos b \<noteq> 8" and "s \<noteq> []" and "bb_size b + length s + 2 \<le> 10000000"
  shows "\<exists>c. write_string s b = (Inr (), c) \<and> storage c = storage b @ s @ [curbitval b, 0]"
  using assms
  by (simp add: write_string_def append_bytes_end append_val_pending writer_def)

theorem string_after_bits_witness:
  "\<exists>c. write_string [65, 66] one_bit_buffer = (Inr (), c) \<and> storage c = [65, 66, 0x80, 0]"
  using string_after_bits[OF one_bit_buffer_writer, of "[65, 66]"] by (simp add: one_bit_buffer_eq)

lemma read_u8_at:
  assumes "rpos b < bb_size b" and "bb_size b < 2 ^ 60"
  shows "(read_val :: u8 bb) b = (Inr (storage b ! rpos b), b\<lparr>rbitpos := 8, rpos := Suc (rpos b)\<rparr>)"
proof -
  have "take 1 (drop (rpos b) (storage b)) = [storage b ! rpos b]"
    using assms by (simp add: take_Suc hd_drop_conv_nth)
  then show ?thesis using assms by (simp add: read_val_def bindS_def read_at_def Let_def)
qed

lemma read_string_loop_eq:
  assumes "drop (rpos b) (storage b) = s @ 0 # post" and "\<forall>c\<in>set s. c \<noteq> 0" and "bb_size b < 2 ^ 60"
    and "length s < k"
  shows "read_string_loop k acc b = (Inr (acc @ s), b\<lparr>rbitpos := 8, rpos := Suc (rpos b + length s)\<rparr>)"
  using assms
proof (induction s arbitrary: k acc b)
  case Nil
  then have r: "rpos b < bb_size b" "storage b ! rpos b = 0"
    using hd_drop_conv_nth[of "rpos b" "storage b"] not_le_imp_less by fastforce+
  then show ?case using Nil by (cases k) (simp_all add: read_u8_at)
next
  case (Cons x s)
  then have r: "rpos b < bb_size b" "storage b ! rpos b = x"
    using hd_drop_conv_nth[of "rpos b" "storage b"] not_le_imp_less by fastforce+
  obtain k' where k: "k = Suc k'" using Cons.prems(4) by (cases k) auto
  let ?c = "b\<lparr>rbitpos := 8, rpos := Suc (rpos b)\<rparr>"
  have "drop (Suc (rpos b)) (storage b) = s @ 0 # post"
    using Cons.prems(1) by (metis append_Cons drop_Suc list.sel(3) tl_drop)
  then have "read_string_loop k' (acc @ [x]) ?c = (Inr (acc @ x # s), ?c\<lparr>rbitpos := 8, rpos := Suc (Suc (rpos b) + length s)\<rparr>)"
    using Cons.IH[of ?c k' "acc @ [x]"] Cons.prems k by simp
  then show ?case using Cons.prems r k by (simp add: read_u8_at)
qed

lemma read_string_eq:
  assumes "drop (rpos b) (storage b) = s @ 0 # post" and "\<forall>c\<in>set s. c \<noteq> 0" and "bb_size b < 2 ^ 60"
  shows "read_string b = (Inr s, b\<lparr>rbitpos := 8, rpos := Suc (rpos b + length s)\<rparr>)"
proof -
  have "length s < bb_size b - rpos b"
    using arg_cong[OF assms(1), of length] by simp
  from read_string_loop_eq[OF assms this, of "[]"] show ?thesis by (simp add: read_string_def)
qed

text \<open>A string without zero bytes, written with \<open>operator<<\<close> at a byte boundary, is read
  back by \<open>operator>>\<close>, and the reader ends behind the terminator.\<close>

theorem string_roundtrip:
  assumes "writer b" and "wbitpos b = 8" and "bb_size b + length s < 10000000" and "\<forall>c\<in>set s. c \<noteq> 0"
  shows "\<exists>c d. write_string s b = (Inr (), c) \<and> read_string (set_rpos (bb_size b) c) = (Inr s, d) \<and> rpos d = bb_size c"
proof -
  let ?c = "b\<lparr>storage := storage b @ s @ [0], wpos := bb_size b + length s + 1\<rparr>"
  have "write_string s b = (Inr (), ?c)"
    using assms by (cases "s = []") (simp_all add: write_string_def append_bytes_end append_val_aligned writer_def)
  moreover have "read_string (set_rpos (bb_size b) ?c) = (Inr s, (set_rpos (bb_size b) ?c)\<lparr>rbitpos := 8, rpos := Suc (bb_size b + length s)\<rparr>)"
    using read_string_eq[of "set_rpos (bb_size b) ?c" s "[]"] assms by (simp add: set_rpos_def)
  ultimately show ?thesis by simp
qed


theorem string_roundtrip_witness:
  "\<exists>c d. write_string [65, 66] bb_new = (Inr (), c) \<and> read_string (set_rpos 0 c) = (Inr [65, 66], d)
    \<and> rpos d = bb_size c"
  using string_roundtrip[of bb_new "[65, 66]"] by (simp add: bb_new_def writer_def)

lemma read_string_unfold:
  assumes "bb_size b < 2 ^ 60"
  shows "read_string_loop (bb_size b - rpos b) acc b =
    (if rpos b < bb_size b
     then bindS read_val (\<lambda>c. if c = 0 then retS acc
            else (\<lambda>d. read_string_loop (bb_size d - rpos d) (acc @ [c]) d)) b
     else (Inr acc, b))"
proof (cases "rpos b < bb_size b")
  case True
  then obtain k where k: "bb_size b - rpos b = Suc k" by (metis Suc_diff_Suc)
  then have "bb_size b - Suc (rpos b) = k" by simp
  then show ?thesis using True assms k by (simp add: read_u8_at)
qed simp

subsection \<open>PutBits\<close>

lemma bits_of_update:
  assumes "p < 8 * length st"
  defines "wp \<equiv> p div 8"
  shows "bits_of (st[wp := (if v then st ! wp OR push_bit (7 - p mod 8) 1
                            else st ! wp AND NOT (push_bit (7 - p mod 8) 1))]) = (bits_of st)[p := v]"
    (is "bits_of ?st' = _")
proof (rule nth_equalityI)
  fix k assume "k < length (bits_of ?st')"
  then have k: "k < 8 * length st" by simp
  have wp: "wp < length st" using assms by (simp add: less_mult_imp_div_less mult.commute)
  show "bits_of ?st' ! k = (bits_of st)[p := v] ! k"
  proof (cases "k div 8 = wp")
    case True
    have "k = p \<longleftrightarrow> k mod 8 = p mod 8"
      using True div_mult_mod_eq[of k 8] div_mult_mod_eq[of p 8] by (auto simp: wp_def)
    moreover have "7 - k mod 8 = 7 - p mod 8 \<longleftrightarrow> k mod 8 = p mod 8"
    proof -
      have "k mod 8 < 8" "p mod 8 < 8" by simp_all
      then show ?thesis by linarith
    qed
    moreover have "7 - k mod 8 < 8" by linarith
    ultimately show ?thesis using True k wp assms(1)
      by (auto simp: nth_bits_of nth_list_update bit_simps)
  next
    case False
    then show ?thesis using k wp by (auto simp: nth_bits_of nth_list_update wp_def)
  qed
qed simp

lemma put_bit_at_eq:
  assumes "p < 8 * bb_size b"
  shows "\<exists>c. put_bit_at p v b = (Inr (), c) \<and> bits_of (storage c) = (bits_of (storage b))[p := v]
     \<and> c = b\<lparr>storage := storage c\<rparr> \<and> bb_size c = bb_size b"
  using bits_of_update[OF assms, of v] assms
  by (simp add: put_bit_at_def Let_def less_mult_imp_div_less mult.commute)

lemma forS_put_bits:
  assumes "pos + k + length bs \<le> 8 * bb_size b"
    and "\<And>i b. i < length bs \<Longrightarrow> f (k + i) b = put_bit_at (pos + (k + i)) (bs ! i) b"
  shows "\<exists>c. forS f [k..<k + length bs] b = (Inr (), c)
    \<and> bits_of (storage c) = take (pos + k) (bits_of (storage b)) @ bs @ drop (pos + k + length bs) (bits_of (storage b))
    \<and> c = b\<lparr>storage := storage c\<rparr>"
  using assms
proof (induction bs arbitrary: k b)
  case Nil
  then show ?case by simp
next
  case (Cons x bs)
  have "pos + k < 8 * bb_size b" using Cons.prems(1) by simp
  from put_bit_at_eq[OF this, of x] obtain c where c: "put_bit_at (pos + k) x b = (Inr (), c)"
    "bits_of (storage c) = (bits_of (storage b))[pos + k := x]" "c = b\<lparr>storage := storage c\<rparr>" "bb_size c = bb_size b"
    by blast
  have f0: "f k b = (Inr (), c)" using Cons.prems(2)[of 0] c(1) by simp
  have fS: "f (Suc k + i) b' = put_bit_at (pos + (Suc k + i)) (bs ! i) b'" if "i < length bs" for i b'
    using Cons.prems(2)[of "Suc i"] that by simp
  have "pos + Suc k + length bs \<le> 8 * bb_size c" using Cons.prems(1) c(4) by simp
  from Cons.IH[OF this fS] obtain d where d: "forS f [Suc k..<Suc k + length bs] c = (Inr (), d)"
    "bits_of (storage d) = take (pos + Suc k) (bits_of (storage c)) @ bs @ drop (pos + Suc k + length bs) (bits_of (storage c))"
    "d = c\<lparr>storage := storage d\<rparr>" by blast
  have "take (pos + Suc k) (bits_of (storage c)) = take (pos + k) (bits_of (storage b)) @ [x]"
    using Cons.prems(1) by (simp add: c(2) take_Suc_conv_app_nth)
  moreover have "d = b\<lparr>storage := storage d\<rparr>" using c(3) d(3) by (metis ByteBuffer.update_convs(6) ByteBuffer.surjective)
  moreover have up: "[k..<k + length (x # bs)] = k # [Suc k..<Suc k + length bs]"
    by (subst upt_conv_Cons) simp_all
  ultimately show ?case using d f0 unfolding up
    by (simp add: c(2) del: upt_Suc)
qed

text \<open>\<open>PutBits\<close> replaces exactly the bits it is given, most significant first, and leaves
  the rest of the storage and every position as they were.\<close>

theorem PutBits_frame:
  assumes "0 < n" and "n \<le> max 32 LENGTH('a)" and "pos + n \<le> 8 * bb_size b" and "bb_size b < 2 ^ 60"
  shows "\<exists>c. PutBits pos (v :: 'a::len word) n b = (Inr (), c)
    \<and> bits_of (storage c) = take pos (bits_of (storage b)) @ val_bits n v @ drop (pos + n) (bits_of (storage b))
    \<and> c = b\<lparr>storage := storage c\<rparr>"
proof -
  let ?f = "\<lambda>i. if n - i - 1 < max 32 LENGTH('a) then put_bit_at (size_add pos i) (bit v (n - i - 1))
                 else throwS UndefinedBehaviour"
  have "?f (0 + i) c = put_bit_at (pos + (0 + i)) (val_bits n v ! i) c" if "i < length (val_bits n v)" for i c
  proof -
    have "n - i - 1 < max 32 LENGTH('a)"
      using that assms(2) by (rule_tac less_le_trans[of _ n]) simp_all
    moreover have "size_add pos i = pos + i"
      using that assms(3,4) by (intro size_add_small) simp
    moreover have "val_bits n v ! i = bit v (n - i - 1)"
      using that by (simp add: nth_val_bits)
    ultimately show ?thesis by (simp only: add_0 if_True)
  qed
  moreover have "pos + 0 + length (val_bits n v) \<le> 8 * bb_size b" using assms(3) by simp
  ultimately obtain c where c: "forS ?f [0..<0 + length (val_bits n v)] b = (Inr (), c)"
    "bits_of (storage c) = take (pos + 0) (bits_of (storage b)) @ val_bits n v
        @ drop (pos + 0 + length (val_bits n v)) (bits_of (storage b))"
    "c = b\<lparr>storage := storage c\<rparr>"
    using forS_put_bits[of pos 0 "val_bits n v" b ?f] by blast
  have "size_add pos n = pos + n" using assms(3,4) by (intro size_add_small) simp
  then have "PutBits pos v n b = forS ?f [0..<n] b"
    using assms(1,3) by (simp add: PutBits_def mult.commute)
  with c show ?thesis by auto
qed

theorem PutBits_frame_witness:
  "\<exists>c. PutBits 3 (5 :: u32) 4 (bb_new\<lparr>storage := [0xFF, 0xFF]\<rparr>) = (Inr (), c)
    \<and> bits_of (storage c) = 
      [True, True, True, False, True, False, True, True, True, True, True, True, True, True, True, True]
    \<and> c = bb_new\<lparr>storage := storage c\<rparr>"
  using PutBits_frame[of 4 3 "bb_new\<lparr>storage := [0xFF, 0xFF]\<rparr>" "5 :: u32"]
  by (simp add: bb_new_def bits_of_def byte_bits_def val_bits_def upt_rec)

subsection \<open>Memory safety of the read operations\<close>

text \<open>
  \<open>bb_safe\<close>: the read position is inside the storage. No read operation leaves these states,
  changes a byte of the storage, or makes an access the checks did not cover.
\<close>

definition bb_safe :: "u8 list \<Rightarrow> ByteBuffer \<Rightarrow> bool" where
  "bb_safe st b \<longleftrightarrow> storage b = st \<and> rpos b \<le> length st \<and> length st < 2 ^ 62"

definition safe_read :: "'a bb \<Rightarrow> bool" where
  "safe_read m \<longleftrightarrow> (\<forall>st. keepsS (bb_safe st) m \<and> avoidsS (bb_safe st) UndefinedBehaviour m)"

lemma safe_read_retS: "safe_read (retS a)"
  by (simp add: safe_read_def keeps_intros)

lemma safe_read_throwS: "e \<noteq> UndefinedBehaviour \<Longrightarrow> safe_read (throwS e)"
  by (simp add: safe_read_def keepsS_def avoidsS_def)

lemma safe_read_bindS: "safe_read m \<Longrightarrow> (\<And>a. safe_read (f a)) \<Longrightarrow> safe_read (bindS m f)"
  by (auto simp: safe_read_def intro!: keeps_intros)

lemma safe_read_foldS: "(\<And>x a. x \<in> set xs \<Longrightarrow> safe_read (f x a)) \<Longrightarrow> safe_read (foldS f xs acc)"
  by (induction xs arbitrary: acc) (auto intro: safe_read_retS safe_read_bindS)

lemma safe_readI:
  assumes "\<And>st b. bb_safe st b \<Longrightarrow> bb_safe st (snd (m b)) \<and> fst (m b) \<noteq> Inl UndefinedBehaviour"
  shows "safe_read m"
  using assms by (auto simp: safe_read_def keepsS_def avoidsS_def)

lemma safe_read_val: "LENGTH('a) \<le> 64 \<Longrightarrow> safe_read (read_val :: 'a::len word bb)"
proof (rule safe_readI)
  fix st b assume l: "LENGTH('a) \<le> 64" and b: "bb_safe st b"
  then have "LENGTH('a) div 8 \<le> 8" by linarith
  then have "size_add (rpos b) (LENGTH('a) div 8) = rpos b + LENGTH('a) div 8"
    using b by (intro size_add_small) (simp add: bb_safe_def)
  then show "bb_safe st (snd ((read_val :: 'a word bb) b)) \<and> fst ((read_val :: 'a word bb) b) \<noteq> Inl UndefinedBehaviour"
    using b by (simp add: bb_safe_def read_val_def bindS_def read_at_def Let_def)
qed

lemma safe_read_skip: "safe_read (read_skip n)"
  by (rule safe_readI) (auto simp: bb_safe_def read_skip_def)

lemma safe_read_bytes: "n < 2 ^ 62 \<Longrightarrow> safe_read (read_bytes n)"
  by (rule safe_readI) (auto simp: bb_safe_def read_bytes_def)

lemma safe_ReadBit: "safe_read ReadBit"
proof -
  have *: "safe_read (bindS read_val (\<lambda>x d. (Inr (), d\<lparr>curbitval := x, rbitpos := 0\<rparr>)))"
    by (intro safe_read_bindS safe_read_val) (simp_all add: safe_read_def keepsS_def avoidsS_def bb_safe_def)
  show ?thesis
  proof (rule safe_readI)
    fix st b assume b: "bb_safe st b"
    let ?c = "b\<lparr>rbitpos := size_add (rbitpos b) 1\<rparr>"
    have c: "bb_safe st ?c" using b by (simp add: bb_safe_def)
    show "bb_safe st (snd (ReadBit b)) \<and> fst (ReadBit b) \<noteq> Inl UndefinedBehaviour"
    proof (cases "rbitpos ?c > 7")
      case True
      have "bb_safe st (snd (bindS read_val (\<lambda>x d. (Inr (), d\<lparr>curbitval := x, rbitpos := 0\<rparr>)) ?c))"
        and "fst (bindS read_val (\<lambda>x d. (Inr (), d\<lparr>curbitval := x, rbitpos := 0\<rparr>)) ?c) \<noteq> Inl UndefinedBehaviour"
        using * c by (auto simp: safe_read_def keepsS_def avoidsS_def)
      then show ?thesis using True
        by (auto simp: ReadBit_def bindS_def Let_def split: prod.splits sum.splits)
    qed (use c in \<open>simp add: ReadBit_def\<close>)
  qed
qed

lemma safe_ReadBits: "n \<le> 32 \<Longrightarrow> safe_read (ReadBits n)"
  unfolding ReadBits_def
  by (intro safe_read_foldS safe_read_bindS safe_ReadBit) (auto intro: safe_read_retS)

lemma safe_ReadByteSeq: "safe_read (ReadByteSeq x)"
  by (auto simp: ReadByteSeq_def intro!: safe_read_bindS safe_read_val safe_read_retS)

lemma safe_og: "safe_read (og_get g i)" "safe_read (og_set g i x)"
  by (auto simp: og_get_def og_set_def intro: safe_read_retS safe_read_throwS)

lemma safe_guid_lists: "safe_read (ReadGuidMaskList g offs)" "safe_read (ReadGuidBytesList g offs)"
  unfolding ReadGuidMaskList_def ReadGuidBytesList_def
  by (intro safe_read_foldS safe_read_bindS safe_ReadBit safe_ReadByteSeq safe_og)+

lemma safe_read_string: "safe_read read_string"
proof -
  have loop: "safe_read (read_string_loop k acc)" for k acc
  proof (induction k arbitrary: acc)
    case (Suc k)
    have "safe_read (bindS read_val (\<lambda>c :: u8. if c = 0 then retS acc else read_string_loop k (acc @ [c])))"
      by (intro safe_read_bindS safe_read_val) (auto intro: safe_read_retS Suc.IH)
    then show ?case by (auto simp: safe_read_def keepsS_def avoidsS_def)
  qed (auto intro: safe_read_retS)
  show ?thesis
    by (rule safe_readI) (use loop in \<open>auto simp: read_string_def safe_read_def keepsS_def avoidsS_def\<close>)
qed

lemma safe_ReadString: "n < 2 ^ 62 \<Longrightarrow> safe_read (ReadString n)"
  by (auto simp: ReadString_def intro!: safe_read_bindS safe_read_bytes safe_read_retS)

lemma safe_readPackGUID: "safe_read readPackGUID"
proof -
  have half: "safe_read (readPackGUID_half m)" for m
    unfolding readPackGUID_half_def
    by (rule safe_read_foldS) (auto intro!: safe_read_retS safe_read_bindS safe_read_val)
  have "safe_read (bindS read_val (\<lambda>maskLow. bindS read_val (\<lambda>maskHi.
             bindS (readPackGUID_half maskLow) (\<lambda>low. bindS (readPackGUID_half maskHi) (\<lambda>hi.
               retS (Guid128To64 \<lparr>g128_low = low, g128_hi = hi\<rparr>))))))"
    by (intro safe_read_bindS half safe_read_val safe_read_retS) simp_all
  then show ?thesis
    by (auto simp: safe_read_def keepsS_def avoidsS_def readPackGUID_def)
qed

text \<open>C19. From a read position inside the storage, whatever the bytes are, no read operation
  makes an access its checks did not cover, moves the position out of the storage or changes
  a byte.\<close>

theorem reads_are_safe:
  assumes "n \<le> 32"
  shows "safe_read (read_val :: u8 bb) \<and> safe_read (read_val :: u16 bb) \<and> safe_read (read_val :: u32 bb)
   \<and> safe_read (read_val :: u64 bb) \<and> safe_read ReadBit \<and> safe_read (ReadBits n)
   \<and> safe_read (ReadGuidMaskList g offs) \<and> safe_read (ReadGuidBytesList g offs) \<and> safe_read read_string
   \<and> safe_read (ReadString (unat (len :: u32))) \<and> safe_read (read_skip k) \<and> safe_read readPackGUID"
proof -
  have "unat len < 2 ^ 62" by (rule less_trans[OF unsigned_less]) simp
  then show ?thesis using assms
    by (intro conjI safe_read_val safe_ReadBit safe_ReadBits safe_guid_lists safe_read_string
        safe_ReadString safe_read_skip safe_readPackGUID) simp_all
qed

theorem reads_are_safe_witness:
  "safe_read (ReadBits 7) \<and> safe_read (ReadString (unat (3 :: u32))) \<and> safe_read readPackGUID"
  using reads_are_safe[of 7 0 "[]" 3 0] by simp

text \<open>The bound check of \<open>read_skip\<close> wraps at \<open>2 ^ 64\<close>: a huge skip is accepted and moves
  the read position backwards.\<close>

theorem read_skip_wraps:
  "read_skip (2 ^ 64 - 4) \<lparr>rpos = 6, wpos = 8, wbitpos = 8, rbitpos = 8, curbitval = 0, storage = replicate 8 0\<rparr>
     = (Inr (), \<lparr>rpos = 2, wpos = 8, wbitpos = 8, rbitpos = 8, curbitval = 0, storage = replicate 8 0\<rparr>)"
  by (simp add: read_skip_def size_add_def)

end
