(* ===== verification/GameEvents.thy ===== *)
theory GameEvents
  imports Prelude "HOL-Library.Multiset" "HOL-Library.AList"
begin

text \<open>
  The game event manager: \<open>src/server/game/Events/GameEventMgr.h\<close> and \<open>GameEventMgr.cpp\<close>.
  Times are \<open>time_t\<close> (\<open>int\<close>), lengths and occurrences 32-bit minutes; an operation takes the
  current time once. The \<open>float\<close> counters of conditions are an ordered type \<open>'f\<close> with a zero
  and an addition of which nothing is assumed. Database statements and the calls that
  touch the world (spawns, scripts, vendors) are recorded in order in the state.
\<close>

subsection \<open>Data\<close>

datatype GameEventState =
    GAMEEVENT_NORMAL | GAMEEVENT_WORLD_INACTIVE | GAMEEVENT_WORLD_CONDITIONS
  | GAMEEVENT_WORLD_NEXTPHASE | GAMEEVENT_WORLD_FINISHED | GAMEEVENT_INTERNAL

fun GameEventState_val :: "GameEventState \<Rightarrow> nat" where
  "GameEventState_val GAMEEVENT_NORMAL = 0"
| "GameEventState_val GAMEEVENT_WORLD_INACTIVE = 1"
| "GameEventState_val GAMEEVENT_WORLD_CONDITIONS = 2"
| "GameEventState_val GAMEEVENT_WORLD_NEXTPHASE = 3"
| "GameEventState_val GAMEEVENT_WORLD_FINISHED = 4"
| "GameEventState_val GAMEEVENT_INTERNAL = 5"

text \<open>The cast from the database's number. The source casts without a check: a number that names no state would be taken
  for a normal event by some tests and for a world event by others. Such rows are outside the model, which reads 0.\<close>

definition GameEventState_of :: "nat \<Rightarrow> GameEventState" where
  "GameEventState_of n =
     (if n = 1 then GAMEEVENT_WORLD_INACTIVE else if n = 2 then GAMEEVENT_WORLD_CONDITIONS
      else if n = 3 then GAMEEVENT_WORLD_NEXTPHASE else if n = 4 then GAMEEVENT_WORLD_FINISHED
      else if n = 5 then GAMEEVENT_INTERNAL else GAMEEVENT_NORMAL)"

record 'f FinishCondition =
  reqNum :: 'f
  cond_done :: 'f
  max_world_state :: u32
  done_world_state :: u32

text \<open>
  \<open>conditions\<close> is the map of the source as the list of its entries, the prerequisites the
  set as a list; the source only quantifies over them and looks keys up. The description,
  a text for the log and the announcement, is left out.
\<close>

record 'f GameEventData =
  ev_start :: int
  ev_end :: int
  nextstart :: int
  occurence :: u32
  ev_length :: u32
  holiday_id :: nat
  ev_state :: GameEventState
  conditions :: "(u32 \<times> 'f FinishCondition) list"
  prerequisite_events :: "nat list"

definition GameEventData_new :: "'f GameEventData" where
  "GameEventData_new = \<lparr>ev_start = 1, ev_end = 0, nextstart = 0, occurence = 0, ev_length = 0,
     holiday_id = 0, ev_state = GAMEEVENT_NORMAL, conditions = [], prerequisite_events = []\<rparr>"

definition event_valid :: "'f GameEventData \<Rightarrow> bool" where
  "event_valid d \<longleftrightarrow> ev_length d > 0 \<or> GameEventState_val (ev_state d) > GameEventState_val GAMEEVENT_NORMAL"

record 'f QuestCondition =
  qc_event :: nat
  qc_condition :: u32
  qc_num :: 'f

datatype 'f ge_stmt =
    DelEventSave u8
  | InsEventSave u8 nat u32
  | DelAllConditionSave u8
  | DelConditionSave u8 u32
  | InsConditionSave u8 u32 'f

datatype ge_effect =
    Announce nat | RunSmartAI nat bool | Spawn int | Unspawn int | ChangeEquipOrModel int bool
  | WorldStates nat bool | NPCFlags nat | NPCVendor nat bool | BattlegroundSettings
  | SeasonalReset nat

type_synonym quest_rel = "u32 \<times> u32"

record 'f GameEventMgr =
  mGameEvent :: "'f GameEventData list"
  m_ActiveEvents :: "nat set"
  mQuestToEventConditions :: "(u32 \<times> 'f QuestCondition) list"
  mGameEventCreatureQuests :: "quest_rel list list"
  mGameEventGameObjectQuests :: "quest_rel list list"
  mGameEventCreatureGuids :: "u32 list list"
  mGameEventGameobjectGuids :: "u32 list list"
  mGameEventNPCFlags :: "(u32 \<times> u32) list list"
  isSystemInit :: bool
  event_announce :: nat
  creature_quest_map :: "quest_rel multiset"
  gameobject_quest_map :: "quest_rel multiset"
  event_timer :: u32
  db_log :: "'f ge_stmt list"
  fx_log :: "ge_effect list"

abbreviation event :: "'f GameEventMgr \<Rightarrow> nat \<Rightarrow> 'f GameEventData" where
  "event m e \<equiv> mGameEvent m ! e"

abbreviation upd_event :: "nat \<Rightarrow> ('f GameEventData \<Rightarrow> 'f GameEventData) \<Rightarrow> 'f GameEventMgr \<Rightarrow> 'f GameEventMgr" where
  "upd_event e f m \<equiv> m\<lparr>mGameEvent := (mGameEvent m)[e := f (mGameEvent m ! e)]\<rparr>"

definition MINUTE :: u32 where
  "MINUTE = 60"

definition max_ge_check_delay :: u32 where
  "max_ge_check_delay = 86400"

definition IsActiveEvent :: "'f GameEventMgr \<Rightarrow> nat \<Rightarrow> bool" where
  "IsActiveEvent m e \<longleftrightarrow> e \<in> m_ActiveEvents m"

subsection \<open>Checks\<close>

text \<open>\<open>occurence * MINUTE\<close> is 32-bit; a zero divisor is undefined in the source.\<close>

definition CheckOneGameEvent :: "int \<Rightarrow> 'f GameEventMgr \<Rightarrow> nat \<Rightarrow> bool" where
  "CheckOneGameEvent now m e =
     (let d = event m e in
      case ev_state d of
        GAMEEVENT_WORLD_CONDITIONS \<Rightarrow> True
      | GAMEEVENT_WORLD_NEXTPHASE \<Rightarrow> True
      | GAMEEVENT_WORLD_FINISHED \<Rightarrow> False
      | GAMEEVENT_INTERNAL \<Rightarrow> False
      | GAMEEVENT_WORLD_INACTIVE \<Rightarrow>
          (if \<exists>p\<in>set (prerequisite_events d).
                (ev_state (event m p) \<noteq> GAMEEVENT_WORLD_NEXTPHASE
                  \<and> ev_state (event m p) \<noteq> GAMEEVENT_WORLD_FINISHED)
                \<or> nextstart (event m p) > now
           then False else prerequisite_events d \<noteq> [])
      | GAMEEVENT_NORMAL \<Rightarrow>
          ev_start d < now \<and> now < ev_end d
          \<and> (now - ev_start d) mod uint (occurence d * MINUTE) < uint (ev_length d * MINUTE))"

definition NextCheck :: "int \<Rightarrow> 'f GameEventMgr \<Rightarrow> nat \<Rightarrow> u32" where
  "NextCheck now m e =
     (let d = event m e in
      if (ev_state d = GAMEEVENT_WORLD_NEXTPHASE \<or> ev_state d = GAMEEVENT_WORLD_FINISHED) \<and> nextstart d \<ge> now
      then word_of_int (nextstart d - now)
      else if ev_state d = GAMEEVENT_WORLD_CONDITIONS
      then (if ev_length d \<noteq> 0 then ev_length d * 60 else max_ge_check_delay)
      else if now > ev_end d then max_ge_check_delay
      else if ev_start d > now then word_of_int (ev_start d - now)
      else
        let phase = (now - ev_start d) mod uint (occurence d * 60);
            delay = (if phase < uint (ev_length d * 60)
                     then word_of_int (uint (ev_length d * MINUTE) - phase)
                     else word_of_int (uint (occurence d * MINUTE) - phase))
        in if ev_end d < now + uint delay then word_of_int (ev_end d - now) else delay)"

definition hasCreatureQuestActiveEventExcept :: "'f GameEventMgr \<Rightarrow> u32 \<Rightarrow> nat \<Rightarrow> bool" where
  "hasCreatureQuestActiveEventExcept m quest e \<longleftrightarrow>
     (\<exists>a\<in>m_ActiveEvents m. a \<noteq> e \<and> (\<exists>r\<in>set (mGameEventCreatureQuests m ! a). snd r = quest))"

definition hasGameObjectQuestActiveEventExcept :: "'f GameEventMgr \<Rightarrow> u32 \<Rightarrow> nat \<Rightarrow> bool" where
  "hasGameObjectQuestActiveEventExcept m quest e \<longleftrightarrow>
     (\<exists>a\<in>m_ActiveEvents m. a \<noteq> e \<and> (\<exists>r\<in>set (mGameEventGameObjectQuests m ! a). snd r = quest))"

definition hasCreatureActiveEventExcept :: "'f GameEventMgr \<Rightarrow> u32 \<Rightarrow> nat \<Rightarrow> bool" where
  "hasCreatureActiveEventExcept m guid e \<longleftrightarrow>
     (\<exists>a\<in>m_ActiveEvents m. a \<noteq> e
        \<and> guid \<in> set (mGameEventCreatureGuids m ! (length (mGameEvent m) + a - 1)))"

definition hasGameObjectActiveEventExcept :: "'f GameEventMgr \<Rightarrow> u32 \<Rightarrow> nat \<Rightarrow> bool" where
  "hasGameObjectActiveEventExcept m guid e \<longleftrightarrow>
     (\<exists>a\<in>m_ActiveEvents m. a \<noteq> e
        \<and> guid \<in> set (mGameEventGameobjectGuids m ! (length (mGameEvent m) + a - 1)))"

text \<open>The flags of a spawn, or-ed over the active events (in ascending order).\<close>

definition GetNPCFlag :: "'f GameEventMgr \<Rightarrow> u32 \<Rightarrow> u32" where
  "GetNPCFlag m guid =
     fold (\<lambda>a msk. fold (\<lambda>(g, f) k. if g = guid then k OR f else k) (mGameEventNPCFlags m ! a) msk)
       (sorted_list_of_set (m_ActiveEvents m)) 0"

definition IsHolidayActive :: "'f GameEventMgr \<Rightarrow> nat \<Rightarrow> bool" where
  "IsHolidayActive m h \<longleftrightarrow> h \<noteq> 0 \<and> (\<exists>a\<in>m_ActiveEvents m. holiday_id (event m a) = h)"

subsection \<open>Database statements\<close>

definition SaveWorldEventState :: "'f GameEventMgr \<Rightarrow> nat \<Rightarrow> 'f ge_stmt list" where
  "SaveWorldEventState m e =
     [DelEventSave (word_of_nat e),
      InsEventSave (word_of_nat e) (GameEventState_val (ev_state (event m e)))
        (if nextstart (event m e) \<noteq> 0 then word_of_int (nextstart (event m e)) else 0)]"

definition commit :: "'f ge_stmt list \<Rightarrow> 'f GameEventMgr \<Rightarrow> 'f GameEventMgr" where
  "commit ss m = m\<lparr>db_log := db_log m @ ss\<rparr>"

definition effect :: "ge_effect list \<Rightarrow> 'f GameEventMgr \<Rightarrow> 'f GameEventMgr" where
  "effect es m = m\<lparr>fx_log := fx_log m @ es\<rparr>"

subsection \<open>Applying and unapplying\<close>

text \<open>A multimap of quest relations: \<open>insert\<close> adds a pair, the removal loop takes one away.\<close>

definition update_relations :: "bool \<Rightarrow> (u32 \<Rightarrow> bool) \<Rightarrow> quest_rel list \<Rightarrow> quest_rel multiset \<Rightarrow> quest_rel multiset" where
  "update_relations activate other rels M =
     fold (\<lambda>r M. if activate then add_mset r M
                 else if \<not> other (snd r) then M - {#r#} else M) rels M"

definition UpdateEventQuests :: "nat \<Rightarrow> bool \<Rightarrow> 'f GameEventMgr \<Rightarrow> 'f GameEventMgr" where
  "UpdateEventQuests e activate m =
     m\<lparr>creature_quest_map := update_relations activate (\<lambda>q. hasCreatureQuestActiveEventExcept m q e)
          (mGameEventCreatureQuests m ! e) (creature_quest_map m),
       gameobject_quest_map := update_relations activate (\<lambda>q. hasGameObjectQuestActiveEventExcept m q e)
          (mGameEventGameObjectQuests m ! e) (gameobject_quest_map m)\<rparr>"

definition ApplyNewEvent :: "nat \<Rightarrow> 'f GameEventMgr \<Rightarrow> 'f GameEventMgr" where
  "ApplyNewEvent e m =
     effect [WorldStates e True, NPCFlags e, NPCVendor e True, BattlegroundSettings, SeasonalReset e]
       (UpdateEventQuests e True
         (effect ((if event_announce m = 1 then [Announce e] else [])
                  @ [RunSmartAI e True, Spawn (int e), Unspawn (- int e), ChangeEquipOrModel (int e) True]) m))"

definition UnApplyEvent :: "nat \<Rightarrow> 'f GameEventMgr \<Rightarrow> 'f GameEventMgr" where
  "UnApplyEvent e m =
     effect [WorldStates e False, NPCFlags e, NPCVendor e False, BattlegroundSettings]
       (UpdateEventQuests e False
         (effect [RunSmartAI e False, Unspawn (int e), Spawn (- int e), ChangeEquipOrModel (int e) False] m))"

subsection \<open>Starting and stopping\<close>

definition CheckOneGameEventConditions :: "int \<Rightarrow> nat \<Rightarrow> 'f::linorder GameEventMgr \<Rightarrow> bool \<times> 'f GameEventMgr" where
  "CheckOneGameEventConditions now e m =
     (if \<exists>(c, k)\<in>set (conditions (event m e)). cond_done k < reqNum k then (False, m)
      else (True, upd_event e (\<lambda>d. d\<lparr>ev_state := GAMEEVENT_WORLD_NEXTPHASE,
              nextstart := (if nextstart d = 0 then now + uint (ev_length d * 60) else nextstart d)\<rparr>) m))"

text \<open>\<open>StartEvent\<close> up to the forced update it may end with; the result also says whether
  the branch of world events was taken.\<close>

definition StartEvent_body :: "int \<Rightarrow> nat \<Rightarrow> bool \<Rightarrow> 'f::linorder GameEventMgr \<Rightarrow> bool \<times> 'f GameEventMgr" where
  "StartEvent_body now e overwrite m =
     (if ev_state (event m e) = GAMEEVENT_NORMAL \<or> ev_state (event m e) = GAMEEVENT_INTERNAL
      then
        let m1 = ApplyNewEvent e (m\<lparr>m_ActiveEvents := insert e (m_ActiveEvents m)\<rparr>);
            m2 = (if overwrite
                  then upd_event e (\<lambda>d. let d1 = d\<lparr>ev_start := now\<rparr> in
                         if ev_end d1 \<le> ev_start d1
                         then d1\<lparr>ev_end := ev_start d1 + uint (ev_length d1)\<rparr> else d1) m1
                  else m1)
        in (False, m2)
      else
        let m1 = (if ev_state (event m e) = GAMEEVENT_WORLD_INACTIVE
                  then upd_event e (\<lambda>d. d\<lparr>ev_state := GAMEEVENT_WORLD_CONDITIONS\<rparr>) m else m);
            m2 = ApplyNewEvent e (m1\<lparr>m_ActiveEvents := insert e (m_ActiveEvents m1)\<rparr>);
            (met, m3) = CheckOneGameEventConditions now e m2
        in (met, commit (SaveWorldEventState m3 e) m3))"

definition StopEvent :: "int \<Rightarrow> nat \<Rightarrow> bool \<Rightarrow> 'f::zero GameEventMgr \<Rightarrow> 'f GameEventMgr" where
  "StopEvent now e overwrite m =
     (let d = event m e;
          serverwide = (ev_state d \<noteq> GAMEEVENT_NORMAL \<and> ev_state d \<noteq> GAMEEVENT_INTERNAL);
          m1 = UnApplyEvent e (m\<lparr>m_ActiveEvents := m_ActiveEvents m - {e}\<rparr>)
      in if overwrite \<and> \<not> serverwide
         then upd_event e (\<lambda>d. let d1 = d\<lparr>ev_start := now - uint (ev_length d * MINUTE)\<rparr> in
                if ev_end d1 \<le> ev_start d1
                then d1\<lparr>ev_end := ev_start d1 + uint (ev_length d1)\<rparr> else d1) m1
         else if serverwide \<and> (overwrite \<or> ev_state d \<noteq> GAMEEVENT_WORLD_FINISHED)
         then commit [DelAllConditionSave (word_of_nat e), DelEventSave (word_of_nat e)]
                (upd_event e (\<lambda>d. d\<lparr>nextstart := 0, ev_state := GAMEEVENT_WORLD_INACTIVE,
                   conditions := map (\<lambda>(c, k). (c, k\<lparr>cond_done := 0\<rparr>)) (conditions d)\<rparr>) m1)
         else m1)"

subsection \<open>The update\<close>

text \<open>The state of the loop of \<open>Update\<close>: the manager, the transaction, the queues, the delay.\<close>

record 'f update_loop =
  ul_mgr :: "'f GameEventMgr"
  ul_trans :: "'f ge_stmt list"
  ul_activate :: "nat list"
  ul_deactivate :: "nat list"
  ul_delay :: u32

definition update_delay :: "int \<Rightarrow> nat \<Rightarrow> 'f update_loop \<Rightarrow> 'f update_loop" where
  "update_delay now e s =
     (let calcDelay = NextCheck now (ul_mgr s) e
      in if calcDelay < ul_delay s then s\<lparr>ul_delay := calcDelay\<rparr> else s)"

definition update_one :: "int \<Rightarrow> nat \<Rightarrow> 'f::linorder update_loop \<Rightarrow> 'f update_loop" where
  "update_one now e s =
     (let m = ul_mgr s in
      if CheckOneGameEvent now m e
      then if ev_state (event m e) = GAMEEVENT_WORLD_NEXTPHASE \<and> nextstart (event m e) \<le> now
           then let m1 = upd_event e (\<lambda>d. d\<lparr>ev_state := GAMEEVENT_WORLD_FINISHED, nextstart := 0\<rparr>) m
                in s\<lparr>ul_mgr := m1, ul_trans := ul_trans s @ SaveWorldEventState m1 e,
                     ul_deactivate := (if IsActiveEvent m1 e then ul_deactivate s @ [e] else ul_deactivate s)\<rparr>
           else let (m1, tr) = (if ev_state (event m e) = GAMEEVENT_WORLD_CONDITIONS
                                then case CheckOneGameEventConditions now e m of
                                       (True, m1) \<Rightarrow> (m1, SaveWorldEventState m1 e)
                                     | (False, m1) \<Rightarrow> (m1, [])
                                else (m, []))
                in update_delay now e (s\<lparr>ul_mgr := m1, ul_trans := ul_trans s @ tr,
                     ul_activate := (if IsActiveEvent m1 e then ul_activate s else ul_activate s @ [e])\<rparr>)
      else update_delay now e
             (if IsActiveEvent m e then s\<lparr>ul_deactivate := ul_deactivate s @ [e]\<rparr>
              else if \<not> isSystemInit m then s\<lparr>ul_mgr := effect [Spawn (- int e)] m\<rparr>
              else s))"

definition activate_one :: "int \<Rightarrow> nat \<Rightarrow> u32 \<times> 'f::linorder GameEventMgr \<Rightarrow> u32 \<times> 'f GameEventMgr" where
  "activate_one now e s =
     (let (met, m) = StartEvent_body now e False (snd s) in (if met then 0 else fst s, m))"

definition Update :: "int \<Rightarrow> 'f::{linorder,zero} GameEventMgr \<Rightarrow> u32 \<times> 'f GameEventMgr" where
  "Update now m =
     (let s = fold (update_one now) [1..<length (mGameEvent m)]
                \<lparr>ul_mgr = m, ul_trans = [], ul_activate = [], ul_deactivate = [], ul_delay = max_ge_check_delay\<rparr>;
          m1 = commit (ul_trans s) (ul_mgr s);
          (delay, m2) = fold (activate_one now) (ul_activate s) (ul_delay s, m1);
          m3 = fold (\<lambda>e. StopEvent now e False) (ul_deactivate s) m2
      in ((delay + 1) * 1000, m3))"

definition ForceGameEventUpdate :: "int \<Rightarrow> 'f::{linorder,zero} GameEventMgr \<Rightarrow> 'f GameEventMgr" where
  "ForceGameEventUpdate now m = (let (d, m1) = Update now m in m1\<lparr>event_timer := d\<rparr>)"

definition StartEvent :: "int \<Rightarrow> nat \<Rightarrow> bool \<Rightarrow> 'f::{linorder,zero} GameEventMgr \<Rightarrow> bool \<times> 'f GameEventMgr" where
  "StartEvent now e overwrite m =
     (let (met, m1) = StartEvent_body now e overwrite m
      in (met, if overwrite \<and> met then ForceGameEventUpdate now m1 else m1))"

definition StartInternalEvent :: "int \<Rightarrow> nat \<Rightarrow> 'f::{linorder,zero} GameEventMgr \<Rightarrow> 'f GameEventMgr" where
  "StartInternalEvent now e m =
     (if e < 1 \<or> e \<ge> length (mGameEvent m) then m
      else if \<not> event_valid (event m e) then m
      else if e \<in> m_ActiveEvents m then m
      else snd (StartEvent now e False m))"

definition StartSystem :: "int \<Rightarrow> 'f::{linorder,zero} GameEventMgr \<Rightarrow> u32 \<times> 'f GameEventMgr" where
  "StartSystem now m =
     (let (delay, m1) = Update now (m\<lparr>m_ActiveEvents := {}\<rparr>) in (delay, m1\<lparr>isSystemInit := True\<rparr>))"

definition HandleQuestComplete :: "int \<Rightarrow> u32 \<Rightarrow> 'f::{linorder,zero,plus} GameEventMgr \<Rightarrow> 'f GameEventMgr" where
  "HandleQuestComplete now quest m =
     (case map_of (mQuestToEventConditions m) quest of
        None \<Rightarrow> m
      | Some q \<Rightarrow>
         let e = qc_event q; c = qc_condition q in
         if \<not> IsActiveEvent m e then m
         else if ev_state (event m e) \<noteq> GAMEEVENT_WORLD_CONDITIONS then m
         else (case map_of (conditions (event m e)) c of
                 None \<Rightarrow> m
               | Some k \<Rightarrow>
                  if cond_done k < reqNum k
                  then
                    let d = cond_done k + qc_num q;
                        d1 = (if d > reqNum k then reqNum k else d);
                        m1 = upd_event e (\<lambda>ev. ev\<lparr>conditions := AList.update c (k\<lparr>cond_done := d1\<rparr>) (conditions ev)\<rparr>) m;
                        m2 = commit [DelConditionSave (word_of_nat e) c, InsConditionSave (word_of_nat e) c d1] m1;
                        (met, m3) = CheckOneGameEventConditions now e m2
                    in if met then ForceGameEventUpdate now (commit (SaveWorldEventState m3 e) m3) else m3
                  else m))"

subsection \<open>Loading\<close>

text \<open>The rows of the queries of \<open>LoadFromDB\<close>, field by field.\<close>

record ge_row =
  row_event :: u8
  row_start :: u64
  row_end :: u64
  row_occurence :: u64
  row_length :: u64
  row_holiday :: u32
  row_state :: u8

text \<open>One row of \<open>game_event\<close>; \<open>holidays\<close> is the client's holiday store. A row of a normal
  event without length is left half loaded.\<close>

definition load_event_row :: "(nat \<Rightarrow> bool) \<Rightarrow> ge_row \<Rightarrow> 'f GameEventMgr \<Rightarrow> 'f GameEventMgr" where
  "load_event_row holidays r m =
     (if row_event r = 0 then m
      else
        let d0 = event m (unat (row_event r));
            d1 = d0\<lparr>ev_start := sint (row_start r), ev_end := sint (row_end r),
                    occurence := ucast (row_occurence r), ev_length := ucast (row_length r),
                    holiday_id := unat (row_holiday r), ev_state := GameEventState_of (unat (row_state r)), nextstart := 0\<rparr>;
            d2 = (if ev_length d1 = 0 \<and> ev_state d1 = GAMEEVENT_NORMAL then d1
                  else if holiday_id d1 \<noteq> 0 \<and> \<not> holidays (holiday_id d1)
                  then d1\<lparr>holiday_id := 0\<rparr> else d1)
        in upd_event (unat (row_event r)) (\<lambda>_. d2) m)"

definition load_save_row :: "u8 \<times> nat \<times> u32 \<Rightarrow> 'f GameEventMgr \<Rightarrow> 'f GameEventMgr" where
  "load_save_row row m =
     (case row of (i, st, nx) \<Rightarrow>
      let e = unat i in
      if e \<ge> length (mGameEvent m) then m
      else if ev_state (event m e) \<noteq> GAMEEVENT_NORMAL \<and> ev_state (event m e) \<noteq> GAMEEVENT_INTERNAL
      then upd_event e (\<lambda>d. d\<lparr>ev_state := GameEventState_of st, nextstart := uint nx\<rparr>) m
      else m)"

definition load_prerequisite_row :: "u8 \<times> u32 \<Rightarrow> 'f GameEventMgr \<Rightarrow> 'f GameEventMgr" where
  "load_prerequisite_row row m =
     (case row of (i, p) \<Rightarrow>
      let e = unat i; pre = unat (ucast p :: u16) in
      if e \<ge> length (mGameEvent m) then m
      else if ev_state (event m e) \<noteq> GAMEEVENT_NORMAL \<and> ev_state (event m e) \<noteq> GAMEEVENT_INTERNAL
      then (if pre \<ge> length (mGameEvent m) then m
            else upd_event e (\<lambda>d. d\<lparr>prerequisite_events := List.insert pre (prerequisite_events d)\<rparr>) m)
      else m)"

definition load_quest_condition_row :: "u32 \<times> u8 \<times> u32 \<times> 'f \<Rightarrow> 'f GameEventMgr \<Rightarrow> 'f GameEventMgr" where
  "load_quest_condition_row row m =
     (case row of (quest, i, c, num) \<Rightarrow>
      if unat i \<ge> length (mGameEvent m) then m
      else m\<lparr>mQuestToEventConditions := AList.update quest
               \<lparr>qc_event = unat i, qc_condition = c, qc_num = num\<rparr> (mQuestToEventConditions m)\<rparr>)"

definition load_condition_row :: "u8 \<times> u32 \<times> 'f \<times> u16 \<times> u16 \<Rightarrow> 'f::zero GameEventMgr \<Rightarrow> 'f GameEventMgr" where
  "load_condition_row row m =
     (case row of (i, c, req, maxws, donews) \<Rightarrow>
      let e = unat i in
      if e \<ge> length (mGameEvent m) then m
      else upd_event e (\<lambda>d. d\<lparr>conditions := AList.update c
             \<lparr>reqNum = req, cond_done = 0, max_world_state = ucast maxws, done_world_state = ucast donews\<rparr>
             (conditions d)\<rparr>) m)"

definition load_condition_save_row :: "u8 \<times> u32 \<times> 'f \<Rightarrow> 'f GameEventMgr \<Rightarrow> 'f GameEventMgr" where
  "load_condition_save_row row m =
     (case row of (i, c, v) \<Rightarrow>
      let e = unat i in
      if e \<ge> length (mGameEvent m) then m
      else (case map_of (conditions (event m e)) c of
              None \<Rightarrow> m
            | Some k \<Rightarrow> upd_event e (\<lambda>d. d\<lparr>conditions := AList.update c (k\<lparr>cond_done := v\<rparr>) (conditions d)\<rparr>) m))"

subsection \<open>Frames\<close>

lemma effect_frame [simp]:
  "mGameEvent (effect es m) = mGameEvent m" "m_ActiveEvents (effect es m) = m_ActiveEvents m"
  "db_log (effect es m) = db_log m" "isSystemInit (effect es m) = isSystemInit m"
  "mQuestToEventConditions (effect es m) = mQuestToEventConditions m"
  by (simp_all add: effect_def)

lemma commit_frame [simp]:
  "mGameEvent (commit ss m) = mGameEvent m" "m_ActiveEvents (commit ss m) = m_ActiveEvents m"
  "db_log (commit ss m) = db_log m @ ss"
  "mQuestToEventConditions (commit ss m) = mQuestToEventConditions m"
  by (simp_all add: commit_def)

lemma apply_frame [simp]:
  "mGameEvent (ApplyNewEvent e m) = mGameEvent m" "m_ActiveEvents (ApplyNewEvent e m) = m_ActiveEvents m"
  "db_log (ApplyNewEvent e m) = db_log m"
  "mQuestToEventConditions (ApplyNewEvent e m) = mQuestToEventConditions m"
  by (simp_all add: ApplyNewEvent_def UpdateEventQuests_def)

lemma unapply_frame [simp]:
  "mGameEvent (UnApplyEvent e m) = mGameEvent m" "m_ActiveEvents (UnApplyEvent e m) = m_ActiveEvents m"
  "db_log (UnApplyEvent e m) = db_log m"
  "mQuestToEventConditions (UnApplyEvent e m) = mQuestToEventConditions m"
  by (simp_all add: UnApplyEvent_def UpdateEventQuests_def)

lemma update_delay_frame [simp]:
  "ul_mgr (update_delay now e s) = ul_mgr s" "ul_trans (update_delay now e s) = ul_trans s"
  "ul_activate (update_delay now e s) = ul_activate s" "ul_deactivate (update_delay now e s) = ul_deactivate s"
  by (simp_all add: update_delay_def Let_def)

subsection \<open>The delay to the next check\<close>

lemma mod_shift:
  fixes x k P :: int
  assumes "0 < P" and "0 \<le> k" and "x mod P + k < P"
  shows "(x + k) mod P = x mod P + k"
proof -
  have "(x + k) mod P = (x mod P + k) mod P" by (simp add: mod_add_left_eq)
  also have "\<dots> = x mod P + k" using assms by (intro mod_pos_pos_trivial) auto
  finally show ?thesis .
qed

lemma uint_of_int_le: "0 \<le> x \<Longrightarrow> uint (word_of_int x :: u32) \<le> x"
  by (simp add: uint_word_of_int zmod_le_nonneg_dividend)

text \<open>C20. Let the period of a normal event be nonzero and not shorter than its length (both in seconds, as 32-bit numbers), and the
  check not fall on the very second the event starts (\<open>NextCheck_at_start\<close> is that case). Then the delay \<open>NextCheck\<close> returns is sound:
  until it has passed, \<open>CheckOneGameEvent\<close> answers as it does now, so no start or end is missed.\<close>

theorem NextCheck_sound:
  fixes m :: "'f GameEventMgr"
  assumes st: "ev_state (event m e) = GAMEEVENT_NORMAL"
    and per: "0 < occurence (event m e) * MINUTE" "ev_length (event m e) * MINUTE \<le> occurence (event m e) * MINUTE"
    and ne: "now \<noteq> ev_start (event m e)"
    and t: "now \<le> t" "t < now + uint (NextCheck now m e)"
  shows "CheckOneGameEvent t m e \<longleftrightarrow> CheckOneGameEvent now m e"
proof -
  define d where "d = event m e"
  define P where "P = uint (occurence d * MINUTE)"
  define L where "L = uint (ev_length d * MINUTE)"
  have P: "0 < P" "L \<le> P" using per unfolding P_def L_def d_def by (simp_all add: word_less_def word_le_def)
  have check: "CheckOneGameEvent u m e \<longleftrightarrow> ev_start d < u \<and> u < ev_end d \<and> (u - ev_start d) mod P < L" for u
    using st by (simp add: CheckOneGameEvent_def Let_def d_def P_def L_def)
  consider (past) "now > ev_end d" | (future) "now \<le> ev_end d" "ev_start d > now" | (inside) "now \<le> ev_end d" "ev_start d < now"
    using ne unfolding d_def by linarith
  then show ?thesis
  proof cases
    case past
    then show ?thesis using t(1) unfolding check by auto
  next
    case future
    then have "uint (NextCheck now m e) \<le> ev_start d - now"
      using st by (simp add: NextCheck_def Let_def uint_of_int_le del: of_int_diff flip: d_def)
    then show ?thesis using future t unfolding check by auto
  next
    case inside
    define ph where "ph = (now - ev_start d) mod P"
    have ph: "0 \<le> ph" "ph < P" using P(1) by (simp_all add: ph_def)
    define delay :: u32 where "delay = (if ph < L then word_of_int (L - ph) else word_of_int (P - ph))"
    have ld: "uint delay \<le> (if ph < L then L - ph else P - ph)"
      using ph by (simp add: delay_def uint_of_int_le del: of_int_diff)
    have nc: "NextCheck now m e = (if ev_end d < now + uint delay then word_of_int (ev_end d - now) else delay)"
      using st inside by (simp add: NextCheck_def Let_def delay_def ph_def P_def L_def MINUTE_def flip: d_def)
    have le: "uint (NextCheck now m e) \<le> uint delay"
      using uint_of_int_le[of "ev_end d - now"] inside by (auto simp: nc)
    have lend: "t < ev_end d \<or> t = now"
    proof (cases "ev_end d < now + uint delay")
      case True
      then show ?thesis using t uint_of_int_le[of "ev_end d - now"] inside by (simp add: nc)
    next
      case False
      then show ?thesis using t by (simp add: nc)
    qed
    have k: "0 \<le> t - now" "ph + (t - now) < (if ph < L then L else P)"
      using t le ld by (auto split: if_splits)
    have "(now - ev_start d + (t - now)) mod P = ph + (t - now)"
      unfolding ph_def by (rule mod_shift[OF P(1) k(1)]) (use k(2) P(2) in \<open>auto simp: ph_def split: if_splits\<close>)
    then have "(t - ev_start d) mod P = ph + (t - now)" by simp
    then show ?thesis using k inside t(1) lend unfolding check by (auto simp: ph_def split: if_splits)
  qed
qed


definition sample_event :: "nat GameEventData" where
  "sample_event = GameEventData_new\<lparr>ev_start := 1000, ev_end := 100000, occurence := 60, ev_length := 10\<rparr>"

definition sample_mgr :: "nat GameEventMgr" where
  "sample_mgr = \<lparr>mGameEvent = [GameEventData_new, sample_event], m_ActiveEvents = {}, mQuestToEventConditions = [],
     mGameEventCreatureQuests = [[], []], mGameEventGameObjectQuests = [[], []],
     mGameEventCreatureGuids = [[], [], []], mGameEventGameobjectGuids = [[], [], []],
     mGameEventNPCFlags = [[], []], isSystemInit = True, event_announce = 0, creature_quest_map = {#},
     gameobject_quest_map = {#}, event_timer = 0, db_log = [], fx_log = []\<rparr>"

theorem NextCheck_sound_witness:
  "CheckOneGameEvent 1599 sample_mgr 1 \<longleftrightarrow> CheckOneGameEvent 1100 sample_mgr 1"
  by (rule NextCheck_sound) (simp_all add: sample_mgr_def sample_event_def GameEventData_new_def MINUTE_def
    NextCheck_def)

text \<open>The one exception is a check at the very second of the start: the event is not yet active (the comparison is strict), and the next check is only due at the end of its first run, although it is active all the time in between.\<close>

theorem NextCheck_at_start:
  assumes st: "ev_state (event m e) = GAMEEVENT_NORMAL" and at: "now = ev_start (event m e)"
    and len: "0 < ev_length (event m e) * MINUTE" and per: "ev_length (event m e) * MINUTE \<le> occurence (event m e) * MINUTE"
    and fin: "now + uint (ev_length (event m e) * MINUTE) < ev_end (event m e)"
    and t: "now < t" "t < now + uint (NextCheck now m e)"
  shows "\<not> CheckOneGameEvent now m e \<and> CheckOneGameEvent t m e
    \<and> NextCheck now m e = ev_length (event m e) * MINUTE"
proof -
  define d where "d = event m e"
  define L where "L = uint (ev_length d * MINUTE)"
  define P where "P = uint (occurence d * MINUTE)"
  have L: "0 < L" "L \<le> P" using len per unfolding L_def P_def d_def by (simp_all add: word_less_def word_le_def)
  have L': "uint (ev_length d * 60) = L" by (simp add: L_def MINUTE_def)
  have w: "word_of_int L = ev_length d * MINUTE" "uint (ev_length d * MINUTE) = L" by (simp_all add: L_def)
  have nc: "NextCheck now m e = ev_length d * MINUTE"
    using st at fin L L' w unfolding d_def[symmetric] by (simp add: NextCheck_def Let_def flip: d_def L_def)
  then have "t < now + L" using t(2) by (simp add: L_def)
  then have "CheckOneGameEvent t m e"
    using st at t(1) fin L unfolding d_def[symmetric] L_def[symmetric]
    by (simp add: CheckOneGameEvent_def Let_def flip: d_def L_def P_def)
  then show ?thesis using nc st at by (simp add: CheckOneGameEvent_def Let_def d_def)
qed


theorem NextCheck_at_start_witness:
  "\<not> CheckOneGameEvent 1000 sample_mgr 1 \<and> CheckOneGameEvent 1001 sample_mgr 1
    \<and> NextCheck 1000 sample_mgr 1 = 600"
proof -
  have "\<not> CheckOneGameEvent 1000 sample_mgr 1 \<and> CheckOneGameEvent 1001 sample_mgr 1
    \<and> NextCheck 1000 sample_mgr 1 = ev_length (event sample_mgr 1) * MINUTE"
    by (rule NextCheck_at_start) (simp_all add: sample_mgr_def sample_event_def GameEventData_new_def MINUTE_def
      NextCheck_def)
  then show ?thesis by (simp add: sample_mgr_def sample_event_def GameEventData_new_def MINUTE_def)
qed

subsection \<open>The update\<close>

lemma cond_check_frame [simp]:
  "m_ActiveEvents (snd (CheckOneGameEventConditions now i m)) = m_ActiveEvents m"
  "length (mGameEvent (snd (CheckOneGameEventConditions now i m))) = length (mGameEvent m)"
  "db_log (snd (CheckOneGameEventConditions now i m)) = db_log m"
  "mQuestToEventConditions (snd (CheckOneGameEventConditions now i m)) = mQuestToEventConditions m"
  "i \<noteq> e \<Longrightarrow> event (snd (CheckOneGameEventConditions now i m)) e = event m e"
  by (simp_all add: CheckOneGameEventConditions_def)

lemma cond_check_state:
  "fst (CheckOneGameEventConditions now i m) \<Longrightarrow> i < length (mGameEvent m) \<Longrightarrow>
     ev_state (event (snd (CheckOneGameEventConditions now i m)) i) = GAMEEVENT_WORLD_NEXTPHASE"
  "\<not> fst (CheckOneGameEventConditions now i m) \<Longrightarrow> snd (CheckOneGameEventConditions now i m) = m"
  by (auto simp: CheckOneGameEventConditions_def split: if_splits)

lemma update_one_frame [simp]:
  "m_ActiveEvents (ul_mgr (update_one now i s)) = m_ActiveEvents (ul_mgr s)"
  "length (mGameEvent (ul_mgr (update_one now i s))) = length (mGameEvent (ul_mgr s))"
  "db_log (ul_mgr (update_one now i s)) = db_log (ul_mgr s)"
  "mQuestToEventConditions (ul_mgr (update_one now i s)) = mQuestToEventConditions (ul_mgr s)"
  "i \<noteq> e \<Longrightarrow> event (ul_mgr (update_one now i s)) e = event (ul_mgr s) e"
  "i \<noteq> e \<Longrightarrow> e \<in> set (ul_activate (update_one now i s)) \<longleftrightarrow> e \<in> set (ul_activate s)"
  "i \<noteq> e \<Longrightarrow> e \<in> set (ul_deactivate (update_one now i s)) \<longleftrightarrow> e \<in> set (ul_deactivate s)"
  using cond_check_frame[where now = now and i = i and m = "ul_mgr s"]
  by (cases "CheckOneGameEventConditions now i (ul_mgr s)"; auto simp: update_one_def Let_def split: bool.splits)+

lemma update_fold_frame:
  "m_ActiveEvents (ul_mgr (fold (update_one now) xs s)) = m_ActiveEvents (ul_mgr s)"
  "length (mGameEvent (ul_mgr (fold (update_one now) xs s))) = length (mGameEvent (ul_mgr s))"
  "db_log (ul_mgr (fold (update_one now) xs s)) = db_log (ul_mgr s)"
  "mQuestToEventConditions (ul_mgr (fold (update_one now) xs s)) = mQuestToEventConditions (ul_mgr s)"
  "e \<notin> set xs \<Longrightarrow> event (ul_mgr (fold (update_one now) xs s)) e = event (ul_mgr s) e"
  "e \<notin> set xs \<Longrightarrow> e \<in> set (ul_activate (fold (update_one now) xs s)) \<longleftrightarrow> e \<in> set (ul_activate s)"
  "e \<notin> set xs \<Longrightarrow> e \<in> set (ul_deactivate (fold (update_one now) xs s)) \<longleftrightarrow> e \<in> set (ul_deactivate s)"
  by (induction xs arbitrary: s) simp_all

lemma update_loop_at:
  assumes "1 \<le> e" "e < length (mGameEvent (ul_mgr s))"
  obtains t where
    "event (ul_mgr t) e = event (ul_mgr s) e" "m_ActiveEvents (ul_mgr t) = m_ActiveEvents (ul_mgr s)"
    "length (mGameEvent (ul_mgr t)) = length (mGameEvent (ul_mgr s))"
    "e \<in> set (ul_activate t) \<longleftrightarrow> e \<in> set (ul_activate s)" "e \<in> set (ul_deactivate t) \<longleftrightarrow> e \<in> set (ul_deactivate s)"
    "event (ul_mgr (fold (update_one now) [1..<length (mGameEvent (ul_mgr s))] s)) e = event (ul_mgr (update_one now e t)) e"
    "e \<in> set (ul_activate (fold (update_one now) [1..<length (mGameEvent (ul_mgr s))] s)) \<longleftrightarrow> e \<in> set (ul_activate (update_one now e t))"
    "e \<in> set (ul_deactivate (fold (update_one now) [1..<length (mGameEvent (ul_mgr s))] s)) \<longleftrightarrow> e \<in> set (ul_deactivate (update_one now e t))"
proof -
  have split: "[1..<length (mGameEvent (ul_mgr s))] = [1..<e] @ e # [Suc e..<length (mGameEvent (ul_mgr s))]"
    using assms upt_add_eq_append[of 1 e "length (mGameEvent (ul_mgr s)) - e"] by (simp add: upt_conv_Cons)
  show thesis
    by (rule that[of "fold (update_one now) [1..<e] s"]) (simp_all add: split[simplified] update_fold_frame)
qed

lemma StartEvent_body_frame [simp]:
  "m_ActiveEvents (snd (StartEvent_body now i ow m)) = insert i (m_ActiveEvents m)"
  "length (mGameEvent (snd (StartEvent_body now i ow m))) = length (mGameEvent m)"
  "mQuestToEventConditions (snd (StartEvent_body now i ow m)) = mQuestToEventConditions m"
  "i \<noteq> e \<Longrightarrow> event (snd (StartEvent_body now i ow m)) e = event m e"
  by (simp_all add: StartEvent_body_def Let_def case_prod_beta)


lemma StopEvent_frame [simp]:
  "m_ActiveEvents (StopEvent now i ow m) = m_ActiveEvents m - {i}"
  "length (mGameEvent (StopEvent now i ow m)) = length (mGameEvent m)"
  "mQuestToEventConditions (StopEvent now i ow m) = mQuestToEventConditions m"
  "i \<noteq> e \<Longrightarrow> event (StopEvent now i ow m) e = event m e"
  by (simp_all add: StopEvent_def Let_def)

lemma snd_activate_one [simp]: "snd (activate_one now i p) = snd (StartEvent_body now i False (snd p))"
  by (simp add: activate_one_def case_prod_beta)

lemma activate_fold_frame:
  "m_ActiveEvents (snd (fold (activate_one now) xs p)) = m_ActiveEvents (snd p) \<union> set xs"
  "length (mGameEvent (snd (fold (activate_one now) xs p))) = length (mGameEvent (snd p))"
  "mQuestToEventConditions (snd (fold (activate_one now) xs p)) = mQuestToEventConditions (snd p)"
  "e \<notin> set xs \<Longrightarrow> event (snd (fold (activate_one now) xs p)) e = event (snd p) e"
  by (induction xs arbitrary: p) simp_all

lemma stop_fold_frame:
  "m_ActiveEvents (fold (\<lambda>e. StopEvent now e ow) xs m) = m_ActiveEvents m - set xs"
  "length (mGameEvent (fold (\<lambda>e. StopEvent now e ow) xs m)) = length (mGameEvent m)"
  "mQuestToEventConditions (fold (\<lambda>e. StopEvent now e ow) xs m) = mQuestToEventConditions m"
  "e \<notin> set xs \<Longrightarrow> event (fold (\<lambda>e. StopEvent now e ow) xs m) e = event m e"
  by (induction xs arbitrary: m) auto

definition loop_start :: "'f GameEventMgr \<Rightarrow> 'f update_loop" where
  "loop_start m = \<lparr>ul_mgr = m, ul_trans = [], ul_activate = [], ul_deactivate = [], ul_delay = max_ge_check_delay\<rparr>"

lemma loop_start_simps [simp]:
  "ul_mgr (loop_start m) = m" "ul_trans (loop_start m) = []" "ul_activate (loop_start m) = []"
  "ul_deactivate (loop_start m) = []"
  by (simp_all add: loop_start_def)

definition loop_end :: "int \<Rightarrow> 'f::linorder GameEventMgr \<Rightarrow> 'f update_loop" where
  "loop_end now m = fold (update_one now) [1..<length (mGameEvent m)] (loop_start m)"

lemma loop_end_frame [simp]:
  "m_ActiveEvents (ul_mgr (loop_end now m)) = m_ActiveEvents m"
  "length (mGameEvent (ul_mgr (loop_end now m))) = length (mGameEvent m)"
  "db_log (ul_mgr (loop_end now m)) = db_log m"
  "mQuestToEventConditions (ul_mgr (loop_end now m)) = mQuestToEventConditions m"
  by (simp_all add: loop_end_def update_fold_frame)

lemma loop_end_at:
  assumes "1 \<le> e" "e < length (mGameEvent m)"
  obtains t where
    "event (ul_mgr t) e = event m e" "m_ActiveEvents (ul_mgr t) = m_ActiveEvents m"
    "length (mGameEvent (ul_mgr t)) = length (mGameEvent m)"
    "e \<notin> set (ul_activate t)" "e \<notin> set (ul_deactivate t)"
    "event (ul_mgr (loop_end now m)) e = event (ul_mgr (update_one now e t)) e"
    "e \<in> set (ul_activate (loop_end now m)) \<longleftrightarrow> e \<in> set (ul_activate (update_one now e t))"
    "e \<in> set (ul_deactivate (loop_end now m)) \<longleftrightarrow> e \<in> set (ul_deactivate (update_one now e t))"
  using update_loop_at[of e "loop_start m" now] assms unfolding loop_end_def by auto

lemma Update_snd:
  "snd (Update now m) =
     fold (\<lambda>e. StopEvent now e False) (ul_deactivate (loop_end now m))
       (snd (fold (activate_one now) (ul_activate (loop_end now m))
         (ul_delay (loop_end now m), commit (ul_trans (loop_end now m)) (ul_mgr (loop_end now m)))))"
  by (simp add: Update_def Let_def case_prod_beta loop_end_def flip: loop_start_def)

lemma Update_active_set:
  "m_ActiveEvents (snd (Update now m)) =
     m_ActiveEvents m \<union> set (ul_activate (loop_end now m)) - set (ul_deactivate (loop_end now m))"
  by (simp add: Update_snd stop_fold_frame activate_fold_frame)

lemma check_same_event:
  "ev_state (event m e) = GAMEEVENT_NORMAL \<Longrightarrow> event m e = event n e \<Longrightarrow>
     CheckOneGameEvent now m e = CheckOneGameEvent now n e"
  by (simp add: CheckOneGameEvent_def Let_def)

text \<open>C21. After \<open>Update\<close> a normal event is in the active list exactly when \<open>CheckOneGameEvent\<close> holds of it.\<close>

theorem Update_active:
  assumes e: "1 \<le> e" "e < length (mGameEvent m)" and n: "ev_state (event m e) = GAMEEVENT_NORMAL"
  shows "IsActiveEvent (snd (Update now m)) e \<longleftrightarrow> CheckOneGameEvent now m e"
proof -
  obtain t where t: "event (ul_mgr t) e = event m e" "m_ActiveEvents (ul_mgr t) = m_ActiveEvents m"
    "length (mGameEvent (ul_mgr t)) = length (mGameEvent m)" "e \<notin> set (ul_activate t)" "e \<notin> set (ul_deactivate t)"
    "e \<in> set (ul_activate (loop_end now m)) \<longleftrightarrow> e \<in> set (ul_activate (update_one now e t))"
    "e \<in> set (ul_deactivate (loop_end now m)) \<longleftrightarrow> e \<in> set (ul_deactivate (update_one now e t))"
    by (rule loop_end_at[OF e, of now])
  have c: "CheckOneGameEvent now (ul_mgr t) e = CheckOneGameEvent now m e"
    by (rule check_same_event) (simp_all add: t(1) n)
  show ?thesis unfolding IsActiveEvent_def Update_active_set
    using t(2-) n by (auto simp: update_one_def Let_def c t(1) IsActiveEvent_def)
qed

theorem Update_active_witness:
  "IsActiveEvent (snd (Update 1100 sample_mgr)) 1"
  using Update_active[of 1 sample_mgr 1100]
  by (simp add: sample_mgr_def sample_event_def GameEventData_new_def MINUTE_def CheckOneGameEvent_def)

abbreviation phase :: "'f GameEventMgr \<Rightarrow> nat \<Rightarrow> nat" where
  "phase m e \<equiv> GameEventState_val (ev_state (event m e))"

definition world_event :: "GameEventState \<Rightarrow> bool" where
  "world_event st \<longleftrightarrow> st \<noteq> GAMEEVENT_NORMAL \<and> st \<noteq> GAMEEVENT_INTERNAL"

lemma world_event_simps [simp]:
  "\<not> world_event GAMEEVENT_NORMAL" "\<not> world_event GAMEEVENT_INTERNAL"
  "world_event GAMEEVENT_WORLD_INACTIVE" "world_event GAMEEVENT_WORLD_CONDITIONS"
  "world_event GAMEEVENT_WORLD_NEXTPHASE" "world_event GAMEEVENT_WORLD_FINISHED"
  by (simp_all add: world_event_def)

text \<open>The two shapes a world event can have after its turn in the loop.\<close>

lemma update_one_world:
  fixes now :: int
  assumes "e < length (mGameEvent (ul_mgr t))" and "world_event (ev_state (event (ul_mgr t) e))"
    and "e \<notin> set (ul_activate t)" "e \<notin> set (ul_deactivate t)"
  defines "t' \<equiv> update_one now e t"
  shows "phase (ul_mgr t) e \<le> phase (ul_mgr t') e \<and> world_event (ev_state (event (ul_mgr t') e))
    \<and> (if e \<in> set (ul_deactivate t')
       then e \<notin> set (ul_activate t') \<and> ev_state (event (ul_mgr t') e) \<in> {GAMEEVENT_WORLD_INACTIVE, GAMEEVENT_WORLD_FINISHED}
       else e \<in> set (ul_activate t') \<longrightarrow> ev_state (event (ul_mgr t') e) \<noteq> GAMEEVENT_WORLD_FINISHED)"
proof -
  have cc: "CheckOneGameEventConditions now e (ul_mgr t) = (False, ul_mgr t) \<or>
     (\<exists>m1. CheckOneGameEventConditions now e (ul_mgr t) = (True, m1)
        \<and> ev_state (event m1 e) = GAMEEVENT_WORLD_NEXTPHASE \<and> m_ActiveEvents m1 = m_ActiveEvents (ul_mgr t))"
    using assms(1) by (auto simp: CheckOneGameEventConditions_def)
  show ?thesis
    using assms(1-4) cc unfolding t'_def
    by (cases "ev_state (event (ul_mgr t) e)")
      (auto simp: update_one_def Let_def CheckOneGameEvent_def IsActiveEvent_def)
qed

lemma StartEvent_body_world:
  assumes "e < length (mGameEvent m)" and "world_event (ev_state (event m e))"
    and "ev_state (event m e) \<noteq> GAMEEVENT_WORLD_FINISHED"
  shows "phase m e \<le> phase (snd (StartEvent_body now e ow m)) e
    \<and> ev_state (event (snd (StartEvent_body now e ow m)) e) \<in> {GAMEEVENT_WORLD_CONDITIONS, GAMEEVENT_WORLD_NEXTPHASE}"
  using assms by (cases "ev_state (event m e)")
    (auto simp: StartEvent_body_def Let_def CheckOneGameEventConditions_def)

lemma StopEvent_keeps_state:
  "ev_state (event m e) \<in> {GAMEEVENT_WORLD_INACTIVE, GAMEEVENT_WORLD_FINISHED} \<Longrightarrow> e < length (mGameEvent m) \<Longrightarrow>
     ev_state (event (StopEvent now e False m) e) = ev_state (event m e)"
  by (auto simp: StopEvent_def Let_def)

lemma activate_fold_world:
  assumes "e < length (mGameEvent (snd p))" and "world_event (ev_state (event (snd p) e))"
    and "ev_state (event (snd p) e) \<noteq> GAMEEVENT_WORLD_FINISHED"
  shows "phase (snd p) e \<le> phase (snd (fold (activate_one now) xs p)) e
    \<and> world_event (ev_state (event (snd (fold (activate_one now) xs p)) e))"
  using assms
proof (induction xs arbitrary: p)
  case (Cons i xs)
  let ?p = "activate_one now i p"
  have "phase (snd p) e \<le> phase (snd ?p) e \<and> world_event (ev_state (event (snd ?p) e))
     \<and> ev_state (event (snd ?p) e) \<noteq> GAMEEVENT_WORLD_FINISHED"
    using StartEvent_body_world[of e "snd p" now False] Cons.prems
    by (cases "i = e") auto
  moreover have "e < length (mGameEvent (snd ?p))" using Cons.prems(1) by simp
  ultimately show ?case using Cons.IH[of ?p] by auto
qed simp

lemma stop_fold_state:
  assumes "ev_state (event m e) \<in> {GAMEEVENT_WORLD_INACTIVE, GAMEEVENT_WORLD_FINISHED}" and "e < length (mGameEvent m)"
  shows "ev_state (event (fold (\<lambda>e. StopEvent now e False) xs m) e) = ev_state (event m e)"
  using assms
proof (induction xs arbitrary: m)
  case (Cons i xs)
  have "ev_state (event (StopEvent now i False m) e) = ev_state (event m e)"
    using StopEvent_keeps_state[OF Cons.prems] by (cases "i = e") auto
  with Cons show ?case by simp
qed simp

text \<open>C22. \<open>Update\<close> moves a world event only forward in its phases (inactive, conditions, next phase, finished) and never makes it a normal or internal one.\<close>

theorem Update_forward:
  assumes e: "1 \<le> e" "e < length (mGameEvent m)" and w: "world_event (ev_state (event m e))"
  shows "phase m e \<le> phase (snd (Update now m)) e \<and> world_event (ev_state (event (snd (Update now m)) e))"
proof -
  obtain t where t: "event (ul_mgr t) e = event m e" "m_ActiveEvents (ul_mgr t) = m_ActiveEvents m"
    "length (mGameEvent (ul_mgr t)) = length (mGameEvent m)"
    "e \<notin> set (ul_activate t)" "e \<notin> set (ul_deactivate t)"
    "event (ul_mgr (loop_end now m)) e = event (ul_mgr (update_one now e t)) e"
    "e \<in> set (ul_activate (loop_end now m)) \<longleftrightarrow> e \<in> set (ul_activate (update_one now e t))"
    "e \<in> set (ul_deactivate (loop_end now m)) \<longleftrightarrow> e \<in> set (ul_deactivate (update_one now e t))"
    by (rule loop_end_at[OF e, of now])
  let ?s = "loop_end now m"
  have turn: "phase m e \<le> phase (ul_mgr ?s) e" "world_event (ev_state (event (ul_mgr ?s) e))"
    "if e \<in> set (ul_deactivate ?s)
     then e \<notin> set (ul_activate ?s) \<and> ev_state (event (ul_mgr ?s) e) \<in> {GAMEEVENT_WORLD_INACTIVE, GAMEEVENT_WORLD_FINISHED}
     else e \<in> set (ul_activate ?s) \<longrightarrow> ev_state (event (ul_mgr ?s) e) \<noteq> GAMEEVENT_WORLD_FINISHED"
    unfolding t(6-8) using update_one_world[of e t now] e(2) w t(1-5) by (simp_all del: insert_iff)
  define p where "p = (ul_delay ?s, commit (ul_trans ?s) (ul_mgr ?s))"
  have p: "event (snd p) e = event (ul_mgr ?s) e" "e < length (mGameEvent (snd p))"
    using e(2) by (simp_all add: p_def)
  let ?m1 = "snd (fold (activate_one now) (ul_activate ?s) p)"
  have l1: "e < length (mGameEvent ?m1)" using p(2) by (simp add: activate_fold_frame)
  show ?thesis
  proof (cases "e \<in> set (ul_deactivate ?s)")
    case True
    then have "event ?m1 e = event (ul_mgr ?s) e" using turn(3) p(1) by (simp add: activate_fold_frame)
    then have "ev_state (event (snd (Update now m)) e) = ev_state (event (ul_mgr ?s) e)"
      unfolding Update_snd p_def[symmetric] using turn(3) True l1 by (subst stop_fold_state) auto
    then show ?thesis using turn by simp
  next
    case False
    then have "event (snd (Update now m)) e = event ?m1 e"
      unfolding Update_snd p_def[symmetric] by (rule stop_fold_frame)
    moreover have "phase (ul_mgr ?s) e \<le> phase ?m1 e \<and> world_event (ev_state (event ?m1 e))"
    proof (cases "e \<in> set (ul_activate ?s)")
      case True
      then show ?thesis using activate_fold_world[of e p now "ul_activate ?s"] False turn p by simp
    next
      case f: False
      then show ?thesis using turn(2) p(1) by (simp add: activate_fold_frame)
    qed
    ultimately show ?thesis using turn(1) by simp
  qed
qed

definition sample_world :: "nat GameEventMgr" where
  "sample_world = sample_mgr\<lparr>mGameEvent := [GameEventData_new,
     GameEventData_new\<lparr>ev_state := GAMEEVENT_WORLD_NEXTPHASE, nextstart := 50\<rparr>],
     m_ActiveEvents := {1}\<rparr>"

theorem Update_forward_witness:
  "3 \<le> phase (snd (Update 100 sample_world)) 1"
  using Update_forward[of 1 sample_world 100] by (simp add: sample_world_def sample_mgr_def)

subsection \<open>What the database holds\<close>

text \<open>The two save tables, and what the statements do to them.\<close>

record 'f ge_tables =
  t_save :: "u8 \<rightharpoonup> nat \<times> u32"
  t_cond :: "u8 \<times> u32 \<rightharpoonup> 'f"

fun exec_stmt :: "'f ge_stmt \<Rightarrow> 'f ge_tables \<Rightarrow> 'f ge_tables" where
  "exec_stmt (DelEventSave i) T = T\<lparr>t_save := (t_save T)(i := None)\<rparr>"
| "exec_stmt (InsEventSave i s n) T = T\<lparr>t_save := (t_save T)(i \<mapsto> (s, n))\<rparr>"
| "exec_stmt (DelAllConditionSave i) T = T\<lparr>t_cond := (\<lambda>(j, c). if j = i then None else t_cond T (j, c))\<rparr>"
| "exec_stmt (DelConditionSave i c) T = T\<lparr>t_cond := (t_cond T)((i, c) := None)\<rparr>"
| "exec_stmt (InsConditionSave i c v) T = T\<lparr>t_cond := (t_cond T)((i, c) \<mapsto> v)\<rparr>"

definition exec_all :: "'f ge_stmt list \<Rightarrow> 'f ge_tables \<Rightarrow> 'f ge_tables" where
  "exec_all = fold exec_stmt"

lemma exec_all_append [simp]: "exec_all (ss @ ts) T = exec_all ts (exec_all ss T)"
  by (simp add: exec_all_def)

lemma exec_all_simps [simp]: "exec_all [] T = T" "exec_all (s # ss) T = exec_all ss (exec_stmt s T)"
  by (simp_all add: exec_all_def)

text \<open>
  \<open>saved T d e\<close>: what the tables hold of the world event \<open>e\<close> is its state \<open>d\<close>; without a
  row it is inactive, and a condition without a row counts zero.
\<close>

definition saved :: "'f::zero ge_tables \<Rightarrow> 'f GameEventData \<Rightarrow> nat \<Rightarrow> bool" where
  "saved T d e \<longleftrightarrow> (world_event (ev_state d) \<longrightarrow>
     (case t_save T (word_of_nat e) of
        None \<Rightarrow> ev_state d = GAMEEVENT_WORLD_INACTIVE \<and> nextstart d = 0
      | Some (s, n) \<Rightarrow> s = GameEventState_val (ev_state d) \<and> n = word_of_int (nextstart d))
     \<and> (\<forall>c k. map_of (conditions d) c = Some k \<longrightarrow>
          cond_done k = (case t_cond T (word_of_nat e, c) of None \<Rightarrow> 0 | Some v \<Rightarrow> v)))"

definition all_saved :: "'f::zero ge_tables \<Rightarrow> 'f GameEventMgr \<Rightarrow> bool" where
  "all_saved T m \<longleftrightarrow> length (mGameEvent m) \<le> 256 \<and> (\<forall>e<length (mGameEvent m). saved T (event m e) e)"

definition synced :: "'f::zero ge_tables \<Rightarrow> 'f GameEventMgr \<Rightarrow> bool" where
  "synced T m \<longleftrightarrow> all_saved (exec_all (db_log m) T) m"

lemma id8_inj: "e < 256 \<Longrightarrow> i < 256 \<Longrightarrow> (word_of_nat e :: u8) = word_of_nat i \<longleftrightarrow> e = i"
  by (simp add: word_of_nat_eq_iff take_bit_nat_eq_self)

lemma exec_save:
  "t_save (exec_all (SaveWorldEventState m e) T) =
     (t_save T)(word_of_nat e \<mapsto> (GameEventState_val (ev_state (event m e)), word_of_int (nextstart (event m e))))"
  "t_cond (exec_all (SaveWorldEventState m e) T) = t_cond T"
  by (auto simp: SaveWorldEventState_def)

lemma all_saved_save:
  assumes s: "all_saved T m" and l: "length (mGameEvent m') = length (mGameEvent m)" and i: "i < length (mGameEvent m)"
    and o: "\<And>e. e \<noteq> i \<Longrightarrow> event m' e = event m e"
    and c: "conditions (event m' i) = conditions (event m i)" and w: "world_event (ev_state (event m i))"
  shows "all_saved (exec_all (SaveWorldEventState m' i) T) m'"
  unfolding all_saved_def
proof (intro conjI allI impI)
  show "length (mGameEvent m') \<le> 256" using s l by (simp add: all_saved_def)
  fix e assume e: "e < length (mGameEvent m')"
  show "saved (exec_all (SaveWorldEventState m' i) T) (event m' e) e"
  proof (cases "e = i")
    case True
    then show ?thesis using s i w by (auto simp: saved_def exec_save c all_saved_def)
  next
    case False
    then have "(word_of_nat e :: u8) \<noteq> word_of_nat i" using s e l i by (simp add: id8_inj all_saved_def)
    then show ?thesis using s False e l by (simp add: saved_def exec_save o all_saved_def)
  qed
qed

lemma all_saved_same:
  assumes "all_saved T m" and "length (mGameEvent m') = length (mGameEvent m)"
    and "\<And>e. e < length (mGameEvent m) \<Longrightarrow> event m' e = event m e \<or> \<not> world_event (ev_state (event m' e))"
  shows "all_saved T m'"
  using assms unfolding all_saved_def saved_def by metis

lemma cond_check_conditions [simp]:
  "i < length (mGameEvent m) \<Longrightarrow> conditions (event (snd (CheckOneGameEventConditions now i m)) i) = conditions (event m i)"
  by (simp add: CheckOneGameEventConditions_def)

lemma update_one_saved:
  assumes s: "all_saved (exec_all (ul_trans s) T) (ul_mgr s)" and i: "i < length (mGameEvent (ul_mgr s))"
  shows "all_saved (exec_all (ul_trans (update_one now i s)) T) (ul_mgr (update_one now i s))"
proof -
  let ?m = "ul_mgr s" and ?T = "exec_all (ul_trans s) T"
  consider (finish) "CheckOneGameEvent now ?m i" "ev_state (event ?m i) = GAMEEVENT_WORLD_NEXTPHASE" "nextstart (event ?m i) \<le> now"
    | (cond) "CheckOneGameEvent now ?m i" "ev_state (event ?m i) = GAMEEVENT_WORLD_CONDITIONS"
        "fst (CheckOneGameEventConditions now i ?m)"
    | (other) "CheckOneGameEvent now ?m i \<Longrightarrow> \<not> (ev_state (event ?m i) = GAMEEVENT_WORLD_NEXTPHASE \<and> nextstart (event ?m i) \<le> now)"
        "ev_state (event ?m i) = GAMEEVENT_WORLD_CONDITIONS \<Longrightarrow> CheckOneGameEvent now ?m i \<Longrightarrow> \<not> fst (CheckOneGameEventConditions now i ?m)"
    by blast
  then show ?thesis
  proof cases
    case finish
    let ?m1 = "upd_event i (\<lambda>d. d\<lparr>ev_state := GAMEEVENT_WORLD_FINISHED, nextstart := 0\<rparr>) ?m"
    have "all_saved (exec_all (SaveWorldEventState ?m1 i) ?T) ?m1"
      by (rule all_saved_save[OF s]) (use i finish in simp_all)
    then show ?thesis using finish by (simp add: update_one_def Let_def)
  next
    case cond
    obtain m1 where m1: "CheckOneGameEventConditions now i ?m = (True, m1)"
      using cond(3) by (cases "CheckOneGameEventConditions now i ?m") auto
    have snd: "m1 = snd (CheckOneGameEventConditions now i ?m)" using m1 by simp
    have "all_saved (exec_all (SaveWorldEventState m1 i) ?T) m1"
      unfolding snd by (rule all_saved_save[OF s]) (use i cond in simp_all)
    then show ?thesis using cond m1 by (simp add: update_one_def Let_def)
  next
    case other
    have "CheckOneGameEventConditions now i ?m = (False, ?m)" if "\<not> fst (CheckOneGameEventConditions now i ?m)"
      using that cond_check_state(2)[OF that] by (cases "CheckOneGameEventConditions now i ?m") auto
    with other have "ul_trans (update_one now i s) = ul_trans s \<and> mGameEvent (ul_mgr (update_one now i s)) = mGameEvent ?m"
      by (cases "CheckOneGameEvent now ?m i"; cases "ev_state (event ?m i) = GAMEEVENT_WORLD_CONDITIONS")
        (auto simp: update_one_def Let_def)
    then show ?thesis using s by (simp add: all_saved_def)
  qed
qed

lemma update_fold_saved:
  "all_saved (exec_all (ul_trans s) T) (ul_mgr s) \<Longrightarrow> set is \<subseteq> {0..<length (mGameEvent (ul_mgr s))} \<Longrightarrow>
   all_saved (exec_all (ul_trans (fold (update_one now) is s)) T) (ul_mgr (fold (update_one now) is s))"
  by (induction "is" arbitrary: s) (simp_all add: update_one_saved)

lemma StartEvent_body_saved:
  assumes s: "synced T m" and e: "e < length (mGameEvent m)"
  shows "synced T (snd (StartEvent_body now e ow m))"
proof (cases "world_event (ev_state (event m e))")
  case False
  then have n: "ev_state (event m e) = GAMEEVENT_NORMAL \<or> ev_state (event m e) = GAMEEVENT_INTERNAL"
    by (auto simp: world_event_def)
  have "db_log (snd (StartEvent_body now e ow m)) = db_log m"
    using n by (simp add: StartEvent_body_def Let_def)
  moreover have "\<not> world_event (ev_state (event (snd (StartEvent_body now e ow m)) e))"
    using n e by (auto simp: StartEvent_body_def Let_def)
  then have "event (snd (StartEvent_body now e ow m)) i = event m i
      \<or> \<not> world_event (ev_state (event (snd (StartEvent_body now e ow m)) i))" for i
    by (cases "i = e") simp_all
  ultimately show ?thesis using s unfolding synced_def by (simp add: all_saved_same)
next
  case True
  define m1 where "m1 = (if ev_state (event m e) = GAMEEVENT_WORLD_INACTIVE
       then upd_event e (\<lambda>d. d\<lparr>ev_state := GAMEEVENT_WORLD_CONDITIONS\<rparr>) m else m)"
  define m2 where "m2 = ApplyNewEvent e (m1\<lparr>m_ActiveEvents := insert e (m_ActiveEvents m1)\<rparr>)"
  define m3 where "m3 = snd (CheckOneGameEventConditions now e m2)"
  have eq: "snd (StartEvent_body now e ow m) = commit (SaveWorldEventState m3 e) m3"
    using True by (simp add: StartEvent_body_def Let_def case_prod_beta world_event_def m1_def m2_def m3_def)
  have m2: "mGameEvent m2 = mGameEvent m1" "db_log m2 = db_log m1" by (simp_all add: m2_def)
  have m1: "length (mGameEvent m1) = length (mGameEvent m)" "db_log m1 = db_log m"
    "conditions (event m1 e) = conditions (event m e)" "\<And>i. i \<noteq> e \<Longrightarrow> event m1 i = event m i"
    using e by (simp_all add: m1_def)
  have "all_saved (exec_all (SaveWorldEventState m3 e) (exec_all (db_log m) T)) m3"
    by (rule all_saved_save[OF s[unfolded synced_def]]) (use e True m1 m2 in \<open>simp_all add: m3_def\<close>)
  then show ?thesis unfolding eq synced_def using m1 m2
    by (simp add: m3_def) (simp add: all_saved_def)
qed

lemma StopEvent_saved:
  assumes s: "synced T m" and e: "e < length (mGameEvent m)"
  shows "synced T (StopEvent now e ow m)"
proof (cases "world_event (ev_state (event m e)) \<and> (ow \<or> ev_state (event m e) \<noteq> GAMEEVENT_WORLD_FINISHED)")
  case False
  then have log: "db_log (StopEvent now e ow m) = db_log m"
    by (auto simp: StopEvent_def Let_def world_event_def)
  have "event (StopEvent now e ow m) i = event m i \<or> \<not> world_event (ev_state (event (StopEvent now e ow m) i))" for i
    using False e by (cases "i = e") (auto simp: StopEvent_def Let_def world_event_def)
  then show ?thesis using s unfolding synced_def log by (simp add: all_saved_same)
next
  case True
  let ?m = "StopEvent now e ow m" and ?T = "exec_all (db_log m) T"
  have log: "db_log ?m = db_log m @ [DelAllConditionSave (word_of_nat e), DelEventSave (word_of_nat e)]"
    using True by (simp add: StopEvent_def Let_def world_event_def)
  have ev: "event ?m e = (event m e)\<lparr>nextstart := 0, ev_state := GAMEEVENT_WORLD_INACTIVE,
       conditions := map (\<lambda>(c, k). (c, k\<lparr>cond_done := 0\<rparr>)) (conditions (event m e))\<rparr>"
    using True e by (simp add: StopEvent_def Let_def world_event_def)
  have "saved (exec_all (db_log ?m) T) (event ?m i) i" if i: "i < length (mGameEvent m)" for i
  proof (cases "i = e")
    case True
    then show ?thesis by (auto simp: log saved_def ev map_of_map)
  next
    case False
    then have "(word_of_nat i :: u8) \<noteq> word_of_nat e" using s e i by (simp add: id8_inj synced_def all_saved_def)
    then show ?thesis using s i False by (simp add: log saved_def synced_def all_saved_def)
  qed
  then show ?thesis using s by (simp add: synced_def all_saved_def)
qed

lemma synced_length: "synced T m \<Longrightarrow> length (mGameEvent m) \<le> 256"
  by (simp add: synced_def all_saved_def)

lemma update_fold_queues:
  "set (ul_activate (fold (update_one now) xs s)) \<subseteq> set (ul_activate s) \<union> set xs
   \<and> set (ul_deactivate (fold (update_one now) xs s)) \<subseteq> set (ul_deactivate s) \<union> set xs"
proof (induction xs arbitrary: s)
  case (Cons i xs)
  have "set (ul_activate (update_one now i s)) \<subseteq> insert i (set (ul_activate s))"
    and "set (ul_deactivate (update_one now i s)) \<subseteq> insert i (set (ul_deactivate s))"
    by (cases "CheckOneGameEventConditions now i (ul_mgr s)"; auto simp: update_one_def Let_def split: bool.splits if_splits)+
  with Cons.IH[of "update_one now i s"] show ?case by auto
qed simp

lemma Update_saved:
  assumes s: "synced T m"
  shows "synced T (snd (Update now m))"
proof -
  let ?s = "loop_end now m"
  have "all_saved (exec_all (ul_trans ?s) (exec_all (db_log m) T)) (ul_mgr ?s)"
    unfolding loop_end_def by (rule update_fold_saved) (use s in \<open>auto simp: synced_def\<close>)
  then have start: "synced T (commit (ul_trans ?s) (ul_mgr ?s))"
    by (simp add: synced_def) (simp add: all_saved_def)
  have queues: "set (ul_activate ?s) \<subseteq> {0..<length (mGameEvent m)}" "set (ul_deactivate ?s) \<subseteq> {0..<length (mGameEvent m)}"
    using update_fold_queues[where now = now and xs = "[1..<length (mGameEvent m)]" and s = "loop_start m"]
    unfolding loop_end_def by auto
  have act: "synced T (snd (fold (activate_one now) xs p))"
    if "synced T (snd p)" "set xs \<subseteq> {0..<length (mGameEvent (snd p))}" for xs p
    using that by (induction xs arbitrary: p) (simp_all add: StartEvent_body_saved)
  have stop: "synced T (fold (\<lambda>e. StopEvent now e False) xs n)"
    if "synced T n" "set xs \<subseteq> {0..<length (mGameEvent n)}" for xs n
    using that by (induction xs arbitrary: n) (simp_all add: StopEvent_saved)
  show ?thesis unfolding Update_snd
    by (intro stop act) (use start queues in \<open>simp_all add: activate_fold_frame\<close>)
qed


lemma ForceGameEventUpdate_saved: "synced T m \<Longrightarrow> synced T (ForceGameEventUpdate now m)"
  using Update_saved[of T m now]
  by (simp add: ForceGameEventUpdate_def case_prod_beta) (simp add: synced_def all_saved_def)

lemma HandleQuestComplete_saved:
  fixes m :: "'f::{linorder,zero,plus} GameEventMgr"
  assumes s: "synced T m" and q: "\<forall>(i, q)\<in>set (mQuestToEventConditions m). qc_event q < length (mGameEvent m)"
  shows "synced T (HandleQuestComplete now quest m)"
proof (cases "map_of (mQuestToEventConditions m) quest")
  case None
  then show ?thesis using s by (simp add: HandleQuestComplete_def)
next
  case (Some q)
  let ?e = "qc_event q" and ?c = "qc_condition q"
  have e: "?e < length (mGameEvent m)" using q map_of_SomeD[OF Some] by auto
  show ?thesis
  proof (cases "IsActiveEvent m ?e \<and> ev_state (event m ?e) = GAMEEVENT_WORLD_CONDITIONS \<and>
      (\<exists>k. map_of (conditions (event m ?e)) ?c = Some k \<and> cond_done k < reqNum k)")
    case False
    then show ?thesis using s Some by (auto simp: HandleQuestComplete_def Let_def split: option.splits)
  next
    case True
    then obtain k where k: "map_of (conditions (event m ?e)) ?c = Some k" "cond_done k < reqNum k" by blast
    define d1 where "d1 = (if cond_done k + qc_num q > reqNum k then reqNum k else cond_done k + qc_num q)"
    define m1 where "m1 = upd_event ?e (\<lambda>ev. ev\<lparr>conditions := AList.update ?c (k\<lparr>cond_done := d1\<rparr>) (conditions ev)\<rparr>) m"
    define m2 where "m2 = commit [DelConditionSave (word_of_nat ?e) ?c, InsConditionSave (word_of_nat ?e) ?c d1] m1"
    define m3 where "m3 = snd (CheckOneGameEventConditions now ?e m2)"
    define met where "met = fst (CheckOneGameEventConditions now ?e m2)"
    have eq: "HandleQuestComplete now quest m =
       (if met then ForceGameEventUpdate now (commit (SaveWorldEventState m3 ?e) m3) else m3)"
      using True Some k
      by (simp add: HandleQuestComplete_def Let_def case_prod_beta m1_def m2_def m3_def met_def d1_def)
    have s2: "synced T m2"
    proof -
      have "saved (exec_all (db_log m2) T) (event m2 i) i" if i: "i < length (mGameEvent m)" for i
      proof (cases "i = ?e")
        case True
        have "event m2 ?e = (event m ?e)\<lparr>conditions := AList.update ?c (k\<lparr>cond_done := d1\<rparr>) (conditions (event m ?e))\<rparr>"
          using e by (simp add: m2_def m1_def)
        then show ?thesis using s e True by (auto simp: m2_def m1_def saved_def synced_def all_saved_def update_conv' split: option.splits)
      next
        case False
        then have "(word_of_nat i :: u8) \<noteq> word_of_nat ?e"
          using synced_length[OF s] e i by (simp add: id8_inj)
        then show ?thesis using s i False by (simp add: m2_def m1_def saved_def synced_def all_saved_def)
      qed
      then show ?thesis using s by (simp add: synced_def all_saved_def m2_def m1_def)
    qed
    have m2e: "?e < length (mGameEvent m2)" "world_event (ev_state (event m2 ?e))"
      using e True by (simp_all add: m2_def m1_def)
    show ?thesis
    proof (cases met)
      case False
      then have "m3 = m2" by (simp add: m3_def met_def cond_check_state)
      then show ?thesis using s2 False by (simp add: eq)
    next
      case True
      have "all_saved (exec_all (SaveWorldEventState m3 ?e) (exec_all (db_log m2) T)) m3"
        by (rule all_saved_save[OF s2[unfolded synced_def]]) (use m2e in \<open>simp_all add: m3_def\<close>)
      then have "synced T (commit (SaveWorldEventState m3 ?e) m3)"
        by (simp add: synced_def m3_def) (simp add: all_saved_def)
      from ForceGameEventUpdate_saved[OF this] True show ?thesis by (simp add: eq)
    qed
  qed
qed

text \<open>C23. The database always holds the state of the world events: if it did before, it does after any of \<open>Update\<close>, \<open>StartEvent\<close>, \<open>StopEvent\<close> and \<open>HandleQuestComplete\<close>.\<close>

theorem operations_saved:
  fixes m :: "'f::{linorder,zero,plus} GameEventMgr"
  assumes "synced T m" and "e < length (mGameEvent m)"
    and "\<forall>(i, q)\<in>set (mQuestToEventConditions m). qc_event q < length (mGameEvent m)"
  shows "synced T (snd (Update now m)) \<and> synced T (snd (StartEvent now e ow m))
    \<and> synced T (StopEvent now e ow m) \<and> synced T (HandleQuestComplete now quest m)"
proof (intro conjI Update_saved StopEvent_saved HandleQuestComplete_saved assms)
  have b: "synced T (snd (StartEvent_body now e ow m))" by (rule StartEvent_body_saved[OF assms(1,2)])
  show "synced T (snd (StartEvent now e ow m))"
    using b ForceGameEventUpdate_saved[OF b, of now] by (cases ow) (simp_all add: StartEvent_def case_prod_beta)
qed


definition no_tables :: "'f ge_tables" where
  "no_tables = \<lparr>t_save = Map.empty, t_cond = Map.empty\<rparr>"

definition inactive_world :: "nat GameEventMgr" where
  "inactive_world = sample_mgr\<lparr>mGameEvent := [GameEventData_new,
     GameEventData_new\<lparr>ev_state := GAMEEVENT_WORLD_INACTIVE, ev_length := 60\<rparr>]\<rparr>"

theorem operations_saved_witness:
  "synced no_tables (snd (Update 100 inactive_world)) \<and> synced no_tables (snd (StartEvent 100 1 True inactive_world))
    \<and> synced no_tables (StopEvent 100 1 True inactive_world) \<and> synced no_tables (HandleQuestComplete 100 7 inactive_world)"
proof (rule operations_saved)
  show "synced no_tables inactive_world"
    by (auto simp: synced_def all_saved_def saved_def inactive_world_def sample_mgr_def no_tables_def
        GameEventData_new_def less_Suc_eq)
qed (simp_all add: inactive_world_def sample_mgr_def)

subsection \<open>Restart\<close>

lemma state_of_val [simp]: "GameEventState_of (GameEventState_val st) = st"
  by (cases st) (simp_all add: GameEventState_of_def)

lemma load_save_other:
  "unat (fst row) \<noteq> e \<Longrightarrow> event (load_save_row row m) e = event m e"
  "length (mGameEvent (load_save_row row m)) = length (mGameEvent m)"
  by (auto simp: load_save_row_def Let_def split: prod.splits)

lemma load_saves_other:
  "\<forall>r\<in>set rows. unat (fst r) \<noteq> e \<Longrightarrow> event (fold load_save_row rows m) e = event m e"
  by (induction rows arbitrary: m) (simp_all add: load_save_other)

lemma load_saves:
  assumes "distinct (map fst rows)" and "e < length (mGameEvent m)" and "world_event (ev_state (event m e))"
    and "length (mGameEvent m) \<le> 256"
  shows "event (fold load_save_row rows m) e =
     (case map_of rows (word_of_nat e) of None \<Rightarrow> event m e
      | Some (s, n) \<Rightarrow> (event m e)\<lparr>ev_state := GameEventState_of s, nextstart := uint n\<rparr>)"
  using assms
proof (induction rows arbitrary: m)
  case (Cons row rows)
  let ?m = "load_save_row row m"
  have len: "length (mGameEvent ?m) = length (mGameEvent m)" by (rule load_save_other)
  show ?case
  proof (cases "fst row = word_of_nat e")
    case True
    have ue: "unat (word_of_nat e :: u8) = e" using Cons.prems(2,4) by (simp add: unsigned_of_nat take_bit_nat_eq_self)
    obtain s n where row: "row = (word_of_nat e, s, n)" using True by (cases row) auto
    have ev: "event ?m e = (event m e)\<lparr>ev_state := GameEventState_of s, nextstart := uint n\<rparr>"
      using Cons.prems(2,3) by (simp add: row load_save_row_def ue Let_def world_event_def)
    have "\<forall>r\<in>set rows. unat (fst r) \<noteq> e"
      using Cons.prems(1) by (auto simp: row image_iff)
    then have "event (fold load_save_row rows ?m) e = event ?m e" by (rule load_saves_other)
    then show ?thesis using ev unfolding row by simp
  next
    case False
    then have "unat (fst row) \<noteq> e" by (metis of_nat_unat ucast_id)
    then have "event ?m e = event m e" by (rule load_save_other)
    then show ?thesis using Cons False len by (cases row) (auto split: option.splits)
  qed
qed simp


definition cond_key :: "u8 \<times> u32 \<times> 'f \<Rightarrow> (u8 \<times> u32) \<times> 'f" where
  "cond_key row = ((fst row, fst (snd row)), snd (snd row))"

lemma load_cond_frame:
  "length (mGameEvent (load_condition_save_row row m)) = length (mGameEvent m)"
  "ev_state (event (load_condition_save_row row m) e) = ev_state (event m e)"
  "nextstart (event (load_condition_save_row row m) e) = nextstart (event m e)"
  "unat (fst row) \<noteq> e \<Longrightarrow> event (load_condition_save_row row m) e = event m e"
  by (cases "e < length (mGameEvent m)"; cases "unat (fst row) = e";
      auto simp: load_condition_save_row_def Let_def nth_list_update split: prod.splits option.splits)+

lemma load_conds_frame:
  "length (mGameEvent (fold load_condition_save_row rows m)) = length (mGameEvent m)"
  "ev_state (event (fold load_condition_save_row rows m) e) = ev_state (event m e)"
  "nextstart (event (fold load_condition_save_row rows m) e) = nextstart (event m e)"
  by (induction rows arbitrary: m) (simp_all add: load_cond_frame)

lemma load_cond_at:
  assumes "e < length (mGameEvent m)" and "length (mGameEvent m) \<le> 256"
  shows "map_of (conditions (event (load_condition_save_row row m) e)) c =
    (case map_of (conditions (event m e)) c of None \<Rightarrow> None
     | Some k \<Rightarrow> Some (if fst (cond_key row) = (word_of_nat e, c) then k\<lparr>cond_done := snd (cond_key row)\<rparr> else k))"
proof (cases "unat (fst row) = e")
  case True
  then have "fst row = word_of_nat e" by (metis of_nat_unat ucast_id)
  then show ?thesis using assms True
    by (cases row) (auto simp: load_condition_save_row_def cond_key_def Let_def update_conv' split: option.splits)
next
  case False
  then have "fst row \<noteq> word_of_nat e" using assms by (auto simp: unsigned_of_nat take_bit_nat_eq_self)
  then show ?thesis using load_cond_frame(4)[OF False] by (simp add: cond_key_def split: option.splits)
qed

lemma load_conds:
  assumes "distinct (map (fst \<circ> cond_key) rows)" and "e < length (mGameEvent m)" and "length (mGameEvent m) \<le> 256"
  shows "map_of (conditions (event (fold load_condition_save_row rows m) e)) c =
    (case map_of (conditions (event m e)) c of None \<Rightarrow> None
     | Some k \<Rightarrow> Some (case map_of (map cond_key rows) (word_of_nat e, c) of None \<Rightarrow> k | Some v \<Rightarrow> k\<lparr>cond_done := v\<rparr>))"
  using assms
proof (induction rows arbitrary: m)
  case (Cons row rows)
  let ?m = "load_condition_save_row row m"
  have len: "length (mGameEvent ?m) = length (mGameEvent m)" by (rule load_cond_frame)
  have IH: "map_of (conditions (event (fold load_condition_save_row rows ?m) e)) c =
    (case map_of (conditions (event ?m e)) c of None \<Rightarrow> None
     | Some k \<Rightarrow> Some (case map_of (map cond_key rows) (word_of_nat e, c) of None \<Rightarrow> k | Some v \<Rightarrow> k\<lparr>cond_done := v\<rparr>))"
    using Cons.prems len by (intro Cons.IH) simp_all
  have out: "map_of (map cond_key rows) (word_of_nat e, c) = None" if "fst (cond_key row) = (word_of_nat e, c)"
    using Cons.prems(1) that by (auto simp: map_of_eq_None_iff)
  show ?case using IH out load_cond_at[OF Cons.prems(2,3), of row c]
    by (cases "cond_key row") (auto split: option.splits)
qed (simp split: option.splits)

text \<open>C24. A restarted manager that loads the rows the database then holds has every world event in the phase, with the timer and the condition counters it had before the restart.\<close>

theorem restart_restores:
  assumes s: "synced T m" and e: "e < length (mGameEvent m)" and w: "world_event (ev_state (event m e))"
    and n: "0 \<le> nextstart (event m e)" "nextstart (event m e) < 2 ^ 32"
    and rows: "distinct (map fst srows)" "map_of srows = t_save (exec_all (db_log m) T)"
      "distinct (map (fst \<circ> cond_key) crows)" "map_of (map cond_key crows) = t_cond (exec_all (db_log m) T)"
    and base: "length (mGameEvent base) = length (mGameEvent m)" "ev_state (event base e) = GAMEEVENT_WORLD_INACTIVE"
      "nextstart (event base e) = 0"
      "\<And>c. map_of (conditions (event base e)) c = map_option (\<lambda>k. k\<lparr>cond_done := 0\<rparr>) (map_of (conditions (event m e)) c)"
  defines "r \<equiv> fold load_condition_save_row crows (fold load_save_row srows base)"
  shows "ev_state (event r e) = ev_state (event m e) \<and> nextstart (event r e) = nextstart (event m e)
    \<and> map_of (conditions (event r e)) = map_of (conditions (event m e))"
proof -
  let ?b = "fold load_save_row srows base" and ?T = "exec_all (db_log m) T"
  have len: "length (mGameEvent ?b) = length (mGameEvent base)"
    by (induction srows arbitrary: base) (simp_all add: load_save_other)
  have sv: "saved ?T (event m e) e" and l: "length (mGameEvent m) \<le> 256"
    using s e by (simp_all add: synced_def all_saved_def)
  have b: "event ?b e = (case t_save ?T (word_of_nat e) of None \<Rightarrow> event base e
      | Some (s, n) \<Rightarrow> (event base e)\<lparr>ev_state := GameEventState_of s, nextstart := uint n\<rparr>)"
    using load_saves[OF rows(1), of e base] e l base(1,2) by (simp add: rows(2))
  have st: "ev_state (event ?b e) = ev_state (event m e) \<and> nextstart (event ?b e) = nextstart (event m e)
     \<and> conditions (event ?b e) = conditions (event base e)"
    using sv w n base(2,3) unfolding b by (auto simp: saved_def uint_word_of_int split: option.splits)
  have "map_of (conditions (event r e)) c = map_of (conditions (event m e)) c" for c
  proof -
    have "map_of (conditions (event r e)) c = (case map_of (conditions (event base e)) c of None \<Rightarrow> None
       | Some k \<Rightarrow> Some (case t_cond ?T (word_of_nat e, c) of None \<Rightarrow> k | Some v \<Rightarrow> k\<lparr>cond_done := v\<rparr>))"
      unfolding r_def using load_conds[OF rows(3), of e ?b c, unfolded rows(4)] e l len base(1) st by simp
    then show ?thesis using sv w base(4)[of c] by (auto simp: saved_def split: option.splits)
  qed
  then show ?thesis using st by (auto simp: r_def load_conds_frame)
qed


definition running_world :: "nat GameEventMgr" where
  "running_world = inactive_world\<lparr>mGameEvent := [GameEventData_new,
      GameEventData_new\<lparr>ev_state := GAMEEVENT_WORLD_CONDITIONS, ev_length := 60,
        conditions := [(9, \<lparr>reqNum = 5, cond_done = 3, max_world_state = 0, done_world_state = 0\<rparr>)]\<rparr>],
    db_log := [DelEventSave 1, InsEventSave 1 2 0, DelConditionSave 1 9, InsConditionSave 1 9 3]\<rparr>"

definition restarted_world :: "nat GameEventMgr" where
  "restarted_world = fold load_condition_save_row [(1, 9, 3)] (fold load_save_row [(1, 2, 0)]
     (inactive_world\<lparr>mGameEvent := [GameEventData_new,
      GameEventData_new\<lparr>ev_state := GAMEEVENT_WORLD_INACTIVE, ev_length := 60,
        conditions := [(9, \<lparr>reqNum = 5, cond_done = 0, max_world_state = 0, done_world_state = 0\<rparr>)]\<rparr>]\<rparr>))"

theorem restart_restores_witness:
  "ev_state (event restarted_world 1) = ev_state (event running_world 1)
    \<and> nextstart (event restarted_world 1) = nextstart (event running_world 1)
    \<and> map_of (conditions (event restarted_world 1)) = map_of (conditions (event running_world 1))"
  unfolding restarted_world_def
proof (rule restart_restores[where T = no_tables])
  show "synced no_tables running_world"
    by (auto simp: synced_def all_saved_def saved_def running_world_def inactive_world_def sample_mgr_def
        no_tables_def GameEventData_new_def less_Suc_eq split: if_splits)
qed (simp_all add: running_world_def inactive_world_def sample_mgr_def GameEventData_new_def no_tables_def cond_key_def
      fun_eq_iff)

subsection \<open>Quest conditions and relations\<close>

lemma update_other: "(c, l) \<in> set al \<Longrightarrow> c \<noteq> k \<Longrightarrow> (c, l) \<in> set (AList.update k v al)"
  by (induction al) auto

text \<open>A quest completed for an active event in its condition phase counts towards its condition, never above the required number, and the phase stays while another condition is open.\<close>

theorem HandleQuestComplete_counts:
  fixes m :: "'f::{linorder,zero,plus} GameEventMgr"
  assumes q: "map_of (mQuestToEventConditions m) quest = Some q" and e: "qc_event q < length (mGameEvent m)"
    and a: "IsActiveEvent m (qc_event q)" and s: "ev_state (event m (qc_event q)) = GAMEEVENT_WORLD_CONDITIONS"
    and k: "map_of (conditions (event m (qc_event q))) (qc_condition q) = Some k" "cond_done k < reqNum k"
    and more: "\<exists>(c, l)\<in>set (conditions (event m (qc_event q))). c \<noteq> qc_condition q \<and> cond_done l < reqNum l"
  shows "\<exists>l. map_of (conditions (event (HandleQuestComplete now quest m) (qc_event q))) (qc_condition q) = Some l
    \<and> cond_done l = min (cond_done k + qc_num q) (reqNum k) \<and> reqNum l = reqNum k
    \<and> ev_state (event (HandleQuestComplete now quest m) (qc_event q)) = GAMEEVENT_WORLD_CONDITIONS"
proof -
  let ?e = "qc_event q" and ?c = "qc_condition q"
  let ?k = "k\<lparr>cond_done := if reqNum k < cond_done k + qc_num q then reqNum k else cond_done k + qc_num q\<rparr>"
  obtain c l where cl: "(c, l) \<in> set (conditions (event m ?e))" "c \<noteq> ?c" "cond_done l < reqNum l"
    using more by auto
  have "(c, l) \<in> set (AList.update ?c ?k (conditions (event m ?e)))"
    using cl(1,2) by (rule update_other)
  then have nm: "\<exists>(c, k)\<in>set (AList.update ?c ?k (conditions (event m ?e))). cond_done k < reqNum k"
    using cl(3) by auto
  have mn: "min (cond_done k + qc_num q) (reqNum k) =
      (if reqNum k < cond_done k + qc_num q then reqNum k else cond_done k + qc_num q)"
    by (auto simp: min_def)
  show ?thesis
    using q e a s k nm
    by (simp add: HandleQuestComplete_def Let_def CheckOneGameEventConditions_def commit_def update_conv' mn)
qed

definition two_conditions_world :: "nat GameEventMgr" where
  "two_conditions_world = sample_mgr\<lparr>mGameEvent := [GameEventData_new,
      GameEventData_new\<lparr>ev_state := GAMEEVENT_WORLD_CONDITIONS,
        conditions := [(8, \<lparr>reqNum = 5, cond_done = 0, max_world_state = 0, done_world_state = 0\<rparr>),
          (9, \<lparr>reqNum = 5, cond_done = 3, max_world_state = 0, done_world_state = 0\<rparr>)]\<rparr>],
     m_ActiveEvents := {1}, mQuestToEventConditions := [(77, \<lparr>qc_event = 1, qc_condition = 9, qc_num = 4\<rparr>)]\<rparr>"

theorem HandleQuestComplete_counts_witness:
  "\<exists>l. map_of (conditions (event (HandleQuestComplete 50 77 two_conditions_world) 1)) 9 = Some l
    \<and> cond_done l = 5 \<and> reqNum l = 5
    \<and> ev_state (event (HandleQuestComplete 50 77 two_conditions_world) 1) = GAMEEVENT_WORLD_CONDITIONS"
  using HandleQuestComplete_counts[of two_conditions_world 77 "\<lparr>qc_event = 1, qc_condition = 9, qc_num = 4\<rparr>"
      "\<lparr>reqNum = 5, cond_done = 3, max_world_state = 0, done_world_state = 0\<rparr>" 50]
  by (simp add: two_conditions_world_def sample_mgr_def GameEventData_new_def IsActiveEvent_def)

text \<open>When two events offer the same quest at the same creature, starting both and stopping both leaves the relation behind: the first stop removes nothing because the other event is active, the second removes one of the two entries.\<close>

theorem shared_quest_leaks:
  assumes "mGameEventCreatureQuests m ! 1 = [(c, q)]" and "mGameEventCreatureQuests m ! 2 = [(c, q)]"
    and "creature_quest_map m = {#}" and "m_ActiveEvents m = {}"
    and "ev_state (event m 1) = GAMEEVENT_NORMAL" and "ev_state (event m 2) = GAMEEVENT_NORMAL"
  shows "creature_quest_map (StopEvent now 2 False (StopEvent now 1 False
    (snd (StartEvent now 2 False (snd (StartEvent now 1 False m)))))) = {#(c, q)#}"
proof -
  define m1 where "m1 = snd (StartEvent now 1 False m)"
  define m2 where "m2 = snd (StartEvent now 2 False m1)"
  define m3 where "m3 = StopEvent now 1 False m2"
  have 1: "creature_quest_map m1 = {#(c, q)#}" "m_ActiveEvents m1 = {1}" "mGameEvent m1 = mGameEvent m"
    "mGameEventCreatureQuests m1 = mGameEventCreatureQuests m"
    using assms by (simp_all add: m1_def StartEvent_def StartEvent_body_def Let_def case_prod_beta ApplyNewEvent_def
      UpdateEventQuests_def update_relations_def effect_def)
  have 2: "creature_quest_map m2 = {#(c, q), (c, q)#}" "m_ActiveEvents m2 = {1, 2}" "mGameEvent m2 = mGameEvent m"
    "mGameEventCreatureQuests m2 = mGameEventCreatureQuests m"
    using assms 1 by (auto simp add: m2_def StartEvent_def StartEvent_body_def Let_def case_prod_beta ApplyNewEvent_def
      UpdateEventQuests_def update_relations_def effect_def)
  have 3: "creature_quest_map m3 = {#(c, q), (c, q)#}" "m_ActiveEvents m3 = {2}" "mGameEvent m3 = mGameEvent m"
    "mGameEventCreatureQuests m3 = mGameEventCreatureQuests m"
    using assms 2 by (auto simp add: m3_def StopEvent_def Let_def UnApplyEvent_def
      UpdateEventQuests_def update_relations_def effect_def hasCreatureQuestActiveEventExcept_def)
  show ?thesis unfolding m1_def[symmetric] m2_def[symmetric] m3_def[symmetric]
    using assms 3 by (auto simp add: StopEvent_def Let_def UnApplyEvent_def
      UpdateEventQuests_def update_relations_def effect_def hasCreatureQuestActiveEventExcept_def)
qed

definition shared_quest_world :: "nat GameEventMgr" where
  "shared_quest_world = sample_mgr\<lparr>mGameEvent := replicate 3 sample_event,
     mGameEventCreatureQuests := [[], [(100, 200)], [(100, 200)]], mGameEventGameObjectQuests := [[], [], []]\<rparr>"

theorem shared_quest_leaks_witness:
  "creature_quest_map (StopEvent 5 2 False (StopEvent 5 1 False
    (snd (StartEvent 5 2 False (snd (StartEvent 5 1 False shared_quest_world)))))) = {#(100, 200)#}"
  by (rule shared_quest_leaks)
    (simp_all add: shared_quest_world_def sample_mgr_def sample_event_def GameEventData_new_def numeral_3_eq_3)

end
