(* ===== verification/Timers.thy ===== *)
theory Timers
  imports Prelude "HOL-Library.Signed_Division"
begin

text \<open>
  The timers of \<open>src/server/shared/Utilities/Timer.h\<close>. Millisecond clocks are 32-bit and wrap
  after 49.7 days; \<open>time_t\<close> values are \<open>int\<close>; \<open>int32\<close> fields are 32-bit words read signed.
  A remainder by a zero interval is undefined (\<open>None\<close>).
\<close>

subsection \<open>The millisecond clock\<close>

definition getMSTimeDiff :: "u32 \<Rightarrow> u32 \<Rightarrow> u32" where
  "getMSTimeDiff oldMSTime newMSTime =
     (if oldMSTime > newMSTime then (0xFFFFFFFF - oldMSTime) + newMSTime
      else newMSTime - oldMSTime)"

subsection \<open>IntervalTimer\<close>

record IntervalTimer =
  it_interval :: int
  it_current :: int

definition IntervalTimer_new :: IntervalTimer where
  "IntervalTimer_new = \<lparr>it_interval = 0, it_current = 0\<rparr>"

definition it_Update :: "int \<Rightarrow> IntervalTimer \<Rightarrow> IntervalTimer" where
  "it_Update diff t =
     (let c = it_current t + diff in t\<lparr>it_current := (if c < 0 then 0 else c)\<rparr>)"

definition it_Passed :: "IntervalTimer \<Rightarrow> bool" where
  "it_Passed t \<longleftrightarrow> it_current t \<ge> it_interval t"

definition it_Reset :: "IntervalTimer \<Rightarrow> IntervalTimer option" where
  "it_Reset t =
     (if it_current t \<ge> it_interval t
      then (if it_interval t = 0 then None else Some (t\<lparr>it_current := it_current t smod it_interval t\<rparr>))
      else Some t)"

definition it_SetCurrent :: "int \<Rightarrow> IntervalTimer \<Rightarrow> IntervalTimer" where
  "it_SetCurrent c t = t\<lparr>it_current := c\<rparr>"

definition it_SetInterval :: "int \<Rightarrow> IntervalTimer \<Rightarrow> IntervalTimer" where
  "it_SetInterval i t = t\<lparr>it_interval := i\<rparr>"

subsection \<open>TimeTracker and TimeTrackerSmall\<close>

definition tt_Update :: "int \<Rightarrow> int \<Rightarrow> int" where
  "tt_Update diff e = e - diff"

definition tt_Passed :: "int \<Rightarrow> bool" where
  "tt_Passed e \<longleftrightarrow> e \<le> 0"

definition tts_Update :: "u32 \<Rightarrow> u32 \<Rightarrow> u32" where
  "tts_Update diff e = e - diff"

definition tts_Passed :: "u32 \<Rightarrow> bool" where
  "tts_Passed e \<longleftrightarrow> sint e \<le> 0"

subsection \<open>PeriodicTimer\<close>

record PeriodicTimer =
  pt_period :: u32
  pt_expire :: u32

text \<open>\<open>int32 - uint32\<close> and the conditional of \<open>int32\<close> and \<open>uint32\<close> are unsigned.\<close>

definition pt_Update :: "u32 \<Rightarrow> PeriodicTimer \<Rightarrow> bool \<times> PeriodicTimer" where
  "pt_Update diff t =
     (let e = pt_expire t - diff in
      if sint e > 0 then (False, t\<lparr>pt_expire := e\<rparr>)
      else (True, t\<lparr>pt_expire := e + (if sint (pt_period t) > sint diff then pt_period t else diff)\<rparr>))"

definition pt_SetPeriodic :: "u32 \<Rightarrow> u32 \<Rightarrow> PeriodicTimer \<Rightarrow> PeriodicTimer" where
  "pt_SetPeriodic period start t = t\<lparr>pt_expire := start, pt_period := period\<rparr>"

definition pt_TUpdate :: "u32 \<Rightarrow> PeriodicTimer \<Rightarrow> PeriodicTimer" where
  "pt_TUpdate diff t = t\<lparr>pt_expire := pt_expire t - diff\<rparr>"

definition pt_TPassed :: "PeriodicTimer \<Rightarrow> bool" where
  "pt_TPassed t \<longleftrightarrow> sint (pt_expire t) \<le> 0"

definition pt_TReset :: "u32 \<Rightarrow> u32 \<Rightarrow> PeriodicTimer \<Rightarrow> PeriodicTimer" where
  "pt_TReset diff period t =
     t\<lparr>pt_expire := pt_expire t + (if sint period > sint diff then period else diff)\<rparr>"

subsection \<open>Properties\<close>

text \<open>Across the wrap of the millisecond clock \<open>getMSTimeDiff\<close> is one millisecond short of
  the elapsed time; without a wrap it is exact.\<close>

theorem getMSTimeDiff_wrap:
  "getMSTimeDiff t (t + d) = (if t \<le> t + d then d else d - 1)"
proof -
  have "(0xFFFFFFFF :: u32) = - 1" by simp
  then show ?thesis by (simp add: getMSTimeDiff_def not_le)
qed

text \<open>One round of an update loop: add the time, and reset the timer when it has passed.\<close>

definition it_tick :: "int \<Rightarrow> IntervalTimer \<Rightarrow> IntervalTimer option" where
  "it_tick diff t =
     (let u = it_Update diff t in if it_Passed u then it_Reset u else Some u)"

fun it_run :: "int list \<Rightarrow> IntervalTimer \<Rightarrow> IntervalTimer option" where
  "it_run [] t = Some t"
| "it_run (d # ds) t = Option.bind (it_tick d t) (it_run ds)"

lemma it_tick_eq:
  assumes "0 < it_interval t" and "0 \<le> it_current t" and "0 \<le> d"
  shows "it_tick d t = Some (t\<lparr>it_current := if it_current t + d \<ge> it_interval t
    then (it_current t + d) mod it_interval t else it_current t + d\<rparr>)"
  using assms
  by (auto simp: it_tick_def it_Update_def it_Passed_def it_Reset_def Let_def signed_modulo_int_def
      signed_divide_int_def sgn_if minus_mult_div_eq_mod)

lemma it_run_total:
  assumes "0 < it_interval t" and "0 \<le> it_current t" and "it_current t < it_interval t"
    and "\<forall>d\<in>set ds. 0 \<le> d"
  shows "it_run ds t = Some (t\<lparr>it_current := (it_current t + sum_list ds) mod it_interval t\<rparr>)"
  using assms
proof (induction ds arbitrary: t)
  case (Cons d ds)
  let ?c = "(it_current t + d) mod it_interval t"
  have "it_tick d t = Some (t\<lparr>it_current := ?c\<rparr>)"
    using Cons.prems by (simp add: it_tick_eq)
  moreover have "it_run ds (t\<lparr>it_current := ?c\<rparr>) = Some (t\<lparr>it_current := (?c + sum_list ds) mod it_interval t\<rparr>)"
    using Cons.IH[of "t\<lparr>it_current := ?c\<rparr>"] Cons.prems by simp
  ultimately show ?case by (simp add: mod_add_left_eq add.assoc)
qed simp

text \<open>An interval timer that is updated and reset in a loop does not drift: after any
  sequence of non-negative steps it stands at the elapsed time modulo its interval.\<close>

theorem it_run_no_drift:
  assumes "0 < interval" and "\<forall>d\<in>set ds. 0 \<le> d"
  shows "it_run ds (it_SetInterval interval IntervalTimer_new)
    = Some \<lparr>it_interval = interval, it_current = sum_list ds mod interval\<rparr>"
  using assms it_run_total[of "it_SetInterval interval IntervalTimer_new" ds]
  by (simp add: it_SetInterval_def IntervalTimer_new_def)

theorem it_run_no_drift_witness:
  "it_run [40, 70, 5] (it_SetInterval 50 IntervalTimer_new) = Some \<lparr>it_interval = 50, it_current = 15\<rparr>"
  using it_run_no_drift[of 50 "[40, 70, 5]"] by simp

text \<open>A periodic timer never gets stuck in the past: as long as steps and period are below
  \<open>2 ^ 30\<close>, an expiry time that is positive stays positive, whether the update fired or not,
  and it fires exactly when the step reaches the expiry.\<close>

theorem pt_Update_fires:
  assumes "0 < sint (pt_expire t)" and "sint (pt_expire t) < 2 ^ 30"
    and "0 \<le> sint (pt_period t)" and "sint (pt_period t) < 2 ^ 30" and "0 \<le> sint diff" and "sint diff < 2 ^ 30"
  shows "fst (pt_Update diff t) = (sint diff \<ge> sint (pt_expire t))
    \<and> 0 < sint (pt_expire (snd (pt_Update diff t)))"
proof -
  define e where "e = pt_expire t - diff"
  have e: "sint e = sint (pt_expire t) - sint diff"
    unfolding e_def sint_word_diff using assms by (intro signed_take_bit_int_eq_self) simp_all
  define p where "p = (if sint (pt_period t) > sint diff then pt_period t else diff)"
  have p: "sint diff \<le> sint p" "sint p < 2 ^ 30" using assms by (auto simp: p_def)
  have "sint (e + p) = sint e + sint p"
    unfolding sint_word_add using assms e p by (intro signed_take_bit_int_eq_self) simp_all
  then show ?thesis
    using assms(1) e p by (simp add: pt_Update_def Let_def flip: e_def p_def)
qed

theorem pt_Update_fires_witness:
  "fst (pt_Update 30 \<lparr>pt_period = 100, pt_expire = 20\<rparr>)
    \<and> 0 < sint (pt_expire (snd (pt_Update 30 \<lparr>pt_period = 100, pt_expire = 20\<rparr>)))"
  using pt_Update_fires[of "\<lparr>pt_period = 100, pt_expire = 20\<rparr>" 30] by simp

end
