(* ===== verification/EventQueue.thy ===== *)
theory EventQueue
  imports Prelude
begin

text \<open>
  The delayed events of objects: \<open>src/server/shared/Utilities/EventProcessor.h\<close> and
  \<open>EventProcessor.cpp\<close>. The queue is a multimap from due times to events, here the list of
  its entries in iteration order (equal keys in insertion order). What an event does when
  executed or aborted is a parameter: it changes the world \<open>'w\<close> around the processor, and an
  execution may add events. A log records executions, aborts and deletions.
\<close>

subsection \<open>State and operations\<close>

datatype 'e ep_trace = Executed 'e u64 u32 | Aborted 'e u64 | Deleted 'e

record ('e, 'w) EventProcessor =
  m_time :: u64
  m_events :: "(u64 \<times> 'e) list"
  m_aborting :: bool
  m_toAbort :: "'e \<Rightarrow> bool"
  m_addTime :: "'e \<Rightarrow> u64"
  m_execTime :: "'e \<Rightarrow> u64"
  ep_world :: 'w
  ep_log :: "'e ep_trace list"

definition EventProcessor_new :: "'w \<Rightarrow> ('e, 'w) EventProcessor" where
  "EventProcessor_new w = \<lparr>m_time = 0, m_events = [], m_aborting = False, m_toAbort = (\<lambda>_. False),
     m_addTime = (\<lambda>_. 0), m_execTime = (\<lambda>_. 0), ep_world = w, ep_log = []\<rparr>"

text \<open>What the virtual functions of an event do. An execution sees and may set the \<open>to_Abort\<close>
  flags, and returns whether it is finished, the world, the flags and the events it adds.\<close>

record ('e, 'w) event_ops =
  op_Execute :: "'e \<Rightarrow> u64 \<Rightarrow> u32 \<Rightarrow> 'w \<Rightarrow> ('e \<Rightarrow> bool) \<Rightarrow> bool \<times> 'w \<times> ('e \<Rightarrow> bool) \<times> (u64 \<times> 'e) list"
  op_Abort :: "'e \<Rightarrow> u64 \<Rightarrow> 'w \<Rightarrow> 'w"
  op_IsDeletable :: "'e \<Rightarrow> bool"

fun mm_insert :: "u64 \<Rightarrow> 'e \<Rightarrow> (u64 \<times> 'e) list \<Rightarrow> (u64 \<times> 'e) list" where
  "mm_insert k v [] = [(k, v)]"
| "mm_insert k v ((k', v') # xs) = (if k' \<le> k then (k', v') # mm_insert k v xs else (k, v) # (k', v') # xs)"

definition AddEvent :: "'e \<Rightarrow> u64 \<Rightarrow> bool \<Rightarrow> ('e, 'w) EventProcessor \<Rightarrow> ('e, 'w) EventProcessor" where
  "AddEvent ev t set_addtime s =
     (let s1 = (if set_addtime then s\<lparr>m_addTime := (m_addTime s)(ev := m_time s)\<rparr> else s)
      in s1\<lparr>m_execTime := (m_execTime s1)(ev := t), m_events := mm_insert t ev (m_events s1)\<rparr>)"

definition CalculateTime :: "u64 \<Rightarrow> ('e, 'w) EventProcessor \<Rightarrow> u64" where
  "CalculateTime t_offset s = m_time s + t_offset"

definition run_event :: "('e, 'w) event_ops \<Rightarrow> 'e \<Rightarrow> u32 \<Rightarrow> ('e, 'w) EventProcessor \<Rightarrow> ('e, 'w) EventProcessor" where
  "run_event ops ev p_time s =
     (if \<not> m_toAbort s ev
      then
        let (fin, w, ab, adds) = op_Execute ops ev (m_time s) p_time (ep_world s) (m_toAbort s);
            s1 = fold (\<lambda>(t, e). AddEvent e t True) adds
                   (s\<lparr>ep_world := w, m_toAbort := ab, ep_log := ep_log s @ [Executed ev (m_time s) p_time]\<rparr>)
        in if fin then s1\<lparr>ep_log := ep_log s1 @ [Deleted ev]\<rparr> else s1
      else s\<lparr>ep_world := op_Abort ops ev (m_time s) (ep_world s),
             ep_log := ep_log s @ [Aborted ev (m_time s), Deleted ev]\<rparr>)"

text \<open>The main event loop; it need not end, so its result is optional.\<close>

partial_function (option) ep_loop ::
  "('e, 'w) event_ops \<Rightarrow> u32 \<Rightarrow> ('e, 'w) EventProcessor \<Rightarrow> ('e, 'w) EventProcessor option" where
  "ep_loop ops p_time s =
     (case m_events s of
        [] \<Rightarrow> Some s
      | x # es \<Rightarrow> if fst x \<le> m_time s then ep_loop ops p_time (run_event ops (snd x) p_time (s\<lparr>m_events := es\<rparr>))
                 else Some s)"

definition ep_Update :: "('e, 'w) event_ops \<Rightarrow> u32 \<Rightarrow> ('e, 'w) EventProcessor \<Rightarrow> ('e, 'w) EventProcessor option" where
  "ep_Update ops p_time s = ep_loop ops p_time (s\<lparr>m_time := m_time s + ucast p_time\<rparr>)"

definition kill_one :: "('e, 'w) event_ops \<Rightarrow> bool \<Rightarrow> 'e \<Rightarrow> ('e, 'w) EventProcessor \<Rightarrow> ('e, 'w) EventProcessor" where
  "kill_one ops force ev s =
     s\<lparr>m_toAbort := (m_toAbort s)(ev := True), ep_world := op_Abort ops ev (m_time s) (ep_world s),
       ep_log := ep_log s @ [Aborted ev (m_time s)]
         @ (if force \<or> op_IsDeletable ops ev then [Deleted ev] else [])\<rparr>"

definition KillAllEvents :: "('e, 'w) event_ops \<Rightarrow> bool \<Rightarrow> ('e, 'w) EventProcessor \<Rightarrow> ('e, 'w) EventProcessor" where
  "KillAllEvents ops force s =
     (let s1 = fold (kill_one ops force) (map snd (m_events s)) (s\<lparr>m_aborting := True\<rparr>)
      in s1\<lparr>m_events := (if force then [] else filter (\<lambda>(t, e). \<not> op_IsDeletable ops e) (m_events s1))\<rparr>)"

text \<open>\<open>GenericDelayedEvent\<close>: runs its function once and is then deleted; \<open>Abort\<close> does nothing. A function
  that adds events to the queue is not of this form; it is an instance of \<open>event_ops\<close> of its own.\<close>

definition generic_ops :: "('e \<Rightarrow> 'w \<Rightarrow> 'w) \<Rightarrow> ('e, 'w) event_ops" where
  "generic_ops lambda = \<lparr>op_Execute = (\<lambda>e now dt w ab. (True, lambda e w, ab, [])), op_Abort = (\<lambda>e now w. w),
     op_IsDeletable = (\<lambda>e. True)\<rparr>"

subsection \<open>The multimap\<close>

lemma set_mm_insert [simp]: "set (mm_insert k v xs) = insert (k, v) (set xs)"
  by (induction k v xs rule: mm_insert.induct) auto

lemma sorted_mm_insert: "sorted (map fst xs) \<Longrightarrow> sorted (map fst (mm_insert k v xs))"
proof (induction k v xs rule: mm_insert.induct)
  case (2 k v k' v' xs)
  then show ?case by (cases "k' \<le> k") auto
qed simp

definition due :: "u64 \<Rightarrow> (u64 \<times> 'e) list \<Rightarrow> 'e list" where
  "due now xs = map snd (takeWhile (\<lambda>x. fst x \<le> now) xs)"

lemma due_mm_insert: "now < k \<Longrightarrow> due now (mm_insert k v xs) = due now xs"
  by (induction k v xs rule: mm_insert.induct) (auto simp: due_def)

lemma due_empty: "sorted (map fst xs) \<Longrightarrow> due now xs = [] \<Longrightarrow> \<forall>x\<in>set xs. now < fst x"
  by (cases xs) (auto simp: due_def split: if_splits)

lemma AddEvent_frame [simp]:
  "m_time (AddEvent ev t b s) = m_time s" "m_events (AddEvent ev t b s) = mm_insert t ev (m_events s)"
  "ep_log (AddEvent ev t b s) = ep_log s" "ep_world (AddEvent ev t b s) = ep_world s"
  by (simp_all add: AddEvent_def Let_def)

lemma add_fold_frame:
  "m_time (fold (\<lambda>(t, e). AddEvent e t True) adds s) = m_time s"
  "ep_log (fold (\<lambda>(t, e). AddEvent e t True) adds s) = ep_log s"
  "ep_world (fold (\<lambda>(t, e). AddEvent e t True) adds s) = ep_world s"
  "sorted (map fst (m_events s)) \<Longrightarrow> sorted (map fst (m_events (fold (\<lambda>(t, e). AddEvent e t True) adds s)))"
  "\<forall>x\<in>set adds. now < fst x \<Longrightarrow>
     due now (m_events (fold (\<lambda>(t, e). AddEvent e t True) adds s)) = due now (m_events s)"
  by (induction adds arbitrary: s) (auto simp: sorted_mm_insert due_mm_insert)

text \<open>Which events a log says were taken from the queue, in order.\<close>

fun taken :: "'e ep_trace list \<Rightarrow> 'e list" where
  "taken [] = []"
| "taken (Executed e t d # xs) = e # taken xs"
| "taken (Aborted e t # xs) = e # taken xs"
| "taken (Deleted e # xs) = taken xs"

lemma taken_append [simp]: "taken (xs @ ys) = taken xs @ taken ys"
  by (induction xs rule: taken.induct) simp_all

subsection \<open>The loop, for events that only add later ones\<close>

text \<open>The contract of an event: what its execution adds is due later than the time it runs at.\<close>

locale event_behaviour =
  fixes ops :: "('e, 'w) event_ops"
  assumes adds_later: "op_Execute ops e now dt w ab = (fin, w', ab', adds) \<Longrightarrow> x \<in> set adds \<Longrightarrow> now < fst x"
begin

lemma run_event_frame:
  assumes "sorted (map fst (m_events s))"
  shows "m_time (run_event ops ev dt s) = m_time s"
    and "sorted (map fst (m_events (run_event ops ev dt s)))"
    and "due (m_time s) (m_events (run_event ops ev dt s)) = due (m_time s) (m_events s)"
    and "taken (ep_log (run_event ops ev dt s)) = taken (ep_log s) @ [ev]"
proof -
  obtain fin w ab adds where e: "op_Execute ops ev (m_time s) dt (ep_world s) (m_toAbort s) = (fin, w, ab, adds)"
    by (cases "op_Execute ops ev (m_time s) dt (ep_world s) (m_toAbort s)")
  have later: "\<forall>x\<in>set adds. m_time s < fst x" using adds_later[OF e] by blast
  show "m_time (run_event ops ev dt s) = m_time s"
    and "sorted (map fst (m_events (run_event ops ev dt s)))"
    and "due (m_time s) (m_events (run_event ops ev dt s)) = due (m_time s) (m_events s)"
    and "taken (ep_log (run_event ops ev dt s)) = taken (ep_log s) @ [ev]"
    using assms later by (simp_all add: run_event_def e add_fold_frame Let_def)
qed

lemma loop_returns:
  assumes "sorted (map fst (m_events s))"
  shows "\<exists>t. ep_loop ops dt s = Some t \<and> m_time t = m_time s \<and> sorted (map fst (m_events t))
    \<and> due (m_time s) (m_events t) = [] \<and> taken (ep_log t) = taken (ep_log s) @ due (m_time s) (m_events s)"
  using assms
proof (induction "length (due (m_time s) (m_events s))" arbitrary: s)
  case 0
  then have "ep_loop ops dt s = Some s"
    by (subst ep_loop.simps) (auto simp: due_def split: list.splits if_splits)
  then show ?case using 0 by simp
next
  case (Suc n)
  then obtain x es where x: "m_events s = x # es" "fst x \<le> m_time s"
    by (cases "m_events s") (auto simp: due_def split: if_splits)
  let ?s = "s\<lparr>m_events := es\<rparr>" and ?r = "run_event ops (snd x) dt (s\<lparr>m_events := es\<rparr>)"
  have so: "sorted (map fst (m_events ?s))" using Suc.prems x by simp
  note fr = run_event_frame[OF so, of "snd x" dt]
  have d: "due (m_time s) (m_events s) = snd x # due (m_time s) es" using x by (simp add: due_def)
  have "n = length (due (m_time ?r) (m_events ?r))" using Suc(2) d fr by simp
  from Suc.hyps(1)[OF this fr(2)] obtain t where
    "ep_loop ops dt ?r = Some t" "m_time t = m_time ?r" "sorted (map fst (m_events t))"
    "due (m_time ?r) (m_events t) = []" "taken (ep_log t) = taken (ep_log ?r) @ due (m_time ?r) (m_events ?r)"
    by blast
  moreover have "ep_loop ops dt s = ep_loop ops dt ?r"
    using x by (subst ep_loop.simps) simp
  ultimately show ?case using fr d by simp
qed

end

interpretation generic: event_behaviour "generic_ops lambda" for lambda
  by unfold_locales (auto simp: generic_ops_def)

text \<open>C25. If events only add events that are due later, \<open>Update\<close> returns: it takes every
  event due by the new time exactly once, in order of due time (and of insertion among
  equals), and leaves no due event in the queue.\<close>

theorem ep_Update_runs_due:
  assumes "\<And>e now dt w ab fin w' ab' adds x. op_Execute ops e now dt w ab = (fin, w', ab', adds) \<Longrightarrow> x \<in> set adds \<Longrightarrow> now < fst x"
    and "sorted (map fst (m_events s))"
  shows "\<exists>t. ep_Update ops p_time s = Some t \<and> m_time t = m_time s + ucast p_time
    \<and> (\<forall>x\<in>set (m_events t). m_time t < fst x)
    \<and> taken (ep_log t) = taken (ep_log s) @ due (m_time s + ucast p_time) (m_events s)"
proof -
  have "event_behaviour ops" by (rule event_behaviour.intro) (rule assms(1))
  then obtain t where t: "ep_loop ops p_time (s\<lparr>m_time := m_time s + ucast p_time\<rparr>) = Some t"
      "m_time t = m_time s + ucast p_time" "sorted (map fst (m_events t))" "due (m_time t) (m_events t) = []"
      "taken (ep_log t) = taken (ep_log s) @ due (m_time s + ucast p_time) (m_events s)"
    using event_behaviour.loop_returns[of ops "s\<lparr>m_time := m_time s + ucast p_time\<rparr>" p_time] assms(2) by auto
  then show ?thesis using due_empty[OF t(3,4)] by (auto simp: ep_Update_def)
qed

definition sample_events :: "(nat, nat list) EventProcessor" where
  "sample_events = \<lparr>m_time = 100, m_events = [(120, 1), (150, 2), (300, 3)], m_aborting = False,
     m_toAbort = (\<lambda>_. False), m_addTime = (\<lambda>_. 0), m_execTime = (\<lambda>_. 0), ep_world = [], ep_log = []\<rparr>"

theorem ep_Update_runs_due_witness:
  "\<exists>t. ep_Update (generic_ops (\<lambda>e w. e # w)) 60 sample_events = Some t
    \<and> m_time t = 160 \<and> (\<forall>x\<in>set (m_events t). m_time t < fst x) \<and> taken (ep_log t) = [1, 2]"
proof -
  have "sorted (map fst (m_events sample_events))" by (simp add: sample_events_def)
  with ep_Update_runs_due[of "generic_ops (\<lambda>e w. e # w)" sample_events 60]
  show ?thesis by (auto simp: generic_ops_def sample_events_def due_def)
qed

text \<open>An event that adds itself again at the time it runs at.\<close>

definition requeue_ops :: "(nat, unit) event_ops" where
  "requeue_ops = \<lparr>op_Execute = (\<lambda>e now dt w ab. (False, w, ab, [(now, e)])), op_Abort = (\<lambda>e now w. w),
     op_IsDeletable = (\<lambda>e. True)\<rparr>"

definition requeues :: "(nat, unit) event_ops \<Rightarrow> nat \<Rightarrow> (nat, unit) EventProcessor \<Rightarrow> bool" where
  "requeues ops e s \<longleftrightarrow> ops = requeue_ops \<and> m_events s = [(m_time s, e)] \<and> \<not> m_toAbort s e"

lemma ep_loop_requeue: "ep_loop ops dt s = Some t \<Longrightarrow> \<not> requeues ops e s"
proof (erule ep_loop.raw_induct[where P = "\<lambda>ops dt s t. \<not> requeues ops e s", rotated], rule notI)
  fix f ops dt s t
  assume IH: "\<And>ops dt s t. f ops dt s = Some t \<Longrightarrow> \<not> requeues ops e s" and r: "requeues ops e s"
    and b: "(case m_events s of [] \<Rightarrow> Some s
      | x # es \<Rightarrow> if fst x \<le> m_time s then f ops dt (run_event ops (snd x) dt (s\<lparr>m_events := es\<rparr>)) else Some s) = Some t"
  then have "f ops dt (run_event ops e dt (s\<lparr>m_events := []\<rparr>)) = Some t" by (simp add: requeues_def)
  from IH[OF this] r show False
    by (simp add: requeues_def run_event_def requeue_ops_def Let_def AddEvent_def)
qed

text \<open>An event that adds itself again at the time it runs at keeps \<open>Update\<close> from
  returning: the loop condition reads the queue again after every event.\<close>

theorem requeue_never_returns:
  assumes "m_events s = [(t, e)]" and "t = m_time s + ucast dt" and "\<not> m_toAbort s e"
  shows "ep_Update requeue_ops dt s = None"
  using ep_loop_requeue[of requeue_ops dt "s\<lparr>m_time := m_time s + ucast dt\<rparr>" _ e] assms
  by (cases "ep_Update requeue_ops dt s") (auto simp: ep_Update_def requeues_def)

theorem requeue_never_returns_witness:
  "ep_Update requeue_ops 50 (AddEvent 7 50 True (EventProcessor_new ())) = None"
  by (rule requeue_never_returns[of _ 50 7]) (simp_all add: AddEvent_def EventProcessor_new_def)

lemma kill_fold_frame:
  "m_events (fold (kill_one ops force) evs s) = m_events s"
  "taken (ep_log (fold (kill_one ops force) evs s)) = taken (ep_log s) @ evs"
  "m_toAbort (fold (kill_one ops force) evs s) e = (m_toAbort s e \<or> e \<in> set evs)"
  by (induction evs arbitrary: s) (auto simp: kill_one_def)

text \<open>\<open>KillAllEvents\<close> aborts every queued event once, in order, and marks it; forced, it
  leaves none in the queue, otherwise it leaves exactly those that are not deletable.\<close>

theorem KillAllEvents_aborts:
  "taken (ep_log (KillAllEvents ops force s)) = taken (ep_log s) @ map snd (m_events s)
   \<and> (\<forall>x\<in>set (m_events s). m_toAbort (KillAllEvents ops force s) (snd x))
   \<and> m_events (KillAllEvents ops force s) =
      (if force then [] else filter (\<lambda>(t, e). \<not> op_IsDeletable ops e) (m_events s))"
  by (simp add: KillAllEvents_def Let_def kill_fold_frame)

theorem KillAllEvents_aborts_witness:
  "m_toAbort (KillAllEvents (generic_ops (\<lambda>e w. e # w)) True sample_events) 2"
  using KillAllEvents_aborts[of "generic_ops (\<lambda>e w. e # w)" True sample_events] by (simp add: sample_events_def)

end
