(* ===== verification/Queues.thy ===== *)
theory Queues
  imports Prelude
begin

text \<open>
  The queues between threads: \<open>src/server/shared/Threading/LockedQueue.h\<close> and
  \<open>ProducerConsumerQueue.h\<close>. Every operation body runs under the queue's mutex, so one body is one
  atomic step; \<open>WaitAndPop\<close> gives its mutex up in \<open>wait\<close> and is a sequence of steps of its thread.
\<close>

subsection \<open>The locked queue\<close>

text \<open>The lock type is a mutex that is not recursive; an operation that would block is \<open>None\<close>.\<close>

record 'a LockedQueue =
  lq_locked :: bool
  lq_queue :: "'a list"
  lq_canceled :: bool

definition LockedQueue_new :: "'a LockedQueue" where
  "LockedQueue_new = \<lparr>lq_locked = False, lq_queue = [], lq_canceled = False\<rparr>"

definition lq_lock :: "'a LockedQueue \<Rightarrow> 'a LockedQueue option" where
  "lq_lock s = (if lq_locked s then None else Some (s\<lparr>lq_locked := True\<rparr>))"

definition lq_unlock :: "'a LockedQueue \<Rightarrow> 'a LockedQueue" where
  "lq_unlock s = s\<lparr>lq_locked := False\<rparr>"

definition lq_add :: "'a \<Rightarrow> 'a LockedQueue \<Rightarrow> 'a LockedQueue option" where
  "lq_add item s = map_option (\<lambda>s. lq_unlock (s\<lparr>lq_queue := lq_queue s @ [item]\<rparr>)) (lq_lock s)"

definition lq_next :: "'a LockedQueue \<Rightarrow> ('a option \<times> 'a LockedQueue) option" where
  "lq_next s = map_option (\<lambda>s. case lq_queue s of [] \<Rightarrow> (None, lq_unlock s)
     | x # xs \<Rightarrow> (Some x, lq_unlock (s\<lparr>lq_queue := xs\<rparr>))) (lq_lock s)"

text \<open>With a checker: \<open>result\<close> is assigned even when the checker refuses it.\<close>

definition lq_next_check :: "('a \<Rightarrow> bool) \<Rightarrow> 'a LockedQueue \<Rightarrow> (bool \<times> 'a option \<times> 'a LockedQueue) option" where
  "lq_next_check check s = map_option (\<lambda>s. case lq_queue s of [] \<Rightarrow> (False, None, lq_unlock s)
     | x # xs \<Rightarrow> if \<not> check x then (False, Some x, lq_unlock s)
                else (True, Some x, lq_unlock (s\<lparr>lq_queue := xs\<rparr>))) (lq_lock s)"

text \<open>\<open>front\<close> and \<open>pop_front\<close> of an empty queue are undefined: \<open>None\<close> inside.\<close>

definition lq_peek :: "bool \<Rightarrow> 'a LockedQueue \<Rightarrow> ('a option \<times> 'a LockedQueue) option" where
  "lq_peek autoUnlock s = map_option (\<lambda>s.
     (case lq_queue s of [] \<Rightarrow> None | x # xs \<Rightarrow> Some x, if autoUnlock then lq_unlock s else s)) (lq_lock s)"

definition lq_cancel :: "'a LockedQueue \<Rightarrow> 'a LockedQueue option" where
  "lq_cancel s = map_option (\<lambda>s. lq_unlock (s\<lparr>lq_canceled := True\<rparr>)) (lq_lock s)"

definition lq_cancelled :: "'a LockedQueue \<Rightarrow> (bool \<times> 'a LockedQueue) option" where
  "lq_cancelled s = map_option (\<lambda>s. (lq_canceled s, lq_unlock s)) (lq_lock s)"

definition lq_pop_front :: "'a LockedQueue \<Rightarrow> ('a LockedQueue option) option" where
  "lq_pop_front s = map_option (\<lambda>s. case lq_queue s of [] \<Rightarrow> None
     | x # xs \<Rightarrow> Some (lq_unlock (s\<lparr>lq_queue := xs\<rparr>))) (lq_lock s)"

definition lq_empty :: "'a LockedQueue \<Rightarrow> (bool \<times> 'a LockedQueue) option" where
  "lq_empty s = map_option (\<lambda>s. (lq_queue s = [], lq_unlock s)) (lq_lock s)"

lemmas lq_defs = lq_lock_def lq_unlock_def lq_add_def lq_next_def lq_next_check_def lq_peek_def lq_cancel_def
  lq_cancelled_def lq_pop_front_def lq_empty_def LockedQueue_new_def

subsection \<open>The producer-consumer queue\<close>

text \<open>
  Threads inside \<open>WaitAndPop\<close> are either blocked in \<open>wait\<close> or runnable (about to take the mutex and
  test the loop condition). The history fields record what was pushed, handed out and deleted.
\<close>

record 'a ProducerConsumerQueue =
  pc_queue :: "'a list"
  pc_shutdown :: bool
  pc_waiting :: "nat set"
  pc_awake :: "nat set"
  pc_pushed :: "'a list"
  pc_taken :: "'a list"
  pc_deleted :: "'a list"

definition ProducerConsumerQueue_new :: "'a ProducerConsumerQueue" where
  "ProducerConsumerQueue_new = \<lparr>pc_queue = [], pc_shutdown = False, pc_waiting = {}, pc_awake = {},
     pc_pushed = [], pc_taken = [], pc_deleted = []\<rparr>"

definition wake :: "nat set \<Rightarrow> 'a ProducerConsumerQueue \<Rightarrow> 'a ProducerConsumerQueue" where
  "wake ts s = s\<lparr>pc_waiting := pc_waiting s - ts, pc_awake := pc_awake s \<union> ts\<rparr>"

text \<open>\<open>notify_one\<close> wakes one waiting thread, if there is one: the argument says which.\<close>

definition pc_Push :: "'a \<Rightarrow> nat option \<Rightarrow> 'a ProducerConsumerQueue \<Rightarrow> 'a ProducerConsumerQueue" where
  "pc_Push v notified s =
     (let s1 = s\<lparr>pc_queue := pc_queue s @ [v], pc_pushed := pc_pushed s @ [v]\<rparr>
      in case notified of None \<Rightarrow> s1 | Some t \<Rightarrow> wake {t} s1)"

definition pc_Empty :: "'a ProducerConsumerQueue \<Rightarrow> bool" where
  "pc_Empty s = (pc_queue s = [])"

definition pc_Pop :: "'a ProducerConsumerQueue \<Rightarrow> 'a option \<times> 'a ProducerConsumerQueue" where
  "pc_Pop s = (if pc_queue s = [] \<or> pc_shutdown s then (None, s)
     else (Some (hd (pc_queue s)),
           s\<lparr>pc_queue := tl (pc_queue s), pc_taken := pc_taken s @ [hd (pc_queue s)]\<rparr>))"

text \<open>One round of \<open>WaitAndPop\<close>: the loop test, then either \<open>wait\<close> or the rest of the function.\<close>

definition WaitAndPop_round :: "nat \<Rightarrow> 'a ProducerConsumerQueue \<Rightarrow> 'a option option \<times> 'a ProducerConsumerQueue" where
  "WaitAndPop_round t s =
     (if pc_queue s = [] \<and> \<not> pc_shutdown s
      then (None, s\<lparr>pc_awake := pc_awake s - {t}, pc_waiting := insert t (pc_waiting s)\<rparr>)
      else let s1 = s\<lparr>pc_awake := pc_awake s - {t}\<rparr>
           in if pc_queue s1 = [] \<or> pc_shutdown s1 then (Some None, s1)
              else (Some (Some (hd (pc_queue s1))),
                    s1\<lparr>pc_queue := tl (pc_queue s1), pc_taken := pc_taken s1 @ [hd (pc_queue s1)]\<rparr>))"

definition pc_Cancel :: "'a ProducerConsumerQueue \<Rightarrow> 'a ProducerConsumerQueue" where
  "pc_Cancel s = wake (pc_waiting s)
     (s\<lparr>pc_deleted := pc_deleted s @ pc_queue s, pc_queue := [], pc_shutdown := True\<rparr>)"

text \<open>The steps of the queue and its threads; a waiting thread may also wake spuriously.\<close>

inductive pc_step :: "'a ProducerConsumerQueue \<Rightarrow> 'a ProducerConsumerQueue \<Rightarrow> bool" where
  push_notify: "t \<in> pc_waiting s \<Longrightarrow> pc_step s (pc_Push v (Some t) s)"
| push_nobody: "pc_waiting s = {} \<Longrightarrow> pc_step s (pc_Push v None s)"
| pop: "pc_step s (snd (pc_Pop s))"
| call: "t \<notin> pc_waiting s \<Longrightarrow> t \<notin> pc_awake s \<Longrightarrow> pc_step s (s\<lparr>pc_awake := insert t (pc_awake s)\<rparr>)"
| round: "t \<in> pc_awake s \<Longrightarrow> pc_step s (snd (WaitAndPop_round t s))"
| spurious: "t \<in> pc_waiting s \<Longrightarrow> pc_step s (wake {t} s)"
| cancel: "pc_step s (pc_Cancel s)"

inductive_cases pc_stepE: "pc_step s t"

subsection \<open>The contract of a first-in first-out queue\<close>

fun drain :: "('s \<Rightarrow> 'a option \<times> 's) \<Rightarrow> nat \<Rightarrow> 's \<Rightarrow> 'a option list \<times> 's" where
  "drain get 0 s = ([], s)"
| "drain get (Suc n) s = (let (r, s1) = get s; (rs, s2) = drain get n s1 in (r # rs, s2))"

locale fifo =
  fixes put :: "'a \<Rightarrow> 's \<Rightarrow> 's" and get :: "'s \<Rightarrow> 'a option \<times> 's"
    and items :: "'s \<Rightarrow> 'a list" and usable :: "'s \<Rightarrow> bool"
  assumes put_items: "usable s \<Longrightarrow> items (put x s) = items s @ [x]"
    and put_usable: "usable s \<Longrightarrow> usable (put x s)"
    and get_empty: "usable s \<Longrightarrow> items s = [] \<Longrightarrow> get s = (None, s)"
    and get_front: "usable s \<Longrightarrow> items s = x # xs \<Longrightarrow> fst (get s) = Some x \<and> items (snd (get s)) = xs \<and> usable (snd (get s))"
begin

lemma put_all: "usable s \<Longrightarrow> usable (fold put xs s) \<and> items (fold put xs s) = items s @ xs"
  by (induction xs arbitrary: s) (simp_all add: put_items put_usable)

lemma drain_items:
  "usable s \<Longrightarrow> n \<le> length (items s) \<Longrightarrow>
     fst (drain get n s) = map Some (take n (items s)) \<and> items (snd (drain get n s)) = drop n (items s)"
proof (induction n arbitrary: s)
  case (Suc n)
  then obtain x xs where i: "items s = x # xs" by (cases "items s") auto
  obtain r t where g: "get s = (r, t)" by (cases "get s")
  have "r = Some x" "items t = xs" "usable t" using get_front[OF Suc.prems(1) i] g by simp_all
  with Suc.IH[of t] Suc.prems i g show ?case by (auto simp: split_beta Let_def)
qed simp

lemma drain_puts:
  "usable s \<Longrightarrow> items s = [] \<Longrightarrow> fst (drain get (length xs) (fold put xs s)) = map Some xs"
  using put_all[of s xs] drain_items[of "fold put xs s" "length xs"] by simp

end

definition lq_put :: "'a \<Rightarrow> 'a LockedQueue \<Rightarrow> 'a LockedQueue" where
  "lq_put x s = (case lq_add x s of None \<Rightarrow> s | Some t \<Rightarrow> t)"

definition lq_get :: "'a LockedQueue \<Rightarrow> 'a option \<times> 'a LockedQueue" where
  "lq_get s = (case lq_next s of None \<Rightarrow> (None, s) | Some r \<Rightarrow> r)"

interpretation locked: fifo lq_put lq_get lq_queue "\<lambda>s. \<not> lq_locked s"
  by unfold_locales (auto simp: lq_put_def lq_get_def lq_defs)

interpretation pc: fifo "\<lambda>x. pc_Push x None" pc_Pop pc_queue "\<lambda>s. \<not> pc_shutdown s"
  by unfold_locales (auto simp: pc_Push_def pc_Pop_def)

subsection \<open>First in, first out\<close>

text \<open>What is added to an empty locked queue comes out in the order of adding.\<close>

theorem LockedQueue_fifo:
  assumes "\<not> lq_locked s" and "lq_queue s = []"
  shows "fst (drain lq_get (length xs) (fold lq_put xs s)) = map Some xs"
  using assms by (rule locked.drain_puts)

theorem LockedQueue_fifo_witness:
  "fst (drain lq_get (length [7, 9 :: nat]) (fold lq_put [7, 9] LockedQueue_new)) = [Some 7, Some (9 :: nat)]"
  using LockedQueue_fifo[of LockedQueue_new "[7, 9]"] by (simp add: LockedQueue_new_def)

text \<open>\<open>peek\<close> without \<open>autoUnlock\<close> keeps the lock: until \<open>unlock\<close>, every other operation on
  the queue blocks, and the queue it shows is the one the caller goes on with.\<close>

theorem lq_peek_holds:
  assumes "lq_peek False s = Some (r, t)"
  shows "lq_add x t = None \<and> lq_next t = None \<and> lq_pop_front t = None \<and> lq_peek b t = None \<and> lq_empty t = None
    \<and> lq_unlock t = s \<and> (\<forall>y. r = Some y \<longrightarrow> fst (lq_get (lq_unlock t)) = Some y)"
  using assms by (auto simp: lq_defs lq_get_def split: if_splits list.splits)

theorem lq_peek_holds_witness:
  "lq_add 3 (lq_put (5 :: nat) LockedQueue_new\<lparr>lq_locked := True\<rparr>) = None"
  using lq_peek_holds[of "lq_put 5 LockedQueue_new" "Some 5" "lq_put 5 LockedQueue_new\<lparr>lq_locked := True\<rparr>" 3]
  by (simp add: lq_defs lq_put_def)

subsection \<open>Threads waiting for values\<close>

definition pc_inv :: "'a ProducerConsumerQueue \<Rightarrow> bool" where
  "pc_inv s \<longleftrightarrow> finite (pc_awake s) \<and> finite (pc_waiting s) \<and> pc_waiting s \<inter> pc_awake s = {}
     \<and> pc_pushed s = pc_taken s @ pc_deleted s @ pc_queue s
     \<and> (if pc_shutdown s then pc_waiting s = {} else pc_deleted s = [])
     \<and> (pc_waiting s \<noteq> {} \<longrightarrow> length (pc_queue s) \<le> card (pc_awake s))"

lemma pc_inv_init: "pc_inv ProducerConsumerQueue_new"
  by (simp add: pc_inv_def ProducerConsumerQueue_new_def)

lemma pc_inv_push: "t \<in> pc_waiting s \<Longrightarrow> pc_inv s \<Longrightarrow> pc_inv (pc_Push v (Some t) s)"
  "pc_waiting s = {} \<Longrightarrow> pc_inv s \<Longrightarrow> pc_inv (pc_Push v None s)"
  by (auto simp: pc_inv_def pc_Push_def wake_def Let_def card_insert_if split: if_splits)

lemma pc_inv_pop: "pc_inv s \<Longrightarrow> pc_inv (snd (pc_Pop s))"
  by (cases "pc_queue s") (auto simp: pc_inv_def pc_Pop_def split: if_splits)

lemma pc_inv_round: "t \<in> pc_awake s \<Longrightarrow> pc_inv s \<Longrightarrow> pc_inv (snd (WaitAndPop_round t s))"
  by (cases "pc_queue s")
     (auto simp: pc_inv_def WaitAndPop_round_def Let_def card_Diff_singleton split: if_splits)

lemma pc_inv_step: "pc_step s t \<Longrightarrow> pc_inv s \<Longrightarrow> pc_inv t"
proof (erule pc_stepE, goal_cases)
  case (4 u)
  then show ?case by (auto simp: pc_inv_def card_insert_if split: if_splits)
next
  case (6 u)
  then show ?case by (auto simp: pc_inv_def wake_def card_insert_if split: if_splits)
next
  case 7
  then show ?case by (auto simp: pc_inv_def pc_Cancel_def wake_def split: if_splits)
qed (simp_all add: pc_inv_push pc_inv_pop pc_inv_round)

lemma pc_inv_reachable: "pc_step\<^sup>*\<^sup>* ProducerConsumerQueue_new s \<Longrightarrow> pc_inv s"
  by (induction rule: rtranclp_induct) (auto intro: pc_inv_init pc_inv_step)

text \<open>C27. Over every interleaving: what was pushed is, in order, what was handed out, then what
  \<open>Cancel\<close> deleted, then what is queued, so no value is lost, duplicated or overtaken.\<close>

theorem pc_queue_order:
  assumes "pc_step\<^sup>*\<^sup>* ProducerConsumerQueue_new s"
  shows "pc_pushed s = pc_taken s @ pc_deleted s @ pc_queue s"
  using pc_inv_reachable[OF assms] by (simp add: pc_inv_def)

definition pc_sample :: "nat ProducerConsumerQueue" where
  "pc_sample = pc_Push 4 None (snd (pc_Pop (pc_Push 3 None ProducerConsumerQueue_new)))"

lemma pc_sample_reachable: "pc_step\<^sup>*\<^sup>* ProducerConsumerQueue_new pc_sample"
proof -
  let ?a = "pc_Push 3 None ProducerConsumerQueue_new :: nat ProducerConsumerQueue"
  let ?b = "snd (pc_Pop ?a)"
  have 1: "pc_step ProducerConsumerQueue_new ?a"
    by (rule pc_step.push_nobody) (simp add: ProducerConsumerQueue_new_def)
  have 2: "pc_step ?a ?b" by (rule pc_step.pop)
  have 3: "pc_step ?b pc_sample" unfolding pc_sample_def
    by (rule pc_step.push_nobody) (simp add: ProducerConsumerQueue_new_def pc_Push_def pc_Pop_def)
  show ?thesis using 1 2 3 by (blast intro: converse_rtranclp_into_rtranclp)
qed

theorem pc_queue_order_witness:
  "pc_pushed pc_sample = pc_taken pc_sample @ pc_deleted pc_sample @ pc_queue pc_sample"
  by (rule pc_queue_order[OF pc_sample_reachable])

text \<open>C26. No wake-up is lost: over every interleaving, if a value is queued while a thread is
  blocked in \<open>WaitAndPop\<close>, then some other thread is awake in it, and whichever is awake takes
  the front value the next time it runs; and after \<open>Cancel\<close> no thread is blocked.\<close>

theorem pc_no_lost_wakeup:
  assumes "pc_step\<^sup>*\<^sup>* ProducerConsumerQueue_new s"
  shows "(pc_queue s \<noteq> [] \<and> pc_waiting s \<noteq> {} \<longrightarrow>
       pc_awake s \<noteq> {} \<and> (\<forall>t\<in>pc_awake s. fst (WaitAndPop_round t s) = Some (Some (hd (pc_queue s)))))
    \<and> (pc_shutdown s \<longrightarrow> pc_waiting s = {})"
proof -
  have i: "pc_inv s" by (rule pc_inv_reachable[OF assms])
  then have a: "pc_queue s \<noteq> [] \<Longrightarrow> pc_waiting s \<noteq> {} \<Longrightarrow> pc_awake s \<noteq> {} \<and> \<not> pc_shutdown s"
    by (cases "pc_queue s") (auto simp: pc_inv_def split: if_splits)
  have "pc_shutdown s \<Longrightarrow> pc_waiting s = {}" using i by (simp add: pc_inv_def)
  with a show ?thesis by (auto simp: WaitAndPop_round_def Let_def)
qed

definition pc_blocked :: "nat ProducerConsumerQueue" where
  "pc_blocked = pc_Push 5 (Some 1) (snd (WaitAndPop_round 2 (snd (WaitAndPop_round 1
     \<lparr>pc_queue = [], pc_shutdown = False, pc_waiting = {}, pc_awake = {1, 2}, pc_pushed = [], pc_taken = [], pc_deleted = []\<rparr>))))"

lemma pc_blocked_reachable: "pc_step\<^sup>*\<^sup>* ProducerConsumerQueue_new pc_blocked"
proof -
  let ?n = "ProducerConsumerQueue_new :: nat ProducerConsumerQueue"
  let ?a = "?n\<lparr>pc_awake := insert 2 {}\<rparr>" and ?b = "?n\<lparr>pc_awake := {1, 2}\<rparr>"
  let ?c = "snd (WaitAndPop_round 1 ?b)" let ?d = "snd (WaitAndPop_round 2 ?c)"
  have 1: "pc_step ?n ?a" using pc_step.call[of 2 ?n] by (simp add: ProducerConsumerQueue_new_def)
  have 2: "pc_step ?a ?b" using pc_step.call[of 1 ?a] by (simp add: ProducerConsumerQueue_new_def)
  have 3: "pc_step ?b ?c" by (rule pc_step.round) simp
  have 4: "pc_step ?c ?d" by (rule pc_step.round) (simp add: WaitAndPop_round_def ProducerConsumerQueue_new_def)
  have 5: "pc_step ?d (pc_Push 5 (Some 1) ?d)"
    by (rule pc_step.push_notify) (simp add: WaitAndPop_round_def ProducerConsumerQueue_new_def)
  have "pc_step\<^sup>*\<^sup>* ?n (pc_Push 5 (Some 1) ?d)"
    using 1 2 3 4 5 by (blast intro: converse_rtranclp_into_rtranclp)
  then show ?thesis by (simp add: pc_blocked_def ProducerConsumerQueue_new_def)
qed

theorem pc_no_lost_wakeup_witness:
  "pc_waiting pc_blocked = {2} \<and> fst (WaitAndPop_round 1 pc_blocked) = Some (Some 5)"
proof -
  have "pc_queue pc_blocked = [5]" "pc_waiting pc_blocked = {2}" "pc_awake pc_blocked = {1}"
    by (auto simp: pc_blocked_def WaitAndPop_round_def pc_Push_def wake_def)
  with pc_no_lost_wakeup[OF pc_blocked_reachable] show ?thesis by simp
qed

lemma pc_shutdown_step:
  "pc_step s t \<Longrightarrow> pc_shutdown s \<Longrightarrow> pc_shutdown t \<and> pc_taken t = pc_taken s"
  by (erule pc_stepE)
     (auto simp: pc_Push_def pc_Pop_def WaitAndPop_round_def pc_Cancel_def wake_def Let_def)

text \<open>\<open>Cancel\<close> is final: whatever happens after it, no value is handed out any more and no
  call of \<open>WaitAndPop\<close> blocks; a value pushed afterwards stays in the queue.\<close>

theorem pc_Cancel_final:
  assumes "pc_step\<^sup>*\<^sup>* (pc_Cancel s) t"
  shows "pc_taken t = pc_taken s \<and> fst (pc_Pop t) = None \<and> fst (WaitAndPop_round u t) = Some None"
proof -
  have "pc_shutdown t \<and> pc_taken t = pc_taken (pc_Cancel s)"
    using assms by (induction rule: rtranclp_induct) (auto simp: pc_Cancel_def wake_def dest: pc_shutdown_step)
  then show ?thesis by (simp add: pc_Pop_def WaitAndPop_round_def Let_def) (simp add: pc_Cancel_def wake_def)
qed

theorem pc_Cancel_final_witness:
  "fst (pc_Pop (pc_Push 8 None (pc_Cancel pc_sample))) = None"
proof -
  have "pc_step (pc_Cancel pc_sample) (pc_Push 8 None (pc_Cancel pc_sample))"
    by (rule pc_step.push_nobody) (simp add: pc_Cancel_def wake_def)
  then show ?thesis using pc_Cancel_final[OF r_into_rtranclp[of pc_step]] by blast
qed

end
