(* ===== verification/SortedMap.thy ===== *)
theory SortedMap
  imports Prelude
begin

text \<open>
  \<open>std::map\<close> as the components iterate over it: the list of its entries in ascending key order.
  The functions are those of the standard library the code calls; the lemmas give lookup after an
  update, the order, and how many entries have a property.
\<close>

fun sm_insert :: "'k::linorder \<Rightarrow> 'v \<Rightarrow> ('k \<times> 'v) list \<Rightarrow> ('k \<times> 'v) list" where
  "sm_insert k v [] = [(k, v)]"
| "sm_insert k v ((k', v') # m) =
     (if k < k' then (k, v) # (k', v') # m else if k = k' then (k, v) # m else (k', v') # sm_insert k v m)"

definition sm_erase :: "'k \<Rightarrow> ('k \<times> 'v) list \<Rightarrow> ('k \<times> 'v) list" where
  "sm_erase k m = filter (\<lambda>x. fst x \<noteq> k) m"

definition sm_update :: "('v \<Rightarrow> 'v) \<Rightarrow> 'k::linorder \<Rightarrow> ('k \<times> 'v) list \<Rightarrow> ('k \<times> 'v) list" where
  "sm_update f k m = (case map_of m k of None \<Rightarrow> m | Some v \<Rightarrow> sm_insert k (f v) m)"

definition sm_ok :: "('k::linorder \<times> 'v) list \<Rightarrow> bool" where
  "sm_ok m \<longleftrightarrow> sorted_wrt (<) (map fst m)"

definition scount :: "('k \<times> 'v \<Rightarrow> bool) \<Rightarrow> ('k \<times> 'v) list \<Rightarrow> nat" where
  "scount P m = length (filter P m)"

lemma map_of_sm_insert [simp]: "map_of (sm_insert k v m) = (map_of m)(k \<mapsto> v)"
  by (induction k v m rule: sm_insert.induct) (auto simp: fun_eq_iff)

lemma map_of_sm_erase [simp]: "map_of (sm_erase k m) = (map_of m)(k := None)"
  by (induction m) (auto simp: sm_erase_def fun_eq_iff)

lemma map_of_sm_update [simp]: "map_of (sm_update f k m) = (map_of m)(k := map_option f (map_of m k))"
  by (cases "map_of m k") (auto simp: sm_update_def fun_eq_iff)

lemma fst_sm_insert [simp]: "fst ` set (sm_insert k v m) = insert k (fst ` set m)"
  by (induction k v m rule: sm_insert.induct) auto

lemma sm_ok_Nil [simp]: "sm_ok []"
  by (simp add: sm_ok_def)

lemma sm_ok_Cons: "sm_ok ((k, v) # m) \<longleftrightarrow> (\<forall>k'\<in>fst ` set m. k < k') \<and> sm_ok m"
  by (auto simp: sm_ok_def)

lemma sm_ok_insert [simp, intro]: "sm_ok m \<Longrightarrow> sm_ok (sm_insert k v m)"
proof (induction k v m rule: sm_insert.induct)
  case (2 k v k' v' m)
  then show ?case using fst_sm_insert[of k v m] by (force simp: sm_ok_Cons)
qed (simp add: sm_ok_Cons)

lemma sm_ok_update [simp, intro]: "sm_ok m \<Longrightarrow> sm_ok (sm_update f k m)"
  by (simp add: sm_update_def split: option.split)

lemma sm_ok_erase [simp, intro]: "sm_ok m \<Longrightarrow> sm_ok (sm_erase k m)"
  by (induction m) (auto simp: sm_erase_def sm_ok_def)

lemma sm_ok_distinct: "sm_ok m \<Longrightarrow> distinct (map fst m)"
  by (induction m) (auto simp: sm_ok_def)

lemma sm_ok_map [simp]: "sm_ok (map (\<lambda>(k, v). (k, f k v)) m) = sm_ok m"
  by (simp add: sm_ok_def comp_def case_prod_beta)

lemma sm_lookup_iff: "sm_ok m \<Longrightarrow> map_of m k = Some v \<longleftrightarrow> (k, v) \<in> set m"
  using sm_ok_distinct by force

lemma scount_simps [simp]: "scount P [] = 0" "scount P (x # m) = (if P x then 1 else 0) + scount P m"
  by (simp_all add: scount_def)

lemma scount_insert:
  "sm_ok m \<Longrightarrow> scount P (sm_insert k v m)
     + (case map_of m k of None \<Rightarrow> 0 | Some w \<Rightarrow> if P (k, w) then 1 else 0) = scount P m + (if P (k, v) then 1 else 0)"
proof (induction k v m rule: sm_insert.induct)
  case (2 k v k' v' m)
  have "k < k' \<Longrightarrow> map_of m k = None" using 2(2) by (force simp: sm_ok_Cons map_of_eq_None_iff)
  with 2 show ?case by (auto simp: sm_ok_Cons)
qed simp

lemma scount_update:
  "sm_ok m \<Longrightarrow> map_of m k = Some w \<Longrightarrow>
     scount P (sm_insert k v m) + (if P (k, w) then 1 else 0) = scount P m + (if P (k, v) then 1 else 0)"
  using scount_insert[of m P k v] by simp

lemma scount_cong: "(\<And>x. x \<in> set m \<Longrightarrow> P x = Q x) \<Longrightarrow> scount P m = scount Q m"
  by (induction m) auto

lemma scount_le: "scount P m \<le> length m"
  by (simp add: scount_def)

text \<open>Looping over the entries and changing values in place.\<close>

definition sm_map :: "('v \<Rightarrow> 'v) \<Rightarrow> ('k \<times> 'v) list \<Rightarrow> ('k \<times> 'v) list" where
  "sm_map f m = map (\<lambda>(k, v). (k, f v)) m"

lemma sm_ok_sm_map [simp]: "sm_ok (sm_map f m) = sm_ok m"
  by (simp add: sm_map_def sm_ok_def comp_def case_prod_beta)

lemma map_of_sm_map [simp]: "map_of (sm_map f m) k = map_option f (map_of m k)"
  by (induction m) (auto simp: sm_map_def)

lemma fst_sm_map [simp]: "map fst (sm_map f m) = map fst m"
  by (induction m) (auto simp: sm_map_def)

lemma scount_sm_map: "scount P (sm_map f m) = scount (\<lambda>(k, v). P (k, f v)) m"
  by (induction m) (auto simp: sm_map_def)

end
