(* ===== verification/FloatArith.thy ===== *)
theory FloatArith
  imports Prelude "HOL-Library.Log_Nat"
begin

text \<open>
  The arithmetic of \<open>float\<close> and \<open>double\<close> the code uses on amounts: a finite value is a rational
  number, and the result of an operation is the exact one rounded to the nearest value with \<open>p\<close>
  significant bits (24 or 53), ties to even. Overflow, infinities, not-a-number and subnormals do
  not occur for amounts and rates and are not modelled. Conversion to \<open>int32\<close> drops the
  fraction; out of range it gives what the x86 instruction gives.
\<close>

definition round_even :: "rat \<Rightarrow> int" where
  "round_even q = (let f = \<lfloor>q\<rfloor>; d = q - of_int f in
     if d < 1 / 2 then f else if 1 / 2 < d then f + 1 else if even f then f else f + 1)"

definition rat_log2 :: "rat \<Rightarrow> int" where
  "rat_log2 q = (let (a, b) = quotient_of q; k = int (floorlog 2 (nat \<bar>a\<bar>)) - int (floorlog 2 (nat b))
     in if power_int 2 k \<le> \<bar>q\<bar> then k else k - 1)"

definition fl_ulp :: "nat \<Rightarrow> rat \<Rightarrow> rat" where
  "fl_ulp p q = power_int 2 (rat_log2 q - int p + 1)"

definition fl :: "nat \<Rightarrow> rat \<Rightarrow> rat" where
  "fl p q = (if q = 0 then 0 else of_int (round_even (q / fl_ulp p q)) * fl_ulp p q)"

definition i32 :: "int \<Rightarrow> int" where
  "i32 x = signed_take_bit 31 x"

definition int32_of_real :: "rat \<Rightarrow> int" where
  "int32_of_real q = (let t = (if q < 0 then \<lceil>q\<rceil> else \<lfloor>q\<rfloor>) in
     if - (2 ^ 31) \<le> t \<and> t < 2 ^ 31 then t else - (2 ^ 31))"

definition f32_of_int :: "int \<Rightarrow> rat" where "f32_of_int x = fl 24 (of_int x)"
definition f32_mul :: "rat \<Rightarrow> rat \<Rightarrow> rat" where "f32_mul x y = fl 24 (x * y)"
definition f32_add :: "rat \<Rightarrow> rat \<Rightarrow> rat" where "f32_add x y = fl 24 (x + y)"
definition f64_mul :: "rat \<Rightarrow> rat \<Rightarrow> rat" where "f64_mul x y = fl 53 (x * y)"

lemma i32_range: "- (2 ^ 31) \<le> i32 x" "i32 x < 2 ^ 31"
  using signed_take_bit_int_greater_eq_minus_exp[of 31 x] signed_take_bit_int_less_exp[of 31 x]
  by (simp_all add: i32_def)

lemma i32_id: "- (2 ^ 31) \<le> x \<Longrightarrow> x < 2 ^ 31 \<Longrightarrow> i32 x = x"
  by (simp add: i32_def signed_take_bit_int_eq_self)

lemma i32_cong: "i32 x = i32 y \<longleftrightarrow> x mod 2 ^ 32 = y mod 2 ^ 32"
  by (simp add: i32_def signed_take_bit_eq_iff_take_bit_eq take_bit_eq_mod)

lemma i32_mod: "i32 x mod 2 ^ 32 = x mod 2 ^ 32"
  using i32_cong[of "i32 x" x] by (simp add: i32_def)

lemma i32_add_diff [simp]: "i32 (b + i32 (s - b)) = i32 s" "i32 (i32 (s - b) + b) = i32 s"
proof -
  have "(b + i32 (s - b)) mod 2 ^ 32 = (b + (s - b)) mod 2 ^ 32" by (metis i32_mod mod_add_right_eq)
  then show "i32 (b + i32 (s - b)) = i32 s" by (simp add: i32_cong)
  then show "i32 (i32 (s - b) + b) = i32 s" by (simp add: add.commute)
qed

subsection \<open>When rounding is exact\<close>

lemma rat_log2_le: assumes "q \<noteq> 0" shows "power_int 2 (rat_log2 q) \<le> \<bar>q\<bar>"
proof -
  obtain a b where ab: "quotient_of q = (a, b)" by (cases "quotient_of q")
  then have b: "0 < b" and q: "q = of_int a / of_int b" and a: "a \<noteq> 0"
    using assms quotient_of_denom_pos quotient_of_div by (fastforce)+
  define k where "k = int (floorlog 2 (nat \<bar>a\<bar>)) - int (floorlog 2 (nat b))"
  have "0 < nat \<bar>a\<bar>" "0 < nat b" using a b by auto
  from floorlog_bounds[OF this(1), of 2] floorlog_bounds[OF this(2), of 2]
  have fa: "2 ^ (floorlog 2 (nat \<bar>a\<bar>) - 1) \<le> nat \<bar>a\<bar>" and fb: "nat b < 2 ^ floorlog 2 (nat b)" by auto
  have fa0: "1 \<le> floorlog 2 (nat \<bar>a\<bar>)" using a by (simp add: floorlog_def)
  have A: "power_int 2 (int (floorlog 2 (nat \<bar>a\<bar>)) - 1) \<le> \<bar>of_int a :: rat\<bar>"
  proof -
    have "power_int 2 (int (floorlog 2 (nat \<bar>a\<bar>)) - 1) = (2 :: rat) ^ (floorlog 2 (nat \<bar>a\<bar>) - 1)"
      using fa0 by (simp add: power_int_def nat_diff_distrib)
    also have "\<dots> = of_nat (2 ^ (floorlog 2 (nat \<bar>a\<bar>) - 1))" by simp
    also have "\<dots> \<le> of_nat (nat \<bar>a\<bar>)" using fa by (simp only: of_nat_le_iff)
    finally show ?thesis by simp
  qed
  have B: "(of_int b :: rat) \<le> power_int 2 (int (floorlog 2 (nat b)))"
  proof -
    have "(of_nat (nat b) :: rat) \<le> of_nat (2 ^ floorlog 2 (nat b))" using fb by (simp only: of_nat_le_iff)
    then show ?thesis using b by (simp add: power_int_of_nat)
  qed
  have "power_int 2 (k - 1) * (of_int b :: rat) \<le> power_int 2 (k - 1) * power_int 2 (int (floorlog 2 (nat b)))"
    by (rule mult_left_mono[OF B]) simp
  also have "\<dots> = power_int 2 (int (floorlog 2 (nat \<bar>a\<bar>)) - 1)"
    by (subst power_int_add[symmetric]) (simp_all add: k_def)
  finally have "power_int 2 (k - 1) * of_int b \<le> \<bar>of_int a :: rat\<bar>" using A by simp
  moreover have "\<bar>q\<bar> = \<bar>of_int a\<bar> / of_int b" using b by (simp add: q abs_divide)
  ultimately have "power_int 2 (k - 1) \<le> \<bar>q\<bar>" using b by (simp add: pos_le_divide_eq)
  then show ?thesis by (simp add: rat_log2_def ab Let_def k_def[symmetric])
qed

lemma round_even_of_int [simp]: "round_even (of_int m) = m"
  by (simp add: round_even_def)

lemma fl_exact:
  assumes "q = of_int m / 2 ^ j" and "\<bar>q\<bar> < power_int 2 (int p - int j)"
  shows "fl p q = q"
proof (cases "q = 0")
  case False
  have "(2::rat) powi (rat_log2 q) < power_int 2 (int p - int j)" using rat_log2_le[OF False] assms(2) by simp
  then have "rat_log2 q < int p - int j"
    using power_int_increasing[of "int p - int j" "rat_log2 q" "2 :: rat"] by (rule_tac ccontr) simp
  then have "rat_log2 q - int p + 1 = - int (j + nat (int p - int j - 1 - rat_log2 q))" by simp
  then obtain i where i: "rat_log2 q - int p + 1 = - int (j + i)" by blast
  have u: "fl_ulp p q = 1 / 2 ^ (j + i)" 
    unfolding fl_ulp_def i power_int_minus power_int_of_nat by (simp add: divide_inverse)
  have v: "q / fl_ulp p q = of_int (m * 2 ^ i)" unfolding u by (subst assms(1)) (simp add: power_add)
  have "fl p q = of_int (m * 2 ^ i) * fl_ulp p q" unfolding fl_def v round_even_of_int using False by simp
  also have "\<dots> = q" unfolding u by (subst assms(1)) (simp add: power_add)
  finally show ?thesis .
qed (simp add: fl_def)

lemma f32_of_int_exact: "\<bar>x\<bar> < 2 ^ 24 \<Longrightarrow> f32_of_int x = of_int x"
  unfolding f32_of_int_def
  by (rule fl_exact[where m = x and j = 0]) (simp_all flip: of_int_abs add: of_int_less_numeral_iff)

lemma f32_add_half: "\<bar>x\<bar> < 2 ^ 22 \<Longrightarrow> f32_add (of_int x) (1 / 2) = of_int x + 1 / 2"
  unfolding f32_add_def
proof (rule fl_exact[where m = "2 * x + 1" and j = 1])
  assume "\<bar>x\<bar> < 2 ^ 22"
  then have "\<bar>of_int x :: rat\<bar> < 2 ^ 22" by (metis of_int_abs of_int_less_iff of_int_numeral of_int_power)
  then show "\<bar>of_int x + 1 / 2 :: rat\<bar> < power_int 2 (int 24 - int 1)" by simp
qed (simp add: field_simps)

lemma int32_of_real_of_int: "- (2 ^ 31) \<le> x \<Longrightarrow> x < 2 ^ 31 \<Longrightarrow> int32_of_real (of_int x) = x"
  by (simp add: int32_of_real_def)

end
