(* ===== verification/Reputation.thy ===== *)
theory Reputation
  imports SortedMap FloatArith ByteBuffer
begin

text \<open>
  Reputations of a player: \<open>src/server/game/Reputation/ReputationMgr.h\<close> and
  \<open>ReputationMgr.cpp\<close> (the build without \<open>CROSS\<close>). The tables and services the manager asks are
  the fields of \<open>rep_env\<close>; the packets it sends and the calls it makes to the player are a log of
  effects, a packet being its opcode and its fields in the order they are written. An \<open>int32\<close> is
  an \<open>int\<close> kept in range by \<open>i32\<close>.
\<close>

subsection \<open>Data\<close>

datatype ReputationRank = REP_HATED | REP_HOSTILE | REP_UNFRIENDLY | REP_NEUTRAL | REP_FRIENDLY
  | REP_HONORED | REP_REVERED | REP_EXALTED

definition all_ranks :: "ReputationRank list" where
  "all_ranks = [REP_HATED, REP_HOSTILE, REP_UNFRIENDLY, REP_NEUTRAL, REP_FRIENDLY, REP_HONORED, REP_REVERED, REP_EXALTED]"

fun rank_val :: "ReputationRank \<Rightarrow> nat" where
  "rank_val REP_HATED = 0"
| "rank_val REP_HOSTILE = 1"
| "rank_val REP_UNFRIENDLY = 2"
| "rank_val REP_NEUTRAL = 3"
| "rank_val REP_FRIENDLY = 4"
| "rank_val REP_HONORED = 5"
| "rank_val REP_REVERED = 6"
| "rank_val REP_EXALTED = 7"

lemma rank_val_inject [simp]: "rank_val a = rank_val b \<longleftrightarrow> a = b"
  by (cases a; cases b) simp_all

instantiation ReputationRank :: linorder
begin

definition less_eq_ReputationRank :: "ReputationRank \<Rightarrow> ReputationRank \<Rightarrow> bool" where
  "less_eq_ReputationRank a b \<longleftrightarrow> rank_val a \<le> rank_val b"

definition less_ReputationRank :: "ReputationRank \<Rightarrow> ReputationRank \<Rightarrow> bool" where
  "less_ReputationRank a b \<longleftrightarrow> rank_val a < rank_val b"

instance
  by standard (auto simp: less_eq_ReputationRank_def less_ReputationRank_def)

end

definition FACTION_FLAG_VISIBLE :: u8 where "FACTION_FLAG_VISIBLE = 0x01"
definition FACTION_FLAG_AT_WAR :: u8 where "FACTION_FLAG_AT_WAR = 0x02"
definition FACTION_FLAG_HIDDEN :: u8 where "FACTION_FLAG_HIDDEN = 0x04"
definition FACTION_FLAG_INVISIBLE_FORCED :: u8 where "FACTION_FLAG_INVISIBLE_FORCED = 0x08"
definition FACTION_FLAG_PEACE_FORCED :: u8 where "FACTION_FLAG_PEACE_FORCED = 0x10"
definition FACTION_FLAG_INACTIVE :: u8 where "FACTION_FLAG_INACTIVE = 0x20"
definition FACTION_FLAG_SPECIAL :: u8 where "FACTION_FLAG_SPECIAL = 0x80"

lemmas faction_flag_defs = FACTION_FLAG_VISIBLE_def FACTION_FLAG_AT_WAR_def FACTION_FLAG_HIDDEN_def
  FACTION_FLAG_INVISIBLE_FORCED_def FACTION_FLAG_PEACE_FORCED_def FACTION_FLAG_INACTIVE_def FACTION_FLAG_SPECIAL_def

definition has_flag :: "u8 \<Rightarrow> u8 \<Rightarrow> bool" where
  "has_flag flags f \<longleftrightarrow> and flags f \<noteq> 0"

text \<open>The arrays of an entry have four elements.\<close>

record FactionEntry =
  fe_ID :: u32
  fe_ReputationIndex :: int
  fe_RaceMask :: "u32 list"
  fe_ClassMask :: "u32 list"
  fe_Base :: "int list"
  fe_Flags :: "u32 list"
  fe_ParentFactionID :: u32
  fe_ModIn :: rat
  fe_ModOut :: rat
  fe_CapIn :: u32

definition CanHaveReputation :: "FactionEntry \<Rightarrow> bool" where
  "CanHaveReputation e \<longleftrightarrow> 0 \<le> fe_ReputationIndex e"

definition list_id :: "FactionEntry \<Rightarrow> u32" where
  "list_id e = word_of_int (fe_ReputationIndex e)"

record FactionState =
  fs_ID :: u32
  fs_ListID :: u32
  fs_Standing :: int
  fs_Flags :: u8
  fs_needSend :: bool
  fs_needSave :: bool

datatype rep_opcode = SMSG_SET_FORCED_REACTIONS | SMSG_SET_FACTION_STANDING | SMSG_INITIALIZE_FACTIONS
  | SMSG_SET_FACTION_VISIBLE | SMSG_SET_FACTION_NOT_VISIBLE

datatype rep_criteria = KNOWN_FACTIONS | GAIN_REPUTATION | GAIN_EXALTED_REPUTATION | GAIN_REVERED_REPUTATION
  | GAIN_HONORED_REPUTATION

datatype rep_effect = Send rep_opcode "field list" | Changed u32 | Criteria rep_criteria u32

datatype rep_stmt = DeleteReputation u16 | InsertReputation u16 int u16

record ReputationMgr =
  rm_factions :: "(u32 \<times> FactionState) list"
  rm_forced :: "(u32 \<times> ReputationRank) list"
  rm_visible :: u8
  rm_honored :: u8
  rm_revered :: u8
  rm_exalted :: u8
  rm_increased :: bool
  rm_log :: "rep_effect list"

definition ReputationMgr_new :: ReputationMgr where
  "ReputationMgr_new = \<lparr>rm_factions = [], rm_forced = [], rm_visible = 0, rm_honored = 0, rm_revered = 0,
     rm_exalted = 0, rm_increased = False, rm_log = []\<rparr>"

text \<open>What the manager asks: the faction store and its number of rows, the tables of spillovers and
  of team factions, rates and session flags, the player's masks, and the scripts' hook, which may
  change the standing it is given.\<close>

record rep_env =
  re_store :: "u32 \<Rightarrow> FactionEntry option"
  re_rows :: nat
  re_spillover :: "u32 \<Rightarrow> (u32 \<times> rat \<times> u32) list option"
  re_team :: "u32 \<Rightarrow> u32 list option"
  re_raceMask :: u32
  re_classMask :: u32
  re_rate :: rat
  re_premium_rate :: rat
  re_premium :: bool
  re_loading :: bool
  re_trading_post :: bool
  re_script :: "u32 \<Rightarrow> int \<Rightarrow> bool \<Rightarrow> int"

definition log_effect :: "rep_effect \<Rightarrow> ReputationMgr \<Rightarrow> ReputationMgr" where
  "log_effect x s = s\<lparr>rm_log := rm_log s @ [x]\<rparr>"

definition put_state :: "u32 \<Rightarrow> FactionState \<Rightarrow> ReputationMgr \<Rightarrow> ReputationMgr" where
  "put_state k f s = s\<lparr>rm_factions := sm_insert k f (rm_factions s)\<rparr>"

subsection \<open>Ranks and standings\<close>

definition PointsInRank :: "int list" where
  "PointsInRank = [36000, 3000, 3000, 3000, 6000, 12000, 21000, 1000]"

definition Reputation_Cap :: int where "Reputation_Cap = 42999"
definition Reputation_Bottom :: int where "Reputation_Bottom = -42000"

text \<open>The loop over the ranks from the top; the counter is one more than the code's \<open>i\<close>.\<close>

fun rank_loop :: "nat \<Rightarrow> int \<Rightarrow> int \<Rightarrow> ReputationRank" where
  "rank_loop 0 limit standing = REP_HATED"
| "rank_loop (Suc i) limit standing =
     (let limit = limit - PointsInRank ! i in if limit \<le> standing then all_ranks ! i else rank_loop i limit standing)"

definition ReputationToRank :: "int \<Rightarrow> ReputationRank" where
  "ReputationToRank standing = rank_loop 8 (Reputation_Cap + 1) standing"

definition mask_slot :: "rep_env \<Rightarrow> FactionEntry \<Rightarrow> nat option" where
  "mask_slot env e = find (\<lambda>i.
     (and (fe_RaceMask e ! i) (re_raceMask env) \<noteq> 0 \<or> (fe_RaceMask e ! i = 0 \<and> fe_ClassMask e ! i \<noteq> 0))
     \<and> (and (fe_ClassMask e ! i) (re_classMask env) \<noteq> 0 \<or> fe_ClassMask e ! i = 0)) [0, 1, 2, 3]"

definition GetBaseReputation :: "rep_env \<Rightarrow> FactionEntry option \<Rightarrow> int" where
  "GetBaseReputation env eo = (case eo of None \<Rightarrow> 0
     | Some e \<Rightarrow> (case mask_slot env e of None \<Rightarrow> 0 | Some i \<Rightarrow> fe_Base e ! i))"

definition GetDefaultStateFlags :: "rep_env \<Rightarrow> FactionEntry option \<Rightarrow> u32" where
  "GetDefaultStateFlags env eo = (case eo of None \<Rightarrow> 0
     | Some e \<Rightarrow> (case mask_slot env e of None \<Rightarrow> 0 | Some i \<Rightarrow> fe_Flags e ! i))"

definition GetState :: "FactionEntry \<Rightarrow> ReputationMgr \<Rightarrow> FactionState option" where
  "GetState e s = (if CanHaveReputation e then map_of (rm_factions s) (list_id e) else None)"

definition IsAtWar :: "FactionEntry option \<Rightarrow> ReputationMgr \<Rightarrow> bool" where
  "IsAtWar eo s = (case eo of None \<Rightarrow> False
     | Some e \<Rightarrow> (case GetState e s of None \<Rightarrow> False | Some f \<Rightarrow> has_flag (fs_Flags f) FACTION_FLAG_AT_WAR))"

definition IsAtWar_id :: "rep_env \<Rightarrow> u32 \<Rightarrow> ReputationMgr \<Rightarrow> bool" where
  "IsAtWar_id env i s = (case re_store env i of None \<Rightarrow> False | Some e \<Rightarrow> IsAtWar (Some e) s)"

definition GetReputation :: "rep_env \<Rightarrow> FactionEntry option \<Rightarrow> ReputationMgr \<Rightarrow> int" where
  "GetReputation env eo s = (case eo of None \<Rightarrow> 0
     | Some e \<Rightarrow> (case GetState e s of None \<Rightarrow> 0 | Some f \<Rightarrow> i32 (GetBaseReputation env (Some e) + fs_Standing f)))"

definition GetReputation_id :: "rep_env \<Rightarrow> u32 \<Rightarrow> ReputationMgr \<Rightarrow> int" where
  "GetReputation_id env i s = (case re_store env i of None \<Rightarrow> 0 | Some e \<Rightarrow> GetReputation env (Some e) s)"

definition GetRank :: "rep_env \<Rightarrow> FactionEntry option \<Rightarrow> ReputationMgr \<Rightarrow> ReputationRank" where
  "GetRank env eo s = ReputationToRank (GetReputation env eo s)"

definition GetBaseRank :: "rep_env \<Rightarrow> FactionEntry option \<Rightarrow> ReputationRank" where
  "GetBaseRank env eo = ReputationToRank (GetBaseReputation env eo)"

definition ApplyForceReaction :: "u32 \<Rightarrow> ReputationRank \<Rightarrow> bool \<Rightarrow> ReputationMgr \<Rightarrow> ReputationMgr" where
  "ApplyForceReaction i r apply s =
     s\<lparr>rm_forced := (if apply then sm_insert i r (rm_forced s) else sm_erase i (rm_forced s))\<rparr>"

definition GetForcedRankIfAny :: "u32 \<Rightarrow> ReputationMgr \<Rightarrow> ReputationRank option" where
  "GetForcedRankIfAny faction s = map_of (rm_forced s) faction"

text \<open>The counters are eight bits wide and wrap.\<close>

definition UpdateRankCounters :: "ReputationRank \<Rightarrow> ReputationRank \<Rightarrow> ReputationMgr \<Rightarrow> ReputationMgr" where
  "UpdateRankCounters old new s =
     (let s = (if REP_EXALTED \<le> old then s\<lparr>rm_exalted := rm_exalted s - 1\<rparr> else s);
          s = (if REP_REVERED \<le> old then s\<lparr>rm_revered := rm_revered s - 1\<rparr> else s);
          s = (if REP_HONORED \<le> old then s\<lparr>rm_honored := rm_honored s - 1\<rparr> else s);
          s = (if REP_EXALTED \<le> new then s\<lparr>rm_exalted := rm_exalted s + 1\<rparr> else s);
          s = (if REP_REVERED \<le> new then s\<lparr>rm_revered := rm_revered s + 1\<rparr> else s)
      in if REP_HONORED \<le> new then s\<lparr>rm_honored := rm_honored s + 1\<rparr> else s)"

subsection \<open>Packets\<close>

definition SendForceReactions :: "ReputationMgr \<Rightarrow> ReputationMgr" where
  "SendForceReactions s = log_effect (Send SMSG_SET_FORCED_REACTIONS
     (F_bits 6 (of_nat (length (rm_forced s)))
      # concat (map (\<lambda>(i, r). [F_u32 i, F_u32 (of_nat (rank_val r))]) (rm_forced s)))) s"

definition standing_fields :: "FactionState \<Rightarrow> field list" where
  "standing_fields f = [F_u32 (fs_ListID f), F_u32 (word_of_int (fs_Standing f))]"

definition standing_packet :: "nat \<Rightarrow> field list \<Rightarrow> bool \<Rightarrow> rep_effect" where
  "standing_packet n body visual =
     Send SMSG_SET_FACTION_STANDING ([F_u32 0, F_u32 0, F_u32 (of_nat n)] @ body @ [F_bits 1 (of_bool visual)])"

text \<open>The two loops of \<open>SendState\<close>: the first sends the faction's own packet and counts the others
  that need sending, the second sends those in one packet.\<close>

definition SendState :: "u32 \<Rightarrow> ReputationMgr \<Rightarrow> ReputationMgr" where
  "SendState lid s =
     (let own = filter (\<lambda>(k, f). fs_needSend f \<and> fs_ListID f = lid) (rm_factions s);
          others = filter (\<lambda>(k, f). fs_needSend f \<and> fs_ListID f \<noteq> lid) (rm_factions s);
          s = fold (\<lambda>(k, f). log_effect (standing_packet 1 (standing_fields f) True)) own s;
          s = log_effect (standing_packet (length others) (concat (map (\<lambda>(k, f). standing_fields f) others)) False) s
      in s\<lparr>rm_factions := sm_map (\<lambda>f. f\<lparr>fs_needSend := False\<rparr>) (rm_factions s), rm_increased := False\<rparr>)"

definition SendStates :: "ReputationMgr \<Rightarrow> ReputationMgr" where
  "SendStates s = fold (\<lambda>(k, f). SendState (fs_ListID f)) (rm_factions s) s"

definition absent_fields :: "u32 \<Rightarrow> u32 \<Rightarrow> field list" where
  "absent_fields a b = concat (replicate (unat (b - a)) [F_u8 0, F_u32 0])"

fun initial_fields :: "u32 \<Rightarrow> (u32 \<times> FactionState) list \<Rightarrow> field list" where
  "initial_fields a [] = absent_fields a 256"
| "initial_fields a ((k, f) # fs) =
     absent_fields a k @ [F_u8 (fs_Flags f), F_u32 (word_of_int (fs_Standing f))] @ initial_fields (k + 1) fs"

definition SendInitialReputations :: "ReputationMgr \<Rightarrow> ReputationMgr" where
  "SendInitialReputations s =
     (let s1 = s\<lparr>rm_factions := sm_map (\<lambda>f. f\<lparr>fs_needSend := False\<rparr>) (rm_factions s)\<rparr>
      in log_effect (Send SMSG_INITIALIZE_FACTIONS (initial_fields 0 (rm_factions s) @ replicate 256 (F_bits 1 0))) s1)"

definition SendVisible :: "rep_env \<Rightarrow> FactionState \<Rightarrow> bool \<Rightarrow> ReputationMgr \<Rightarrow> ReputationMgr" where
  "SendVisible env f visible s = (if re_loading env then s
     else log_effect (Send (if visible then SMSG_SET_FACTION_VISIBLE else SMSG_SET_FACTION_NOT_VISIBLE)
            [F_u32 (fs_ListID f)]) s)"

subsection \<open>Flags\<close>

definition touch :: "FactionState \<Rightarrow> FactionState" where
  "touch f = f\<lparr>fs_needSend := True, fs_needSave := True\<rparr>"

definition can_show :: "u8 \<Rightarrow> bool" where
  "can_show flags \<longleftrightarrow> \<not> (has_flag flags (or FACTION_FLAG_INVISIBLE_FORCED FACTION_FLAG_HIDDEN)
     \<and> \<not> has_flag flags FACTION_FLAG_SPECIAL)"

text \<open>\<open>SetVisible(FactionState*)\<close>; the state is the one stored under key \<open>k\<close>.\<close>

definition SetVisible_state :: "rep_env \<Rightarrow> u32 \<Rightarrow> FactionState \<Rightarrow> ReputationMgr \<Rightarrow> ReputationMgr" where
  "SetVisible_state env k f s =
     (if \<not> can_show (fs_Flags f) then s
      else if has_flag (fs_Flags f) FACTION_FLAG_VISIBLE then s
      else let f1 = touch (f\<lparr>fs_Flags := or (fs_Flags f) FACTION_FLAG_VISIBLE\<rparr>)
           in SendVisible env f1 True ((put_state k f1 s)\<lparr>rm_visible := rm_visible s + 1\<rparr>))"

definition SetVisible_entry :: "rep_env \<Rightarrow> FactionEntry \<Rightarrow> ReputationMgr \<Rightarrow> ReputationMgr" where
  "SetVisible_entry env e s =
     (if \<not> CanHaveReputation e then s
      else case map_of (rm_factions s) (list_id e) of None \<Rightarrow> s
           | Some f \<Rightarrow> SetVisible_state env (list_id e) f s)"

text \<open>\<open>SetVisible\<close> for a template: its faction, unless it is one of the opposing team.\<close>

definition SetVisible_template :: "rep_env \<Rightarrow> u32 \<Rightarrow> ReputationMgr \<Rightarrow> ReputationMgr" where
  "SetVisible_template env faction s =
     (if faction = 0 then s
      else case re_store env faction of None \<Rightarrow> s
           | Some e \<Rightarrow> if and (fe_RaceMask e ! 1) (re_raceMask env) \<noteq> 0 \<and> fe_Base e ! 1 = Reputation_Bottom
                      then s else SetVisible_entry env e s)"

definition SetAtWar_state :: "u32 \<Rightarrow> FactionState \<Rightarrow> bool \<Rightarrow> ReputationMgr \<Rightarrow> ReputationMgr" where
  "SetAtWar_state k f atWar s =
     (if atWar \<and> has_flag (fs_Flags f) FACTION_FLAG_PEACE_FORCED then s
      else if has_flag (fs_Flags f) FACTION_FLAG_AT_WAR = atWar then s
      else put_state k (touch (f\<lparr>fs_Flags := (if atWar then or (fs_Flags f) FACTION_FLAG_AT_WAR
             else and (fs_Flags f) (not FACTION_FLAG_AT_WAR))\<rparr>)) s)"

definition SetAtWar :: "u32 \<Rightarrow> bool \<Rightarrow> ReputationMgr \<Rightarrow> ReputationMgr" where
  "SetAtWar lid on s =
     (case map_of (rm_factions s) lid of None \<Rightarrow> s
      | Some f \<Rightarrow> if has_flag (fs_Flags f) (or FACTION_FLAG_INVISIBLE_FORCED FACTION_FLAG_HIDDEN) then s
                 else SetAtWar_state lid f on s)"

definition SetInactive_state :: "u32 \<Rightarrow> FactionState \<Rightarrow> bool \<Rightarrow> ReputationMgr \<Rightarrow> ReputationMgr" where
  "SetInactive_state k f inactive s =
     (if inactive \<and> (has_flag (fs_Flags f) (or FACTION_FLAG_INVISIBLE_FORCED FACTION_FLAG_HIDDEN)
                      \<or> \<not> has_flag (fs_Flags f) FACTION_FLAG_VISIBLE) then s
      else if has_flag (fs_Flags f) FACTION_FLAG_INACTIVE = inactive then s
      else put_state k (touch (f\<lparr>fs_Flags := (if inactive then or (fs_Flags f) FACTION_FLAG_INACTIVE
             else and (fs_Flags f) (not FACTION_FLAG_INACTIVE))\<rparr>)) s)"

definition SetInactive :: "u32 \<Rightarrow> bool \<Rightarrow> ReputationMgr \<Rightarrow> ReputationMgr" where
  "SetInactive lid on s =
     (case map_of (rm_factions s) lid of None \<Rightarrow> s | Some f \<Rightarrow> SetInactive_state lid f on s)"

subsection \<open>Changing reputation\<close>

definition rate_gain :: "rat \<Rightarrow> int \<Rightarrow> int" where
  "rate_gain rate standing =
     int32_of_real (of_int \<lfloor>f32_add (f32_mul (f32_of_int standing) rate) (1 / 2)\<rfloor>)"

definition clamp_standing :: "int \<Rightarrow> int" where
  "clamp_standing st = (if Reputation_Cap < st then Reputation_Cap
     else if st < Reputation_Bottom then Reputation_Bottom else st)"

text \<open>The amount the standing is set to; the standings of the state and the base are \<open>int32\<close>.\<close>

definition new_standing :: "rep_env \<Rightarrow> int \<Rightarrow> int \<Rightarrow> int \<Rightarrow> bool \<Rightarrow> int" where
  "new_standing env old base standing incremental =
     clamp_standing (if incremental
       then let st = rate_gain (re_rate env) standing;
                st = (if re_premium env then rate_gain (re_premium_rate env) st else st)
            in i32 (st + i32 (old + base))
       else standing)"

text \<open>The state under the key is looked up anew after each change of the flags, as the pointer is.\<close>

definition SetOneFactionReputation :: "rep_env \<Rightarrow> FactionEntry \<Rightarrow> int \<Rightarrow> bool \<Rightarrow> ReputationMgr \<Rightarrow> bool \<times> ReputationMgr" where
  "SetOneFactionReputation env e standing incremental s =
     (let k = list_id e in
      case map_of (rm_factions s) k of None \<Rightarrow> (False, s)
      | Some f \<Rightarrow>
         let base = GetBaseReputation env (Some e);
             st = new_standing env (fs_Standing f) base standing incremental;
             old_rank = ReputationToRank (i32 (fs_Standing f + base));
             new_rank = ReputationToRank st;
             f1 = touch (f\<lparr>fs_Standing := i32 (st - base)\<rparr>);
             s = SetVisible_state env k f1 (put_state k f1 s);
             s = (if new_rank \<le> REP_HOSTILE
                  then case map_of (rm_factions s) k of None \<Rightarrow> s | Some f2 \<Rightarrow> SetAtWar_state k f2 True s else s);
             s = (if old_rank < new_rank then s\<lparr>rm_increased := True\<rparr> else s);
             s = UpdateRankCounters old_rank new_rank s
         in (True, fold log_effect ([Changed (fe_ID e)] @ map (\<lambda>c. Criteria c (fe_ID e))
               [KNOWN_FACTIONS, GAIN_REPUTATION, GAIN_EXALTED_REPUTATION, GAIN_REVERED_REPUTATION, GAIN_HONORED_REPUTATION]) s))"

text \<open>A spillover of the database's table. The bonus of the trading post multiplies the standing that
  later spillovers and the faction itself get; an unknown faction would be a null pointer (\<open>None\<close>).\<close>

definition f64_1_2 :: rat where
  "f64_1_2 = fl 53 (12 / 10)"

fun spill_template :: "rep_env \<Rightarrow> bool \<Rightarrow> (u32 \<times> rat \<times> u32) list \<Rightarrow> int \<Rightarrow> ReputationMgr \<Rightarrow> (int \<times> ReputationMgr) option" where
  "spill_template env incremental [] standing s = Some (standing, s)"
| "spill_template env incremental ((faction, rate, rank) # ts) standing s =
     (if faction = 0 \<or> \<not> rank_val (GetRank env (re_store env faction) s) \<le> unat rank
      then spill_template env incremental ts standing s
      else let standing = (if re_trading_post env then int32_of_real (f64_mul (of_int standing) f64_1_2) else standing);
               rep = int32_of_real (f32_mul (f32_of_int standing) rate)
           in case re_store env faction of None \<Rightarrow> None
              | Some e \<Rightarrow> spill_template env incremental ts standing
                           (snd (SetOneFactionReputation env e rep incremental s)))"

text \<open>A spillover to the factions of a list; the result is that of the last one set.\<close>

definition spill_one :: "rep_env \<Rightarrow> FactionEntry \<Rightarrow> bool \<Rightarrow> rat \<Rightarrow> u32 \<Rightarrow> bool \<times> ReputationMgr \<Rightarrow> bool \<times> ReputationMgr" where
  "spill_one env e incremental out i rs =
     (case re_store env i of None \<Rightarrow> rs
      | Some c \<Rightarrow>
         if c = e \<or> unat (fe_CapIn c) < rank_val (GetRank env (Some c) (snd rs)) then rs
         else let rep = int32_of_real (f32_mul out (fe_ModIn c))
              in if rep \<noteq> 0 \<or> \<not> incremental then SetOneFactionReputation env c rep incremental (snd rs) else rs)"

text \<open>Which list the spillover goes to, with the amount and the parent's own share.\<close>

definition spill_parent :: "rep_env \<Rightarrow> FactionEntry \<Rightarrow> bool \<Rightarrow> int \<Rightarrow> ReputationMgr \<Rightarrow> rat \<times> u32 list option \<times> ReputationMgr" where
  "spill_parent env e incremental standing s =
     (let out = f32_of_int standing; fl = re_team env (fe_ID e) in
      if fl = None \<and> fe_ParentFactionID e \<noteq> 0 \<and> fe_ModOut e \<noteq> 0
      then let out = f32_mul out (fe_ModOut e) in
           case re_store env (fe_ParentFactionID e) of None \<Rightarrow> (out, None, s)
           | Some p \<Rightarrow>
              (case map_of (rm_factions s) (list_id p) of
                 Some pf \<Rightarrow> if has_flag (fs_Flags pf) FACTION_FLAG_SPECIAL
                   then (out, None, snd (SetOneFactionReputation env p (int32_of_real out) incremental s))
                   else (out, re_team env (fe_ParentFactionID e), s)
               | None \<Rightarrow> (out, re_team env (fe_ParentFactionID e), s))
      else (out, fl, s))"

definition SetReputation :: "rep_env \<Rightarrow> FactionEntry \<Rightarrow> int \<Rightarrow> bool \<Rightarrow> bool \<Rightarrow> ReputationMgr \<Rightarrow> (bool \<times> ReputationMgr) option" where
  "SetReputation env e standing0 incremental noSpillOver s =
     (let standing = re_script env (fe_ID e) standing0 incremental;
          spilled = (if noSpillOver then Some (False, standing, s)
            else case re_spillover env (fe_ID e) of
              Some ts \<Rightarrow> map_option (\<lambda>(st, s). (False, st, s)) (spill_template env incremental ts standing s)
            | None \<Rightarrow>
                (let (out, fl, s) = spill_parent env e incremental standing s in
                 case fl of None \<Rightarrow> Some (False, standing, s)
                 | Some is \<Rightarrow> (let (r, s) = fold (spill_one env e incremental out) is (False, s)
                               in Some (r, standing, s))))
      in case spilled of None \<Rightarrow> None
         | Some (r, standing, s) \<Rightarrow>
             (case map_of (rm_factions s) (list_id e) of None \<Rightarrow> Some (r, s)
              | Some f \<Rightarrow> (let (r, s) = SetOneFactionReputation env e standing incremental s
                          in Some (r, SendState (fs_ListID f) s))))"

subsection \<open>Initialisation, loading and saving\<close>

definition init_one :: "rep_env \<Rightarrow> nat \<Rightarrow> ReputationMgr \<Rightarrow> ReputationMgr" where
  "init_one env i s =
     (case re_store env (of_nat i) of None \<Rightarrow> s
      | Some e \<Rightarrow>
         if \<not> CanHaveReputation e then s
         else let f = \<lparr>fs_ID = fe_ID e, fs_ListID = list_id e, fs_Standing = 0,
                       fs_Flags = ucast (GetDefaultStateFlags env (Some e)), fs_needSend = True, fs_needSave = True\<rparr>;
                  s = (if has_flag (fs_Flags f) FACTION_FLAG_VISIBLE then s\<lparr>rm_visible := rm_visible s + 1\<rparr> else s);
                  s = UpdateRankCounters REP_HOSTILE (GetBaseRank env (Some e)) s
              in put_state (fs_ListID f) f s)"

definition Initialize :: "rep_env \<Rightarrow> ReputationMgr \<Rightarrow> ReputationMgr" where
  "Initialize env s = fold (init_one env) [1..<re_rows env]
     (s\<lparr>rm_factions := [], rm_visible := 0, rm_honored := 0, rm_revered := 0, rm_exalted := 0, rm_increased := False\<rparr>)"

definition upd_state :: "u32 \<Rightarrow> (FactionState \<Rightarrow> ReputationMgr \<Rightarrow> ReputationMgr) \<Rightarrow> ReputationMgr \<Rightarrow> ReputationMgr" where
  "upd_state k g s = (case map_of (rm_factions s) k of None \<Rightarrow> s | Some f \<Rightarrow> g f s)"

text \<open>One row of the table; \<open>operator[]\<close> would create a state of zeros for a missing key.\<close>

definition load_row :: "rep_env \<Rightarrow> u16 \<times> int \<times> u16 \<Rightarrow> ReputationMgr \<Rightarrow> ReputationMgr" where
  "load_row env row s =
     (case re_store env (ucast (fst row)) of None \<Rightarrow> s
      | Some e \<Rightarrow>
         if fe_ReputationIndex e < 0 then s
         else
           let k = list_id e;
               f0 = (case map_of (rm_factions s) k of Some f \<Rightarrow> f
                     | None \<Rightarrow> \<lparr>fs_ID = 0, fs_ListID = 0, fs_Standing = 0, fs_Flags = 0, fs_needSend = False, fs_needSave = False\<rparr>);
               s = put_state k (f0\<lparr>fs_Standing := fst (snd row)\<rparr>) s;
               base = GetBaseReputation env (Some e);
               s = UpdateRankCounters (ReputationToRank base) (ReputationToRank (i32 (base + fst (snd row)))) s;
               db = (ucast (snd (snd row)) :: u32);
               s = (if and db (ucast FACTION_FLAG_VISIBLE) \<noteq> 0 then upd_state k (SetVisible_state env k) s else s);
               s = (if and db (ucast FACTION_FLAG_INACTIVE) \<noteq> 0 then upd_state k (\<lambda>f. SetInactive_state k f True) s else s);
               s = (if and db (ucast FACTION_FLAG_AT_WAR) \<noteq> 0 then upd_state k (\<lambda>f. SetAtWar_state k f True) s
                    else upd_state k (\<lambda>f s. if has_flag (fs_Flags f) FACTION_FLAG_VISIBLE then SetAtWar_state k f False s else s) s);
               s = (if GetRank env (Some e) s \<le> REP_HOSTILE then upd_state k (\<lambda>f. SetAtWar_state k f True) s else s)
           in upd_state k (\<lambda>f s. if ucast (fs_Flags f) = db
                then put_state k (f\<lparr>fs_needSend := False, fs_needSave := False\<rparr>) s else s) s)"

definition LoadFromDB :: "rep_env \<Rightarrow> (u16 \<times> int \<times> u16) list option \<Rightarrow> ReputationMgr \<Rightarrow> ReputationMgr" where
  "LoadFromDB env result s = (let s = Initialize env s in
     case result of None \<Rightarrow> s | Some rows \<Rightarrow> fold (load_row env) rows s)"

definition save_stmts :: "FactionState \<Rightarrow> rep_stmt list" where
  "save_stmts f = [DeleteReputation (ucast (fs_ID f)), InsertReputation (ucast (fs_ID f)) (fs_Standing f) (ucast (fs_Flags f))]"

definition SaveToDB :: "ReputationMgr \<Rightarrow> rep_stmt list \<times> ReputationMgr" where
  "SaveToDB s = (concat (map (\<lambda>(k, f). if fs_needSave f then save_stmts f else []) (rm_factions s)),
     s\<lparr>rm_factions := sm_map (\<lambda>f. f\<lparr>fs_needSave := False\<rparr>) (rm_factions s)\<rparr>)"

end
