(* ===== verification/ReputationFacts.thy ===== *)
theory ReputationFacts
  imports Reputation "HOL-Library.Multiset"
begin

text \<open>
  What holds of the reputations of a player: the ranks, the counters of visible and of honored,
  revered and exalted factions, the flags a faction can get, the saved table, and the packets.
  The heart is \<open>steady\<close>: an operation keeps the keys, does not let a counter drift from what it
  counts, and keeps every state in the table or marked as to be saved.
\<close>

subsection \<open>Flags as bits\<close>

lemma has_flag_bit:
  "has_flag x FACTION_FLAG_VISIBLE = bit x 0" "has_flag x FACTION_FLAG_AT_WAR = bit x 1"
  "has_flag x FACTION_FLAG_HIDDEN = bit x 2" "has_flag x FACTION_FLAG_INVISIBLE_FORCED = bit x 3"
  "has_flag x FACTION_FLAG_PEACE_FORCED = bit x 4" "has_flag x FACTION_FLAG_INACTIVE = bit x 5"
  "has_flag x FACTION_FLAG_SPECIAL = bit x 7"
  using and_exp_eq_0_iff_not_bit[of x 0] and_exp_eq_0_iff_not_bit[of x 1] and_exp_eq_0_iff_not_bit[of x 2]
    and_exp_eq_0_iff_not_bit[of x 3] and_exp_eq_0_iff_not_bit[of x 4] and_exp_eq_0_iff_not_bit[of x 5]
    and_exp_eq_0_iff_not_bit[of x 7]
  by (simp_all add: has_flag_def faction_flag_defs)

lemma has_flag_hidden:
  "has_flag x (or FACTION_FLAG_INVISIBLE_FORCED FACTION_FLAG_HIDDEN) \<longleftrightarrow> bit x 3 \<or> bit x 2"
  using has_flag_bit(3,4)[of x] by (auto simp: has_flag_def bit.conj_disj_distrib or_eq_0_iff)

lemma flag_bits:
  "bit FACTION_FLAG_VISIBLE n = (n = 0)" "bit FACTION_FLAG_AT_WAR n = (n = 1)" "bit FACTION_FLAG_INACTIVE n = (n = 5)"
  using bit_exp_iff[where 'a = u8, of 1 n] bit_exp_iff[where 'a = u8, of 5 n]
  by (auto simp: faction_flag_defs bit_1_iff)

lemmas flag_simps = has_flag_bit has_flag_hidden flag_bits bit_or_iff bit_and_iff bit_not_iff can_show_def

subsection \<open>Ranks\<close>

definition rank_floor :: "ReputationRank \<Rightarrow> int" where
  "rank_floor r = [-42000, -6000, -3000, 0, 3000, 9000, 21000, 42000] ! rank_val r"

text \<open>A standing reaches a rank exactly when it is at least the floor of that rank; everything
  below the floor of hostile is hated. So ranks are monotone in the standing.\<close>

theorem ReputationToRank_floor:
  "r \<le> ReputationToRank st \<longleftrightarrow> r = REP_HATED \<or> rank_floor r \<le> st"
proof -
  have eq: "ReputationToRank st = (if 42000 \<le> st then REP_EXALTED else if 21000 \<le> st then REP_REVERED
     else if 9000 \<le> st then REP_HONORED else if 3000 \<le> st then REP_FRIENDLY else if 0 \<le> st then REP_NEUTRAL
     else if - 3000 \<le> st then REP_UNFRIENDLY else if - 6000 \<le> st then REP_HOSTILE else REP_HATED)"
    by (simp add: ReputationToRank_def PointsInRank_def Reputation_Cap_def all_ranks_def eval_nat_numeral)
  show ?thesis unfolding eq less_eq_ReputationRank_def rank_floor_def by (cases r) simp_all
qed

lemma clamp_bounds: "Reputation_Bottom \<le> clamp_standing st" "clamp_standing st \<le> Reputation_Cap"
  by (simp_all add: clamp_standing_def Reputation_Bottom_def Reputation_Cap_def)

lemma clamp_i32 [simp]: "i32 (clamp_standing st) = clamp_standing st"
  using clamp_bounds[of st] by (intro i32_id) (simp_all add: Reputation_Bottom_def Reputation_Cap_def)

lemma new_standing_i32 [simp]: "i32 (new_standing env old base st inc) = new_standing env old base st inc"
  by (simp add: new_standing_def)

subsection \<open>The counters and what they count\<close>

definition rank_of :: "rep_env \<Rightarrow> FactionState \<Rightarrow> ReputationRank" where
  "rank_of env f = ReputationToRank (i32 (GetBaseReputation env (re_store env (fs_ID f)) + fs_Standing f))"

text \<open>A counter is named by the rank it counts from, the visible one by \<open>None\<close>.\<close>

fun counter :: "ReputationRank option \<Rightarrow> ReputationMgr \<Rightarrow> u8" where
  "counter None s = rm_visible s"
| "counter (Some REP_HONORED) s = rm_honored s"
| "counter (Some REP_REVERED) s = rm_revered s"
| "counter (Some REP_EXALTED) s = rm_exalted s"
| "counter (Some r) s = 0"

definition tracked :: "ReputationRank option set" where
  "tracked = {None, Some REP_HONORED, Some REP_REVERED, Some REP_EXALTED}"

fun counted :: "rep_env \<Rightarrow> ReputationRank option \<Rightarrow> FactionState \<Rightarrow> bool" where
  "counted env None f = has_flag (fs_Flags f) FACTION_FLAG_VISIBLE"
| "counted env (Some r) f \<longleftrightarrow> r \<le> rank_of env f"

definition true_count :: "rep_env \<Rightarrow> ReputationRank option \<Rightarrow> ReputationMgr \<Rightarrow> u8" where
  "true_count env c s = of_nat (scount (\<lambda>x. counted env c (snd x)) (rm_factions s))"

definition drift :: "rep_env \<Rightarrow> ReputationRank option \<Rightarrow> ReputationMgr \<Rightarrow> u8" where
  "drift env c s = counter c s - true_count env c s"

definition store_ok :: "rep_env \<Rightarrow> bool" where
  "store_ok env \<longleftrightarrow> re_rows env \<le> 2 ^ 16
     \<and> (\<forall>i e. re_store env i = Some e \<longrightarrow> fe_ID e = i \<and> 0 < i \<and> unat i < re_rows env
          \<and> - (2 ^ 31) \<le> fe_ReputationIndex e \<and> fe_ReputationIndex e < 2 ^ 31
          \<and> length (fe_Base e) = 4 \<and> (\<forall>b\<in>set (fe_Base e). i32 b = b))
     \<and> (\<forall>i j d e. re_store env i = Some d \<longrightarrow> re_store env j = Some e \<longrightarrow> CanHaveReputation d \<longrightarrow>
          CanHaveReputation e \<longrightarrow> list_id d = list_id e \<longrightarrow> i = j)"

definition rep_wf :: "rep_env \<Rightarrow> ReputationMgr \<Rightarrow> bool" where
  "rep_wf env s \<longleftrightarrow> sm_ok (rm_factions s)
     \<and> (\<forall>k f. map_of (rm_factions s) k = Some f \<longrightarrow> fs_ListID f = k
          \<and> (\<exists>e. re_store env (fs_ID f) = Some e \<and> CanHaveReputation e \<and> list_id e = k))"

text \<open>Which flags a state can have, given the default flags of its faction.\<close>

definition flags_ok :: "u8 \<Rightarrow> u8 \<Rightarrow> bool" where
  "flags_ok d v \<longleftrightarrow> (\<forall>n<8. n \<notin> {0, 1, 5} \<longrightarrow> bit v n = bit d n) \<and> (bit d 0 \<longrightarrow> bit v 0)
     \<and> (bit v 0 \<and> \<not> bit d 0 \<longrightarrow> \<not> ((bit d 2 \<or> bit d 3) \<and> \<not> bit d 7))
     \<and> (bit v 5 \<and> \<not> bit d 5 \<longrightarrow> \<not> bit d 2 \<and> \<not> bit d 3 \<and> bit v 0) \<and> (bit v 1 \<and> \<not> bit d 1 \<longrightarrow> \<not> bit d 4)"

definition default_flags :: "rep_env \<Rightarrow> FactionState \<Rightarrow> u8" where
  "default_flags env f = ucast (GetDefaultStateFlags env (re_store env (fs_ID f)))"

type_synonym rep_table = "u16 \<rightharpoonup> int \<times> u16"

text \<open>A state that need not be saved is in the table as it is.\<close>

definition fs_good :: "rep_env \<Rightarrow> rep_table \<Rightarrow> FactionState \<Rightarrow> bool" where
  "fs_good env T f \<longleftrightarrow> flags_ok (default_flags env f) (fs_Flags f)
     \<and> (fs_needSave f \<or> T (ucast (fs_ID f)) = Some (fs_Standing f, ucast (fs_Flags f)))"

definition all_good :: "rep_env \<Rightarrow> rep_table \<Rightarrow> ReputationMgr \<Rightarrow> bool" where
  "all_good env T s \<longleftrightarrow> (\<forall>k f. map_of (rm_factions s) k = Some f \<longrightarrow> fs_good env T f)"

definition rep_inv :: "rep_env \<Rightarrow> rep_table \<Rightarrow> ReputationMgr \<Rightarrow> bool" where
  "rep_inv env T s \<longleftrightarrow> rep_wf env s \<and> (\<forall>c\<in>tracked. counter c s = true_count env c s) \<and> all_good env T s"

lemma rep_inv_drift: "rep_inv env T s \<longleftrightarrow> rep_wf env s \<and> (\<forall>c\<in>tracked. drift env c s = 0) \<and> all_good env T s"
  by (simp add: rep_inv_def drift_def)

lemma all_good_put:
  "all_good env T s \<Longrightarrow> fs_good env T g \<Longrightarrow> all_good env T (put_state k g s)"
  by (simp add: all_good_def put_state_def)

lemma all_goodD: "all_good env T s \<Longrightarrow> map_of (rm_factions s) k = Some f \<Longrightarrow> fs_good env T f"
  by (simp add: all_good_def)

text \<open>Writing a state back under its key, with the same identifiers.\<close>

lemma rm_put [simp]: "rm_factions (put_state k f s) = sm_insert k f (rm_factions s)"
  "counter c (put_state k f s) = counter c s"
  by (simp add: put_state_def) (cases "(c, s)" rule: counter.cases; simp add: put_state_def)

lemma of_nat_count_step:
  "n + (if p then 1 else 0) = m + (if q then 1 else 0) \<Longrightarrow> (of_nat n :: u8) = of_nat m + of_bool q - of_bool p"
  by (simp add: algebra_simps of_bool_def split: if_splits) (metis of_nat_Suc add.commute)+

lemma true_count_put:
  assumes "sm_ok (rm_factions s)" and "map_of (rm_factions s) k = Some f"
  shows "true_count env c (put_state k g s)
    = true_count env c s + of_bool (counted env c g) - of_bool (counted env c f)"
  unfolding true_count_def rm_put
  using scount_update[OF assms, of "\<lambda>x. counted env c (snd x)" g] by (intro of_nat_count_step) simp

lemma drift_put:
  assumes "sm_ok (rm_factions s)" and "map_of (rm_factions s) k = Some f"
  shows "drift env c (put_state k g s) = drift env c s - of_bool (counted env c g) + of_bool (counted env c f)"
  by (simp add: drift_def true_count_put[OF assms])

lemma rep_wf_put:
  assumes "rep_wf env s" and "map_of (rm_factions s) k = Some f" and "fs_ID g = fs_ID f" and "fs_ListID g = fs_ListID f"
  shows "rep_wf env (put_state k g s)"
  using assms by (auto simp: rep_wf_def)

lemma state_entry:
  assumes "store_ok env" and "rep_wf env s" and "re_store env i = Some e" and "map_of (rm_factions s) (list_id e) = Some f"
  shows "fs_ID f = i" "re_store env (fs_ID f) = Some e" "fs_ListID f = list_id e"
proof -
  obtain d where d: "re_store env (fs_ID f) = Some d" "CanHaveReputation d" "list_id d = list_id e"
    using assms(2,4) by (auto simp: rep_wf_def)
  have r: "- (2 ^ 31) \<le> fe_ReputationIndex e" "fe_ReputationIndex e < 2 ^ 31" "0 \<le> fe_ReputationIndex d" "fe_ReputationIndex d < 2 ^ 31"
    using assms(1,3) d(1,2) by (auto simp: store_ok_def CanHaveReputation_def)
  have "fe_ReputationIndex d mod 2 ^ 32 = fe_ReputationIndex e mod 2 ^ 32"
    using d(3) by (simp add: list_id_def word_of_int_eq_iff take_bit_eq_mod)
  moreover have "0 \<le> fe_ReputationIndex e" if "fe_ReputationIndex d = (fe_ReputationIndex e) mod 2 ^ 32"
  proof (rule ccontr)
    assume "\<not> 0 \<le> fe_ReputationIndex e"
    then have "(fe_ReputationIndex e + 2 ^ 32) mod 2 ^ 32 = fe_ReputationIndex e + 2 ^ 32"
      using r by (intro mod_pos_pos_trivial) simp_all
    then have "fe_ReputationIndex d = fe_ReputationIndex e + 2 ^ 32" using that by (simp only: mod_add_self2)
    then show False using r by simp
  qed
  ultimately have "CanHaveReputation e" using r by (simp add: CanHaveReputation_def)
  then show i: "fs_ID f = i" using assms(1,3) d unfolding store_ok_def by blast
  show "re_store env (fs_ID f) = Some e" using i assms(3) by simp
  show "fs_ListID f = list_id e" using assms(2,4) by (simp add: rep_wf_def)
qed

text \<open>Operations that only log.\<close>

lemma log_effect_frame [simp]:
  "rm_factions (log_effect x s) = rm_factions s" "counter c (log_effect x s) = counter c s"
  by (simp add: log_effect_def) (cases "(c, s)" rule: counter.cases; simp add: log_effect_def)

lemma fold_log_frame [simp]:
  "rm_factions (fold log_effect xs s) = rm_factions s" "counter c (fold log_effect xs s) = counter c s"
  by (induction xs arbitrary: s) simp_all

lemma SendVisible_frame [simp]:
  "rm_factions (SendVisible env f v s) = rm_factions s" "counter c (SendVisible env f v s) = counter c s"
  by (simp_all add: SendVisible_def)

lemma increased_frame [simp]:
  "rm_factions (s\<lparr>rm_increased := b\<rparr>) = rm_factions s" "counter c (s\<lparr>rm_increased := b\<rparr>) = counter c s"
  by simp (cases "(c, s)" rule: counter.cases; simp)

lemma visible_frame [simp]:
  "counter None (s\<lparr>rm_visible := v\<rparr>) = v" "counter (Some r) (s\<lparr>rm_visible := v\<rparr>) = counter (Some r) s"
  by simp (cases r; simp)

lemma same_factions:
  "rm_factions t = rm_factions s \<Longrightarrow> rep_wf env t = rep_wf env s"
  "rm_factions t = rm_factions s \<Longrightarrow> true_count env c t = true_count env c s"
  by (simp_all add: rep_wf_def true_count_def)

lemma touch_same [simp]:
  "fs_ID (touch f) = fs_ID f" "fs_ListID (touch f) = fs_ListID f" "fs_Flags (touch f) = fs_Flags f"
  "fs_Standing (touch f) = fs_Standing f"
  by (simp_all add: touch_def)

lemma rank_of_cong: "fs_ID g = fs_ID f \<Longrightarrow> fs_Standing g = fs_Standing f \<Longrightarrow> rank_of env g = rank_of env f"
  by (simp add: rank_of_def)

lemma counted_cong:
  "fs_ID g = fs_ID f \<Longrightarrow> fs_Standing g = fs_Standing f
    \<Longrightarrow> has_flag (fs_Flags g) FACTION_FLAG_VISIBLE = has_flag (fs_Flags f) FACTION_FLAG_VISIBLE
    \<Longrightarrow> counted env c g = counted env c f"
  by (cases c) (simp_all add: rank_of_def)

lemma counted_flags [simp]:
  "has_flag v FACTION_FLAG_VISIBLE = has_flag (fs_Flags f) FACTION_FLAG_VISIBLE
    \<Longrightarrow> counted env c (touch (f\<lparr>fs_Flags := v\<rparr>)) = counted env c f"
  by (rule counted_cong) simp_all

lemma UpdateRankCounters_frame [simp]: "rm_factions (UpdateRankCounters old new s) = rm_factions s"
  by (simp add: UpdateRankCounters_def Let_def)

lemma counter_UpdateRankCounters:
  "c \<in> tracked \<Longrightarrow> counter c (UpdateRankCounters old new s) = counter c s
    + (case c of None \<Rightarrow> 0 | Some r \<Rightarrow> of_bool (r \<le> new) - of_bool (r \<le> old))"
  by (auto simp: tracked_def UpdateRankCounters_def Let_def)

text \<open>Operations on one state: the key stays, and no counter drifts.\<close>

definition steady :: "rep_env \<Rightarrow> ReputationMgr \<Rightarrow> ReputationMgr \<Rightarrow> bool" where
  "steady env s t \<longleftrightarrow> rep_wf env t \<and> (\<forall>c\<in>tracked. drift env c t = drift env c s)
     \<and> (\<forall>k f. map_of (rm_factions s) k = Some f \<longrightarrow> (\<exists>g. map_of (rm_factions t) k = Some g
          \<and> fs_ID g = fs_ID f \<and> fs_ListID g = fs_ListID f))
     \<and> (\<forall>T. all_good env T s \<longrightarrow> all_good env T t)"

lemma steady_refl [simp, intro]: "rep_wf env s \<Longrightarrow> steady env s s"
  by (simp add: steady_def)

lemma steady_trans: "steady env s t \<Longrightarrow> steady env t u \<Longrightarrow> steady env s u"
  by (simp add: steady_def) metis

lemma steady_inv: "steady env s t \<Longrightarrow> rep_inv env T s \<Longrightarrow> rep_inv env T t"
  by (simp add: steady_def rep_inv_drift)

lemma steady_same:
  "rm_factions t = rm_factions s \<Longrightarrow> (\<And>c. counter c t = counter c s) \<Longrightarrow> rep_wf env s \<Longrightarrow> steady env s t"
  by (simp add: steady_def drift_def same_factions[of t s] all_good_def)

lemma steady_put:
  assumes w: "rep_wf env s" and m: "map_of (rm_factions s) k = Some f" and i: "fs_ID g = fs_ID f" "fs_ListID g = fs_ListID f"
    and c: "\<And>c. c \<in> tracked \<Longrightarrow> counted env c g = counted env c f"
    and good: "\<And>T. fs_good env T f \<Longrightarrow> fs_good env T g"
  shows "steady env s (put_state k g s)"
proof -
  have o: "sm_ok (rm_factions s)" using w by (simp add: rep_wf_def)
  have "drift env c (put_state k g s) = drift env c s" if "c \<in> tracked" for c
    using c[OF that] by (simp add: drift_put[OF o m])
  moreover have "all_good env T (put_state k g s)" if "all_good env T s" for T
    using that good m by (blast intro: all_good_put dest: all_goodD)
  ultimately show ?thesis unfolding steady_def using rep_wf_put[OF w m i] m i by auto
qed

text \<open>What the operations make of one state.\<close>

definition vis_state :: "FactionState \<Rightarrow> FactionState" where
  "vis_state f = (if can_show (fs_Flags f) \<and> \<not> has_flag (fs_Flags f) FACTION_FLAG_VISIBLE
     then touch (f\<lparr>fs_Flags := or (fs_Flags f) FACTION_FLAG_VISIBLE\<rparr>) else f)"

definition war_state :: "bool \<Rightarrow> FactionState \<Rightarrow> FactionState" where
  "war_state b f = (if b \<and> has_flag (fs_Flags f) FACTION_FLAG_PEACE_FORCED \<or> has_flag (fs_Flags f) FACTION_FLAG_AT_WAR = b then f
     else touch (f\<lparr>fs_Flags := (if b then or (fs_Flags f) FACTION_FLAG_AT_WAR else and (fs_Flags f) (not FACTION_FLAG_AT_WAR))\<rparr>))"

definition inactive_state :: "bool \<Rightarrow> FactionState \<Rightarrow> FactionState" where
  "inactive_state b f = (if b \<and> (has_flag (fs_Flags f) (or FACTION_FLAG_INVISIBLE_FORCED FACTION_FLAG_HIDDEN)
       \<or> \<not> has_flag (fs_Flags f) FACTION_FLAG_VISIBLE) \<or> has_flag (fs_Flags f) FACTION_FLAG_INACTIVE = b then f
     else touch (f\<lparr>fs_Flags := (if b then or (fs_Flags f) FACTION_FLAG_INACTIVE else and (fs_Flags f) (not FACTION_FLAG_INACTIVE))\<rparr>))"

lemmas state_fun_defs = vis_state_def war_state_def inactive_state_def

lemma state_fun_ids [simp]:
  "fs_ID (vis_state f) = fs_ID f" "fs_ID (war_state b f) = fs_ID f" "fs_ID (inactive_state b f) = fs_ID f"
  "fs_ListID (vis_state f) = fs_ListID f" "fs_ListID (war_state b f) = fs_ListID f" "fs_ListID (inactive_state b f) = fs_ListID f"
  "fs_Standing (vis_state f) = fs_Standing f" "fs_Standing (war_state b f) = fs_Standing f"
  "fs_Standing (inactive_state b f) = fs_Standing f"
  by (simp_all add: state_fun_defs)

lemma default_flags_cong: "fs_ID g = fs_ID f \<Longrightarrow> default_flags env g = default_flags env f"
  by (simp add: default_flags_def)

lemma touch_needs [simp]: "fs_needSave (touch f)" "fs_needSend (touch f)"
  by (simp_all add: touch_def)

lemma fs_good_touch: "fs_good env T f \<Longrightarrow> flags_ok (default_flags env f) v \<Longrightarrow> fs_good env T (touch (f\<lparr>fs_Flags := v\<rparr>))"
  using default_flags_cong[of "touch (f\<lparr>fs_Flags := v\<rparr>)" f env] by (simp add: fs_good_def)

lemma flags_ok_vis: "flags_ok d v \<Longrightarrow> can_show v \<Longrightarrow> flags_ok d (or v FACTION_FLAG_VISIBLE)"
  by (auto simp: flags_ok_def flag_simps)

lemma flags_ok_war: "flags_ok d v \<Longrightarrow> \<not> has_flag v FACTION_FLAG_PEACE_FORCED \<Longrightarrow> flags_ok d (or v FACTION_FLAG_AT_WAR)"
  "flags_ok d v \<Longrightarrow> flags_ok d (and v (not FACTION_FLAG_AT_WAR))"
  by (auto simp: flags_ok_def flag_simps)

lemma flags_ok_inactive:
  "flags_ok d v \<Longrightarrow> \<not> has_flag v (or FACTION_FLAG_INVISIBLE_FORCED FACTION_FLAG_HIDDEN)
     \<Longrightarrow> has_flag v FACTION_FLAG_VISIBLE \<Longrightarrow> flags_ok d (or v FACTION_FLAG_INACTIVE)"
  "flags_ok d v \<Longrightarrow> flags_ok d (and v (not FACTION_FLAG_INACTIVE))"
  by (auto simp: flags_ok_def flag_simps)

lemma fs_good_flags: "fs_good env T f \<Longrightarrow> flags_ok (default_flags env f) (fs_Flags f)"
  by (simp add: fs_good_def)

lemma fs_good_funs:
  assumes "fs_good env T f"
  shows "fs_good env T (vis_state f)" "fs_good env T (war_state b f)" "fs_good env T (inactive_state b f)"
  using assms fs_good_flags[OF assms]
  by (auto simp: state_fun_defs intro!: fs_good_touch flags_ok_vis flags_ok_war flags_ok_inactive)

lemma counted_funs:
  "counted env c (war_state b f) = counted env c f" "counted env c (inactive_state b f) = counted env c f"
  by (rule counted_cong; simp add: state_fun_defs flag_simps)+

lemma steady_SetVisible_state:
  assumes w: "rep_wf env s" and m: "map_of (rm_factions s) k = Some f"
  shows "steady env s (SetVisible_state env k f s)"
proof (cases "can_show (fs_Flags f) \<and> \<not> has_flag (fs_Flags f) FACTION_FLAG_VISIBLE")
  case True
  define g where "g = vis_state f"
  let ?t = "(put_state k g s)\<lparr>rm_visible := rm_visible s + 1\<rparr>"
  have eq: "SetVisible_state env k f s = SendVisible env g True ?t"
    using True by (simp add: SetVisible_state_def Let_def g_def vis_state_def)
  have ids: "fs_ID g = fs_ID f" "fs_ListID g = fs_ListID f" "fs_Standing g = fs_Standing f"
    and v: "has_flag (fs_Flags g) FACTION_FLAG_VISIBLE"
    using True by (simp_all add: g_def vis_state_def) (simp add: flag_simps)
  have t: "true_count env c ?t = true_count env c s + of_bool (counted env c g) - of_bool (counted env c f)" for c
    using true_count_put[OF _ m, of env c g] w same_factions(2)[of ?t "put_state k g s" env c] by (simp add: rep_wf_def)
  have "drift env c ?t = drift env c s" if "c \<in> tracked" for c
    using True v rank_of_cong[of g f env] ids by (cases c) (simp_all add: drift_def t)
  moreover have "rep_wf env ?t" using rep_wf_put[OF w m ids(1,2)] same_factions(1)[of ?t "put_state k g s"] by simp
  moreover have "all_good env T ?t" if "all_good env T s" for T
    using all_good_put[OF that fs_good_funs(1)[OF all_goodD[OF that m]], of k] by (simp add: g_def all_good_def)
  ultimately have "steady env s ?t" using m ids by (auto simp: steady_def)
  moreover have "steady env ?t (SendVisible env g True ?t)"
    by (rule steady_same) (use \<open>rep_wf env ?t\<close> in simp_all)
  ultimately show ?thesis unfolding eq by (rule steady_trans)
qed (use w in \<open>auto simp: SetVisible_state_def\<close>)

lemma steady_SetAtWar_state:
  assumes "rep_wf env s" and "map_of (rm_factions s) k = Some f"
  shows "steady env s (SetAtWar_state k f b s)"
proof -
  have "steady env s (put_state k (war_state b f) s)"
    by (rule steady_put[OF assms]) (simp_all add: counted_funs fs_good_funs)
  then show ?thesis using assms(1) by (auto simp: SetAtWar_state_def war_state_def)
qed

lemma steady_SetInactive_state:
  assumes "rep_wf env s" and "map_of (rm_factions s) k = Some f"
  shows "steady env s (SetInactive_state k f b s)"
proof -
  have "steady env s (put_state k (inactive_state b f) s)"
    by (rule steady_put[OF assms]) (simp_all add: counted_funs fs_good_funs)
  then show ?thesis using assms(1) by (auto simp: SetInactive_state_def inactive_state_def)
qed

lemma steadyD:
  assumes "steady env s t"
  shows "rep_wf env t" and "all_good env T s \<Longrightarrow> all_good env T t" and "c \<in> tracked \<Longrightarrow> drift env c t = drift env c s"
    and "map_of (rm_factions s) k = Some f \<Longrightarrow> \<exists>g. map_of (rm_factions t) k = Some g \<and> fs_ID g = fs_ID f \<and> fs_ListID g = fs_ListID f"
  using assms by (simp_all add: steady_def)

lemma steady_upd:
  assumes "rep_wf env s" and "\<And>f. map_of (rm_factions s) k = Some f \<Longrightarrow> steady env s (g f s)"
  shows "steady env s (case map_of (rm_factions s) k of None \<Rightarrow> s | Some f \<Rightarrow> g f s)"
  using assms by (auto split: option.split)

text \<open>Setting a standing moves the rank counters exactly as far as what they count.\<close>

lemma steady_SetOne:
  assumes ok: "store_ok env" and w: "rep_wf env s" and e: "re_store env i = Some e"
  shows "steady env s (snd (SetOneFactionReputation env e st inc s))"
proof (cases "map_of (rm_factions s) (list_id e)")
  case None
  then show ?thesis using w by (simp add: SetOneFactionReputation_def Let_def)
next
  case (Some f)
  let ?k = "list_id e" and ?base = "GetBaseReputation env (Some e)"
  define n where "n = new_standing env (fs_Standing f) ?base st inc"
  define f1 where "f1 = touch (f\<lparr>fs_Standing := i32 (n - ?base)\<rparr>)"
  define s1 where "s1 = put_state ?k f1 s"
  define s2 where "s2 = SetVisible_state env ?k f1 s1"
  define s3 where "s3 = (if ReputationToRank n \<le> REP_HOSTILE
    then case map_of (rm_factions s2) ?k of None \<Rightarrow> s2 | Some f2 \<Rightarrow> SetAtWar_state ?k f2 True s2 else s2)"
  define old where "old = ReputationToRank (i32 (fs_Standing f + ?base))"
  define s4 where "s4 = (if old < ReputationToRank n then s3\<lparr>rm_increased := True\<rparr> else s3)"
  define s5 where "s5 = UpdateRankCounters old (ReputationToRank n) s4"
  have ids: "fs_ID f1 = fs_ID f" "fs_ListID f1 = fs_ListID f" and fl: "fs_Flags f1 = fs_Flags f" by (simp_all add: f1_def)
  have m1: "map_of (rm_factions s1) ?k = Some f1" by (simp add: s1_def)
  have w1: "rep_wf env s1" unfolding s1_def by (rule rep_wf_put[OF w Some ids])
  have s12: "steady env s1 s2" unfolding s2_def by (rule steady_SetVisible_state[OF w1 m1])
  have s23: "steady env s2 s3" unfolding s3_def
    using steadyD(1)[OF s12] steady_SetAtWar_state[of env s2 ?k _ True] by (simp split: option.split)
  have s34: "steady env s3 s4" using steadyD(1)[OF s23] unfolding s4_def by (simp add: steady_same)
  note s14 = steady_trans[OF steady_trans[OF s12 s23] s34]
  have store: "re_store env (fs_ID f) = Some e" by (rule state_entry(2)[OF ok w e Some])
  have ranks: "rank_of env f = old" "rank_of env f1 = ReputationToRank n"
    using store by (simp_all add: rank_of_def old_def f1_def add.commute n_def)
  have o: "sm_ok (rm_factions s)" using w by (simp add: rep_wf_def)
  have d: "drift env c s5 = drift env c s" if c: "c \<in> tracked" for c
  proof -
    have "drift env c s5 = drift env c s4 + (case c of None \<Rightarrow> 0 | Some r \<Rightarrow> of_bool (r \<le> ReputationToRank n) - of_bool (r \<le> old))"
      using c by (simp add: drift_def s5_def counter_UpdateRankCounters true_count_def)
    also have "drift env c s4 = drift env c s - of_bool (counted env c f1) + of_bool (counted env c f)"
      using steadyD(3)[OF s14 c] drift_put[OF o Some] by (simp add: s1_def)
    finally show ?thesis using fl by (cases c) (simp_all add: ranks)
  qed
  have w5: "rep_wf env s5" using steadyD(1)[OF s14] by (simp add: rep_wf_def s5_def)
  have k5: "\<exists>g'. map_of (rm_factions s5) k = Some g' \<and> fs_ID g' = fs_ID g \<and> fs_ListID g' = fs_ListID g"
    if "map_of (rm_factions s) k = Some g" for k g
  proof -
    have "\<exists>h. map_of (rm_factions s1) k = Some h \<and> fs_ID h = fs_ID g \<and> fs_ListID h = fs_ListID g"
      using that Some ids by (auto simp: s1_def)
    then show ?thesis using steadyD(4)[OF s14] by (fastforce simp: s5_def)
  qed
  have g5: "all_good env T s5" if a: "all_good env T s" for T
  proof -
    have "fs_good env T f1" using all_goodD[OF a Some] fl default_flags_cong[OF ids(1), of env]
      by (simp add: fs_good_def f1_def)
    then have "all_good env T s4" using steadyD(2)[OF s14] all_good_put[OF a] by (simp add: s1_def)
    then show ?thesis by (simp add: all_good_def s5_def)
  qed
  have "steady env s s5" unfolding steady_def using d w5 k5 g5 by blast
  moreover have "snd (SetOneFactionReputation env e st inc s) = fold log_effect
     ([Changed (fe_ID e)] @ map (\<lambda>c. Criteria c (fe_ID e))
        [KNOWN_FACTIONS, GAIN_REPUTATION, GAIN_EXALTED_REPUTATION, GAIN_REVERED_REPUTATION, GAIN_HONORED_REPUTATION]) s5"
    unfolding SetOneFactionReputation_def Let_def Some option.case snd_conv
      s5_def s4_def s3_def s2_def s1_def f1_def old_def n_def by (rule refl)
  ultimately show ?thesis using steady_trans steady_same[OF fold_log_frame(1) fold_log_frame(2) w5] by metis
qed

subsection \<open>Sending and setting\<close>

lemma steady_map:
  assumes w: "rep_wf env s" and t: "rm_factions t = sm_map h (rm_factions s)" "\<And>c. counter c t = counter c s"
    and h: "\<And>f. fs_ID (h f) = fs_ID f \<and> fs_ListID (h f) = fs_ListID f \<and> fs_Standing (h f) = fs_Standing f
      \<and> fs_Flags (h f) = fs_Flags f \<and> fs_needSave (h f) = fs_needSave f"
  shows "steady env s t"
proof -
  have c: "counted env c (h f) = counted env c f" for c f by (rule counted_cong) (simp_all add: h)
  have "true_count env c t = true_count env c s" for c
    by (simp add: true_count_def t(1) scount_sm_map c split_def)
  moreover have "fs_good env T (h f) = fs_good env T f" for T f
    using default_flags_cong[of "h f" f env] h[of f] by (simp add: fs_good_def)
  moreover have "rep_wf env t" using w by (auto simp: rep_wf_def t(1) h)
  ultimately show ?thesis by (auto simp: steady_def drift_def t all_good_def h)
qed

lemma SendState_frame [simp]:
  "rm_factions (SendState lid s) = sm_map (\<lambda>f. f\<lparr>fs_needSend := False\<rparr>) (rm_factions s)"
  "counter c (SendState lid s) = counter c s"
proof -
  have l: "rm_factions (fold (\<lambda>(k, f). log_effect (p k f)) xs s) = rm_factions s
     \<and> counter c (fold (\<lambda>(k, f). log_effect (p k f)) xs s) = counter c s" for p :: "u32 \<Rightarrow> FactionState \<Rightarrow> rep_effect" and xs c s
    by (induction xs arbitrary: s) auto
  have frame: "counter c (s\<lparr>rm_factions := x\<rparr>) = counter c s" for s x c
    by (cases "(c, s)" rule: counter.cases) simp_all
  show "rm_factions (SendState lid s) = sm_map (\<lambda>f. f\<lparr>fs_needSend := False\<rparr>) (rm_factions s)"
    "counter c (SendState lid s) = counter c s"
    using l by (simp_all add: SendState_def Let_def frame)
qed

lemma steady_SendState: "rep_wf env s \<Longrightarrow> steady env s (SendState lid s)"
  by (rule steady_map[where h = "\<lambda>f. f\<lparr>fs_needSend := False\<rparr>"]) simp_all

lemma steady_SendStates: "rep_wf env s \<Longrightarrow> steady env s (SendStates s)"
proof -
  have "rep_wf env t \<Longrightarrow> steady env t (fold (\<lambda>(k, f). SendState (fs_ListID f)) xs t)" for xs t
  proof (induction xs arbitrary: t)
    case (Cons x xs)
    have a: "steady env t (SendState (fs_ListID (snd x)) t)" by (rule steady_SendState[OF Cons.prems])
    show ?case using steady_trans[OF a Cons.IH[OF steadyD(1)[OF a]]] by (simp add: case_prod_beta)
  qed simp
  then show "rep_wf env s \<Longrightarrow> steady env s (SendStates s)" by (simp add: SendStates_def)
qed

lemma steady_SendInitialReputations: "rep_wf env s \<Longrightarrow> steady env s (SendInitialReputations s)"
proof (rule steady_map[where h = "\<lambda>f. f\<lparr>fs_needSend := False\<rparr>"])
  show "counter c (SendInitialReputations s) = counter c s" for c
    by (cases "(c, s)" rule: counter.cases) (simp_all add: SendInitialReputations_def Let_def log_effect_def)
qed (simp_all add: SendInitialReputations_def Let_def)

lemma steady_spill_template:
  "spill_template env inc ts st s = Some (st', t) \<Longrightarrow> store_ok env \<Longrightarrow> rep_wf env s \<Longrightarrow> steady env s t"
proof (induction env inc ts st s rule: spill_template.induct)
  case (2 env inc faction rate rank ts st s)
  show ?case
  proof (cases "faction = 0 \<or> \<not> rank_val (GetRank env (re_store env faction) s) \<le> unat rank")
    case True
    then show ?thesis using 2 by simp
  next
    case False
    let ?st = "if re_trading_post env then int32_of_real (f64_mul (of_int st) f64_1_2) else st"
    obtain e where e: "re_store env faction = Some e"
      and r: "spill_template env inc ts ?st (snd (SetOneFactionReputation env e
        (int32_of_real (f32_mul (f32_of_int ?st) rate)) inc s)) = Some (st', t)"
      using 2(3) False by (auto simp: Let_def split: option.splits)
    have a: "steady env s (snd (SetOneFactionReputation env e (int32_of_real (f32_mul (f32_of_int ?st) rate)) inc s))"
      by (rule steady_SetOne[OF 2(4,5) e])
    show ?thesis
      using steady_trans[OF a 2(2)[OF False refl refl e r 2(4) steadyD(1)[OF a]]] .
  qed
qed simp

lemma steady_spill_one:
  assumes ok: "store_ok env" and w: "rep_wf env (snd rs)"
  shows "steady env (snd rs) (snd (spill_one env e inc out i rs))"
proof (cases "re_store env i")
  case (Some c)
  show ?thesis using steady_SetOne[OF ok w Some] w by (simp add: spill_one_def Some Let_def)
qed (use w in \<open>simp add: spill_one_def\<close>)

lemma steady_spill_list:
  "store_ok env \<Longrightarrow> rep_wf env (snd rs) \<Longrightarrow> steady env (snd rs) (snd (fold (spill_one env e inc out) is rs))"
proof (induction "is" arbitrary: rs)
  case (Cons i "is")
  have a: "steady env (snd rs) (snd (spill_one env e inc out i rs))" by (rule steady_spill_one[OF Cons.prems])
  show ?case using steady_trans[OF a Cons.IH[OF Cons.prems(1) steadyD(1)[OF a]]] by simp
qed simp

lemma steady_spill_parent:
  assumes ok: "store_ok env" and w: "rep_wf env s"
  shows "steady env s (snd (snd (spill_parent env e inc st s)))"
proof -
  have "re_store env (fe_ParentFactionID e) = Some p \<Longrightarrow> steady env s (snd (SetOneFactionReputation env p x inc s))" for p x
    by (rule steady_SetOne[OF ok w])
  then show ?thesis using w by (auto simp: spill_parent_def Let_def split: option.split)
qed

lemma steady_SetReputation:
  assumes ok: "store_ok env" and w: "rep_wf env s" and e: "re_store env i = Some e"
    and r: "SetReputation env e st inc nos s = Some (b, t)"
  shows "steady env s t"
proof -
  have fin: "steady env s t" if u: "steady env s u"
    and t: "(case map_of (rm_factions u) (list_id e) of None \<Rightarrow> Some (b', u)
       | Some f \<Rightarrow> (let (r, s) = SetOneFactionReputation env e x inc u in Some (r, SendState (fs_ListID f) s))) = Some (b, t)"
    for u x b'
  proof (cases "map_of (rm_factions u) (list_id e)")
    case (Some f)
    let ?v = "snd (SetOneFactionReputation env e x inc u)"
    have v: "steady env u ?v" by (rule steady_SetOne[OF ok steadyD(1)[OF u] e])
    have "t = SendState (fs_ListID f) ?v" using t Some by (auto split: prod.splits)
    then show ?thesis using steady_trans[OF steady_trans[OF u v] steady_SendState[OF steadyD(1)[OF v]]] by simp
  qed (use u t in simp)
  let ?x = "re_script env (fe_ID e) st inc"
  consider (no) nos | (tmpl) ts where "\<not> nos" "re_spillover env (fe_ID e) = Some ts"
    | (team) "\<not> nos" "re_spillover env (fe_ID e) = None" by blast
  then show ?thesis
  proof cases
    case no
    with r show ?thesis by (intro fin[of s False ?x]) (use w in \<open>simp_all add: SetReputation_def Let_def\<close>)
  next
    case tmpl
    then obtain x u where u: "spill_template env inc ts ?x s = Some (x, u)" using r
      by (cases "spill_template env inc ts ?x s") (auto simp: SetReputation_def Let_def)
    show ?thesis by (rule fin[of u False x]) (use steady_spill_template[OF u ok w] tmpl u r in \<open>simp_all add: SetReputation_def Let_def\<close>)
  next
    case team
    obtain out fl u where p: "spill_parent env e inc ?x s = (out, fl, u)" by (cases "spill_parent env e inc ?x s")
    have u: "steady env s u" using steady_spill_parent[OF ok w, of e inc ?x] by (simp add: p)
    show ?thesis
    proof (cases fl)
      case None
      show ?thesis by (rule fin[of u False ?x]) (use u team p None r in \<open>simp_all add: SetReputation_def Let_def\<close>)
    next
      case (Some "is")
      obtain b' v where v: "fold (spill_one env e inc out) is (False, u) = (b', v)" by fastforce
      have "steady env u v" using steady_spill_list[of env "(False, u)" e inc out "is"] ok steadyD(1)[OF u] v by simp
      with u have "steady env s v" by (rule steady_trans)
      then show ?thesis
        by (rule fin[of v b' ?x]) (use team p Some r v in \<open>simp_all add: SetReputation_def Let_def\<close>)
    qed
  qed
qed

subsection \<open>Initialising\<close>

lemma base_i32: "store_ok env \<Longrightarrow> re_store env i = Some e \<Longrightarrow> i32 (GetBaseReputation env (Some e)) = GetBaseReputation env (Some e)"
proof -
  assume a: "store_ok env" "re_store env i = Some e"
  have "fe_Base e ! n \<in> set (fe_Base e)" if "mask_slot env e = Some n" for n
    using that a by (auto simp: mask_slot_def find_Some_iff store_ok_def nth_Cons' split: if_splits)
  then show ?thesis using a by (auto simp: GetBaseReputation_def store_ok_def i32_id split: option.split)
qed

definition init_ok :: "rep_env \<Rightarrow> nat \<Rightarrow> ReputationMgr \<Rightarrow> bool" where
  "init_ok env n s \<longleftrightarrow> rep_wf env s \<and> (\<forall>c\<in>tracked. drift env c s = 0) \<and> (\<forall>T. all_good env T s)
     \<and> (\<forall>k f. map_of (rm_factions s) k = Some f \<longrightarrow> unat (fs_ID f) < n \<and> fs_Standing f = 0
          \<and> fs_needSave f \<and> fs_Flags f = default_flags env f)
     \<and> (\<forall>i e. re_store env i = Some e \<and> CanHaveReputation e \<and> unat i < n \<longrightarrow>
          (\<exists>f. map_of (rm_factions s) (list_id e) = Some f))"

lemma flags_ok_refl [simp]: "flags_ok d d"
  by (simp add: flags_ok_def)

lemma unat_less_Suc: "unat (i :: u32) < Suc n \<Longrightarrow> \<not> unat i < n \<Longrightarrow> i = of_nat n"
  by (auto simp: less_Suc_eq)

lemma init_one_ok:
  assumes ok: "store_ok env" and n: "1 \<le> n" "n < re_rows env" and i: "init_ok env n s"
  shows "init_ok env (Suc n) (init_one env n s)"
proof (cases "\<exists>e. re_store env (of_nat n) = Some e \<and> CanHaveReputation e")
  case False
  then have "init_one env n s = s" by (auto simp: init_one_def split: option.split)
  then show ?thesis using i False unfolding init_ok_def by (metis less_SucI unat_less_Suc)
next
  case True
  then obtain e where e: "re_store env (of_nat n) = Some e" "CanHaveReputation e" by blast
  let ?k = "list_id e"
  have un: "unat (of_nat n :: u32) = n" using ok n by (simp add: store_ok_def unat_of_nat)
  have ID: "fe_ID e = of_nat n" using ok e by (simp add: store_ok_def)
  have w: "rep_wf env s" using i by (simp add: init_ok_def)
  have new: "map_of (rm_factions s) ?k = None"
  proof (rule ccontr)
    assume "map_of (rm_factions s) ?k \<noteq> None"
    then obtain f where f: "map_of (rm_factions s) ?k = Some f" by blast
    have "unat (fs_ID f) < n" using i f by (simp add: init_ok_def)
    then show False using state_entry(1)[OF ok w e(1) f] un by simp
  qed
  define f where "f = \<lparr>fs_ID = fe_ID e, fs_ListID = ?k, fs_Standing = 0,
    fs_Flags = ucast (GetDefaultStateFlags env (Some e)), fs_needSend = True, fs_needSave = True\<rparr>"
  define s1 where "s1 = (if has_flag (fs_Flags f) FACTION_FLAG_VISIBLE then s\<lparr>rm_visible := rm_visible s + 1\<rparr> else s)"
  define s2 where "s2 = UpdateRankCounters REP_HOSTILE (GetBaseRank env (Some e)) s1"
  have eq: "init_one env n s = put_state ?k f s2"
    using e by (simp add: init_one_def Let_def s2_def s1_def f_def)
  have m: "rm_factions (init_one env n s) = sm_insert ?k f (rm_factions s)"
    by (simp add: eq s2_def s1_def)
  have rank: "rank_of env f = GetBaseRank env (Some e)"
    using e ID base_i32[OF ok e(1)] by (simp add: rank_of_def f_def GetBaseRank_def)
  have hostile: "Some r \<in> tracked \<Longrightarrow> \<not> r \<le> REP_HOSTILE" for r
    by (auto simp: tracked_def less_eq_ReputationRank_def)
  have s1c: "counter c s1 = counter c s + of_bool (c = None \<and> has_flag (fs_Flags f) FACTION_FLAG_VISIBLE)" for c
    by (cases c) (auto simp: s1_def)
  have cnt: "counter c (init_one env n s) = counter c s + of_bool (counted env c f)" if "c \<in> tracked" for c
    using that hostile by (cases c) (simp_all add: eq s2_def counter_UpdateRankCounters s1c rank del: counter.simps)
  have o: "sm_ok (rm_factions s)" using w by (simp add: rep_wf_def)
  have tc: "true_count env c (init_one env n s) = true_count env c s + of_bool (counted env c f)" for c
    using scount_insert[OF o, of "\<lambda>x. counted env c (snd x)" ?k f] new by (simp add: true_count_def m)
  have df: "default_flags env f = fs_Flags f" using e ID by (simp add: default_flags_def f_def)
  have "rep_wf env (init_one env n s)" using w e ID by (auto simp: rep_wf_def m f_def)
  moreover have "all_good env T (init_one env n s)" for T
  proof -
    have "all_good env T s" using i by (simp add: init_ok_def)
    moreover have "fs_good env T f" using df by (simp add: fs_good_def) (simp add: f_def)
    ultimately show ?thesis by (simp add: all_good_def m)
  qed
  moreover have "drift env c (init_one env n s) = 0" if "c \<in> tracked" for c
    using i that cnt[OF that] tc[of c] by (simp add: init_ok_def drift_def)
  ultimately show ?thesis
    using i df ID un unfolding init_ok_def m
    by (auto simp: less_Suc_eq f_def) (metis e(1) option.inject unat_less_Suc less_Suc_eq)
qed

lemma Initialize_ok:
  assumes ok: "store_ok env"
  shows "init_ok env (re_rows env) (Initialize env s)"
proof -
  define s0 where "s0 = s\<lparr>rm_factions := [], rm_visible := 0, rm_honored := 0, rm_revered := 0, rm_exalted := 0, rm_increased := False\<rparr>"
  have "init_ok env n (fold (init_one env) [1..<n] s0)" if "n \<le> re_rows env" "1 \<le> n" for n
    using that
  proof (induction n)
    case (Suc n)
    show ?case
    proof (cases "n = 0")
      case True
      have "unat i < Suc 0 \<Longrightarrow> re_store env i = Some e \<Longrightarrow> False" for i :: u32 and e
        using ok by (auto simp: store_ok_def) (metis word_gt_0_no unat_eq_zero less_irrefl)
      then show ?thesis using True
        by (auto simp: init_ok_def s0_def rep_wf_def all_good_def drift_def true_count_def tracked_def)
    next
      case False
      then have "[1..<Suc n] = [1..<n] @ [n]" by simp
      then show ?thesis using init_one_ok[OF ok _ _ Suc.IH] Suc.prems False by simp
    qed
  qed simp
  moreover have "init_ok env 0 s0" if "re_rows env = 0"
    by (auto simp: init_ok_def s0_def rep_wf_def all_good_def drift_def true_count_def tracked_def)
  ultimately show ?thesis
    by (cases "re_rows env = 0") (simp_all add: Initialize_def s0_def[symmetric])
qed

subsection \<open>Loading a row\<close>

lemma rm_factions_rows [simp]:
  "map_of (rm_factions s) k = Some f \<Longrightarrow>
     map_of (rm_factions (SetVisible_state env k f s)) = (map_of (rm_factions s))(k \<mapsto> vis_state f)"
  "map_of (rm_factions s) k = Some f \<Longrightarrow>
     map_of (rm_factions (SetAtWar_state k f b s)) = (map_of (rm_factions s))(k \<mapsto> war_state b f)"
  "map_of (rm_factions s) k = Some f \<Longrightarrow>
     map_of (rm_factions (SetInactive_state k f b s)) = (map_of (rm_factions s))(k \<mapsto> inactive_state b f)"
  by (auto simp: SetVisible_state_def SetAtWar_state_def SetInactive_state_def state_fun_defs Let_def fun_upd_idem)

definition load_state :: "int \<Rightarrow> int \<Rightarrow> u32 \<Rightarrow> FactionState \<Rightarrow> FactionState" where
  "load_state base st db f0 =
     (let f = f0\<lparr>fs_Standing := st\<rparr>;
          f = (if and db (ucast FACTION_FLAG_VISIBLE) \<noteq> 0 then vis_state f else f);
          f = (if and db (ucast FACTION_FLAG_INACTIVE) \<noteq> 0 then inactive_state True f else f);
          f = (if and db (ucast FACTION_FLAG_AT_WAR) \<noteq> 0 then war_state True f
               else if has_flag (fs_Flags f) FACTION_FLAG_VISIBLE then war_state False f else f);
          f = (if ReputationToRank (i32 (base + st)) \<le> REP_HOSTILE then war_state True f else f)
      in if ucast (fs_Flags f) = db then f\<lparr>fs_needSend := False, fs_needSave := False\<rparr> else f)"

text \<open>A chain of operations on the state of one key, with what it makes of that state.\<close>

definition chain :: "rep_env \<Rightarrow> u32 \<Rightarrow> ReputationMgr \<Rightarrow> FactionState \<Rightarrow> ReputationMgr \<Rightarrow> FactionState \<Rightarrow> bool" where
  "chain env k s f t g \<longleftrightarrow> map_of (rm_factions s) k = Some f \<and> map_of (rm_factions t) = (map_of (rm_factions s))(k \<mapsto> g) \<and> steady env s t"

lemma chain_trans: "chain env k s f t g \<Longrightarrow> chain env k t g u h \<Longrightarrow> chain env k s f u h"
  by (auto simp: chain_def intro: steady_trans)

lemma chain_refl: "rep_wf env s \<Longrightarrow> map_of (rm_factions s) k = Some f \<Longrightarrow> chain env k s f s f"
  by (simp add: chain_def fun_upd_idem)

lemma chain_steps:
  assumes "rep_wf env s" and "map_of (rm_factions s) k = Some f"
  shows "chain env k s f (upd_state k (SetVisible_state env k) s) (vis_state f)"
    and "chain env k s f (upd_state k (\<lambda>f. SetAtWar_state k f b) s) (war_state b f)"
    and "chain env k s f (upd_state k (\<lambda>f. SetInactive_state k f b) s) (inactive_state b f)"
  using assms by (simp_all add: chain_def upd_state_def steady_SetVisible_state steady_SetAtWar_state steady_SetInactive_state)

lemma chain_if: "(p \<Longrightarrow> chain env k s f t g) \<Longrightarrow> (\<not> p \<Longrightarrow> chain env k s f u h) \<Longrightarrow>
    chain env k s f (if p then t else u) (if p then g else h)"
  by simp

lemma chainD: "chain env k s f t g \<Longrightarrow> map_of (rm_factions t) k = Some g" "chain env k s f t g \<Longrightarrow> rep_wf env t"
  by (auto simp: chain_def dest: steadyD(1))

definition row_step :: "rep_env \<Rightarrow> rep_table \<Rightarrow> ReputationMgr \<Rightarrow> ReputationMgr \<Rightarrow> bool" where
  "row_step env T s t \<longleftrightarrow> rep_wf env t \<and> (\<forall>c\<in>tracked. drift env c t = drift env c s) \<and> (all_good env T s \<longrightarrow> all_good env T t)"

lemma ucast_flags: "ucast (x :: u8) = (ucast (v :: u16) :: u32) \<Longrightarrow> ucast x = v"
proof (rule bit_word_eqI)
  fix n assume h: "ucast x = (ucast v :: u32)" and n: "n < LENGTH(16)"
  have "bit (ucast x :: u32) n = bit (ucast v :: u32) n" by (simp only: h)
  then show "bit (ucast x :: u16) n = bit v n" using n by (simp add: bit_ucast_iff)
qed

lemma ucast_u16_u32_u16 [simp]: "ucast (ucast (x :: u16) :: u32) = x"
  by (rule bit_word_eqI) (auto simp: bit_ucast_iff)

lemma load_row_known:
  assumes ok: "store_ok env" and w: "rep_wf env s" and e: "re_store env (ucast i) = Some e" "CanHaveReputation e"
    and m: "map_of (rm_factions s) (list_id e) = Some f0" and fresh: "fs_Standing f0 = 0" "fs_needSave f0"
    and T: "T i = Some (st, vf)"
  shows "map_of (rm_factions (load_row env (i, st, vf) s)) =
      (map_of (rm_factions s))(list_id e \<mapsto> load_state (GetBaseReputation env (Some e)) st (ucast vf) f0)"
    and "row_step env T s (load_row env (i, st, vf) s)"
proof -
  let ?k = "list_id e" and ?base = "GetBaseReputation env (Some e)" and ?db = "ucast vf :: u32"
  define f1 where "f1 = f0\<lparr>fs_Standing := st\<rparr>"
  define s1 where "s1 = put_state ?k f1 s"
  define s2 where "s2 = UpdateRankCounters (ReputationToRank ?base) (ReputationToRank (i32 (?base + st))) s1"
  define s3 where "s3 = (if and ?db (ucast FACTION_FLAG_VISIBLE) \<noteq> 0 then upd_state ?k (SetVisible_state env ?k) s2 else s2)"
  define f3 where "f3 = (if and ?db (ucast FACTION_FLAG_VISIBLE) \<noteq> 0 then vis_state f1 else f1)"
  define s4 where "s4 = (if and ?db (ucast FACTION_FLAG_INACTIVE) \<noteq> 0 then upd_state ?k (\<lambda>f. SetInactive_state ?k f True) s3 else s3)"
  define f4 where "f4 = (if and ?db (ucast FACTION_FLAG_INACTIVE) \<noteq> 0 then inactive_state True f3 else f3)"
  define s5 where "s5 = (if and ?db (ucast FACTION_FLAG_AT_WAR) \<noteq> 0 then upd_state ?k (\<lambda>f. SetAtWar_state ?k f True) s4
    else upd_state ?k (\<lambda>f s. if has_flag (fs_Flags f) FACTION_FLAG_VISIBLE then SetAtWar_state ?k f False s else s) s4)"
  define f5 where "f5 = (if and ?db (ucast FACTION_FLAG_AT_WAR) \<noteq> 0 then war_state True f4
    else if has_flag (fs_Flags f4) FACTION_FLAG_VISIBLE then war_state False f4 else f4)"
  define s6 where "s6 = (if GetRank env (Some e) s5 \<le> REP_HOSTILE then upd_state ?k (\<lambda>f. SetAtWar_state ?k f True) s5 else s5)"
  define f6 where "f6 = (if ReputationToRank (i32 (?base + st)) \<le> REP_HOSTILE then war_state True f5 else f5)"
  define f7 where "f7 = (if ucast (fs_Flags f6) = ?db then f6\<lparr>fs_needSend := False, fs_needSave := False\<rparr> else f6)"
  have idx: "\<not> fe_ReputationIndex e < 0" using e(2) by (simp add: CanHaveReputation_def)
  have load: "load_row env (i, st, vf) s = upd_state ?k (\<lambda>f s. if ucast (fs_Flags f) = ?db
      then put_state ?k (f\<lparr>fs_needSend := False, fs_needSave := False\<rparr>) s else s) s6"
    unfolding load_row_def fst_conv snd_conv e(1) option.case m Let_def if_not_P[OF idx]
      s6_def s5_def s4_def s3_def s2_def s1_def f1_def by (rule refl)
  have lstate: "load_state ?base st ?db f0 = f7"
    unfolding load_state_def Let_def f7_def f6_def f5_def f4_def f3_def f1_def by (rule refl)
  have ids1: "fs_ID f1 = fs_ID f0" "fs_ListID f1 = fs_ListID f0" by (simp_all add: f1_def)
  have w2: "rep_wf env s2" using rep_wf_put[OF w m ids1] by (simp add: s2_def s1_def rep_wf_def)
  have m2: "map_of (rm_factions s2) ?k = Some f1" by (simp add: s2_def s1_def)
  have c3: "chain env ?k s2 f1 s3 f3" unfolding s3_def f3_def
    by (intro chain_if chain_steps chain_refl w2 m2)
  have c4: "chain env ?k s3 f3 s4 f4" unfolding s4_def f4_def
    using chainD[OF c3] by (intro chain_if chain_steps chain_refl)
  have c5: "chain env ?k s4 f4 s5 f5"
  proof -
    have "chain env ?k s4 f4 (upd_state ?k (\<lambda>f s. if has_flag (fs_Flags f) FACTION_FLAG_VISIBLE then SetAtWar_state ?k f False s else s) s4)
        (if has_flag (fs_Flags f4) FACTION_FLAG_VISIBLE then war_state False f4 else f4)"
      using chain_steps(2)[OF chainD(2,1)[OF c4], of False] chain_refl[OF chainD(2,1)[OF c4]] chainD(1)[OF c4]
      by (simp add: upd_state_def)
    then show ?thesis unfolding s5_def f5_def using chainD[OF c4] by (intro chain_if chain_steps)
  qed
  have st5: "fs_Standing f5 = st" by (simp add: f5_def f4_def f3_def f1_def)
  have "GetRank env (Some e) s5 = ReputationToRank (i32 (?base + st))"
    using e(2) chainD(1)[OF c5] st5 by (simp add: GetRank_def GetReputation_def GetState_def)
  then have c6: "chain env ?k s5 f5 s6 f6" unfolding s6_def f6_def
    using chainD[OF c5] by (simp add: chain_steps chain_refl)
  note c26 = chain_trans[OF chain_trans[OF chain_trans[OF c3 c4] c5] c6]
  have m6: "map_of (rm_factions s6) ?k = Some f6" by (rule chainD(1)[OF c26])
  have "rm_factions (load_row env (i, st, vf) s) = (if ucast (fs_Flags f6) = ?db then sm_insert ?k f7 (rm_factions s6) else rm_factions s6)"
    using m6 by (simp add: load upd_state_def f7_def)
  then have "map_of (rm_factions (load_row env (i, st, vf) s)) = (map_of (rm_factions s6))(?k \<mapsto> f7)"
    using m6 by (auto simp: f7_def fun_upd_idem)
  also have "\<dots> = (map_of (rm_factions s))(?k \<mapsto> f7)" using c26 by (simp add: chain_def s2_def s1_def)
  finally show "map_of (rm_factions (load_row env (i, st, vf) s)) =
      (map_of (rm_factions s))(?k \<mapsto> load_state ?base st ?db f0)" by (simp add: lstate)
  have store: "fs_ID f0 = ucast i" "re_store env (fs_ID f0) = Some e" using state_entry[OF ok w e(1) m] e(1) by simp_all
  have ids6: "fs_ID f6 = fs_ID f0" "fs_ListID f6 = fs_ListID f0" "fs_Standing f6 = st"
    by (simp_all add: f6_def f5_def f4_def f3_def f1_def)
  let ?t = "load_row env (i, st, vf) s"
  have t: "?t = (if ucast (fs_Flags f6) = ?db then put_state ?k f7 s6 else s6)"
    using m6 by (simp add: load upd_state_def f7_def)
  have c7: "counted env c f7 = counted env c f6" for c by (rule counted_cong) (simp_all add: f7_def)
  have o: "sm_ok (rm_factions s)" "sm_ok (rm_factions s6)" using w chainD(2)[OF c26] by (simp_all add: rep_wf_def)
  have "fs_ID f7 = fs_ID f6" "fs_ListID f7 = fs_ListID f6" by (simp_all add: f7_def)
  then have "rep_wf env ?t" unfolding t using chainD(2)[OF c26] rep_wf_put[OF chainD(2)[OF c26] m6, of f7]
    by simp
  moreover have "drift env c ?t = drift env c s" if c: "c \<in> tracked" for c
  proof -
    have "drift env c ?t = drift env c s6" unfolding t using drift_put[OF o(2) m6, of env c f7] c7 by simp
    also have "\<dots> = drift env c s2" using c26 c by (simp add: chain_def steadyD(3))
    also have "\<dots> = drift env c s1 + (case c of None \<Rightarrow> 0 | Some r \<Rightarrow>
        of_bool (r \<le> ReputationToRank (i32 (?base + st))) - of_bool (r \<le> ReputationToRank ?base))"
      using c by (simp add: drift_def s2_def counter_UpdateRankCounters true_count_def)
    also have "drift env c s1 = drift env c s - of_bool (counted env c f1) + of_bool (counted env c f0)"
      using drift_put[OF o(1) m] by (simp add: s1_def)
    finally show ?thesis
      using store(2) fresh base_i32[OF ok e(1)] by (cases c) (simp_all add: rank_of_def f1_def)
  qed
  moreover have "all_good env T ?t" if a: "all_good env T s"
  proof -
    have g0: "fs_good env T f0" by (rule all_goodD[OF a m])
    then have "fs_good env T f1" using fresh default_flags_cong[OF ids1(1), of env] by (simp add: fs_good_def f1_def)
    then have "all_good env T s2" using all_good_put[OF a] by (simp add: s1_def s2_def all_good_def)
    then have a6: "all_good env T s6" using c26 unfolding chain_def by (blast dest: steadyD(2))
    have "fs_good env T f7" if u: "ucast (fs_Flags f6) = ?db"
    proof -
      have "ucast (fs_Flags f6) = vf" by (rule ucast_flags[OF u])
      moreover have "ucast (fs_ID f6) = i" using ids6 store(1) by simp
      ultimately show ?thesis
        using all_goodD[OF a6 m6] T ids6(3) u by (simp add: fs_good_def f7_def default_flags_def)
    qed
    then show ?thesis unfolding t using all_good_put[OF a6] a6 by simp
  qed
  ultimately show "row_step env T s ?t" by (simp add: row_step_def)
qed

subsection \<open>Loading and saving\<close>

definition unloaded :: "rep_env \<Rightarrow> ReputationMgr \<Rightarrow> u16 \<Rightarrow> bool" where
  "unloaded env s i \<longleftrightarrow> (\<forall>e. re_store env (ucast i) = Some e \<and> CanHaveReputation e \<longrightarrow>
     (\<exists>f. map_of (rm_factions s) (list_id e) = Some f \<and> fs_Standing f = 0 \<and> fs_needSave f \<and> fs_Flags f = default_flags env f))"

lemma load_row_unknown:
  "\<not> (\<exists>e. re_store env (ucast i) = Some e \<and> CanHaveReputation e) \<Longrightarrow> load_row env (i, st, vf) s = s"
  by (auto simp: load_row_def CanHaveReputation_def split: option.split)

lemma u16_eq: "ucast (i :: u16) = (ucast (j :: u16) :: u32) \<longleftrightarrow> i = j"
  by (metis ucast_u16_u32_u16)

lemma load_row_ok:
  assumes ok: "store_ok env" and w: "rep_wf env s" and u: "unloaded env s i" and T: "T i = Some (st, vf)"
  shows "row_step env T s (load_row env (i, st, vf) s)"
    and "j \<noteq> i \<Longrightarrow> unloaded env s j \<Longrightarrow> unloaded env (load_row env (i, st, vf) s) j"
    and "re_store env (ucast j) = Some d \<Longrightarrow> CanHaveReputation d \<Longrightarrow> j \<noteq> i \<Longrightarrow>
      map_of (rm_factions (load_row env (i, st, vf) s)) (list_id d) = map_of (rm_factions s) (list_id d)"
proof -
  consider (no) "load_row env (i, st, vf) s = s" "\<not> (\<exists>e. re_store env (ucast i) = Some e \<and> CanHaveReputation e)"
    | (yes) e f where "re_store env (ucast i) = Some e" "CanHaveReputation e"
      "map_of (rm_factions s) (list_id e) = Some f" "fs_Standing f = 0" "fs_needSave f"
    using load_row_unknown u unfolding unloaded_def by blast
  note cs = this
  show "row_step env T s (load_row env (i, st, vf) s)"
  proof (cases rule: cs)
    case no
    then show ?thesis using w by (simp add: row_step_def)
  next
    case yes
    show ?thesis by (rule load_row_known(2)[OF ok w yes]) (rule T)
  qed
  have other: "map_of (rm_factions (load_row env (i, st, vf) s)) (list_id d) = map_of (rm_factions s) (list_id d)"
    if d: "re_store env (ucast j) = Some d" "CanHaveReputation d" "j \<noteq> i" for j d
  proof (cases rule: cs)
    case no
    then show ?thesis by simp
  next
    case (yes e f)
    have "list_id d \<noteq> list_id e" using ok d yes u16_eq[of j i] unfolding store_ok_def by metis
    then show ?thesis by (simp add: load_row_known(1)[OF ok w yes, of T st vf] T)
  qed
  then show "j \<noteq> i \<Longrightarrow> unloaded env s j \<Longrightarrow> unloaded env (load_row env (i, st, vf) s) j"
    by (auto simp: unloaded_def)
  show "re_store env (ucast j) = Some d \<Longrightarrow> CanHaveReputation d \<Longrightarrow> j \<noteq> i \<Longrightarrow>
      map_of (rm_factions (load_row env (i, st, vf) s)) (list_id d) = map_of (rm_factions s) (list_id d)"
    by (rule other)
qed

lemma row_step_trans: "row_step env T s t \<Longrightarrow> row_step env T t u \<Longrightarrow> row_step env T s u"
  by (simp add: row_step_def)

lemma load_rows_ok:
  assumes ok: "store_ok env"
  shows "rep_wf env s \<Longrightarrow> distinct (map fst rows) \<Longrightarrow> (\<And>r. r \<in> set rows \<Longrightarrow> unloaded env s (fst r) \<and> T (fst r) = Some (snd r)) \<Longrightarrow>
    row_step env T s (fold (load_row env) rows s)
    \<and> (\<forall>i e f. re_store env (ucast i) = Some e \<longrightarrow> CanHaveReputation e \<longrightarrow> map_of (rm_factions s) (list_id e) = Some f \<longrightarrow>
        map_of (rm_factions (fold (load_row env) rows s)) (list_id e) =
          Some (case map_of rows i of None \<Rightarrow> f | Some (st, vf) \<Rightarrow> load_state (GetBaseReputation env (Some e)) st (ucast vf) f))"
proof (induction rows arbitrary: s)
  case Nil
  then show ?case by (simp add: row_step_def)
next
  case (Cons r rows)
  obtain j st vf where r: "r = (j, st, vf)" by (cases r)
  have u: "unloaded env s j" and T: "T j = Some (st, vf)" using Cons.prems(3)[of r] r by simp_all
  note lr = load_row_ok[where T = T, OF ok Cons.prems(1) u T]
  have w: "rep_wf env (load_row env r s)" using lr(1) by (simp add: r row_step_def)
  have dist: "distinct (map fst rows)" "j \<notin> fst ` set rows" using Cons.prems(2) r by auto
  have un: "q \<in> set rows \<Longrightarrow> unloaded env (load_row env r s) (fst q) \<and> T (fst q) = Some (snd q)" for q
    using Cons.prems(3)[of q] lr(2)[of "fst q"] dist(2) r by force
  note IH = Cons.IH[OF w dist(1) un]
  have step: "row_step env T s (fold (load_row env) (r # rows) s)"
    using row_step_trans[OF lr(1)] IH by (simp add: r)
  have "map_of (rm_factions (fold (load_row env) (r # rows) s)) (list_id e) =
      Some (case map_of (r # rows) i of None \<Rightarrow> f | Some (st, vf) \<Rightarrow> load_state (GetBaseReputation env (Some e)) st (ucast vf) f)"
    if e: "re_store env (ucast i) = Some e" "CanHaveReputation e" and f: "map_of (rm_factions s) (list_id e) = Some f" for i e f
  proof (cases "i = j")
    case True
    obtain f' where f': "map_of (rm_factions s) (list_id e) = Some f'" "fs_Standing f' = 0" "fs_needSave f'"
      using u e True unfolding unloaded_def by blast
    have "map_of (rm_factions (load_row env r s)) (list_id e) = Some (load_state (GetBaseReputation env (Some e)) st (ucast vf) f)"
      using load_row_known(1)[OF ok Cons.prems(1) e(1)[unfolded True] e(2) f'] T f f'(1) by (simp add: r)
    moreover have "map_of rows i = None" using dist(2) True by (simp add: map_of_eq_None_iff)
    ultimately show ?thesis using IH e True by (simp add: r)
  next
    case False
    then have "map_of (rm_factions (load_row env r s)) (list_id e) = Some f" using lr(3)[OF e False] f by (simp add: r)
    then show ?thesis using IH e False by (simp add: r)
  qed
  with step show ?case by blast
qed

definition rows_of :: "(u16 \<times> int \<times> u16) list option \<Rightarrow> (u16 \<times> int \<times> u16) list" where
  "rows_of result = (case result of None \<Rightarrow> [] | Some rows \<Rightarrow> rows)"

lemma LoadFromDB_rows: "LoadFromDB env result s = fold (load_row env) (rows_of result) (Initialize env s)"
  by (simp add: LoadFromDB_def rows_of_def split: option.split)

lemma Initialize_unloaded: "store_ok env \<Longrightarrow> unloaded env (Initialize env s) i"
proof -
  assume ok: "store_ok env"
  have "init_ok env (re_rows env) (Initialize env s)" by (rule Initialize_ok[OF ok])
  then show ?thesis using ok unfolding unloaded_def init_ok_def store_ok_def by (metis (no_types, lifting))
qed

lemma LoadFromDB_ok:
  assumes ok: "store_ok env" and d: "distinct (map fst (rows_of result))"
  shows "rep_inv env (map_of (rows_of result)) (LoadFromDB env result s)"
    and "re_store env (ucast i) = Some e \<Longrightarrow> CanHaveReputation e \<Longrightarrow> \<exists>f0. fs_Flags f0 = default_flags env f0 \<and> re_store env (fs_ID f0) = Some e
      \<and> map_of (rm_factions (LoadFromDB env result s)) (list_id e) = Some (case map_of (rows_of result) i of None \<Rightarrow> f0
          | Some (st, vf) \<Rightarrow> load_state (GetBaseReputation env (Some e)) st (ucast vf) f0)"
proof -
  let ?s = "Initialize env s" and ?T = "map_of (rows_of result)"
  have i: "init_ok env (re_rows env) ?s" by (rule Initialize_ok[OF ok])
  have w: "rep_wf env ?s" using i by (simp add: init_ok_def)
  have un: "unloaded env ?s (fst r) \<and> ?T (fst r) = Some (snd r)" if "r \<in> set (rows_of result)" for r
    using Initialize_unloaded[OF ok] that d by (simp add: map_of_is_SomeI)
  note l = load_rows_ok[OF ok w d un]
  show "rep_inv env ?T (LoadFromDB env result s)"
    using l w i by (simp add: LoadFromDB_rows rep_inv_drift row_step_def init_ok_def)
  assume e: "re_store env (ucast i) = Some e" "CanHaveReputation e"
  then obtain f where f: "map_of (rm_factions ?s) (list_id e) = Some f" "fs_Flags f = default_flags env f"
    using Initialize_unloaded[OF ok, of s i] by (auto simp: unloaded_def)
  show "\<exists>f0. fs_Flags f0 = default_flags env f0 \<and> re_store env (fs_ID f0) = Some e
      \<and> map_of (rm_factions (LoadFromDB env result s)) (list_id e) = Some (case map_of (rows_of result) i of None \<Rightarrow> f0
          | Some (st, vf) \<Rightarrow> load_state (GetBaseReputation env (Some e)) st (ucast vf) f0)"
    using l w e f state_entry(2)[OF ok w e(1) f(1)] unfolding LoadFromDB_rows by blast
qed

fun exec_rep :: "rep_stmt list \<Rightarrow> rep_table \<Rightarrow> rep_table" where
  "exec_rep [] T = T"
| "exec_rep (DeleteReputation i # q) T = exec_rep q (T(i := None))"
| "exec_rep (InsertReputation i st vf # q) T = exec_rep q (T(i \<mapsto> (st, vf)))"

lemma exec_rep_append: "exec_rep (p @ q) T = exec_rep q (exec_rep p T)"
  by (induction p T rule: exec_rep.induct) (simp_all add: fun_upd_def)

lemma findD: "find P xs = Some x \<Longrightarrow> x \<in> set xs \<and> P x"
  by (auto simp: find_Some_iff)

lemma rep_exec_save:
  "distinct (map (\<lambda>x. ucast (fs_ID (snd x)) :: u16) xs) \<Longrightarrow>
    exec_rep (concat (map (\<lambda>(k, f). if fs_needSave f then save_stmts f else []) xs)) T i =
      (case find (\<lambda>x. ucast (fs_ID (snd x)) = i \<and> fs_needSave (snd x)) xs of None \<Rightarrow> T i
       | Some x \<Rightarrow> Some (fs_Standing (snd x), ucast (fs_Flags (snd x))))"
proof (induction xs arbitrary: T)
  case (Cons x xs)
  have "find (\<lambda>y. ucast (fs_ID (snd y)) = (ucast (fs_ID (snd x)) :: u16) \<and> fs_needSave (snd y)) xs = None"
    using Cons.prems unfolding find_None_iff by (auto simp: image_iff)
  then show ?case using Cons by (auto simp: exec_rep_append save_stmts_def split_def split: option.split)
qed simp

lemma SaveToDB_frame [simp]: "counter c (snd (SaveToDB s)) = counter c s"
  "rm_factions (snd (SaveToDB s)) = sm_map (\<lambda>f. f\<lparr>fs_needSave := False\<rparr>) (rm_factions s)"
  by (cases "(c, s)" rule: counter.cases; simp add: SaveToDB_def) (simp add: SaveToDB_def)

lemma state_ids:
  assumes ok: "store_ok env" and w: "rep_wf env s"
  shows "distinct (map (\<lambda>x. ucast (fs_ID (snd x)) :: u16) (rm_factions s))"
proof -
  have "inj_on (\<lambda>x. ucast (fs_ID (snd x)) :: u16) (set (rm_factions s))"
  proof (rule inj_onI)
    fix x y assume x: "x \<in> set (rm_factions s)" and y: "y \<in> set (rm_factions s)"
      and eq: "ucast (fs_ID (snd x)) = (ucast (fs_ID (snd y)) :: u16)"
    have m: "map_of (rm_factions s) (fst x) = Some (snd x)" "map_of (rm_factions s) (fst y) = Some (snd y)"
      using w x y by (auto simp: rep_wf_def sm_lookup_iff)
    then obtain d e where de: "re_store env (fs_ID (snd x)) = Some d" "list_id d = fst x"
      "re_store env (fs_ID (snd y)) = Some e" "list_id e = fst y" using w unfolding rep_wf_def by blast
    have "unat (fs_ID (snd x)) < 2 ^ 16" "unat (fs_ID (snd y)) < 2 ^ 16"
      using ok de(1,3) unfolding store_ok_def by (blast intro: less_le_trans)+
    moreover have "unat (ucast (fs_ID (snd x)) :: u16) = unat (ucast (fs_ID (snd y)) :: u16)" using eq by simp
    ultimately have "fs_ID (snd x) = fs_ID (snd y)"
      by (simp add: word_unat_eq_iff unsigned_ucast_eq take_bit_eq_mod)
    then have "fst x = fst y" using de by simp
    then show "x = y" using m by (auto simp: prod_eq_iff)
  qed
  moreover have "distinct (rm_factions s)" using w sm_ok_distinct[of "rm_factions s"] by (simp add: rep_wf_def distinct_map)
  ultimately show ?thesis by (simp add: distinct_map)
qed

lemma SaveToDB_ok:
  assumes ok: "store_ok env" and i: "rep_inv env T s"
  shows "rep_inv env (exec_rep (fst (SaveToDB s)) T) (snd (SaveToDB s))"
    and "map_of (rm_factions s) k = Some f \<Longrightarrow>
      exec_rep (fst (SaveToDB s)) T (ucast (fs_ID f)) = Some (fs_Standing f, ucast (fs_Flags f))"
proof -
  have w: "rep_wf env s" and a: "all_good env T s" using i by (simp_all add: rep_inv_def)
  have table: "exec_rep (fst (SaveToDB s)) T (ucast (fs_ID f)) = Some (fs_Standing f, ucast (fs_Flags f))"
    if f: "map_of (rm_factions s) k = Some f" for k f
  proof -
    let ?P = "\<lambda>x. ucast (fs_ID (snd x)) = (ucast (fs_ID f) :: u16) \<and> fs_needSave (snd x)"
    have kf: "(k, f) \<in> set (rm_factions s)" using w f by (simp add: rep_wf_def sm_lookup_iff)
    have uniq: "x = (k, f)" if "x \<in> set (rm_factions s)" "ucast (fs_ID (snd x)) = (ucast (fs_ID f) :: u16)" for x
      using state_ids[OF ok w] that kf by (auto simp: distinct_map inj_on_def)
    have "exec_rep (fst (SaveToDB s)) T (ucast (fs_ID f)) = (case find ?P (rm_factions s) of None \<Rightarrow> T (ucast (fs_ID f))
        | Some x \<Rightarrow> Some (fs_Standing (snd x), ucast (fs_Flags (snd x))))"
      using rep_exec_save[OF state_ids[OF ok w]] by (simp add: SaveToDB_def)
    moreover have "x = (k, f)" if "find ?P (rm_factions s) = Some x" for x
      using uniq findD[OF that] by blast
    moreover have "T (ucast (fs_ID f)) = Some (fs_Standing f, ucast (fs_Flags f))" if "find ?P (rm_factions s) = None"
      using that kf all_goodD[OF a f] by (auto simp: find_None_iff fs_good_def)
    ultimately show ?thesis by (cases "find ?P (rm_factions s)") auto
  qed
  then show "map_of (rm_factions s) k = Some f \<Longrightarrow>
      exec_rep (fst (SaveToDB s)) T (ucast (fs_ID f)) = Some (fs_Standing f, ucast (fs_Flags f))" .
  have c: "counted env c (f\<lparr>fs_needSave := False\<rparr>) = counted env c f" for c f by (rule counted_cong) simp_all
  have "rep_wf env (snd (SaveToDB s))" using w by (auto simp: rep_wf_def)
  moreover have "true_count env c (snd (SaveToDB s)) = true_count env c s" for c
    by (simp add: true_count_def scount_sm_map c split_def)
  moreover have "all_good env (exec_rep (fst (SaveToDB s)) T) (snd (SaveToDB s))"
    using a table by (auto simp: all_good_def fs_good_def default_flags_def)
  ultimately show "rep_inv env (exec_rep (fst (SaveToDB s)) T) (snd (SaveToDB s))"
    using i by (simp add: rep_inv_def)
qed

subsection \<open>Runs of the manager\<close>

text \<open>The operations other code calls, on the saved table and the manager.\<close>

inductive rep_step :: "rep_env \<Rightarrow> rep_table \<times> ReputationMgr \<Rightarrow> rep_table \<times> ReputationMgr \<Rightarrow> bool" for env where
  set_reputation: "re_store env i = Some e \<Longrightarrow> SetReputation env e st inc nos s = Some (b, t) \<Longrightarrow> rep_step env (T, s) (T, t)"
| set_one: "re_store env i = Some e \<Longrightarrow> rep_step env (T, s) (T, snd (SetOneFactionReputation env e st inc s))"
| set_visible: "re_store env i = Some e \<Longrightarrow> rep_step env (T, s) (T, SetVisible_entry env e s)"
| meet_template: "rep_step env (T, s) (T, SetVisible_template env i s)"
| set_war: "rep_step env (T, s) (T, SetAtWar lid on s)"
| set_inactive: "rep_step env (T, s) (T, SetInactive lid on s)"
| force: "rep_step env (T, s) (T, ApplyForceReaction i r on s)"
| send_initial: "rep_step env (T, s) (T, SendInitialReputations s)"
| send_states: "rep_step env (T, s) (T, SendStates s)"
| send_forced: "rep_step env (T, s) (T, SendForceReactions s)"
| save: "rep_step env (T, s) (exec_rep (fst (SaveToDB s)) T, snd (SaveToDB s))"

lemma steady_SetVisible_entry: "rep_wf env s \<Longrightarrow> steady env s (SetVisible_entry env e s)"
  by (auto simp: SetVisible_entry_def intro: steady_SetVisible_state split: option.split)

lemma steady_SetVisible_template: "rep_wf env s \<Longrightarrow> steady env s (SetVisible_template env i s)"
  by (auto simp: SetVisible_template_def intro: steady_SetVisible_entry split: option.split)

lemma steady_SetAtWar: "rep_wf env s \<Longrightarrow> steady env s (SetAtWar lid on s)"
  by (auto simp: SetAtWar_def intro: steady_SetAtWar_state split: option.split)

lemma steady_SetInactive: "rep_wf env s \<Longrightarrow> steady env s (SetInactive lid on s)"
  by (auto simp: SetInactive_def intro: steady_SetInactive_state split: option.split)

lemma steady_force: "rep_wf env s \<Longrightarrow> steady env s (ApplyForceReaction i r on s)"
proof (rule steady_same)
  show "counter c (ApplyForceReaction i r on s) = counter c s" for c
    by (cases "(c, s)" rule: counter.cases) (simp_all add: ApplyForceReaction_def)
qed (simp_all add: ApplyForceReaction_def)

lemma steady_SendForceReactions: "rep_wf env s \<Longrightarrow> steady env s (SendForceReactions s)"
  by (rule steady_same) (simp_all add: SendForceReactions_def)

lemma rep_step_inv:
  assumes ok: "store_ok env" and st: "rep_step env (T, s) (T', t)" and i: "rep_inv env T s"
  shows "rep_inv env T' t"
proof -
  have w: "rep_wf env s" using i by (simp add: rep_inv_def)
  from st show ?thesis
  proof (cases rule: rep_step.cases)
    case set_reputation
    show ?thesis unfolding set_reputation(1) by (rule steady_inv[OF steady_SetReputation[OF ok w set_reputation(2,3)] i])
  next
    case set_one
    show ?thesis unfolding set_one(1,2) by (rule steady_inv[OF steady_SetOne[OF ok w set_one(3)] i])
  next
    case save
    then show ?thesis using SaveToDB_ok(1)[OF ok i] by simp
  qed (use steady_inv[OF _ i] w in \<open>auto intro: steady_SetVisible_entry steady_SetVisible_template steady_SetAtWar steady_SetInactive
      steady_force steady_SendInitialReputations steady_SendStates steady_SendForceReactions\<close>)
qed

lemma rep_run_inv:
  assumes ok: "store_ok env" and d: "distinct (map fst (rows_of result))"
    and run: "(rep_step env)\<^sup>*\<^sup>* (map_of (rows_of result), LoadFromDB env result s0) (T, s)"
  shows "rep_inv env T s"
proof -
  have "rep_inv env (fst p) (snd p)"
    if "(rep_step env)\<^sup>*\<^sup>* (map_of (rows_of result), LoadFromDB env result s0) p" for p
    using that
  proof (induction rule: rtranclp_induct)
    case base
    then show ?case using LoadFromDB_ok(1)[OF ok d] by simp
  next
    case (step p q)
    then show ?case using rep_step_inv[OF ok, of "fst p" "snd p" "fst q" "snd q"] by simp
  qed
  from this[OF run] show ?thesis by simp
qed

text \<open>C28. The eight-bit counters count right, modulo 256, over every run: after loading any saved rows
  and any sequence of operations, each is the number of visible factions, or of factions at the
  rank honored, revered or exalted or above.\<close>

theorem reputation_counters:
  assumes "store_ok env" and "distinct (map fst (rows_of result))"
    and "(rep_step env)\<^sup>*\<^sup>* (map_of (rows_of result), LoadFromDB env result s0) (T, s)"
  shows "rm_visible s = of_nat (length (filter (\<lambda>(k, f). has_flag (fs_Flags f) FACTION_FLAG_VISIBLE) (rm_factions s)))
    \<and> rm_honored s = of_nat (length (filter (\<lambda>(k, f). REP_HONORED \<le> rank_of env f) (rm_factions s)))
    \<and> rm_revered s = of_nat (length (filter (\<lambda>(k, f). REP_REVERED \<le> rank_of env f) (rm_factions s)))
    \<and> rm_exalted s = of_nat (length (filter (\<lambda>(k, f). REP_EXALTED \<le> rank_of env f) (rm_factions s)))"
  using rep_run_inv[OF assms] by (simp add: rep_inv_def tracked_def true_count_def scount_def split_def)

text \<open>C30. Over every run a state that is not marked as to be saved stands in the table as it is, and the
  flags that are not the player's to change are the defaults of its faction.\<close>

theorem reputation_saved:
  assumes "store_ok env" and "distinct (map fst (rows_of result))"
    and "(rep_step env)\<^sup>*\<^sup>* (map_of (rows_of result), LoadFromDB env result s0) (T, s)"
    and "map_of (rm_factions s) k = Some f"
  shows "(fs_needSave f \<or> T (ucast (fs_ID f)) = Some (fs_Standing f, ucast (fs_Flags f)))
    \<and> flags_ok (default_flags env f) (fs_Flags f)"
  using rep_run_inv[OF assms(1-3)] assms(4) by (auto simp: rep_inv_def all_good_def fs_good_def)

text \<open>A store of two factions for the examples: one of the player's side, one hostile.\<close>

definition demo_ours :: FactionEntry where
  "demo_ours = \<lparr>fe_ID = 1, fe_ReputationIndex = 0, fe_RaceMask = [1, 0, 0, 0], fe_ClassMask = [0, 0, 0, 0],
     fe_Base = [3100, 0, 0, 0], fe_Flags = [0x11, 0, 0, 0], fe_ParentFactionID = 0, fe_ModIn = 1, fe_ModOut = 1, fe_CapIn = 7\<rparr>"

definition demo_theirs :: FactionEntry where
  "demo_theirs = \<lparr>fe_ID = 2, fe_ReputationIndex = 5, fe_RaceMask = [1, 0, 0, 0], fe_ClassMask = [0, 0, 0, 0],
     fe_Base = [-7000, 0, 0, 0], fe_Flags = [0x02, 0, 0, 0], fe_ParentFactionID = 0, fe_ModIn = 1, fe_ModOut = 1, fe_CapIn = 7\<rparr>"

definition demo_env :: rep_env where
  "demo_env = \<lparr>re_store = (\<lambda>i. if i = 1 then Some demo_ours else if i = 2 then Some demo_theirs else None), re_rows = 3,
     re_spillover = (\<lambda>i. if i = 1 then Some [(2, 1, 7), (2, 1, 7)] else None), re_team = (\<lambda>_. None), re_raceMask = 1, re_classMask = 1,
     re_rate = 1, re_premium_rate = 1, re_premium = False, re_loading = False, re_trading_post = True, re_script = (\<lambda>i x b. x)\<rparr>"

lemmas demo_defs = demo_env_def demo_ours_def demo_theirs_def

lemma demo_store_ok: "store_ok demo_env"
  by (simp add: store_ok_def demo_defs i32_def CanHaveReputation_def list_id_def)

theorem reputation_counters_witness:
  "let s = LoadFromDB demo_env (Some [(1, 6000, 0x11)]) ReputationMgr_new
   in rm_honored s = of_nat (length (filter (\<lambda>(k, f). REP_HONORED \<le> rank_of demo_env f) (rm_factions s)))"
  using reputation_counters[OF demo_store_ok, of "Some [(1, 6000, 0x11)]" ReputationMgr_new, OF _ rtranclp.rtrancl_refl]
  by (simp add: Let_def rows_of_def)

definition demo_mgr :: ReputationMgr where
  "demo_mgr = LoadFromDB demo_env None ReputationMgr_new"

definition demo_ours_state :: FactionState where
  "demo_ours_state = \<lparr>fs_ID = 1, fs_ListID = 0, fs_Standing = 0, fs_Flags = 0x11, fs_needSend = True, fs_needSave = True\<rparr>"

lemma demo_loaded: "map_of (rm_factions demo_mgr) 0 = Some demo_ours_state"
  by code_simp

theorem reputation_saved_witness: "flags_ok (default_flags demo_env demo_ours_state) (fs_Flags demo_ours_state)"
  using reputation_saved[OF demo_store_ok, of None ReputationMgr_new, OF _ rtranclp.rtrancl_refl demo_loaded[unfolded demo_mgr_def]]
  by (simp add: rows_of_def)

subsection \<open>Setting a standing\<close>

lemma fold_log_factions [simp]: "map_of (rm_factions (fold log_effect xs s)) = map_of (rm_factions s)"
  by simp

lemma SetOne_map:
  assumes f: "map_of (rm_factions s) (list_id e) = Some f"
    and n_def: "n = new_standing env (fs_Standing f) (GetBaseReputation env (Some e)) st inc"
    and f1_def: "f1 = vis_state (touch (f\<lparr>fs_Standing := i32 (n - GetBaseReputation env (Some e))\<rparr>))"
  shows "map_of (rm_factions (snd (SetOneFactionReputation env e st inc s))) =
     (map_of (rm_factions s))(list_id e \<mapsto> if ReputationToRank n \<le> REP_HOSTILE then war_state True f1 else f1)"
    and "fst (SetOneFactionReputation env e st inc s)"
proof -
  show "fst (SetOneFactionReputation env e st inc s)" using f by (simp add: SetOneFactionReputation_def Let_def)
  define s2 where "s2 = SetVisible_state env (list_id e) (touch (f\<lparr>fs_Standing := i32 (n - GetBaseReputation env (Some e))\<rparr>))
    (put_state (list_id e) (touch (f\<lparr>fs_Standing := i32 (n - GetBaseReputation env (Some e))\<rparr>)) s)"
  have m2: "map_of (rm_factions s2) = (map_of (rm_factions s))(list_id e \<mapsto> f1)"
    unfolding s2_def by (subst rm_factions_rows(1)) (simp_all add: f1_def)
  have "rm_factions (snd (SetOneFactionReputation env e st inc s)) = rm_factions (if ReputationToRank n \<le> REP_HOSTILE
     then SetAtWar_state (list_id e) f1 True s2 else s2)"
    using m2 f by (simp add: SetOneFactionReputation_def Let_def n_def[symmetric] s2_def[symmetric])
  then show "map_of (rm_factions (snd (SetOneFactionReputation env e st inc s))) =
     (map_of (rm_factions s))(list_id e \<mapsto> if ReputationToRank n \<le> REP_HOSTILE then war_state True f1 else f1)"
    using m2 by simp
qed

text \<open>The amount that is added: at the rate of the realm and, for a player who pays, again at his.\<close>

definition gained :: "rep_env \<Rightarrow> int \<Rightarrow> int" where
  "gained env st = (let st = rate_gain (re_rate env) st in if re_premium env then rate_gain (re_premium_rate env) st else st)"

lemma rate_whole:
  assumes "\<bar>x\<bar> < 2 ^ 22" and "\<bar>x * r\<bar> < 2 ^ 22"
  shows "rate_gain (of_int r) x = x * r"
proof -
  define y where "y = x * r"
  have "f32_mul (f32_of_int x) (of_int r) = fl 24 (of_int y)"
    using assms(1) f32_of_int_exact[of x] by (simp add: f32_mul_def y_def)
  also have "\<dots> = of_int y" using f32_of_int_exact[of y] assms(2) by (simp add: f32_of_int_def y_def)
  finally have "f32_mul (f32_of_int x) (of_int r) = of_int y" .
  moreover have "\<lfloor>of_int y + 1 / 2 :: rat\<rfloor> = y" by (rule floor_unique) simp_all
  moreover have "\<bar>y\<bar> < 2 ^ 22" using assms(2) by (simp add: y_def)
  ultimately have "rate_gain (of_int r) x = y" using f32_add_half[of y] by (simp add: rate_gain_def int32_of_real_of_int)
  then show ?thesis by (simp add: y_def)
qed

text \<open>C31. Setting the standing with a faction the player has gives exactly the given standing clamped; an incremental
  change gives the old standing plus the gained amount (as a 32-bit number), clamped. The gained amount is the given one
  times the rate of the realm and, for a premium player, times his rate, exactly if these rates are whole numbers and no
  product reaches 2^22. No other faction is touched; a faction that may be shown becomes visible, and one that gets
  hostile is at war unless peace is forced.\<close>

theorem SetOneFactionReputation_sets:
  fixes inc :: bool and env :: rep_env and st r q :: int
  assumes "CanHaveReputation e" and "map_of (rm_factions s) (list_id e) = Some f"
  defines "t \<equiv> snd (SetOneFactionReputation env e st inc s)"
  shows "GetReputation env (Some e) t = clamp_standing (if inc then i32 (gained env st + GetReputation env (Some e) s) else st)
    \<and> (re_rate env = of_int r \<and> \<bar>st\<bar> < 2 ^ 22 \<and> \<bar>st * r\<bar> < 2 ^ 22 \<and> (re_premium env \<longrightarrow> re_premium_rate env = of_int q \<and> \<bar>st * r * q\<bar> < 2 ^ 22)
         \<longrightarrow> gained env st = (if re_premium env then st * r * q else st * r))
    \<and> Reputation_Bottom \<le> GetReputation env (Some e) t \<and> GetReputation env (Some e) t \<le> Reputation_Cap
    \<and> (\<forall>k. k \<noteq> list_id e \<longrightarrow> map_of (rm_factions t) k = map_of (rm_factions s) k)
    \<and> (\<exists>g. map_of (rm_factions t) (list_id e) = Some g \<and> (can_show (fs_Flags f) \<longrightarrow> has_flag (fs_Flags g) FACTION_FLAG_VISIBLE)
        \<and> (GetRank env (Some e) t \<le> REP_HOSTILE \<longrightarrow> has_flag (fs_Flags g) FACTION_FLAG_AT_WAR \<or> has_flag (fs_Flags g) FACTION_FLAG_PEACE_FORCED))"
proof -
  let ?b = "GetBaseReputation env (Some e)"
  define n where "n = new_standing env (fs_Standing f) ?b st inc"
  define g where "g = vis_state (touch (f\<lparr>fs_Standing := i32 (n - ?b)\<rparr>))"
  define h where "h = (if ReputationToRank n \<le> REP_HOSTILE then war_state True g else g)"
  have m: "map_of (rm_factions t) = (map_of (rm_factions s))(list_id e \<mapsto> h)"
    unfolding t_def h_def g_def n_def by (rule SetOne_map(1)[OF assms(2) refl refl])
  have sth: "fs_Standing h = i32 (n - ?b)" by (simp add: h_def g_def)
  have r: "GetReputation env (Some e) t = n"
    using assms(1) m sth by (simp add: GetReputation_def GetState_def n_def)
  have n: "n = clamp_standing (if inc then i32 (gained env st + GetReputation env (Some e) s) else st)"
    using assms(1,2) by (simp add: n_def new_standing_def gained_def Let_def GetReputation_def GetState_def add.commute)
  have vis: "can_show (fs_Flags f) \<Longrightarrow> has_flag (fs_Flags g) FACTION_FLAG_VISIBLE"
    by (simp add: g_def vis_state_def) (simp add: flag_simps)
  have keep: "has_flag (fs_Flags g) FACTION_FLAG_VISIBLE \<Longrightarrow> has_flag (fs_Flags h) FACTION_FLAG_VISIBLE"
    by (simp add: h_def war_state_def flag_simps)
  have war: "ReputationToRank n \<le> REP_HOSTILE \<Longrightarrow> has_flag (fs_Flags h) FACTION_FLAG_AT_WAR \<or> has_flag (fs_Flags h) FACTION_FLAG_PEACE_FORCED"
    by (simp add: h_def war_state_def flag_simps)
  have rate: "gained env st = (if re_premium env then st * r * q else st * r)"
    if "re_rate env = of_int r" "\<bar>st\<bar> < 2 ^ 22" "\<bar>st * r\<bar> < 2 ^ 22"
      "re_premium env \<longrightarrow> re_premium_rate env = of_int q \<and> \<bar>st * r * q\<bar> < 2 ^ 22"
    using that rate_whole[of st r] rate_whole[of "st * r" q] by (simp add: gained_def)
  show ?thesis using r n m vis keep war rate clamp_bounds by (simp add: GetRank_def)
qed

text \<open>900 points at the rate one, and 100 points of a premium player at the rates two and three.\<close>

theorem SetOneFactionReputation_sets_witness:
  "GetReputation demo_env (Some demo_ours) (snd (SetOneFactionReputation demo_env demo_ours 900 True demo_mgr)) = 4000
   \<and> (let env = demo_env\<lparr>re_rate := 2, re_premium := True, re_premium_rate := 3\<rparr>
      in GetReputation env (Some demo_ours) (snd (SetOneFactionReputation env demo_ours 100 True demo_mgr)) = 3700)"
proof -
  let ?env = "demo_env\<lparr>re_rate := 2, re_premium := True, re_premium_rate := 3\<rparr>"
  have "GetReputation demo_env (Some demo_ours) demo_mgr = 3100" "GetReputation ?env (Some demo_ours) demo_mgr = 3100" by code_simp+
  moreover have "CanHaveReputation demo_ours" "list_id demo_ours = 0" by (simp_all add: demo_ours_def CanHaveReputation_def list_id_def)
  moreover have "re_rate demo_env = of_int 1" "\<not> re_premium demo_env" "re_rate ?env = of_int 2" "re_premium ?env" "re_premium_rate ?env = of_int 3"
    by (simp_all add: demo_env_def)
  ultimately show ?thesis
    using SetOneFactionReputation_sets[of demo_ours demo_mgr demo_ours_state demo_env 900 True 1 0]
      SetOneFactionReputation_sets[of demo_ours demo_mgr demo_ours_state ?env 100 True 2 3] demo_loaded
    by (simp add: clamp_standing_def Reputation_Cap_def Reputation_Bottom_def i32_id Let_def)
qed

subsection \<open>A relog\<close>

lemma bit_state_funs:
  "bit (fs_Flags (vis_state f)) n \<longleftrightarrow> bit (fs_Flags f) n
     \<or> n = 0 \<and> \<not> ((bit (fs_Flags f) 3 \<or> bit (fs_Flags f) 2) \<and> \<not> bit (fs_Flags f) 7)"
  "bit (fs_Flags (war_state True f)) n \<longleftrightarrow> bit (fs_Flags f) n \<or> n = 1 \<and> \<not> bit (fs_Flags f) 4"
  "bit (fs_Flags (war_state False f)) n \<longleftrightarrow> bit (fs_Flags f) n \<and> n \<noteq> 1"
  "bit (fs_Flags (inactive_state True f)) n \<longleftrightarrow> bit (fs_Flags f) n
     \<or> n = 5 \<and> \<not> bit (fs_Flags f) 2 \<and> \<not> bit (fs_Flags f) 3 \<and> bit (fs_Flags f) 0"
  using bit_imp_le_length[of "fs_Flags f" n]
  by (auto simp: state_fun_defs flag_simps)

lemma db_flag:
  "and (ucast (ucast (v :: u8) :: u16) :: u32) (ucast FACTION_FLAG_VISIBLE) = 0 \<longleftrightarrow> \<not> bit v 0"
  "and (ucast (ucast (v :: u8) :: u16) :: u32) (ucast FACTION_FLAG_AT_WAR) = 0 \<longleftrightarrow> \<not> bit v 1"
  "and (ucast (ucast (v :: u8) :: u16) :: u32) (ucast FACTION_FLAG_INACTIVE) = 0 \<longleftrightarrow> \<not> bit v 5"
proof -
  let ?x = "ucast (ucast v :: u16) :: u32"
  have b: "bit ?x n = bit v n" if "n < 8" for n using that by (simp add: bit_ucast_iff)
  show "and ?x (ucast FACTION_FLAG_VISIBLE) = 0 \<longleftrightarrow> \<not> bit v 0"
    using and_exp_eq_0_iff_not_bit[of ?x 0] b[of 0] by (simp add: faction_flag_defs)
  show "and ?x (ucast FACTION_FLAG_AT_WAR) = 0 \<longleftrightarrow> \<not> bit v 1"
    using and_exp_eq_0_iff_not_bit[of ?x 1] b[of 1] by (simp add: faction_flag_defs)
  show "and ?x (ucast FACTION_FLAG_INACTIVE) = 0 \<longleftrightarrow> \<not> bit v 5"
    using and_exp_eq_0_iff_not_bit[of ?x 5] b[of 5] by (simp add: faction_flag_defs)
qed

lemma load_state_restores:
  assumes ok: "flags_ok (fs_Flags f0) v" and inact: "\<not> bit (fs_Flags f0) 5"
    and war: "bit v 1 \<or> bit v 0 \<or> \<not> bit (fs_Flags f0) 1"
    and hostile: "ReputationToRank (i32 (base + st)) \<le> REP_HOSTILE \<Longrightarrow> bit v 1 \<or> bit v 4"
  shows "fs_Flags (load_state base st (ucast (ucast v :: u16)) f0) = v"
    and "fs_Standing (load_state base st (ucast (ucast v :: u16)) f0) = st"
proof -
  let ?d = "fs_Flags f0"
  define f1 where "f1 = f0\<lparr>fs_Standing := st\<rparr>"
  define f2 where "f2 = (if bit v 0 then vis_state f1 else f1)"
  define f3 where "f3 = (if bit v 5 then inactive_state True f2 else f2)"
  define f4 where "f4 = (if bit v 1 then war_state True f3 else if has_flag (fs_Flags f3) FACTION_FLAG_VISIBLE then war_state False f3 else f3)"
  define f5 where "f5 = (if ReputationToRank (i32 (base + st)) \<le> REP_HOSTILE then war_state True f4 else f4)"
  have eq: "load_state base st (ucast (ucast v :: u16)) f0 =
      (if ucast (fs_Flags f5) = (ucast (ucast v :: u16) :: u32) then f5\<lparr>fs_needSend := False, fs_needSave := False\<rparr> else f5)"
    unfolding load_state_def Let_def f5_def f4_def f3_def f2_def f1_def by (simp only: db_flag not_not)
  have o: "bit v n = bit ?d n" if "n < 8" "n \<noteq> 0" "n \<noteq> 1" "n \<noteq> 5" for n using ok that by (simp add: flags_ok_def)
  have v: "bit ?d 0 \<Longrightarrow> bit v 0" "bit v 0 \<Longrightarrow> bit ?d 0 \<or> \<not> ((bit ?d 2 \<or> bit ?d 3) \<and> \<not> bit ?d 7)"
    "bit v 5 \<Longrightarrow> \<not> bit ?d 2 \<and> \<not> bit ?d 3 \<and> bit v 0" "bit v 1 \<Longrightarrow> bit ?d 1 \<or> \<not> bit ?d 4"
    using ok inact by (auto simp: flags_ok_def)
  have b2: "bit (fs_Flags f2) n = (if n = 0 then bit v 0 else bit ?d n)" for n
    using v(1,2) by (auto simp: f2_def f1_def bit_state_funs)
  have b3: "bit (fs_Flags f3) n = (if n = 0 then bit v 0 else if n = 5 then bit v 5 else bit ?d n)" for n
    using v(3) inact by (auto simp: f3_def bit_state_funs b2)
  have b4: "bit (fs_Flags f4) n = (if n = 0 then bit v 0 else if n = 5 then bit v 5 else if n = 1 then bit v 1 else bit ?d n)" for n
    using v(4) war by (auto simp: f4_def bit_state_funs b3 has_flag_bit)
  have b5: "bit (fs_Flags f5) n = bit v n" if "n < 8" for n
    using hostile o[of 4] o[of n] that by (auto simp: f5_def bit_state_funs b4)
  have "fs_Flags f5 = v" by (rule bit_word_eqI) (simp add: b5)
  then show "fs_Flags (load_state base st (ucast (ucast v :: u16)) f0) = v" by (simp add: eq)
  show "fs_Standing (load_state base st (ucast (ucast v :: u16)) f0) = st"
    unfolding eq by (simp add: f5_def f4_def f3_def f2_def f1_def)
qed

text \<open>C29. A player who logs out and in again finds a reputation as it was: let the client's faction table have ids below
  2^16, no two factions with one list index, and bases that are 32-bit numbers (\<open>store_ok\<close>), and the rows of the table a
  key per faction. After any run and a save, loading the table's rows, in any order, gives a faction its standing and its
  flags back, provided it is not inactive by default (the loader sets this flag but never clears it) and its war state is
  one the loader can tell: a hostile faction is at war or peace is forced, and a faction that is by default at war is
  visible or still at war.\<close>

theorem save_load_restores:
  assumes "store_ok env" and "distinct (map fst (rows_of result))"
    and "(rep_step env)\<^sup>*\<^sup>* (map_of (rows_of result), LoadFromDB env result s0) (T, s)"
    and "distinct (map fst rows)" and "map_of rows = exec_rep (fst (SaveToDB s)) T"
    and "map_of (rm_factions s) k = Some f"
    and "\<not> has_flag (default_flags env f) FACTION_FLAG_INACTIVE"
    and "has_flag (fs_Flags f) FACTION_FLAG_AT_WAR \<or> has_flag (fs_Flags f) FACTION_FLAG_VISIBLE
       \<or> \<not> has_flag (default_flags env f) FACTION_FLAG_AT_WAR"
    and "rank_of env f \<le> REP_HOSTILE \<Longrightarrow> has_flag (fs_Flags f) FACTION_FLAG_AT_WAR \<or> has_flag (fs_Flags f) FACTION_FLAG_PEACE_FORCED"
  shows "\<exists>g. map_of (rm_factions (LoadFromDB env (Some rows) s1)) k = Some g
    \<and> fs_Standing g = fs_Standing f \<and> fs_Flags g = fs_Flags f"
proof -
  have i: "rep_inv env T s" by (rule rep_run_inv[OF assms(1-3)])
  then have w: "rep_wf env s" by (simp add: rep_inv_def)
  obtain e where e: "re_store env (fs_ID f) = Some e" "CanHaveReputation e" "list_id e = k"
    using w assms(6) by (auto simp: rep_wf_def)
  let ?i = "ucast (fs_ID f) :: u16"
  have "unat (fs_ID f) < 2 ^ 16" using assms(1) e(1) unfolding store_ok_def by (blast intro: less_le_trans)
  then have up: "ucast ?i = fs_ID f" by (simp add: word_unat_eq_iff unsigned_ucast_eq take_bit_eq_mod unat_mod)
  have row: "map_of rows ?i = Some (fs_Standing f, ucast (fs_Flags f))"
    unfolding assms(5) by (rule SaveToDB_ok(2)[OF assms(1) i assms(6)])
  have e': "re_store env (ucast ?i) = Some e" using e(1) up by simp
  have d: "distinct (map fst (rows_of (Some rows)))" using assms(4) by (simp add: rows_of_def)
  obtain f0 where f0: "fs_Flags f0 = default_flags env f0" "re_store env (fs_ID f0) = Some e"
    and m: "map_of (rm_factions (LoadFromDB env (Some rows) s1)) (list_id e) =
      Some (load_state (GetBaseReputation env (Some e)) (fs_Standing f) (ucast (ucast (fs_Flags f) :: u16)) f0)"
    using LoadFromDB_ok(2)[OF assms(1) d e' e(2), of s1] row by (auto simp: rows_of_def)
  have df: "fs_Flags f0 = default_flags env f" using f0 e(1) by (simp add: default_flags_def)
  have ok: "flags_ok (fs_Flags f0) (fs_Flags f)" using i assms(6) by (auto simp: df rep_inv_def all_good_def fs_good_def)
  note ls = load_state_restores[OF ok, of "GetBaseReputation env (Some e)" "fs_Standing f"]
  have "rank_of env f = ReputationToRank (i32 (GetBaseReputation env (Some e) + fs_Standing f))" by (simp add: rank_of_def e(1))
  then show ?thesis using m e(3) ls assms(7-9) by (simp add: df has_flag_bit)
qed

lemma demo_saved: "fst (SaveToDB demo_mgr) =
    [DeleteReputation 1, InsertReputation 1 0 0x11, DeleteReputation 2, InsertReputation 2 0 0x02]"
  by code_simp

theorem save_load_restores_witness:
  "\<exists>g. map_of (rm_factions (LoadFromDB demo_env (Some [(1, 0, 0x11), (2, 0, 0x02)]) ReputationMgr_new)) 0 = Some g
    \<and> fs_Standing g = 0 \<and> fs_Flags g = 0x11"
proof -
  have "map_of [(1, 0, 0x11), (2, 0, 0x02)] = exec_rep (fst (SaveToDB demo_mgr)) Map.empty"
    by (simp add: demo_saved fun_eq_iff)
  moreover have "\<not> rank_of demo_env demo_ours_state \<le> REP_HOSTILE" by code_simp
  moreover have "\<not> has_flag (default_flags demo_env demo_ours_state) FACTION_FLAG_INACTIVE" by code_simp
  moreover have "has_flag (fs_Flags demo_ours_state) FACTION_FLAG_VISIBLE" by code_simp
  ultimately show ?thesis
    using save_load_restores[OF demo_store_ok, of None ReputationMgr_new Map.empty demo_mgr "[(1, 0, 0x11), (2, 0, 0x02)]" 0 demo_ours_state ReputationMgr_new]
      demo_loaded by (simp add: rows_of_def demo_mgr_def demo_ours_state_def)
qed

subsection \<open>Packets\<close>

text \<open>What a client reads from the packets of standings: the entries after the three head fields.\<close>

fun pairs_of :: "field list \<Rightarrow> (u32 \<times> u32) list" where
  "pairs_of (F_u32 a # F_u32 b # fs) = (a, b) # pairs_of fs"
| "pairs_of fs = []"

fun reported :: "rep_effect \<Rightarrow> (u32 \<times> u32) list" where
  "reported (Send SMSG_SET_FACTION_STANDING (a # b # c # fs)) = pairs_of fs"
| "reported x = []"

lemma pairs_of_standings:
  "pairs_of (concat (map (\<lambda>(k, f). standing_fields f) xs) @ [F_bits n v]) =
     map (\<lambda>(k, f). (fs_ListID f, word_of_int (fs_Standing f))) xs"
  by (induction xs) (auto simp: standing_fields_def)

lemma own_log:
  "rm_log (fold (\<lambda>(k, f). log_effect (standing_packet 1 (standing_fields f) True)) xs s) =
     rm_log s @ map (\<lambda>(k, f). standing_packet 1 (standing_fields f) True) xs"
  by (induction xs arbitrary: s) (auto simp: log_effect_def)

lemma reported_own: "concat (map (reported \<circ> (\<lambda>(k, f). standing_packet 1 (standing_fields f) True)) xs) =
    map (\<lambda>(k, f). (fs_ListID f, word_of_int (fs_Standing f))) xs"
  by (induction xs) (auto simp: standing_packet_def standing_fields_def)

lemma mset_own_others:
  "mset (map g (filter (\<lambda>x. P x \<and> Q x) xs)) + mset (map g (filter (\<lambda>x. P x \<and> \<not> Q x) xs)) = mset (map g (filter P xs))"
  by (induction xs) auto

text \<open>\<open>SendState\<close> tells the client the current standing of every faction that needs sending, each
  exactly once, and nothing else; afterwards none needs sending.\<close>

theorem SendState_reports:
  "\<exists>ps. rm_log (SendState lid s) = rm_log s @ ps
    \<and> mset (concat (map reported ps)) = mset (map (\<lambda>(k, f). (fs_ListID f, word_of_int (fs_Standing f)))
        (filter (\<lambda>(k, f). fs_needSend f) (rm_factions s)))
    \<and> filter (\<lambda>(k, f). fs_needSend f) (rm_factions (SendState lid s)) = []"
proof -
  let ?own = "filter (\<lambda>(k, f). fs_needSend f \<and> fs_ListID f = lid) (rm_factions s)"
    and ?oth = "filter (\<lambda>(k, f). fs_needSend f \<and> fs_ListID f \<noteq> lid) (rm_factions s)"
  let ?ps = "map (\<lambda>(k, f). standing_packet 1 (standing_fields f) True) ?own
    @ [standing_packet (length ?oth) (concat (map (\<lambda>(k, f). standing_fields f) ?oth)) False]"
  have log: "rm_log (SendState lid s) = rm_log s @ ?ps"
    by (simp add: SendState_def Let_def log_effect_def own_log[unfolded One_nat_def])
  have "concat (map reported ?ps) = map (\<lambda>(k, f). (fs_ListID f, word_of_int (fs_Standing f))) ?own
      @ map (\<lambda>(k, f). (fs_ListID f, word_of_int (fs_Standing f))) ?oth"
    using reported_own[of ?own] by (simp add: standing_packet_def pairs_of_standings)
  then have "mset (concat (map reported ?ps)) = mset (map (\<lambda>(k, f). (fs_ListID f, word_of_int (fs_Standing f)))
        (filter (\<lambda>(k, f). fs_needSend f) (rm_factions s)))"
    using mset_own_others[of "\<lambda>(k, f). (fs_ListID f, word_of_int (fs_Standing f))" "\<lambda>(k, f). fs_needSend f" "\<lambda>(k, f). fs_ListID f = lid" "rm_factions s"]
    by (simp add: split_def)
  moreover have "filter (\<lambda>(k, f). fs_needSend f) (rm_factions (SendState lid s)) = []"
    by (auto simp: sm_map_def filter_empty_conv)
  ultimately show ?thesis using log by blast
qed

definition initial_entry :: "(u32 \<times> FactionState) list \<Rightarrow> nat \<Rightarrow> field list" where
  "initial_entry m i = (case map_of m (of_nat i) of None \<Rightarrow> [F_u8 0, F_u32 0]
     | Some f \<Rightarrow> [F_u8 (fs_Flags f), F_u32 (word_of_int (fs_Standing f))])"

lemma absent_entries:
  assumes "a \<le> b" and "b \<le> 256" and "\<And>i. a \<le> i \<Longrightarrow> i < b \<Longrightarrow> map_of m (of_nat i) = None"
  shows "absent_fields (of_nat a) (of_nat b) = concat (map (initial_entry m) [a..<b])"
proof -
  have "unat (of_nat b - of_nat a :: u32) = b - a"
    using assms(1,2) by (simp flip: of_nat_diff add: unat_of_nat)
  moreover have "map (initial_entry m) [a..<b] = map (\<lambda>_. [F_u8 0, F_u32 0]) [a..<b]"
    using assms(3) by (simp add: initial_entry_def)
  ultimately show ?thesis by (simp add: absent_fields_def map_replicate_const)
qed

lemma initial_entries:
  "sm_ok m \<Longrightarrow> a \<le> 256 \<Longrightarrow> (\<And>k. k \<in> fst ` set m \<Longrightarrow> a \<le> unat k \<and> unat k < 256) \<Longrightarrow>
     initial_fields (of_nat a) m = concat (map (initial_entry m) [a..<256])"
proof (induction m arbitrary: a)
  case Nil
  then show ?case using absent_entries[of a 256 "[]"] by simp
next
  case (Cons x m)
  obtain k f where x: "x = (k, f)" by (cases x)
  let ?k = "unat k"
  have k: "a \<le> ?k" "?k < 256" and gt: "\<And>l. l \<in> fst ` set m \<Longrightarrow> k < l" and ok: "sm_ok m"
    using Cons.prems x by (auto simp: sm_ok_Cons)
  have kn: "(of_nat ?k :: u32) = k" by simp
  have none: "map_of (x # m) (of_nat i) = None" if "a \<le> i" "i < ?k" for i
  proof -
    have "unat (of_nat i :: u32) = i" using that k by (simp add: unat_of_nat)
    then have "(of_nat i :: u32) < k" using that by (simp add: word_less_nat_alt)
    then show ?thesis using gt x by (force simp: map_of_eq_None_iff)
  qed
  have "initial_fields (k + 1) m = concat (map (initial_entry m) [Suc ?k..<256])"
  proof -
    have "Suc ?k \<le> unat l \<and> unat l < 256" if "l \<in> fst ` set m" for l
      using gt[OF that] Cons.prems(3)[of l] that x by (auto simp: word_less_nat_alt Suc_le_eq)
    then have "initial_fields (of_nat (Suc ?k)) m = concat (map (initial_entry m) [Suc ?k..<256])"
      using Cons.IH[OF ok, of "Suc ?k"] k by simp
    moreover have "(of_nat (Suc ?k) :: u32) = k + 1" by simp
    ultimately show ?thesis by (simp only:)
  qed
  also have "\<dots> = concat (map (initial_entry (x # m)) [Suc ?k..<256])"
  proof (intro arg_cong[of _ _ concat] map_cong refl)
    fix i assume i: "i \<in> set [Suc ?k..<256]"
    then have "(of_nat i :: u32) \<noteq> k" by (auto simp: word_unat_eq_iff unat_of_nat)
    then show "initial_entry m i = initial_entry (x # m) i" by (simp add: initial_entry_def x)
  qed
  moreover have "initial_entry (x # m) ?k = [F_u8 (fs_Flags f), F_u32 (word_of_int (fs_Standing f))]"
    by (simp add: initial_entry_def x)
  moreover have "[a..<256] = [a..<?k] @ ?k # [Suc ?k..<256]"
    using k upt_add_eq_append[of a ?k "256 - ?k"] upt_conv_Cons[OF k(2)] by simp
  ultimately show ?case
    using absent_entries[of a ?k "x # m"] k none by (simp add: x)
qed

text \<open>The packet of all reputations is positional: with list ids below 256 it has 256 entries, and
  entry \<open>i\<close> holds the flags and standing of the faction with list id \<open>i\<close>, zeros when there is none.\<close>

theorem SendInitialReputations_positional:
  assumes "sm_ok (rm_factions s)" and "\<And>k. k \<in> fst ` set (rm_factions s) \<Longrightarrow> k < 256"
  shows "rm_log (SendInitialReputations s) = rm_log s @ [Send SMSG_INITIALIZE_FACTIONS
     (concat (map (initial_entry (rm_factions s)) [0..<256]) @ replicate 256 (F_bits 1 0))]"
proof -
  have "unat k < 256" if "k \<in> fst ` set (rm_factions s)" for k
    using assms(2)[OF that] by (simp add: word_less_nat_alt)
  then have "initial_fields 0 (rm_factions s) = concat (map (initial_entry (rm_factions s)) [0..<256])"
    using initial_entries[OF assms(1), of 0] by simp
  then show ?thesis by (simp add: SendInitialReputations_def Let_def log_effect_def)
qed

theorem SendInitialReputations_positional_witness:
  "\<exists>fs. rm_log (SendInitialReputations demo_mgr) = rm_log demo_mgr @ [Send SMSG_INITIALIZE_FACTIONS fs]"
proof -
  have "map fst (rm_factions demo_mgr) = [0, 5]" by code_simp
  then have "sm_ok (rm_factions demo_mgr)" and "fst ` set (rm_factions demo_mgr) = {0, 5}"
    by (simp add: sm_ok_def) (metis \<open>map fst (rm_factions demo_mgr) = [0, 5]\<close> list.set(1,2) list.set_map)
  moreover have "k < 256" if "k \<in> {0, 5}" for k :: u32 using that by auto
  ultimately show ?thesis using SendInitialReputations_positional[of demo_mgr] by blast
qed

subsection \<open>The bonus of the trading post\<close>

definition bonus :: "int \<Rightarrow> int" where
  "bonus st = int32_of_real (f64_mul (of_int st) f64_1_2)"

text \<open>With a trading post the bonus is applied again for every faction of the spillover table that
  gains: the last of them and the faction itself get the bonus to the power of their number.\<close>

theorem trading_post_compounds:
  assumes "re_trading_post env" and "\<And>x. x \<in> set ts \<Longrightarrow> fst x \<noteq> 0 \<and> re_store env (fst x) \<noteq> None \<and> 7 \<le> unat (snd (snd x))"
  shows "\<exists>t. spill_template env inc ts st s = Some ((bonus ^^ length ts) st, t)"
  using assms(2)
proof (induction ts arbitrary: st s)
  case (Cons x ts)
  obtain i rate rank where x: "x = (i, rate, rank)" by (cases x)
  obtain e where e: "re_store env i = Some e" using Cons.prems[of x] x by auto
  have "rank_val r \<le> 7" for r by (cases r) simp_all
  then have r: "rank_val (GetRank env (Some e) s) \<le> unat rank" using Cons.prems[of x] x by (auto intro: le_trans)
  have "i \<noteq> 0" using Cons.prems[of x] x by simp
  then have "spill_template env inc (x # ts) st s = spill_template env inc ts (bonus st)
      (snd (SetOneFactionReputation env e (int32_of_real (f32_mul (f32_of_int (bonus st)) rate)) inc s))"
    using e r assms(1) by (simp add: x bonus_def Let_def)
  then show ?case using Cons.IH[of "bonus st"] Cons.prems by (simp add: funpow_swap1)
qed simp

theorem trading_post_compounds_witness:
  "\<exists>t. spill_template demo_env True [(2, 1, 7), (2, 1, 7)] 100 demo_mgr = Some (bonus (bonus 100), t)"
  using trading_post_compounds[of demo_env "[(2, 1, 7), (2, 1, 7)]" True 100 demo_mgr]
  by (simp add: demo_defs)

end
