(* ===== verification/ChannelData.thy ===== *)
theory ChannelData
  imports SortedMap PackedData "HOL-Library.Char_ord"
begin

text \<open>
  The data of the chat channels: \<open>src/server/game/Chat/Channels/Channel.h\<close>, the players they look up
  in \<open>ObjectAccessor\<close>, and the text functions they use. Strings are byte lists; a \<open>char const*\<close> is
  read up to its first zero byte (\<open>c_str\<close>). A packet is an opcode and the fields in the order they are
  written; \<open>write_packet\<close> writes them into a buffer.
\<close>

subsection \<open>Text\<close>

type_synonym cstring = "u8 list"

definition cstr :: "string \<Rightarrow> cstring" where
  "cstr s = map (\<lambda>c. word_of_nat (of_char c)) s"

definition c_str :: "cstring \<Rightarrow> cstring" where
  "c_str s = takeWhile (\<lambda>c. c \<noteq> 0) s"

text \<open>\<open>tolower\<close> and \<open>towlower\<close> in the C locale, and what rests on them.\<close>

definition ascii_lower :: "u8 \<Rightarrow> u8" where
  "ascii_lower c = (if 65 \<le> c \<and> c \<le> 90 then c + 32 else c)"

definition stricmp_eq :: "cstring \<Rightarrow> cstring \<Rightarrow> bool" where
  "stricmp_eq a b \<longleftrightarrow> map ascii_lower (c_str a) = map ascii_lower (c_str b)"

text \<open>The loop of \<open>Tokenizer\<close>: \<open>cur\<close> holds the bytes from \<open>posold\<close> to \<open>posnew\<close>.\<close>

fun tok_loop :: "u8 \<Rightarrow> cstring \<Rightarrow> cstring \<Rightarrow> cstring list" where
  "tok_loop sep cur [] = (if cur \<noteq> [] then [cur] else [])"
| "tok_loop sep cur (c # cs) =
     (if c = sep then cur # tok_loop sep [] cs
      else if c = 0 then (if cur \<noteq> [] then [cur] else [])
      else tok_loop sep (cur @ [c]) cs)"

definition Tokenizer :: "cstring \<Rightarrow> u8 \<Rightarrow> cstring list" where
  "Tokenizer src sep = tok_loop sep [] src"

text \<open>\<open>operator<<\<close> of an unsigned integer, and \<open>atol\<close> (which saturates where \<open>long\<close> ends).\<close>

fun decimal :: "nat \<Rightarrow> cstring" where
  "decimal n = (if n < 10 then [48 + word_of_nat n] else decimal (n div 10) @ [48 + word_of_nat (n mod 10)])"

declare decimal.simps [simp del]

definition is_digit :: "u8 \<Rightarrow> bool" where
  "is_digit c \<longleftrightarrow> 48 \<le> c \<and> c \<le> 57"

definition is_space :: "u8 \<Rightarrow> bool" where
  "is_space c \<longleftrightarrow> c = 32 \<or> (9 \<le> c \<and> c \<le> 13)"

definition digits_val :: "cstring \<Rightarrow> int" where
  "digits_val s = foldl (\<lambda>a c. a * 10 + (uint c - 48)) 0 s"

definition atol :: "cstring \<Rightarrow> int" where
  "atol s =
     (let t = dropWhile is_space s;
          neg = (t \<noteq> [] \<and> hd t = 45);
          u = (if t \<noteq> [] \<and> (hd t = 45 \<or> hd t = 43) then tl t else t);
          v = digits_val (takeWhile is_digit u)
      in if neg then max (- v) (- (2 ^ 63)) else min v (2 ^ 63 - 1))"

subsection \<open>Accounts\<close>

datatype AccountTypes = SEC_PLAYER | SEC_MODERATOR | SEC_GAMEMASTER | SEC_CONFIRMED_GAMEMASTER
  | SEC_REALM_LEADER | SEC_GM_LEADER | SEC_ADMINISTRATOR | SEC_CONSOLE

fun sec_val :: "AccountTypes \<Rightarrow> u32" where
  "sec_val SEC_PLAYER = 0"
| "sec_val SEC_MODERATOR = 1"
| "sec_val SEC_GAMEMASTER = 2"
| "sec_val SEC_CONFIRMED_GAMEMASTER = 3"
| "sec_val SEC_REALM_LEADER = 4"
| "sec_val SEC_GM_LEADER = 5"
| "sec_val SEC_ADMINISTRATOR = 6"
| "sec_val SEC_CONSOLE = 7"

definition IsPlayerAccount :: "u32 \<Rightarrow> bool" where
  "IsPlayerAccount l \<longleftrightarrow> l = sec_val SEC_PLAYER"

definition IsModeratorAccount :: "u32 \<Rightarrow> bool" where
  "IsModeratorAccount l \<longleftrightarrow> l \<ge> sec_val SEC_MODERATOR \<and> l \<le> sec_val SEC_CONSOLE"

subsection \<open>Notices and flags\<close>

datatype ChatNotify = CHAT_JOINED_NOTICE | CHAT_LEFT_NOTICE | CHAT_YOU_JOINED_NOTICE
  | CHAT_YOU_LEFT_NOTICE | CHAT_WRONG_PASSWORD_NOTICE | CHAT_NOT_MEMBER_NOTICE
  | CHAT_NOT_MODERATOR_NOTICE | CHAT_PASSWORD_CHANGED_NOTICE | CHAT_OWNER_CHANGED_NOTICE
  | CHAT_PLAYER_NOT_FOUND_NOTICE | CHAT_NOT_OWNER_NOTICE | CHAT_CHANNEL_OWNER_NOTICE
  | CHAT_MODE_CHANGE_NOTICE | CHAT_ANNOUNCEMENTS_ON_NOTICE | CHAT_ANNOUNCEMENTS_OFF_NOTICE
  | CHAT_MODERATION_ON_NOTICE | CHAT_MODERATION_OFF_NOTICE | CHAT_MUTED_NOTICE
  | CHAT_PLAYER_KICKED_NOTICE | CHAT_BANNED_NOTICE | CHAT_PLAYER_BANNED_NOTICE
  | CHAT_PLAYER_UNBANNED_NOTICE | CHAT_PLAYER_NOT_BANNED_NOTICE | CHAT_PLAYER_ALREADY_MEMBER_NOTICE
  | CHAT_INVITE_NOTICE | CHAT_INVITE_WRONG_FACTION_NOTICE | CHAT_WRONG_FACTION_NOTICE
  | CHAT_INVALID_NAME_NOTICE | CHAT_NOT_MODERATED_NOTICE | CHAT_PLAYER_INVITED_NOTICE
  | CHAT_PLAYER_INVITE_BANNED_NOTICE | CHAT_THROTTLED_NOTICE | CHAT_NOT_IN_AREA_NOTICE
  | CHAT_NOT_IN_LFG_NOTICE | CHAT_VOICE_ON_NOTICE | CHAT_VOICE_OFF_NOTICE
  | CHAT_TRIAL_RESTRICTED | CHAT_NOT_ALLOWED_IN_CHANNEL

fun notify_val :: "ChatNotify \<Rightarrow> u8" where
  "notify_val CHAT_JOINED_NOTICE = 0x0"
| "notify_val CHAT_LEFT_NOTICE = 0x1"
| "notify_val CHAT_YOU_JOINED_NOTICE = 0x2"
| "notify_val CHAT_YOU_LEFT_NOTICE = 0x3"
| "notify_val CHAT_WRONG_PASSWORD_NOTICE = 0x4"
| "notify_val CHAT_NOT_MEMBER_NOTICE = 0x5"
| "notify_val CHAT_NOT_MODERATOR_NOTICE = 0x6"
| "notify_val CHAT_PASSWORD_CHANGED_NOTICE = 0x7"
| "notify_val CHAT_OWNER_CHANGED_NOTICE = 0x8"
| "notify_val CHAT_PLAYER_NOT_FOUND_NOTICE = 0x9"
| "notify_val CHAT_NOT_OWNER_NOTICE = 0xa"
| "notify_val CHAT_CHANNEL_OWNER_NOTICE = 0xb"
| "notify_val CHAT_MODE_CHANGE_NOTICE = 0xc"
| "notify_val CHAT_ANNOUNCEMENTS_ON_NOTICE = 0xd"
| "notify_val CHAT_ANNOUNCEMENTS_OFF_NOTICE = 0xe"
| "notify_val CHAT_MODERATION_ON_NOTICE = 0xf"
| "notify_val CHAT_MODERATION_OFF_NOTICE = 0x10"
| "notify_val CHAT_MUTED_NOTICE = 0x11"
| "notify_val CHAT_PLAYER_KICKED_NOTICE = 0x12"
| "notify_val CHAT_BANNED_NOTICE = 0x13"
| "notify_val CHAT_PLAYER_BANNED_NOTICE = 0x14"
| "notify_val CHAT_PLAYER_UNBANNED_NOTICE = 0x15"
| "notify_val CHAT_PLAYER_NOT_BANNED_NOTICE = 0x16"
| "notify_val CHAT_PLAYER_ALREADY_MEMBER_NOTICE = 0x17"
| "notify_val CHAT_INVITE_NOTICE = 0x18"
| "notify_val CHAT_INVITE_WRONG_FACTION_NOTICE = 0x19"
| "notify_val CHAT_WRONG_FACTION_NOTICE = 0x1a"
| "notify_val CHAT_INVALID_NAME_NOTICE = 0x1b"
| "notify_val CHAT_NOT_MODERATED_NOTICE = 0x1c"
| "notify_val CHAT_PLAYER_INVITED_NOTICE = 0x1d"
| "notify_val CHAT_PLAYER_INVITE_BANNED_NOTICE = 0x1e"
| "notify_val CHAT_THROTTLED_NOTICE = 0x1f"
| "notify_val CHAT_NOT_IN_AREA_NOTICE = 0x20"
| "notify_val CHAT_NOT_IN_LFG_NOTICE = 0x21"
| "notify_val CHAT_VOICE_ON_NOTICE = 0x22"
| "notify_val CHAT_VOICE_OFF_NOTICE = 0x23"
| "notify_val CHAT_TRIAL_RESTRICTED = 0x24"
| "notify_val CHAT_NOT_ALLOWED_IN_CHANNEL = 0x25"

definition CHANNEL_FLAG_NONE :: u8 where "CHANNEL_FLAG_NONE = 0x0"
definition CHANNEL_FLAG_CUSTOM :: u8 where "CHANNEL_FLAG_CUSTOM = 0x1"
definition CHANNEL_FLAG_TRADE :: u8 where "CHANNEL_FLAG_TRADE = 0x4"
definition CHANNEL_FLAG_NOT_LFG :: u8 where "CHANNEL_FLAG_NOT_LFG = 0x8"
definition CHANNEL_FLAG_GENERAL :: u8 where "CHANNEL_FLAG_GENERAL = 0x10"
definition CHANNEL_FLAG_CITY :: u8 where "CHANNEL_FLAG_CITY = 0x20"
definition CHANNEL_FLAG_LFG :: u8 where "CHANNEL_FLAG_LFG = 0x40"
definition CHANNEL_FLAG_VOICE :: u8 where "CHANNEL_FLAG_VOICE = 0x80"

lemmas channel_flag_defs =
  CHANNEL_FLAG_NONE_def CHANNEL_FLAG_CUSTOM_def CHANNEL_FLAG_TRADE_def CHANNEL_FLAG_NOT_LFG_def
  CHANNEL_FLAG_GENERAL_def CHANNEL_FLAG_CITY_def CHANNEL_FLAG_LFG_def CHANNEL_FLAG_VOICE_def

definition CHANNEL_DBC_FLAG_NONE :: u32 where "CHANNEL_DBC_FLAG_NONE = 0x0"
definition CHANNEL_DBC_FLAG_INITIAL :: u32 where "CHANNEL_DBC_FLAG_INITIAL = 0x1"
definition CHANNEL_DBC_FLAG_ZONE_DEP :: u32 where "CHANNEL_DBC_FLAG_ZONE_DEP = 0x2"
definition CHANNEL_DBC_FLAG_GLOBAL :: u32 where "CHANNEL_DBC_FLAG_GLOBAL = 0x4"
definition CHANNEL_DBC_FLAG_TRADE :: u32 where "CHANNEL_DBC_FLAG_TRADE = 0x8"
definition CHANNEL_DBC_FLAG_CITY_ONLY :: u32 where "CHANNEL_DBC_FLAG_CITY_ONLY = 0x10"
definition CHANNEL_DBC_FLAG_CITY_ONLY2 :: u32 where "CHANNEL_DBC_FLAG_CITY_ONLY2 = 0x20"
definition CHANNEL_DBC_FLAG_DEFENSE :: u32 where "CHANNEL_DBC_FLAG_DEFENSE = 0x10000"
definition CHANNEL_DBC_FLAG_GUILD_REQ :: u32 where "CHANNEL_DBC_FLAG_GUILD_REQ = 0x20000"
definition CHANNEL_DBC_FLAG_LFG :: u32 where "CHANNEL_DBC_FLAG_LFG = 0x40000"
definition CHANNEL_DBC_FLAG_UNK1 :: u32 where "CHANNEL_DBC_FLAG_UNK1 = 0x80000"

lemmas channel_dbc_flag_defs =
  CHANNEL_DBC_FLAG_NONE_def CHANNEL_DBC_FLAG_INITIAL_def CHANNEL_DBC_FLAG_ZONE_DEP_def CHANNEL_DBC_FLAG_GLOBAL_def
  CHANNEL_DBC_FLAG_TRADE_def CHANNEL_DBC_FLAG_CITY_ONLY_def CHANNEL_DBC_FLAG_CITY_ONLY2_def CHANNEL_DBC_FLAG_DEFENSE_def
  CHANNEL_DBC_FLAG_GUILD_REQ_def CHANNEL_DBC_FLAG_LFG_def CHANNEL_DBC_FLAG_UNK1_def

definition MEMBER_FLAG_NONE :: u8 where "MEMBER_FLAG_NONE = 0x0"
definition MEMBER_FLAG_OWNER :: u8 where "MEMBER_FLAG_OWNER = 0x1"
definition MEMBER_FLAG_MODERATOR :: u8 where "MEMBER_FLAG_MODERATOR = 0x2"
definition MEMBER_FLAG_VOICED :: u8 where "MEMBER_FLAG_VOICED = 0x4"
definition MEMBER_FLAG_MUTED :: u8 where "MEMBER_FLAG_MUTED = 0x8"
definition MEMBER_FLAG_CUSTOM :: u8 where "MEMBER_FLAG_CUSTOM = 0x10"
definition MEMBER_FLAG_MIC_MUTED :: u8 where "MEMBER_FLAG_MIC_MUTED = 0x20"

lemmas member_flag_defs =
  MEMBER_FLAG_NONE_def MEMBER_FLAG_OWNER_def MEMBER_FLAG_MODERATOR_def MEMBER_FLAG_VOICED_def
  MEMBER_FLAG_MUTED_def MEMBER_FLAG_CUSTOM_def MEMBER_FLAG_MIC_MUTED_def

subsection \<open>Members\<close>

record PlayerInfo =
  pi_player :: u64
  pi_flags :: u8
  pi_LocaleFilter :: u32

definition pi_IsOwner :: "PlayerInfo \<Rightarrow> bool" where
  "pi_IsOwner i \<longleftrightarrow> pi_flags i AND MEMBER_FLAG_OWNER \<noteq> 0"

definition pi_SetOwner :: "bool \<Rightarrow> PlayerInfo \<Rightarrow> PlayerInfo" where
  "pi_SetOwner state i = i\<lparr>pi_flags := (if state then pi_flags i OR MEMBER_FLAG_OWNER else pi_flags i AND NOT MEMBER_FLAG_OWNER)\<rparr>"

definition pi_IsModerator :: "PlayerInfo \<Rightarrow> bool" where
  "pi_IsModerator i \<longleftrightarrow> pi_flags i AND MEMBER_FLAG_MODERATOR \<noteq> 0"

definition pi_SetModerator :: "bool \<Rightarrow> PlayerInfo \<Rightarrow> PlayerInfo" where
  "pi_SetModerator state i = i\<lparr>pi_flags := (if state then pi_flags i OR MEMBER_FLAG_MODERATOR else pi_flags i AND NOT MEMBER_FLAG_MODERATOR)\<rparr>"

definition pi_IsMuted :: "PlayerInfo \<Rightarrow> bool" where
  "pi_IsMuted i \<longleftrightarrow> pi_flags i AND MEMBER_FLAG_MUTED \<noteq> 0"

definition pi_SetMuted :: "bool \<Rightarrow> PlayerInfo \<Rightarrow> PlayerInfo" where
  "pi_SetMuted state i = i\<lparr>pi_flags := (if state then pi_flags i OR MEMBER_FLAG_MUTED else pi_flags i AND NOT MEMBER_FLAG_MUTED)\<rparr>"

subsection \<open>Packets\<close>

datatype ch_field = C_bits nat u32 | C_flush | C_guid u64 | C_u8 u8 | C_u32 u32 | C_u64 u64 | C_str cstring

datatype ch_opcode = SMSG_CHANNEL_NOTIFY | SMSG_CHANNEL_NOTIFY_JOINED | SMSG_CHANNEL_NOTIFY_LEFT
  | SMSG_CHANNEL_LIST | SMSG_USERLIST_ADD | SMSG_USERLIST_REMOVE | SMSG_MESSAGE_CHAT

type_synonym ch_packet = "ch_opcode \<times> ch_field list"

fun write_ch_field :: "ch_field \<Rightarrow> unit bb" where
  "write_ch_field (C_bits n v) = WriteBits v n"
| "write_ch_field C_flush = FlushBits"
| "write_ch_field (C_guid g) = appendPackGUID g"
| "write_ch_field (C_u8 v) = append_val v"
| "write_ch_field (C_u32 v) = append_val v"
| "write_ch_field (C_u64 v) = append_val v"
| "write_ch_field (C_str s) = WriteString s"

definition write_packet :: "ch_packet \<Rightarrow> unit bb" where
  "write_packet p = forS write_ch_field (snd p)"

subsection \<open>State\<close>

text \<open>The statements sent to the table of channels, and the effects of an operation in order: packets
  to the session of a player, the changes of a player's list of channels, statements.\<close>

datatype ch_stmt =
    InsChannel cstring u32
  | UpdChannel bool bool cstring cstring cstring u32
  | UpdChannelUsage cstring u32

datatype ch_event = ToPlayer u64 ch_packet | JoinedChannel u64 | LeftChannel u64 | Exec ch_stmt

record Channel =
  m_Players :: "(u64 \<times> PlayerInfo) list"
  m_banned :: "u64 list"
  m_announce :: bool
  m_special :: bool
  m_ownership :: bool
  m_name :: cstring
  m_password :: cstring
  m_flags :: u8
  m_channelId :: u32
  m_ownerGUID :: u64
  m_IsSaved :: bool
  m_Team :: u32
  m_log :: "ch_event list"

text \<open>A player object, as far as the channels look at it.\<close>

record ChPlayer =
  cp_guid :: u64
  cp_inWorld :: bool
  cp_name :: cstring
  cp_security :: AccountTypes
  cp_team :: u32
  cp_group :: bool
  cp_noLocaleFilter :: bool
  cp_locale :: nat
  cp_account :: u64
  cp_gmVisible :: bool
  cp_ignores :: "u32 \<Rightarrow> bool"

text \<open>A row of the table of channels (\<open>row_banned\<close> may be \<open>NULL\<close>) and the table, by name and team.\<close>

record ChannelRow =
  row_announce :: bool
  row_ownership :: bool
  row_password :: cstring
  row_banned :: "cstring option"

type_synonym ch_table = "cstring \<times> u32 \<Rightarrow> ChannelRow option"

text \<open>
  What the operations ask: the player objects in the order of their hash map, the cache of
  \<open>ObjectAccessor\<close> and its size, the settings, the store of built-in channels (their flags), the
  visibility of players, names of players not in the world, chat packets, and the content of
  memory a \<open>PlayerInfo\<close> is default-constructed in (its constructor sets only the locale filter).
\<close>

record ch_env =
  ce_objects :: "ChPlayer list"
  ce_cache :: "u32 \<Rightarrow> ChPlayer option"
  ce_cache_size :: u32
  ce_two_side :: bool
  ce_silent_gm :: bool
  ce_restricted_lfg :: bool
  ce_preserve :: bool
  ce_gm_who_level :: u32
  ce_realm :: u32
  ce_store :: "u32 \<Rightarrow> u32 option"
  ce_visible :: "u64 \<Rightarrow> u64 \<Rightarrow> bool"
  ce_char_name :: "u64 \<Rightarrow> cstring option"
  ce_chat :: "u64 \<Rightarrow> cstring \<Rightarrow> u32 \<Rightarrow> cstring \<Rightarrow> ch_field list"
  ce_memory :: PlayerInfo

subsection \<open>Looking up players\<close>

definition holder_Find :: "ch_env \<Rightarrow> u64 \<Rightarrow> ChPlayer option" where
  "holder_Find e g = find (\<lambda>p. cp_guid p = g) (ce_objects e)"

definition FindPlayer :: "ch_env \<Rightarrow> u64 \<Rightarrow> ChPlayer option" where
  "FindPlayer e g =
     (case (if GUID_LOPART g < ce_cache_size e then ce_cache e (GUID_LOPART g) else holder_Find e g) of
        None \<Rightarrow> None
      | Some p \<Rightarrow> if cp_inWorld p then Some p else None)"

definition FindPlayerByName :: "ch_env \<Rightarrow> cstring \<Rightarrow> ChPlayer option" where
  "FindPlayerByName e name =
     find (\<lambda>p. cp_inWorld p \<and> map ascii_lower (c_str name) = map ascii_lower (cp_name p)) (ce_objects e)"

definition GetPlayerNameByGUID :: "ch_env \<Rightarrow> u64 \<Rightarrow> cstring option" where
  "GetPlayerNameByGUID e g = (case FindPlayer e g of Some p \<Rightarrow> Some (cp_name p) | None \<Rightarrow> ce_char_name e g)"

definition security_of :: "ch_env \<Rightarrow> u64 \<Rightarrow> u32" where
  "security_of e g = (case FindPlayer e g of Some p \<Rightarrow> sec_val (cp_security p) | None \<Rightarrow> sec_val SEC_PLAYER)"

end
