(* ===== verification/Channels.thy ===== *)
theory Channels
  imports ChannelData
begin

text \<open>
  The operations of a chat channel: \<open>src/server/game/Chat/Channels/Channel.h\<close> and \<open>Channel.cpp\<close> (the
  build without \<open>CROSS\<close>), one definition per operation with every guard in the order of the code.
  \<open>m_Players[p]\<close> inserts a default-constructed entry where there is none (\<open>pl_touch\<close>).
\<close>

subsection \<open>Sending\<close>

definition ch_effect :: "ch_event \<Rightarrow> Channel \<Rightarrow> Channel" where
  "ch_effect x c = c\<lparr>m_log := m_log c @ [x]\<rparr>"

definition SendToOne :: "ch_env \<Rightarrow> ch_packet \<Rightarrow> u64 \<Rightarrow> Channel \<Rightarrow> Channel" where
  "SendToOne e pkt who c = (case FindPlayer e who of None \<Rightarrow> c | Some _ \<Rightarrow> ch_effect (ToPlayer who pkt) c)"

definition send_member :: "ch_env \<Rightarrow> ch_packet \<Rightarrow> u64 \<Rightarrow> u64 \<Rightarrow> Channel \<Rightarrow> Channel" where
  "send_member e pkt p g c =
     (case FindPlayer e g of
        None \<Rightarrow> c
      | Some pl \<Rightarrow> if p = 0 \<or> \<not> cp_ignores pl (GUID_LOPART p) then ch_effect (ToPlayer g pkt) c else c)"

definition SendToAll :: "ch_env \<Rightarrow> ch_packet \<Rightarrow> u64 \<Rightarrow> Channel \<Rightarrow> Channel" where
  "SendToAll e pkt p c = fold (\<lambda>x. send_member e pkt p (fst x)) (m_Players c) c"

definition SendToAllButOne :: "ch_env \<Rightarrow> ch_packet \<Rightarrow> u64 \<Rightarrow> Channel \<Rightarrow> Channel" where
  "SendToAllButOne e pkt who c =
     fold (\<lambda>x c. if fst x \<noteq> who then SendToOne e pkt (fst x) c else c) (m_Players c) c"

subsection \<open>Queries\<close>

definition IsOn :: "u64 \<Rightarrow> Channel \<Rightarrow> bool" where
  "IsOn who c \<longleftrightarrow> map_of (m_Players c) who \<noteq> None"

definition IsBanned :: "u64 \<Rightarrow> Channel \<Rightarrow> bool" where
  "IsBanned g c \<longleftrightarrow> g \<in> set (m_banned c)"

definition IsWorld :: "Channel \<Rightarrow> bool" where
  "IsWorld c \<longleftrightarrow> map ascii_lower (m_name c) = cstr ''world''"

definition IsConstant :: "Channel \<Rightarrow> bool" where
  "IsConstant c \<longleftrightarrow> m_channelId c \<noteq> 0 \<or> m_special c"

definition ch_HasFlag :: "u8 \<Rightarrow> Channel \<Rightarrow> bool" where
  "ch_HasFlag f c \<longleftrightarrow> m_flags c AND f \<noteq> 0"

definition IsLFG :: "Channel \<Rightarrow> bool" where
  "IsLFG c \<longleftrightarrow> m_flags c AND CHANNEL_FLAG_LFG \<noteq> 0"

definition GetPlayerFlags :: "u64 \<Rightarrow> Channel \<Rightarrow> u8" where
  "GetPlayerFlags p c = (case map_of (m_Players c) p of None \<Rightarrow> 0 | Some i \<Rightarrow> pi_flags i)"

text \<open>\<open>m_Players[p]\<close>: its value, the entry it creates, and an update through it.\<close>

definition pl_at :: "ch_env \<Rightarrow> u64 \<Rightarrow> Channel \<Rightarrow> PlayerInfo" where
  "pl_at e p c = (case map_of (m_Players c) p of
     None \<Rightarrow> (ce_memory e)\<lparr>pi_LocaleFilter := 0xFFFFFFFF\<rparr> | Some i \<Rightarrow> i)"

definition pl_touch :: "ch_env \<Rightarrow> u64 \<Rightarrow> Channel \<Rightarrow> Channel" where
  "pl_touch e p c = c\<lparr>m_Players := sm_insert p (pl_at e p c) (m_Players c)\<rparr>"

definition pl_upd :: "ch_env \<Rightarrow> u64 \<Rightarrow> (PlayerInfo \<Rightarrow> PlayerInfo) \<Rightarrow> Channel \<Rightarrow> Channel" where
  "pl_upd e p f c = c\<lparr>m_Players := sm_insert p (f (pl_at e p c)) (m_Players c)\<rparr>"

definition pl_erase :: "u64 \<Rightarrow> Channel \<Rightarrow> Channel" where
  "pl_erase p c = c\<lparr>m_Players := sm_erase p (m_Players c)\<rparr>"

subsection \<open>Notices\<close>

definition notify_head :: "ch_env \<Rightarrow> ChatNotify \<Rightarrow> u64 \<Rightarrow> u64 \<Rightarrow> cstring \<Rightarrow> Channel \<Rightarrow> ch_field list" where
  "notify_head e notify_type sender target sname c =
     [C_bits 6 (ucast (notify_val notify_type)), C_bits 7 (word_of_nat (length (m_name c))),
      C_bits 6 (word_of_nat (length sname)), C_flush,
      C_guid sender, C_guid (case FindPlayer e sender of None \<Rightarrow> 0 | Some p \<Rightarrow> cp_account p),
      C_u32 (if sender \<noteq> 0 then ce_realm e else 0),
      C_guid target, C_u32 (if target \<noteq> 0 then ce_realm e else 0), C_u32 (m_channelId c)]"

definition MakeNotifyPacket :: "ch_env \<Rightarrow> ChatNotify \<Rightarrow> u64 \<Rightarrow> u64 \<Rightarrow> cstring \<Rightarrow> u8 \<Rightarrow> u8 \<Rightarrow> Channel \<Rightarrow> ch_packet" where
  "MakeNotifyPacket e notify_type sender target sname oldf newf c =
     (SMSG_CHANNEL_NOTIFY, notify_head e notify_type sender target sname c
        @ (if notify_type = CHAT_MODE_CHANGE_NOTICE then [C_u8 oldf, C_u8 newf] else [])
        @ [C_str (m_name c), C_str sname])"

definition MakeJoined :: "ch_env \<Rightarrow> u64 \<Rightarrow> Channel \<Rightarrow> ch_packet" where
  "MakeJoined e guid c = MakeNotifyPacket e CHAT_JOINED_NOTICE guid 0 [] 0 0 c"

definition MakeLeft :: "ch_env \<Rightarrow> u64 \<Rightarrow> Channel \<Rightarrow> ch_packet" where
  "MakeLeft e guid c = MakeNotifyPacket e CHAT_LEFT_NOTICE guid 0 [] 0 0 c"

definition MakeWrongPassword :: "ch_env \<Rightarrow> Channel \<Rightarrow> ch_packet" where
  "MakeWrongPassword e c = MakeNotifyPacket e CHAT_WRONG_PASSWORD_NOTICE 0 0 [] 0 0 c"

definition MakeNotMember :: "ch_env \<Rightarrow> Channel \<Rightarrow> ch_packet" where
  "MakeNotMember e c = MakeNotifyPacket e CHAT_NOT_MEMBER_NOTICE 0 0 [] 0 0 c"

definition MakeNotModerator :: "ch_env \<Rightarrow> Channel \<Rightarrow> ch_packet" where
  "MakeNotModerator e c = MakeNotifyPacket e CHAT_NOT_MODERATOR_NOTICE 0 0 [] 0 0 c"

definition MakePasswordChanged :: "ch_env \<Rightarrow> u64 \<Rightarrow> Channel \<Rightarrow> ch_packet" where
  "MakePasswordChanged e guid c = MakeNotifyPacket e CHAT_PASSWORD_CHANGED_NOTICE guid 0 [] 0 0 c"

definition MakeOwnerChanged :: "ch_env \<Rightarrow> u64 \<Rightarrow> Channel \<Rightarrow> ch_packet" where
  "MakeOwnerChanged e guid c = MakeNotifyPacket e CHAT_OWNER_CHANGED_NOTICE guid 0 [] 0 0 c"

definition MakePlayerNotFound :: "ch_env \<Rightarrow> cstring \<Rightarrow> Channel \<Rightarrow> ch_packet" where
  "MakePlayerNotFound e name c = MakeNotifyPacket e CHAT_PLAYER_NOT_FOUND_NOTICE 0 0 name 0 0 c"

definition MakeNotOwner :: "ch_env \<Rightarrow> Channel \<Rightarrow> ch_packet" where
  "MakeNotOwner e c = MakeNotifyPacket e CHAT_NOT_OWNER_NOTICE 0 0 [] 0 0 c"

definition MakeModeChange :: "ch_env \<Rightarrow> u64 \<Rightarrow> u8 \<Rightarrow> Channel \<Rightarrow> ch_packet" where
  "MakeModeChange e guid oldflags c = MakeNotifyPacket e CHAT_MODE_CHANGE_NOTICE guid 0 [] oldflags (GetPlayerFlags guid c) c"

definition MakeAnnouncementsOn :: "ch_env \<Rightarrow> u64 \<Rightarrow> Channel \<Rightarrow> ch_packet" where
  "MakeAnnouncementsOn e guid c = MakeNotifyPacket e CHAT_ANNOUNCEMENTS_ON_NOTICE guid 0 [] 0 0 c"

definition MakeAnnouncementsOff :: "ch_env \<Rightarrow> u64 \<Rightarrow> Channel \<Rightarrow> ch_packet" where
  "MakeAnnouncementsOff e guid c = MakeNotifyPacket e CHAT_ANNOUNCEMENTS_OFF_NOTICE guid 0 [] 0 0 c"

definition MakeMuted :: "ch_env \<Rightarrow> Channel \<Rightarrow> ch_packet" where
  "MakeMuted e c = MakeNotifyPacket e CHAT_MUTED_NOTICE 0 0 [] 0 0 c"

definition MakePlayerKicked :: "ch_env \<Rightarrow> u64 \<Rightarrow> u64 \<Rightarrow> Channel \<Rightarrow> ch_packet" where
  "MakePlayerKicked e bad good c = MakeNotifyPacket e CHAT_PLAYER_KICKED_NOTICE bad good [] 0 0 c"

definition MakeBanned :: "ch_env \<Rightarrow> Channel \<Rightarrow> ch_packet" where
  "MakeBanned e c = MakeNotifyPacket e CHAT_BANNED_NOTICE 0 0 [] 0 0 c"

definition MakePlayerBanned :: "ch_env \<Rightarrow> u64 \<Rightarrow> u64 \<Rightarrow> Channel \<Rightarrow> ch_packet" where
  "MakePlayerBanned e bad good c = MakeNotifyPacket e CHAT_PLAYER_BANNED_NOTICE bad good [] 0 0 c"

definition MakePlayerUnbanned :: "ch_env \<Rightarrow> u64 \<Rightarrow> u64 \<Rightarrow> Channel \<Rightarrow> ch_packet" where
  "MakePlayerUnbanned e bad good c = MakeNotifyPacket e CHAT_PLAYER_UNBANNED_NOTICE bad good [] 0 0 c"

definition MakePlayerNotBanned :: "ch_env \<Rightarrow> cstring \<Rightarrow> Channel \<Rightarrow> ch_packet" where
  "MakePlayerNotBanned e name c = MakeNotifyPacket e CHAT_PLAYER_NOT_BANNED_NOTICE 0 0 name 0 0 c"

definition MakePlayerAlreadyMember :: "ch_env \<Rightarrow> u64 \<Rightarrow> Channel \<Rightarrow> ch_packet" where
  "MakePlayerAlreadyMember e guid c = MakeNotifyPacket e CHAT_PLAYER_ALREADY_MEMBER_NOTICE guid 0 [] 0 0 c"

definition MakeInvite :: "ch_env \<Rightarrow> u64 \<Rightarrow> Channel \<Rightarrow> ch_packet" where
  "MakeInvite e guid c = MakeNotifyPacket e CHAT_INVITE_NOTICE guid 0 [] 0 0 c"

definition MakeInviteWrongFaction :: "ch_env \<Rightarrow> Channel \<Rightarrow> ch_packet" where
  "MakeInviteWrongFaction e c = MakeNotifyPacket e CHAT_INVITE_WRONG_FACTION_NOTICE 0 0 [] 0 0 c"

definition MakeWrongFaction :: "ch_env \<Rightarrow> Channel \<Rightarrow> ch_packet" where
  "MakeWrongFaction e c = MakeNotifyPacket e CHAT_WRONG_FACTION_NOTICE 0 0 [] 0 0 c"

definition MakeInvalidName :: "ch_env \<Rightarrow> Channel \<Rightarrow> ch_packet" where
  "MakeInvalidName e c = MakeNotifyPacket e CHAT_INVALID_NAME_NOTICE 0 0 [] 0 0 c"

definition MakeNotModerated :: "ch_env \<Rightarrow> Channel \<Rightarrow> ch_packet" where
  "MakeNotModerated e c = MakeNotifyPacket e CHAT_NOT_MODERATED_NOTICE 0 0 [] 0 0 c"

definition MakePlayerInvited :: "ch_env \<Rightarrow> cstring \<Rightarrow> Channel \<Rightarrow> ch_packet" where
  "MakePlayerInvited e name c = MakeNotifyPacket e CHAT_PLAYER_INVITED_NOTICE 0 0 name 0 0 c"

definition MakePlayerInviteBanned :: "ch_env \<Rightarrow> cstring \<Rightarrow> Channel \<Rightarrow> ch_packet" where
  "MakePlayerInviteBanned e name c = MakeNotifyPacket e CHAT_PLAYER_INVITE_BANNED_NOTICE 0 0 name 0 0 c"

definition MakeThrottled :: "ch_env \<Rightarrow> Channel \<Rightarrow> ch_packet" where
  "MakeThrottled e c = MakeNotifyPacket e CHAT_THROTTLED_NOTICE 0 0 [] 0 0 c"

definition MakeNotInArea :: "ch_env \<Rightarrow> Channel \<Rightarrow> ch_packet" where
  "MakeNotInArea e c = MakeNotifyPacket e CHAT_NOT_IN_AREA_NOTICE 0 0 [] 0 0 c"

definition MakeNotInLfg :: "ch_env \<Rightarrow> Channel \<Rightarrow> ch_packet" where
  "MakeNotInLfg e c = MakeNotifyPacket e CHAT_NOT_IN_LFG_NOTICE 0 0 [] 0 0 c"

definition MakeVoiceOn :: "ch_env \<Rightarrow> u64 \<Rightarrow> Channel \<Rightarrow> ch_packet" where
  "MakeVoiceOn e guid c = MakeNotifyPacket e CHAT_VOICE_ON_NOTICE guid 0 [] 0 0 c"

definition MakeVoiceOff :: "ch_env \<Rightarrow> u64 \<Rightarrow> Channel \<Rightarrow> ch_packet" where
  "MakeVoiceOff e guid c = MakeNotifyPacket e CHAT_VOICE_OFF_NOTICE guid 0 [] 0 0 c"

definition MakeChannelOwner :: "ch_env \<Rightarrow> Channel \<Rightarrow> ch_packet" where
  "MakeChannelOwner e c =
     (let name = (case GetPlayerNameByGUID e (m_ownerGUID c) of
                    None \<Rightarrow> cstr ''PLAYER_NOT_FOUND''
                  | Some n \<Rightarrow> if n = [] then cstr ''PLAYER_NOT_FOUND'' else n)
      in MakeNotifyPacket e CHAT_CHANNEL_OWNER_NOTICE 0 0
           (if IsConstant c \<or> m_ownerGUID c = 0 then cstr ''Nobody'' else name) 0 0 c)"

definition MakeYouJoined :: "Channel \<Rightarrow> ch_packet" where
  "MakeYouJoined c = (SMSG_CHANNEL_NOTIFY_JOINED,
     [C_bits 7 (word_of_nat (length (m_name c))), C_bits 10 0, C_flush, C_u32 (ucast (m_flags c)),
      C_u32 (m_channelId c), C_u64 0, C_str (m_name c), C_str []])"

definition MakeYouLeft :: "Channel \<Rightarrow> ch_packet" where
  "MakeYouLeft c = (SMSG_CHANNEL_NOTIFY_LEFT,
     [C_bits 7 (word_of_nat (length (m_name c))), C_bits 1 0, C_flush, C_u32 (m_channelId c), C_str (m_name c)])"

definition JoinNotify :: "ch_env \<Rightarrow> u64 \<Rightarrow> Channel \<Rightarrow> Channel" where
  "JoinNotify e guid c = SendToAllButOne e (SMSG_USERLIST_ADD,
     [C_guid guid, C_u8 (m_flags c), C_u8 (GetPlayerFlags guid c), C_u32 (m_channelId c),
      C_bits 7 (word_of_nat (length (m_name c))), C_flush, C_str (m_name c)]) guid c"

definition LeaveNotify :: "ch_env \<Rightarrow> u64 \<Rightarrow> Channel \<Rightarrow> Channel" where
  "LeaveNotify e guid c =
     (let pkt = (SMSG_USERLIST_REMOVE,
        [C_guid guid, C_u8 (m_flags c), C_u32 (m_channelId c),
         C_bits 7 (word_of_nat (length (m_name c))), C_flush, C_str (m_name c)])
      in if IsConstant c then SendToAllButOne e pkt guid c else SendToAll e pkt 0 c)"

subsection \<open>The table of channels\<close>

definition ban_list :: "u64 list \<Rightarrow> cstring" where
  "ban_list gs = concat (map (\<lambda>g. decimal (unat g) @ [32]) gs)"

definition UpdateChannelInDB :: "Channel \<Rightarrow> Channel" where
  "UpdateChannelInDB c =
     (if m_IsSaved c
      then ch_effect (Exec (UpdChannel (m_announce c) (m_ownership c) (m_password c) (ban_list (m_banned c))
             (m_name c) (m_Team c))) c
      else c)"

definition UpdateChannelUseageInDB :: "Channel \<Rightarrow> Channel" where
  "UpdateChannelUseageInDB c = ch_effect (Exec (UpdChannelUsage (m_name c) (m_Team c))) c"

definition load_bans :: "cstring \<Rightarrow> u64 list" where
  "load_bans s = foldl (\<lambda>b t. let g = word_of_int (atol t) in if g \<noteq> 0 then insort_insert g b else b)
     [] (Tokenizer (c_str s) 32)"

definition load_channel :: "ChannelRow \<Rightarrow> Channel \<Rightarrow> Channel" where
  "load_channel r c = c\<lparr>m_announce := row_announce r, m_ownership := row_ownership r, m_password := row_password r,
     m_banned := (case row_banned r of None \<Rightarrow> [] | Some s \<Rightarrow> load_bans s)\<rparr>"

text \<open>The constructor.\<close>

definition Channel_blank :: "cstring \<Rightarrow> u32 \<Rightarrow> u32 \<Rightarrow> Channel" where
  "Channel_blank name channel_id team = \<lparr>m_Players = [], m_banned = [], m_announce = True, m_special = False,
     m_ownership = True, m_name = name, m_password = [], m_flags = 0, m_channelId = channel_id, m_ownerGUID = 0,
     m_IsSaved = False, m_Team = team, m_log = []\<rparr>"

definition builtin_flags :: "u32 \<Rightarrow> u8" where
  "builtin_flags dbc = CHANNEL_FLAG_GENERAL
     OR (if dbc AND CHANNEL_DBC_FLAG_TRADE \<noteq> 0 then CHANNEL_FLAG_TRADE else 0)
     OR (if dbc AND CHANNEL_DBC_FLAG_CITY_ONLY2 \<noteq> 0 then CHANNEL_FLAG_CITY else 0)
     OR (if dbc AND CHANNEL_DBC_FLAG_LFG \<noteq> 0 then CHANNEL_FLAG_LFG else CHANNEL_FLAG_NOT_LFG)"

definition Channel_new :: "ch_env \<Rightarrow> ch_table \<Rightarrow> cstring \<Rightarrow> u32 \<Rightarrow> u32 \<Rightarrow> Channel" where
  "Channel_new e tbl name channel_id team =
     (let b = Channel_blank name channel_id team;
          c = (if IsWorld b then b\<lparr>m_announce := False\<rparr> else b)
      in case ce_store e channel_id of
           Some dbc \<Rightarrow> c\<lparr>m_announce := False, m_ownership := False, m_flags := builtin_flags dbc\<rparr>
         | None \<Rightarrow>
             if stricmp_eq name (cstr ''all'') then c\<lparr>m_announce := False, m_special := True\<rparr>
             else
               let c = c\<lparr>m_flags := CHANNEL_FLAG_CUSTOM\<rparr>
               in if ce_preserve e
                  then (case tbl (name, team) of
                          Some r \<Rightarrow> load_channel r c
                        | None \<Rightarrow> ch_effect (Exec (InsChannel name team)) c)\<lparr>m_IsSaved := True\<rparr>
                  else c)"

subsection \<open>Members and their modes\<close>

definition SetModerator :: "ch_env \<Rightarrow> u64 \<Rightarrow> bool \<Rightarrow> Channel \<Rightarrow> Channel" where
  "SetModerator e p val c =
     (let c = pl_touch e p c
      in if pi_IsModerator (pl_at e p c) \<noteq> val
         then let oldFlag = GetPlayerFlags p c;
                  c = pl_upd e p (pi_SetModerator val) c
              in SendToAll e (MakeModeChange e p oldFlag c) 0 c
         else c)"

definition SetMute :: "ch_env \<Rightarrow> u64 \<Rightarrow> bool \<Rightarrow> Channel \<Rightarrow> Channel" where
  "SetMute e p val c =
     (let c = pl_touch e p c
      in if pi_IsMuted (pl_at e p c) \<noteq> val
         then let oldFlag = GetPlayerFlags p c;
                  c = pl_upd e p (pi_SetMuted val) c
              in SendToAll e (MakeModeChange e p oldFlag c) 0 c
         else c)"

definition drop_owner :: "Channel \<Rightarrow> Channel" where
  "drop_owner c =
     (if m_ownerGUID c \<noteq> 0 then c\<lparr>m_Players := sm_update (pi_SetOwner False) (m_ownerGUID c) (m_Players c)\<rparr> else c)"

definition SetOwner :: "ch_env \<Rightarrow> u64 \<Rightarrow> bool \<Rightarrow> Channel \<Rightarrow> Channel" where
  "SetOwner e guid exclaim c =
     (let c = (drop_owner c)\<lparr>m_ownerGUID := guid\<rparr>
      in if guid = 0 then c
         else let oldFlag = GetPlayerFlags guid c;
                  c = pl_upd e guid (pi_SetModerator True) c;
                  c = pl_upd e guid (pi_SetOwner True) c;
                  c = SendToAll e (MakeModeChange e guid oldFlag c) 0 c;
                  c = (if exclaim then SendToAll e (MakeOwnerChanged e guid c) 0 c else c)
              in UpdateChannelInDB c)"

definition UpdateChatLocaleFiltering :: "ch_env \<Rightarrow> ChPlayer option \<Rightarrow> Channel \<Rightarrow> Channel" where
  "UpdateChatLocaleFiltering e player c =
     (case player of
        None \<Rightarrow> c
      | Some pl \<Rightarrow>
          if \<not> (IsWorld c \<or> IsConstant c) then c
          else if \<not> IsOn (cp_guid pl) c then c
          else if cp_noLocaleFilter pl
          then pl_upd e (cp_guid pl) (\<lambda>i. i\<lparr>pi_LocaleFilter := 0xFFFFFFFF\<rparr>) c
          else pl_upd e (cp_guid pl) (\<lambda>i. i\<lparr>pi_LocaleFilter := push_bit (cp_locale pl + 1) 1\<rparr>) c)"

subsection \<open>Joining and leaving\<close>

text \<open>Whether a join or leave is announced: not for moderators when they are silent.\<close>

definition announced :: "ch_env \<Rightarrow> u64 \<Rightarrow> Channel \<Rightarrow> bool" where
  "announced e p c \<longleftrightarrow> m_announce c \<and> (case FindPlayer e p of None \<Rightarrow> True
     | Some pl \<Rightarrow> \<not> IsModeratorAccount (sec_val (cp_security pl)) \<or> \<not> ce_silent_gm e)"

definition lfg_restricted :: "ch_env \<Rightarrow> u64 \<Rightarrow> Channel \<Rightarrow> bool" where
  "lfg_restricted e p c \<longleftrightarrow> (case FindPlayer e p of None \<Rightarrow> False
     | Some pl \<Rightarrow> ch_HasFlag CHANNEL_FLAG_LFG c \<and> ce_restricted_lfg e
         \<and> IsPlayerAccount (sec_val (cp_security pl)) \<and> cp_group pl)"

definition new_member :: "ch_env \<Rightarrow> u64 \<Rightarrow> Channel \<Rightarrow> PlayerInfo" where
  "new_member e p c = \<lparr>pi_player = p, pi_flags = MEMBER_FLAG_NONE,
     pi_LocaleFilter = (case FindPlayer e p of None \<Rightarrow> 0xFFFFFFFF
       | Some pl \<Rightarrow> if (IsWorld c \<or> IsConstant c) \<and> \<not> cp_noLocaleFilter pl
                    then push_bit (cp_locale pl + 1) 1 else 0xFFFFFFFF)\<rparr>"

text \<open>The last part of \<open>Join\<close>: custom channels hand out ownership.\<close>

definition hand_out :: "ch_env \<Rightarrow> u64 \<Rightarrow> Channel \<Rightarrow> Channel" where
  "hand_out e p c =
     (if m_name c = cstr ''world''
      then (case FindPlayer e p of
              None \<Rightarrow> c
            | Some pl \<Rightarrow>
                if sec_val (cp_security pl) > sec_val SEC_MODERATOR
                then let c = pl_upd e p (pi_SetModerator True) c
                     in if m_ownerGUID c = 0 \<and> m_ownership c
                        then SetOwner e p (1 < length (m_Players c)) c else c
                else c)
      else if m_ownerGUID c = 0 \<and> m_ownership c
      then pl_upd e p (pi_SetModerator True) (SetOwner e p (1 < length (m_Players c)) c)
      else c)"

definition Join :: "ch_env \<Rightarrow> u64 \<Rightarrow> cstring \<Rightarrow> Channel \<Rightarrow> Channel" where
  "Join e p pass c =
     (if IsOn p c
      then (if \<not> IsConstant c then SendToOne e (MakePlayerAlreadyMember e p c) p c else c)
      else if IsBanned p c then SendToOne e (MakeBanned e c) p c
      else if length (m_password c) > 0 \<and> c_str pass \<noteq> c_str (m_password c)
      then SendToOne e (MakeWrongPassword e c) p c
      else if lfg_restricted e p c then SendToOne e (MakeNotInLfg e c) p c
      else
        let c = (if FindPlayer e p \<noteq> None then ch_effect (JoinedChannel p) c else c);
            c = (if announced e p c then SendToAll e (MakeJoined e p c) 0 c else c);
            c = c\<lparr>m_Players := sm_insert p (new_member e p c) (m_Players c)\<rparr>;
            c = SendToOne e (MakeYouJoined c) p c;
            c = JoinNotify e p c
        in if \<not> IsConstant c
           then hand_out e p (if m_Players c \<noteq> [] then UpdateChannelUseageInDB c else c)
           else c)"

definition Leave :: "ch_env \<Rightarrow> u64 \<Rightarrow> bool \<Rightarrow> Channel \<Rightarrow> Channel" where
  "Leave e p send c =
     (if \<not> IsOn p c
      then (if send then SendToOne e (MakeNotMember e c) p c else c)
      else
        let c = (if send
                 then let c = SendToOne e (MakeYouLeft c) p c
                      in if FindPlayer e p \<noteq> None then ch_effect (LeftChannel p) c else c
                 else c);
            changeowner = pi_IsOwner (pl_at e p c);
            c = pl_erase p c;
            c = (if announced e p c then SendToAll e (MakeLeft e p c) 0 c else c);
            c = LeaveNotify e p c
        in if \<not> IsConstant c
           then let c = UpdateChannelUseageInDB c
                in if changeowner \<and> m_ownership c \<and> m_Players c \<noteq> []
                   then let newowner = pi_player (snd (hd (m_Players c)))
                        in SetOwner e newowner True (pl_upd e newowner (pi_SetModerator True) c)
                   else c
           else c)"

subsection \<open>Commands of members\<close>

text \<open>The moderator test the commands share.\<close>

definition may_moderate :: "ch_env \<Rightarrow> u64 \<Rightarrow> Channel \<Rightarrow> bool" where
  "may_moderate e p c \<longleftrightarrow> pi_IsModerator (pl_at e p c) \<or> IsModeratorAccount (security_of e p)"

definition kick_or_ban :: "ch_env \<Rightarrow> u64 \<Rightarrow> u64 \<Rightarrow> bool \<Rightarrow> Channel \<Rightarrow> Channel" where
  "kick_or_ban e good bad ban c =
     (let changeowner = (m_ownerGUID c = bad);
          notify = (\<not> (IsModeratorAccount (security_of e good) \<and> ce_silent_gm e));
          c = (if ban \<and> \<not> IsBanned bad c
               then let c = UpdateChannelInDB (c\<lparr>m_banned := insort_insert bad (m_banned c)\<rparr>)
                    in if notify then SendToAll e (MakePlayerBanned e bad good c) 0 c else c
               else if notify then SendToAll e (MakePlayerKicked e bad good c) 0 c else c);
          c = ch_effect (LeftChannel bad) (pl_erase bad c)
      in if changeowner \<and> m_ownership c \<and> m_Players c \<noteq> []
         then SetOwner e good True (pl_upd e good (pi_SetModerator True) c)
         else c)"

definition KickOrBan :: "ch_env \<Rightarrow> u64 \<Rightarrow> cstring \<Rightarrow> bool \<Rightarrow> Channel \<Rightarrow> Channel" where
  "KickOrBan e good badname ban c =
     (if \<not> IsOn good c then SendToOne e (MakeNotMember e c) good c
      else if \<not> may_moderate e good c then SendToOne e (MakeNotModerator e c) good c
      else case FindPlayerByName e badname of
             None \<Rightarrow> SendToOne e (MakePlayerNotFound e badname c) good c
           | Some bad \<Rightarrow>
               if \<not> IsOn (cp_guid bad) c then SendToOne e (MakePlayerNotFound e badname c) good c
               else if \<not> IsModeratorAccount (security_of e good) \<and> cp_guid bad = m_ownerGUID c
                  \<and> good \<noteq> m_ownerGUID c
               then SendToOne e (MakeNotOwner e c) good c
               else kick_or_ban e good (cp_guid bad) ban c)"

definition UnBan :: "ch_env \<Rightarrow> u64 \<Rightarrow> cstring \<Rightarrow> Channel \<Rightarrow> Channel" where
  "UnBan e good badname c =
     (if \<not> IsOn good c then SendToOne e (MakeNotMember e c) good c
      else if \<not> may_moderate e good c then SendToOne e (MakeNotModerator e c) good c
      else case FindPlayerByName e badname of
             None \<Rightarrow> SendToOne e (MakePlayerNotFound e badname c) good c
           | Some bad \<Rightarrow>
               if \<not> IsBanned (cp_guid bad) c then SendToOne e (MakePlayerNotFound e badname c) good c
               else
                 let c = c\<lparr>m_banned := filter (\<lambda>g. g \<noteq> cp_guid bad) (m_banned c)\<rparr>
                 in UpdateChannelInDB (SendToAll e (MakePlayerUnbanned e (cp_guid bad) good c) 0 c))"

definition Password :: "ch_env \<Rightarrow> u64 \<Rightarrow> cstring \<Rightarrow> Channel \<Rightarrow> Channel" where
  "Password e p pass c =
     (if \<not> IsOn p c then SendToOne e (MakeNotMember e c) p c
      else if \<not> may_moderate e p c then SendToOne e (MakeNotModerator e c) p c
      else if IsWorld c then SendToOne e (MakeNotModerator e c) p c
      else
        let c = c\<lparr>m_password := c_str pass\<rparr>
        in UpdateChannelInDB (SendToAll e (MakePasswordChanged e p c) 0 c))"

definition SetMode :: "ch_env \<Rightarrow> u64 \<Rightarrow> cstring \<Rightarrow> bool \<Rightarrow> bool \<Rightarrow> Channel \<Rightarrow> Channel" where
  "SetMode e p p2n md val c =
     (case FindPlayer e p of
        None \<Rightarrow> c
      | Some player \<Rightarrow>
          if \<not> IsOn p c then SendToOne e (MakeNotMember e c) p c
          else if \<not> may_moderate e p c then SendToOne e (MakeNotModerator e c) p c
          else case FindPlayerByName e p2n of
                 None \<Rightarrow> SendToOne e (MakePlayerNotFound e p2n c) p c
               | Some newp \<Rightarrow>
                   if p = m_ownerGUID c \<and> cp_guid newp = m_ownerGUID c \<and> md then c
                   else if \<not> IsOn (cp_guid newp) c then SendToOne e (MakePlayerNotFound e p2n c) p c
                   else if (\<not> IsModeratorAccount (sec_val (cp_security player))
                         \<or> \<not> IsModeratorAccount (sec_val (cp_security newp)))
                      \<and> cp_team player \<noteq> cp_team newp \<and> \<not> ce_two_side e
                   then SendToOne e (MakePlayerNotFound e p2n c) p c
                   else if m_ownerGUID c = cp_guid newp \<and> m_ownerGUID c \<noteq> p
                   then SendToOne e (MakeNotOwner e c) p c
                   else if md then SetModerator e (cp_guid newp) val c
                   else SetMute e (cp_guid newp) val c)"

definition SetOwner_name :: "ch_env \<Rightarrow> u64 \<Rightarrow> cstring \<Rightarrow> Channel \<Rightarrow> Channel" where
  "SetOwner_name e p newname c =
     (case FindPlayer e p of
        None \<Rightarrow> c
      | Some player \<Rightarrow>
          if \<not> IsOn p c then SendToOne e (MakeNotMember e c) p c
          else if \<not> IsModeratorAccount (sec_val (cp_security player)) \<and> p \<noteq> m_ownerGUID c
          then SendToOne e (MakeNotOwner e c) p c
          else case FindPlayerByName e newname of
                 None \<Rightarrow> SendToOne e (MakePlayerNotFound e newname c) p c
               | Some newp \<Rightarrow>
                   if \<not> IsOn (cp_guid newp) c then SendToOne e (MakePlayerNotFound e newname c) p c
                   else if cp_team newp \<noteq> cp_team player \<and> \<not> ce_two_side e
                   then SendToOne e (MakePlayerNotFound e newname c) p c
                   else SetOwner e (cp_guid newp) True (pl_upd e (cp_guid newp) (pi_SetModerator True) c))"

definition SendWhoOwner :: "ch_env \<Rightarrow> u64 \<Rightarrow> Channel \<Rightarrow> Channel" where
  "SendWhoOwner e p c =
     (if \<not> IsOn p c then SendToOne e (MakeNotMember e c) p c else SendToOne e (MakeChannelOwner e c) p c)"

text \<open>The members \<open>List\<close> shows to a player.\<close>

definition listed :: "ch_env \<Rightarrow> ChPlayer \<Rightarrow> u64 \<Rightarrow> bool" where
  "listed e pl g \<longleftrightarrow> (case FindPlayer e g of None \<Rightarrow> False
     | Some m \<Rightarrow> (\<not> IsPlayerAccount (sec_val (cp_security pl)) \<or> sec_val (cp_security m) \<le> ce_gm_who_level e)
         \<and> ce_visible e g (cp_guid pl))"

definition ch_List :: "ch_env \<Rightarrow> ChPlayer \<Rightarrow> Channel \<Rightarrow> Channel" where
  "ch_List e pl c =
     (if \<not> IsOn (cp_guid pl) c then SendToOne e (MakeNotMember e c) (cp_guid pl) c
      else
        let ms = filter (\<lambda>x. listed e pl (fst x)) (m_Players c)
        in SendToOne e (SMSG_CHANNEL_LIST,
             [C_bits 1 1, C_bits 7 (word_of_nat (length (m_name c))), C_flush, C_u32 (ucast (m_flags c)),
              C_u32 (word_of_nat (length ms)), C_str (m_name c)]
             @ concat (map (\<lambda>(g, i). [C_guid g, C_u32 (ce_realm e), C_u8 (pi_flags i)]) ms)) (cp_guid pl) c)"

definition ch_Announce :: "ch_env \<Rightarrow> u64 \<Rightarrow> Channel \<Rightarrow> Channel" where
  "ch_Announce e p c =
     (if \<not> IsOn p c then SendToOne e (MakeNotMember e c) p c
      else if \<not> may_moderate e p c then SendToOne e (MakeNotModerator e c) p c
      else
        let c = c\<lparr>m_announce := \<not> m_announce c\<rparr>;
            pkt = (if m_announce c then MakeAnnouncementsOn e p c else MakeAnnouncementsOff e p c)
        in UpdateChannelInDB (SendToAll e pkt 0 c))"

text \<open>The part of \<open>Say\<close> behind the sending rewrites links in a local string and has no effect.\<close>

definition LANG_UNIVERSAL :: u32 where
  "LANG_UNIVERSAL = 0"

definition Say :: "ch_env \<Rightarrow> u64 \<Rightarrow> cstring option \<Rightarrow> u32 \<Rightarrow> Channel \<Rightarrow> Channel" where
  "Say e p what lang c =
     (case what of
        None \<Rightarrow> c
      | Some text \<Rightarrow>
          let lang = (if ce_two_side e then LANG_UNIVERSAL else lang)
          in if FindPlayer e p = None then c
             else if \<not> IsOn p c then SendToOne e (MakeNotMember e c) p c
             else if pi_IsMuted (pl_at e p c) then SendToOne e (MakeMuted e c) p c
             else SendToAll e (SMSG_MESSAGE_CHAT, ce_chat e p (c_str text) lang (m_name c))
                    (if \<not> pi_IsModerator (pl_at e p c) then p else 0) c)"

definition Invite :: "ch_env \<Rightarrow> u64 \<Rightarrow> cstring \<Rightarrow> Channel \<Rightarrow> Channel" where
  "Invite e p newname c =
     (if \<not> IsOn p c then SendToOne e (MakeNotMember e c) p c
      else case FindPlayerByName e newname of
             None \<Rightarrow> SendToOne e (MakePlayerNotFound e newname c) p c
           | Some newp \<Rightarrow>
               if \<not> cp_gmVisible newp then SendToOne e (MakePlayerNotFound e newname c) p c
               else if IsBanned (cp_guid newp) c then SendToOne e (MakePlayerInviteBanned e newname c) p c
               else case FindPlayer e p of
                      None \<Rightarrow> c
                    | Some player \<Rightarrow>
                        if cp_team newp \<noteq> cp_team player \<and> \<not> ce_two_side e
                        then SendToOne e (MakeInviteWrongFaction e c) p c
                        else if IsOn (cp_guid newp) c
                        then SendToOne e (MakePlayerAlreadyMember e (cp_guid newp) c) p c
                        else
                          let c = (if \<not> cp_ignores newp (GUID_LOPART p)
                                   then SendToOne e (MakeInvite e p c) (cp_guid newp) c else c)
                          in SendToOne e (MakePlayerInvited e (cp_name newp) c) p c)"

end
