(* ===== verification/ChannelRules.thy ===== *)
theory ChannelRules
  imports Channels
begin

text \<open>
  What the operations of a channel change: frames of the sending operations, the flags of a member,
  every command as either refused or done, and the invariant of a channel over all runs (\<open>ch_step\<close>).
\<close>

subsection \<open>Frames\<close>

text \<open>What a channel is without its log of effects: sending changes nothing of it.\<close>

definition ch_core :: "Channel \<Rightarrow> Channel" where
  "ch_core c = c\<lparr>m_log := []\<rparr>"

lemma ch_core_fields:
  assumes "ch_core c = ch_core d"
  shows "m_Players c = m_Players d" "m_banned c = m_banned d" "m_announce c = m_announce d" "m_special c = m_special d"
    "m_ownership c = m_ownership d" "m_name c = m_name d" "m_password c = m_password d" "m_flags c = m_flags d"
    "m_channelId c = m_channelId d" "m_ownerGUID c = m_ownerGUID d" "m_IsSaved c = m_IsSaved d" "m_Team c = m_Team d"
  using assms by (cases c; cases d; simp add: ch_core_def)+

lemma core_effect: "ch_core (ch_effect x c) = ch_core c"
  by (simp add: ch_core_def ch_effect_def)

lemma core_SendToOne: "ch_core (SendToOne e pkt who c) = ch_core c"
  by (simp add: SendToOne_def core_effect split: option.split)

lemma core_send_member: "ch_core (send_member e pkt p g c) = ch_core c"
  by (simp add: send_member_def core_effect split: option.split)

lemma core_fold: "(\<And>x c. ch_core (f x c) = ch_core c) \<Longrightarrow> ch_core (fold f xs c) = ch_core c"
  by (induction xs arbitrary: c) simp_all

lemma core_SendToAll: "ch_core (SendToAll e pkt p c) = ch_core c"
  by (simp add: SendToAll_def core_fold core_send_member)

lemma core_SendToAllButOne: "ch_core (SendToAllButOne e pkt who c) = ch_core c"
  by (simp add: SendToAllButOne_def core_fold core_SendToOne)

lemma core_JoinNotify: "ch_core (JoinNotify e g c) = ch_core c"
  by (simp add: JoinNotify_def core_SendToAllButOne)

lemma core_LeaveNotify: "ch_core (LeaveNotify e g c) = ch_core c"
  by (simp add: LeaveNotify_def Let_def core_SendToAll core_SendToAllButOne)

lemma core_UpdateChannelInDB: "ch_core (UpdateChannelInDB c) = ch_core c"
  by (simp add: UpdateChannelInDB_def core_effect)

lemma core_Usage: "ch_core (UpdateChannelUseageInDB c) = ch_core c"
  by (simp add: UpdateChannelUseageInDB_def core_effect)

lemmas frames [simp] = ch_core_fields[OF core_effect] ch_core_fields[OF core_SendToOne]
  ch_core_fields[OF core_SendToAll] ch_core_fields[OF core_SendToAllButOne] ch_core_fields[OF core_JoinNotify]
  ch_core_fields[OF core_LeaveNotify] ch_core_fields[OF core_UpdateChannelInDB] ch_core_fields[OF core_Usage]

lemmas query_defs = IsOn_def IsBanned_def IsWorld_def IsConstant_def ch_HasFlag_def IsLFG_def

subsection \<open>Flags of a member\<close>

lemma pi_bits:
  "pi_IsOwner i \<longleftrightarrow> bit (pi_flags i) 0" "pi_IsModerator i \<longleftrightarrow> bit (pi_flags i) 1" "pi_IsMuted i \<longleftrightarrow> bit (pi_flags i) 3"
proof -
  have "x AND 2 ^ n \<noteq> 0 \<longleftrightarrow> bit x n" for x :: u8 and n by (simp add: and_exp_eq_0_iff_not_bit)
  from this[of _ 0] this[of _ 1] this[of _ 3]
  show "pi_IsOwner i \<longleftrightarrow> bit (pi_flags i) 0" "pi_IsModerator i \<longleftrightarrow> bit (pi_flags i) 1" "pi_IsMuted i \<longleftrightarrow> bit (pi_flags i) 3"
    by (simp_all add: pi_IsOwner_def pi_IsModerator_def pi_IsMuted_def member_flag_defs)
qed

lemma bit_member_flags:
  "bit MEMBER_FLAG_OWNER n \<longleftrightarrow> n = 0" "bit MEMBER_FLAG_MODERATOR n \<longleftrightarrow> n = 1" "bit MEMBER_FLAG_MUTED n \<longleftrightarrow> n = 3"
proof -
  have "bit (2 ^ m :: u8) n \<longleftrightarrow> n = m" if "m < 8" for m using that by (auto simp: bit_simps)
  from this[of 0] this[of 1] this[of 3]
  show "bit MEMBER_FLAG_OWNER n \<longleftrightarrow> n = 0" "bit MEMBER_FLAG_MODERATOR n \<longleftrightarrow> n = 1" "bit MEMBER_FLAG_MUTED n \<longleftrightarrow> n = 3"
    by (simp_all add: member_flag_defs)
qed

lemma bit_pi_Set:
  "n < 8 \<Longrightarrow> bit (pi_flags (pi_SetOwner b i)) n = (if n = 0 then b else bit (pi_flags i) n)"
  "n < 8 \<Longrightarrow> bit (pi_flags (pi_SetModerator b i)) n = (if n = 1 then b else bit (pi_flags i) n)"
  "n < 8 \<Longrightarrow> bit (pi_flags (pi_SetMuted b i)) n = (if n = 3 then b else bit (pi_flags i) n)"
  by (auto simp: pi_SetOwner_def pi_SetModerator_def pi_SetMuted_def bit_or_iff bit_and_iff bit_not_iff bit_member_flags)

lemma pi_Set_simps [simp]:
  "pi_IsOwner (pi_SetOwner b i) = b" "pi_IsModerator (pi_SetOwner b i) = pi_IsModerator i" "pi_IsMuted (pi_SetOwner b i) = pi_IsMuted i"
  "pi_IsOwner (pi_SetModerator b i) = pi_IsOwner i" "pi_IsModerator (pi_SetModerator b i) = b" "pi_IsMuted (pi_SetModerator b i) = pi_IsMuted i"
  "pi_IsOwner (pi_SetMuted b i) = pi_IsOwner i" "pi_IsModerator (pi_SetMuted b i) = pi_IsModerator i" "pi_IsMuted (pi_SetMuted b i) = b"
  "pi_player (pi_SetOwner b i) = pi_player i" "pi_player (pi_SetModerator b i) = pi_player i" "pi_player (pi_SetMuted b i) = pi_player i"
  by (simp_all add: pi_bits bit_pi_Set) (simp_all add: pi_SetOwner_def pi_SetModerator_def pi_SetMuted_def)

lemma pi_Set_same:
  "pi_IsModerator i = b \<Longrightarrow> pi_SetModerator b i = i" "pi_IsMuted i = b \<Longrightarrow> pi_SetMuted b i = i"
proof -
  have eq: "j = i" if "pi_player j = pi_player i" "pi_LocaleFilter j = pi_LocaleFilter i" "pi_flags j = pi_flags i" for j
    using that by (cases i; cases j) simp
  show "pi_SetModerator b i = i" if "pi_IsModerator i = b"
    by (rule eq) (use that in \<open>auto intro!: bit_word_eqI simp: bit_pi_Set pi_bits split: if_splits\<close>, simp_all add: pi_SetModerator_def)
  show "pi_SetMuted b i = i" if "pi_IsMuted i = b"
    by (rule eq) (use that in \<open>auto intro!: bit_word_eqI simp: bit_pi_Set pi_bits split: if_splits\<close>, simp_all add: pi_SetMuted_def)
qed


subsection \<open>What the operations change\<close>

abbreviation member :: "Channel \<Rightarrow> u64 \<Rightarrow> PlayerInfo option" where
  "member c \<equiv> map_of (m_Players c)"

lemma query_frames:
  assumes "ch_core c = ch_core d"
  shows "IsOn p c = IsOn p d" "IsBanned p c = IsBanned p d" "IsWorld c = IsWorld d" "IsConstant c = IsConstant d"
    "pl_at e p c = pl_at e p d" "may_moderate e p c = may_moderate e p d" "GetPlayerFlags p c = GetPlayerFlags p d"
    "ch_HasFlag f c = ch_HasFlag f d"
  using ch_core_fields[OF assms] by (simp_all add: query_defs pl_at_def may_moderate_def GetPlayerFlags_def)

lemmas query_same [simp] = query_frames[OF core_effect] query_frames[OF core_SendToOne]
  query_frames[OF core_SendToAll] query_frames[OF core_SendToAllButOne] query_frames[OF core_JoinNotify]
  query_frames[OF core_LeaveNotify] query_frames[OF core_UpdateChannelInDB] query_frames[OF core_Usage]

lemma pl_upd_fields [simp]:
  "m_Players (pl_upd e p f c) = sm_insert p (f (pl_at e p c)) (m_Players c)"
  "m_banned (pl_upd e p f c) = m_banned c" "m_announce (pl_upd e p f c) = m_announce c"
  "m_special (pl_upd e p f c) = m_special c" "m_ownership (pl_upd e p f c) = m_ownership c"
  "m_name (pl_upd e p f c) = m_name c" "m_password (pl_upd e p f c) = m_password c" "m_flags (pl_upd e p f c) = m_flags c"
  "m_channelId (pl_upd e p f c) = m_channelId c" "m_ownerGUID (pl_upd e p f c) = m_ownerGUID c"
  "m_IsSaved (pl_upd e p f c) = m_IsSaved c" "m_Team (pl_upd e p f c) = m_Team c" "m_log (pl_upd e p f c) = m_log c"
  by (simp_all add: pl_upd_def)

lemma pl_touch_fields [simp]:
  "m_Players (pl_touch e p c) = sm_insert p (pl_at e p c) (m_Players c)"
  "m_banned (pl_touch e p c) = m_banned c" "m_announce (pl_touch e p c) = m_announce c"
  "m_special (pl_touch e p c) = m_special c" "m_ownership (pl_touch e p c) = m_ownership c"
  "m_name (pl_touch e p c) = m_name c" "m_password (pl_touch e p c) = m_password c" "m_flags (pl_touch e p c) = m_flags c"
  "m_channelId (pl_touch e p c) = m_channelId c" "m_ownerGUID (pl_touch e p c) = m_ownerGUID c"
  "m_IsSaved (pl_touch e p c) = m_IsSaved c" "m_Team (pl_touch e p c) = m_Team c" "m_log (pl_touch e p c) = m_log c"
  by (simp_all add: pl_touch_def)

lemma pl_erase_fields [simp]:
  "m_Players (pl_erase p c) = sm_erase p (m_Players c)"
  "m_banned (pl_erase p c) = m_banned c" "m_announce (pl_erase p c) = m_announce c"
  "m_special (pl_erase p c) = m_special c" "m_ownership (pl_erase p c) = m_ownership c"
  "m_name (pl_erase p c) = m_name c" "m_password (pl_erase p c) = m_password c" "m_flags (pl_erase p c) = m_flags c"
  "m_channelId (pl_erase p c) = m_channelId c" "m_ownerGUID (pl_erase p c) = m_ownerGUID c"
  "m_IsSaved (pl_erase p c) = m_IsSaved c" "m_Team (pl_erase p c) = m_Team c" "m_log (pl_erase p c) = m_log c"
  by (simp_all add: pl_erase_def)

lemma pl_at_upd [simp]: "pl_at e p (pl_upd e p f c) = f (pl_at e p c)" "pl_at e p (pl_touch e p c) = pl_at e p c"
  by (simp_all add: pl_at_def)

lemma pl_at_member [simp]: "member c p = Some i \<Longrightarrow> pl_at e p c = i"
  by (simp add: pl_at_def)

lemma drop_owner_fields [simp]:
  "member (drop_owner c) = (if m_ownerGUID c = 0 then member c
     else (member c)(m_ownerGUID c := map_option (pi_SetOwner False) (member c (m_ownerGUID c))))"
  "sm_ok (m_Players c) \<Longrightarrow> sm_ok (m_Players (drop_owner c))"
  "m_banned (drop_owner c) = m_banned c" "m_announce (drop_owner c) = m_announce c"
  "m_special (drop_owner c) = m_special c" "m_ownership (drop_owner c) = m_ownership c"
  "m_name (drop_owner c) = m_name c" "m_password (drop_owner c) = m_password c" "m_flags (drop_owner c) = m_flags c"
  "m_channelId (drop_owner c) = m_channelId c" "m_ownerGUID (drop_owner c) = m_ownerGUID c"
  "m_IsSaved (drop_owner c) = m_IsSaved c" "m_Team (drop_owner c) = m_Team c"
  by (simp_all add: drop_owner_def)

text \<open>The parts of a channel no operation changes.\<close>

definition ch_fixed :: "Channel \<Rightarrow> bool \<times> bool \<times> cstring \<times> u8 \<times> u32 \<times> bool \<times> u32" where
  "ch_fixed c = (m_special c, m_ownership c, m_name c, m_flags c, m_channelId c, m_IsSaved c, m_Team c)"

lemma SetModerator_fields [simp]:
  "member (SetModerator e p b c) = (member c)(p \<mapsto> pi_SetModerator b (pl_at e p c))"
  "sm_ok (m_Players c) \<Longrightarrow> sm_ok (m_Players (SetModerator e p b c))"
  "m_ownerGUID (SetModerator e p b c) = m_ownerGUID c" "m_banned (SetModerator e p b c) = m_banned c"
  "m_announce (SetModerator e p b c) = m_announce c" "m_password (SetModerator e p b c) = m_password c"
  "ch_fixed (SetModerator e p b c) = ch_fixed c"
  by (auto simp: SetModerator_def Let_def ch_fixed_def pi_Set_same)

lemma SetMute_fields [simp]:
  "member (SetMute e p b c) = (member c)(p \<mapsto> pi_SetMuted b (pl_at e p c))"
  "sm_ok (m_Players c) \<Longrightarrow> sm_ok (m_Players (SetMute e p b c))"
  "m_ownerGUID (SetMute e p b c) = m_ownerGUID c" "m_banned (SetMute e p b c) = m_banned c"
  "m_announce (SetMute e p b c) = m_announce c" "m_password (SetMute e p b c) = m_password c"
  "ch_fixed (SetMute e p b c) = ch_fixed c"
  by (auto simp: SetMute_def Let_def ch_fixed_def pi_Set_same)

lemma SetOwner_fields [simp]:
  "member (SetOwner e g ex c) = (if g = 0 then member (drop_owner c) else
     (member (drop_owner c))(g \<mapsto> pi_SetOwner True (pi_SetModerator True (pl_at e g (drop_owner c)))))"
  "sm_ok (m_Players c) \<Longrightarrow> sm_ok (m_Players (SetOwner e g ex c))"
  "m_ownerGUID (SetOwner e g ex c) = g" "m_banned (SetOwner e g ex c) = m_banned c"
  "m_announce (SetOwner e g ex c) = m_announce c" "m_password (SetOwner e g ex c) = m_password c"
  "ch_fixed (SetOwner e g ex c) = ch_fixed c"
  by (auto simp: SetOwner_def Let_def ch_fixed_def pl_at_def)

subsection \<open>The operations as one type\<close>

datatype ch_op =
    OpJoin u64 cstring | OpLeave u64 bool | OpKick u64 cstring bool | OpUnBan u64 cstring | OpPassword u64 cstring
  | OpMode u64 cstring bool bool | OpOwner u64 cstring | OpWho u64 | OpList ChPlayer | OpAnnounce u64
  | OpSay u64 "cstring option" u32 | OpInvite u64 cstring | OpLocale "ChPlayer option"

fun ch_exec :: "ch_env \<Rightarrow> ch_op \<Rightarrow> Channel \<Rightarrow> Channel" where
  "ch_exec e (OpJoin p pass) = Join e p pass"
| "ch_exec e (OpLeave p send) = Leave e p send"
| "ch_exec e (OpKick p name ban) = KickOrBan e p name ban"
| "ch_exec e (OpUnBan p name) = UnBan e p name"
| "ch_exec e (OpPassword p pass) = Password e p pass"
| "ch_exec e (OpMode p name md val) = SetMode e p name md val"
| "ch_exec e (OpOwner p name) = SetOwner_name e p name"
| "ch_exec e (OpWho p) = SendWhoOwner e p"
| "ch_exec e (OpList pl) = ch_List e pl"
| "ch_exec e (OpAnnounce p) = ch_Announce e p"
| "ch_exec e (OpSay p what lang) = Say e p what lang"
| "ch_exec e (OpInvite p name) = Invite e p name"
| "ch_exec e (OpLocale pl) = UpdateChatLocaleFiltering e pl"

fun actor :: "ch_op \<Rightarrow> u64" where
  "actor (OpJoin p _) = p" | "actor (OpLeave p _) = p" | "actor (OpKick p _ _) = p" | "actor (OpUnBan p _) = p"
| "actor (OpPassword p _) = p" | "actor (OpMode p _ _ _) = p" | "actor (OpOwner p _) = p" | "actor (OpWho p) = p"
| "actor (OpList pl) = cp_guid pl" | "actor (OpAnnounce p) = p" | "actor (OpSay p _ _) = p" | "actor (OpInvite p _) = p"
| "actor (OpLocale pl) = (case pl of None \<Rightarrow> 0 | Some pl \<Rightarrow> cp_guid pl)"

text \<open>The members after a step, in the cases that matter.\<close>

lemma sm_empty_iff: "m = [] \<longleftrightarrow> map_of m = Map.empty"
  by (metis map_of_eq_empty_iff)

lemma hd_member: "m_Players c \<noteq> [] \<Longrightarrow> member c (fst (hd (m_Players c))) = Some (snd (hd (m_Players c)))"
  by (cases "m_Players c") auto

definition join_in :: "ch_env \<Rightarrow> u64 \<Rightarrow> Channel \<Rightarrow> Channel" where
  "join_in e p c =
     (let c = (if FindPlayer e p \<noteq> None then ch_effect (JoinedChannel p) c else c);
          c = (if announced e p c then SendToAll e (MakeJoined e p c) 0 c else c);
          c = c\<lparr>m_Players := sm_insert p (new_member e p c) (m_Players c)\<rparr>;
          c = JoinNotify e p (SendToOne e (MakeYouJoined c) p c)
      in if \<not> IsConstant c \<and> m_Players c \<noteq> [] then UpdateChannelUseageInDB c else c)"

lemma new_member_simps [simp]:
  "pi_player (new_member e p c) = p" "\<not> pi_IsOwner (new_member e p c)" "\<not> pi_IsModerator (new_member e p c)"
  by (simp_all add: new_member_def pi_IsOwner_def pi_IsModerator_def MEMBER_FLAG_NONE_def)

lemma new_member_same:
  assumes "ch_core c = ch_core d"
  shows "new_member e p c = new_member e p d" "announced e p c = announced e p d"
    "lfg_restricted e p c = lfg_restricted e p d"
  using query_frames[OF assms] ch_core_fields[OF assms]
  by (simp_all add: new_member_def announced_def lfg_restricted_def cong: option.case_cong)

lemmas new_member_frames [simp] = new_member_same[OF core_effect] new_member_same[OF core_SendToAll]

lemma join_in_fields [simp]:
  "m_Players (join_in e p c) = sm_insert p (new_member e p c) (m_Players c)"
  "m_ownerGUID (join_in e p c) = m_ownerGUID c" "m_banned (join_in e p c) = m_banned c"
  "m_announce (join_in e p c) = m_announce c" "m_password (join_in e p c) = m_password c"
  "ch_fixed (join_in e p c) = ch_fixed c"
  by (simp_all add: join_in_def Let_def ch_fixed_def)

lemma ch_fixedD:
  assumes "ch_fixed c = ch_fixed d"
  shows "m_special c = m_special d" "m_ownership c = m_ownership d" "m_name c = m_name d" "m_flags c = m_flags d"
    "m_channelId c = m_channelId d" "m_IsSaved c = m_IsSaved d" "m_Team c = m_Team d" "IsConstant c = IsConstant d"
    "IsWorld c = IsWorld d"
  using assms by (simp_all add: ch_fixed_def IsConstant_def IsWorld_def)

lemmas join_in_fixed [simp] = ch_fixedD[OF join_in_fields(6)]
lemmas SetOwner_fixed [simp] = ch_fixedD[OF SetOwner_fields(7)]
lemmas SetModerator_fixed [simp] = ch_fixedD[OF SetModerator_fields(7)]
lemmas SetMute_fixed [simp] = ch_fixedD[OF SetMute_fields(7)]

lemma IsConstant_set [simp]: "IsConstant (c\<lparr>m_Players := x\<rparr>) = IsConstant c"
  by (simp add: IsConstant_def)

definition admits :: "ch_env \<Rightarrow> u64 \<Rightarrow> cstring \<Rightarrow> Channel \<Rightarrow> bool" where
  "admits e p pass c \<longleftrightarrow> \<not> IsBanned p c \<and> (m_password c = [] \<or> c_str pass = c_str (m_password c)) \<and> \<not> lfg_restricted e p c"

text \<open>An operation that is refused tells the one who asked, or nobody.\<close>

definition refused :: "ch_env \<Rightarrow> u64 \<Rightarrow> Channel \<Rightarrow> Channel \<Rightarrow> bool" where
  "refused e p c c' \<longleftrightarrow> c' = c \<or> (\<exists>pkt. c' = SendToOne e pkt p c)"

lemma refused_intros [intro, simp]: "refused e p c c" "refused e p c (SendToOne e pkt p c)"
  by (auto simp: refused_def simp del: split_paired_Ex)

lemma refused_core: "refused e p c c' \<Longrightarrow> ch_core c' = ch_core c"
  by (auto simp: refused_def core_SendToOne)

lemma Join_refused: "IsOn p c \<or> \<not> admits e p pass c \<Longrightarrow> refused e p c (Join e p pass c)"
  unfolding admits_def
  by (cases "IsOn p c"; cases "IsBanned p c"; cases "m_password c = [] \<or> c_str pass = c_str (m_password c)") (auto simp: Join_def)

lemma Join_joined:
  assumes "\<not> IsOn p c" and a: "admits e p pass c"
  shows "Join e p pass c = (if IsConstant c then join_in e p c else hand_out e p (join_in e p c))"
proof -
  have "\<not> (length (m_password c) > 0 \<and> c_str pass \<noteq> c_str (m_password c))" "\<not> IsBanned p c" "\<not> lfg_restricted e p c"
    using a by (auto simp: admits_def)
  with assms(1) show ?thesis by (simp only: Join_def if_False join_in_def Let_def) simp
qed

text \<open>The commands of members: refused, or done by one who may do it.\<close>

lemma KickOrBan_cases:
  obtains (refused) "refused e good c (KickOrBan e good name ban c)"
  | (kicked) bad where "FindPlayerByName e name = Some bad" "IsOn good c" "may_moderate e good c" "IsOn (cp_guid bad) c"
      "IsModeratorAccount (security_of e good) \<or> cp_guid bad \<noteq> m_ownerGUID c \<or> good = m_ownerGUID c"
      "KickOrBan e good name ban c = kick_or_ban e good (cp_guid bad) ban c"
proof (cases "refused e good c (KickOrBan e good name ban c)")
  case False
  then show ?thesis using that(2) by (auto simp: KickOrBan_def split: if_splits option.splits)
qed (rule that(1))

lemma UnBan_cases:
  obtains (refused) "refused e good c (UnBan e good name c)"
  | (unbanned) bad where "FindPlayerByName e name = Some bad" "IsOn good c" "may_moderate e good c" "IsBanned (cp_guid bad) c"
      "ch_core (UnBan e good name c) = ch_core (c\<lparr>m_banned := filter (\<lambda>g. g \<noteq> cp_guid bad) (m_banned c)\<rparr>)"
proof (cases "refused e good c (UnBan e good name c)")
  case False
  then show ?thesis using that(2)
    by (auto simp: UnBan_def Let_def core_UpdateChannelInDB core_SendToAll split: if_splits option.splits)
qed (rule that(1))

lemma Password_cases:
  obtains (refused) "refused e p c (Password e p pass c)"
  | (changed) "IsOn p c" "may_moderate e p c" "\<not> IsWorld c"
      "ch_core (Password e p pass c) = ch_core (c\<lparr>m_password := c_str pass\<rparr>)"
proof (cases "refused e p c (Password e p pass c)")
  case False
  then show ?thesis using that(2)
    by (auto simp: Password_def Let_def core_UpdateChannelInDB core_SendToAll split: if_splits)
qed (rule that(1))

lemma SetMode_cases:
  obtains (refused) "refused e p c (SetMode e p name md val c)"
  | (set) newp where "FindPlayerByName e name = Some newp" "IsOn p c" "may_moderate e p c" "IsOn (cp_guid newp) c"
      "cp_guid newp = m_ownerGUID c \<Longrightarrow> p = m_ownerGUID c \<and> \<not> md"
      "SetMode e p name md val c = (if md then SetModerator e (cp_guid newp) val c else SetMute e (cp_guid newp) val c)"
proof (cases "refused e p c (SetMode e p name md val c)")
  case False
  then show ?thesis using that(2) by (auto simp: SetMode_def split: if_splits option.splits)
qed (rule that(1))

lemma SetOwner_name_cases:
  obtains (refused) "refused e p c (SetOwner_name e p name c)"
  | (set) newp where "FindPlayerByName e name = Some newp" "IsOn p c" "IsModeratorAccount (security_of e p) \<or> p = m_ownerGUID c" "IsOn (cp_guid newp) c"
      "SetOwner_name e p name c = SetOwner e (cp_guid newp) True (pl_upd e (cp_guid newp) (pi_SetModerator True) c)"
proof (cases "refused e p c (SetOwner_name e p name c)")
  case False
  then show ?thesis using that(2) by (auto simp: SetOwner_name_def security_of_def split: if_splits option.splits)
qed (rule that(1))

lemma Announce_cases:
  obtains (refused) "refused e p c (ch_Announce e p c)"
  | (changed) "IsOn p c" "may_moderate e p c"
      "ch_core (ch_Announce e p c) = ch_core (c\<lparr>m_announce := \<not> m_announce c\<rparr>)"
proof (cases "refused e p c (ch_Announce e p c)")
  case False
  then show ?thesis using that(2)
    by (auto simp: ch_Announce_def Let_def core_UpdateChannelInDB core_SendToAll split: if_splits)
qed (rule that(1))

text \<open>What only sends.\<close>

lemma core_SendWhoOwner: "ch_core (SendWhoOwner e p c) = ch_core c"
  by (simp add: SendWhoOwner_def core_SendToOne)

lemma core_List: "ch_core (ch_List e pl c) = ch_core c"
  by (simp add: ch_List_def Let_def core_SendToOne)

lemma core_Say: "ch_core (Say e p what lang c) = ch_core c"
  by (simp add: Say_def Let_def core_SendToOne core_SendToAll split: option.split)

lemma core_Invite: "ch_core (Invite e p name c) = ch_core c"
  by (simp add: Invite_def Let_def core_SendToOne split: option.split)

text \<open>\<open>Leave\<close>, up to the choice of a new owner.\<close>

definition leave_out :: "ch_env \<Rightarrow> u64 \<Rightarrow> bool \<Rightarrow> Channel \<Rightarrow> Channel" where
  "leave_out e p send c =
     (let c = (if send
               then let c = SendToOne e (MakeYouLeft c) p c
                    in if FindPlayer e p \<noteq> None then ch_effect (LeftChannel p) c else c
               else c);
          c = pl_erase p c;
          c = (if announced e p c then SendToAll e (MakeLeft e p c) 0 c else c);
          c = LeaveNotify e p c
      in if \<not> IsConstant c then UpdateChannelUseageInDB c else c)"

lemma leave_out_fields [simp]:
  "m_Players (leave_out e p send c) = sm_erase p (m_Players c)"
  "m_ownerGUID (leave_out e p send c) = m_ownerGUID c" "m_banned (leave_out e p send c) = m_banned c"
  "m_announce (leave_out e p send c) = m_announce c" "m_password (leave_out e p send c) = m_password c"
  "ch_fixed (leave_out e p send c) = ch_fixed c"
  by (simp_all add: leave_out_def Let_def ch_fixed_def)

lemmas leave_out_fixed [simp] = ch_fixedD[OF leave_out_fields(6)]

definition succeed :: "ch_env \<Rightarrow> Channel \<Rightarrow> Channel" where
  "succeed e c = (let g = pi_player (snd (hd (m_Players c))) in SetOwner e g True (pl_upd e g (pi_SetModerator True) c))"

lemma Leave_member:
  assumes "IsOn p c"
  shows "Leave e p send c = (if \<not> IsConstant c \<and> pi_IsOwner (pl_at e p c) \<and> m_ownership c \<and> sm_erase p (m_Players c) \<noteq> []
     then succeed e (leave_out e p send c) else leave_out e p send c)"
proof -
  have "m_Players (leave_out e p send c) = sm_erase p (m_Players c)" by simp
  then show ?thesis
    using assms by (simp add: Leave_def leave_out_def succeed_def Let_def IsConstant_def)
qed

subsection \<open>The invariant\<close>

text \<open>
  Members are stored under their own guid, only the owner carries the owner's mark and he is a
  moderator; the bans are a set in ascending order and no member is banned; a custom channel that
  hands out ownership and has members has an owner among them (in the channel named world: if
  anyone was ever made owner).
\<close>

definition marks_ok :: "Channel \<Rightarrow> bool" where
  "marks_ok c \<longleftrightarrow> sm_ok (m_Players c) \<and> (\<forall>g i. member c g = Some i \<longrightarrow> g \<noteq> 0 \<and> pi_player i = g
     \<and> (pi_IsOwner i \<longrightarrow> g = m_ownerGUID c \<and> pi_IsModerator i))"

definition bans_ok :: "Channel \<Rightarrow> bool" where
  "bans_ok c \<longleftrightarrow> sorted (m_banned c) \<and> distinct (m_banned c) \<and> (\<forall>g. IsOn g c \<longrightarrow> \<not> IsBanned g c)"

definition owned :: "Channel \<Rightarrow> bool" where
  "owned c \<longleftrightarrow> (\<not> IsConstant c \<and> m_ownership c \<and> member c \<noteq> Map.empty
      \<and> (m_name c \<noteq> cstr ''world'' \<or> m_ownerGUID c \<noteq> 0)
    \<longrightarrow> (\<exists>i. member c (m_ownerGUID c) = Some i \<and> pi_IsOwner i))"

definition ch_inv :: "Channel \<Rightarrow> bool" where
  "ch_inv c \<longleftrightarrow> marks_ok c \<and> bans_ok c \<and> owned c"

lemma ch_inv_cong:
  assumes "ch_core c = ch_core d"
  shows "ch_inv c = ch_inv d"
  using ch_core_fields[OF assms] by (simp add: ch_inv_def marks_ok_def bans_ok_def owned_def query_defs)

lemma marks_okD:
  assumes "marks_ok c" "member c g = Some i"
  shows "g \<noteq> 0" "pi_player i = g" "pi_IsOwner i \<Longrightarrow> g = m_ownerGUID c" "pi_IsOwner i \<Longrightarrow> pi_IsModerator i"
  using assms by (auto simp: marks_ok_def)

lemma IsOn_SetOwner [simp]: "IsOn h (SetOwner e g ex c) \<longleftrightarrow> IsOn h c \<or> (g \<noteq> 0 \<and> h = g)"
  by (simp add: IsOn_def)

text \<open>Handing the channel to a member, also when he was made a moderator just before.\<close>

lemma SetOwner_inv:
  assumes m: "marks_ok c" and b: "bans_ok c" and on: "IsOn g c"
  shows "ch_inv (SetOwner e g ex c)"
proof -
  from on obtain i where i: "member c g = Some i" by (auto simp: IsOn_def)
  note g = marks_okD[OF m i]
  have "marks_ok (SetOwner e g ex c)"
    unfolding marks_ok_def
  proof (intro conjI allI impI)
    show "sm_ok (m_Players (SetOwner e g ex c))" using m by (simp add: marks_ok_def)
    fix h j assume h: "member (SetOwner e g ex c) h = Some j"
    have "pi_player j = h \<and> h \<noteq> 0 \<and> (pi_IsOwner j \<longrightarrow> h = g \<and> pi_IsModerator j)"
    proof (cases "h = g")
      case True
      with h g(1,2) i show ?thesis by (auto simp: pl_at_def split: if_splits)
    next
      case False
      with h obtain k where "member c h = Some k" "pi_player j = pi_player k" "pi_IsOwner j \<longrightarrow> m_ownerGUID c \<noteq> h \<and> pi_IsOwner k"
        using g(1) marks_okD(1)[OF m] by (auto split: if_splits)
      with marks_okD[OF m] show ?thesis by blast
    qed
    then show "h \<noteq> 0" "pi_player j = h" "pi_IsOwner j \<Longrightarrow> h = m_ownerGUID (SetOwner e g ex c)" "pi_IsOwner j \<Longrightarrow> pi_IsModerator j"
      by simp_all
  qed
  moreover have "bans_ok (SetOwner e g ex c)" using b on by (auto simp: bans_ok_def IsBanned_def)
  moreover have "owned (SetOwner e g ex c)" using g(1) by (auto simp: owned_def)
  ultimately show ?thesis by (simp add: ch_inv_def)
qed

lemma IsOn_upd [simp]: "IsOn h (pl_upd e g f c) \<longleftrightarrow> IsOn h c \<or> h = g"
  by (simp add: IsOn_def)

lemma upd_marks:
  assumes "marks_ok c" and "IsOn g c"
    and "\<And>i. pi_player (f i) = pi_player i" "\<And>i. pi_IsOwner (f i) = pi_IsOwner i"
    and "g \<noteq> m_ownerGUID c \<or> (\<forall>i. pi_IsModerator i \<longrightarrow> pi_IsModerator (f i))"
  shows "marks_ok (pl_upd e g f c)"
  using assms by (auto simp: marks_ok_def pl_at_def IsOn_def split: if_splits)

lemma upd_bans: "bans_ok c \<Longrightarrow> IsOn g c \<Longrightarrow> bans_ok (pl_upd e g f c)"
  by (auto simp: bans_ok_def IsBanned_def)

lemma promote_inv:
  assumes "marks_ok c" "bans_ok c" "IsOn g c"
  shows "ch_inv (SetOwner e g ex (pl_upd e g (pi_SetModerator True) c))"
  using assms by (auto intro!: SetOwner_inv upd_marks upd_bans)

lemma upd_inv:
  assumes inv: "ch_inv c" and on: "IsOn g c"
    and f: "\<And>i. pi_player (f i) = pi_player i" "\<And>i. pi_IsOwner (f i) = pi_IsOwner i"
    and k: "g \<noteq> m_ownerGUID c \<or> (\<forall>i. pi_IsModerator i \<longrightarrow> pi_IsModerator (f i))"
  shows "ch_inv (pl_upd e g f c)"
proof -
  have "owned (pl_upd e g f c)"
    unfolding owned_def
  proof
    assume a: "\<not> IsConstant (pl_upd e g f c) \<and> m_ownership (pl_upd e g f c) \<and> member (pl_upd e g f c) \<noteq> Map.empty
      \<and> (m_name (pl_upd e g f c) \<noteq> cstr ''world'' \<or> m_ownerGUID (pl_upd e g f c) \<noteq> 0)"
    then obtain i where "member c (m_ownerGUID c) = Some i" "pi_IsOwner i"
      using inv on by (auto simp: ch_inv_def owned_def IsOn_def IsConstant_def)
    then show "\<exists>i. member (pl_upd e g f c) (m_ownerGUID (pl_upd e g f c)) = Some i \<and> pi_IsOwner i"
      using f(2) by (cases "g = m_ownerGUID c") simp_all
  qed
  then show ?thesis using upd_marks[OF _ on f(1,2), of e] upd_bans[OF _ on, of e f] k inv unfolding ch_inv_def by blast
qed


text \<open>Every operation keeps it.\<close>

lemma sm_insert_insert [simp]: "sm_insert k v (sm_insert k w m) = sm_insert k v m"
  by (induction k w m rule: sm_insert.induct) auto

lemma pl_upd_touch [simp]: "pl_upd e p f (pl_touch e p c) = pl_upd e p f c"
  by (simp add: pl_upd_def pl_touch_def pl_at_def)

lemma core_SetModerator: "ch_core (SetModerator e p b c) = ch_core (pl_upd e p (pi_SetModerator b) c)"
proof (cases "pi_IsModerator (pl_at e p c) = b")
  case True
  then show ?thesis by (simp add: SetModerator_def Let_def pl_touch_def pl_upd_def pi_Set_same)
next
  case False
  then show ?thesis by (simp add: SetModerator_def Let_def core_SendToAll)
qed

lemma core_SetMute: "ch_core (SetMute e p b c) = ch_core (pl_upd e p (pi_SetMuted b) c)"
proof (cases "pi_IsMuted (pl_at e p c) = b")
  case True
  then show ?thesis by (simp add: SetMute_def Let_def pl_touch_def pl_upd_def pi_Set_same)
next
  case False
  then show ?thesis by (simp add: SetMute_def Let_def core_SendToAll)
qed

lemma owned_if:
  assumes "\<not> IsConstant c \<Longrightarrow> m_ownership c \<Longrightarrow> member c \<noteq> Map.empty \<Longrightarrow> m_name c \<noteq> cstr ''world'' \<or> m_ownerGUID c \<noteq> 0 \<Longrightarrow>
    \<exists>i. member c (m_ownerGUID c) = Some i \<and> pi_IsOwner i"
  shows "owned c"
  using assms by (auto simp: owned_def)

lemma ownedD:
  assumes "owned c" "\<not> IsConstant c" "m_ownership c" "member c \<noteq> Map.empty" "m_name c \<noteq> cstr ''world'' \<or> m_ownerGUID c \<noteq> 0"
  obtains i where "member c (m_ownerGUID c) = Some i" "pi_IsOwner i"
  using assms by (auto simp: owned_def)

lemma join_in_ok:
  assumes "ch_inv c" "p \<noteq> 0" "\<not> IsOn p c" "\<not> IsBanned p c"
  shows "marks_ok (join_in e p c)" "bans_ok (join_in e p c)"
  using assms by (auto simp: ch_inv_def marks_ok_def bans_ok_def query_defs split: if_splits)

lemma join_in_owned:
  assumes inv: "ch_inv c" and p: "\<not> IsOn p c"
    and fresh: "m_Players c = [] \<Longrightarrow> m_ownerGUID c = 0"
    and o: "IsConstant c \<or> \<not> m_ownership c \<or> m_name c = cstr ''world'' \<or> m_ownerGUID c \<noteq> 0"
  shows "owned (join_in e p c)"
proof (rule owned_if)
  assume a: "\<not> IsConstant (join_in e p c)" "m_ownership (join_in e p c)" 
    "m_name (join_in e p c) \<noteq> cstr ''world'' \<or> m_ownerGUID (join_in e p c) \<noteq> 0"
  then have "m_ownerGUID c \<noteq> 0" using o by auto
  then have "member c \<noteq> Map.empty" using fresh by auto
  with inv a obtain i where i: "member c (m_ownerGUID c) = Some i" "pi_IsOwner i"
    by (auto simp: ch_inv_def elim: ownedD)
  then show "\<exists>i. member (join_in e p c) (m_ownerGUID (join_in e p c)) = Some i \<and> pi_IsOwner i"
    using p by (auto simp: IsOn_def)
qed

lemma IsOn_join_in [simp]: "IsOn h (join_in e p c) \<longleftrightarrow> IsOn h c \<or> h = p"
  by (simp add: IsOn_def)

lemma Join_inv:
  assumes inv: "ch_inv c" and p: "p \<noteq> 0" and fresh: "m_Players c = [] \<Longrightarrow> m_ownerGUID c = 0"
  shows "ch_inv (Join e p pass c)"
proof (cases "IsOn p c \<or> \<not> admits e p pass c")
  case True
  from ch_inv_cong[OF refused_core[OF Join_refused[OF this]]] inv show ?thesis by blast
next
  case False
  let ?j = "join_in e p c"
  have b: "\<not> IsOn p c" "\<not> IsBanned p c" using False by (auto simp: admits_def)
  note ok = join_in_ok[OF inv p b, of e] and own = join_in_owned[OF inv b(1) fresh]
  have on: "IsOn p ?j" by simp
  let ?m = "pl_upd e p (pi_SetModerator True)"
  have up: "ch_inv (?m d)" if "ch_inv d" "IsOn p d" for d by (rule upd_inv[OF that]) simp_all
  have *: "ch_inv (hand_out e p ?j)"
  proof (cases "m_name c = cstr ''world''")
    case True
    have j: "ch_inv ?j" using ok own True by (simp add: ch_inv_def)
    moreover have "ch_inv (SetOwner e p ex (?m ?j))" for ex by (rule promote_inv[OF ok on])
    ultimately show ?thesis using True up[OF j on] by (auto simp: hand_out_def Let_def split: option.split)
  next
    case w: False
    show ?thesis
    proof (cases "m_ownerGUID c = 0 \<and> m_ownership c")
      case True
      have "ch_inv (SetOwner e p ex ?j)" for ex by (rule SetOwner_inv[OF ok on])
      then show ?thesis using True w p by (auto simp: hand_out_def intro!: up)
    next
      case False
      then have "ch_inv ?j" using ok own by (auto simp: ch_inv_def)
      then show ?thesis using False w by (auto simp: hand_out_def)
    qed
  qed
  have "ch_inv ?j" if "IsConstant c" using ok own that by (simp add: ch_inv_def)
  with * Join_joined[of p c e pass] False show ?thesis by simp
qed


lemma succeed_inv:
  assumes m: "marks_ok c" "bans_ok c" and ne: "m_Players c \<noteq> []"
  shows "ch_inv (succeed e c)"
proof -
  note h = hd_member[OF ne]
  then have "pi_player (snd (hd (m_Players c))) = fst (hd (m_Players c))" "IsOn (fst (hd (m_Players c))) c"
    using marks_okD(2)[OF m(1)] by (auto simp: IsOn_def)
  then show ?thesis unfolding succeed_def Let_def using promote_inv[OF m] by metis
qed

lemma leave_out_ok:
  assumes "ch_inv c"
  shows "marks_ok (leave_out e p send c)" "bans_ok (leave_out e p send c)"
  using assms by (auto simp: ch_inv_def marks_ok_def bans_ok_def query_defs split: if_splits)

lemma erased_owned:
  assumes c: "owned c" and d: "ch_fixed d = ch_fixed c" "m_ownerGUID d = m_ownerGUID c" "m_Players d = sm_erase p (m_Players c)"
    and p: "\<not> IsConstant c \<Longrightarrow> m_ownership c \<Longrightarrow> sm_erase p (m_Players c) \<noteq> [] \<Longrightarrow>
      (\<exists>i. member c (m_ownerGUID c) = Some i \<and> pi_IsOwner i) \<Longrightarrow> p \<noteq> m_ownerGUID c"
  shows "owned d"
proof (rule owned_if)
  assume a: "\<not> IsConstant d" "m_ownership d" "member d \<noteq> Map.empty" "m_name d \<noteq> cstr ''world'' \<or> m_ownerGUID d \<noteq> 0"
  note f = ch_fixedD[OF d(1)]
  from a(3) have "m_Players d \<noteq> []" by auto
  then have ne: "sm_erase p (m_Players c) \<noteq> []" by (simp add: d(3))
  from a(3) have "member c \<noteq> Map.empty" by (auto simp: d(3))
  with c a obtain i where i: "member c (m_ownerGUID c) = Some i" "pi_IsOwner i" using f d(2) by (auto elim: ownedD)
  with p a ne f have "p \<noteq> m_ownerGUID c" by auto
  with i show "\<exists>i. member d (m_ownerGUID d) = Some i \<and> pi_IsOwner i" by (auto simp: d(2,3))
qed

lemma Leave_inv:
  assumes inv: "ch_inv c"
  shows "ch_inv (Leave e p send c)"
proof (cases "IsOn p c")
  case False
  then show ?thesis using inv ch_inv_cong[OF core_SendToOne, of e _ p c] by (simp add: Leave_def)
next
  case True
  then obtain j where j: "member c p = Some j" by (auto simp: IsOn_def)
  note ok = leave_out_ok[OF inv, of e p send]
  show ?thesis
  proof (cases "\<not> IsConstant c \<and> pi_IsOwner (pl_at e p c) \<and> m_ownership c \<and> sm_erase p (m_Players c) \<noteq> []")
    case True
    then have "m_Players (leave_out e p send c) \<noteq> []" by simp
    from succeed_inv[OF ok this] True Leave_member[OF \<open>IsOn p c\<close>] show ?thesis by simp
  next
    case False
    have "owned (leave_out e p send c)"
      by (rule erased_owned[of c _ p]) (use inv False j in \<open>auto simp: ch_inv_def\<close>)
    with ok show ?thesis unfolding Leave_member[OF \<open>IsOn p c\<close>] if_not_P[OF False] ch_inv_def by blast
  qed
qed

definition kick_out :: "ch_env \<Rightarrow> u64 \<Rightarrow> u64 \<Rightarrow> bool \<Rightarrow> Channel \<Rightarrow> Channel" where
  "kick_out e good bad ban c =
     (let notify = (\<not> (IsModeratorAccount (security_of e good) \<and> ce_silent_gm e));
          c = (if ban \<and> \<not> IsBanned bad c
               then let c = UpdateChannelInDB (c\<lparr>m_banned := insort_insert bad (m_banned c)\<rparr>)
                    in if notify then SendToAll e (MakePlayerBanned e bad good c) 0 c else c
               else if notify then SendToAll e (MakePlayerKicked e bad good c) 0 c else c)
      in ch_effect (LeftChannel bad) (pl_erase bad c))"

lemma kick_out_fields [simp]:
  "m_Players (kick_out e good bad ban c) = sm_erase bad (m_Players c)"
  "m_banned (kick_out e good bad ban c) = (if ban \<and> \<not> IsBanned bad c then insort_insert bad (m_banned c) else m_banned c)"
  "m_ownerGUID (kick_out e good bad ban c) = m_ownerGUID c"
  "m_announce (kick_out e good bad ban c) = m_announce c" "m_password (kick_out e good bad ban c) = m_password c"
  "ch_fixed (kick_out e good bad ban c) = ch_fixed c"
  by (simp_all add: kick_out_def Let_def ch_fixed_def)

lemmas kick_out_fixed [simp] = ch_fixedD[OF kick_out_fields(6)]

lemma kick_or_ban_eq:
  "kick_or_ban e good bad ban c =
     (if m_ownerGUID c = bad \<and> m_ownership c \<and> sm_erase bad (m_Players c) \<noteq> []
      then SetOwner e good True (pl_upd e good (pi_SetModerator True) (kick_out e good bad ban c))
      else kick_out e good bad ban c)"
  by (simp add: kick_or_ban_def kick_out_def Let_def)

lemma kick_out_ok:
  assumes "ch_inv c"
  shows "marks_ok (kick_out e good bad ban c)" "bans_ok (kick_out e good bad ban c)"
  using assms by (auto simp: ch_inv_def marks_ok_def bans_ok_def query_defs sorted_insort_insert distinct_insort_insert
    set_insort_insert split: if_splits)

lemma kick_inv:
  assumes inv: "ch_inv c" and on: "IsOn good c" and ne: "bad = m_ownerGUID c \<Longrightarrow> good \<noteq> bad"
  shows "ch_inv (kick_or_ban e good bad ban c)"
proof (cases "m_ownerGUID c = bad \<and> m_ownership c \<and> sm_erase bad (m_Players c) \<noteq> []")
  case True
  then have "IsOn good (kick_out e good bad ban c)" using on ne by (auto simp: IsOn_def)
  from promote_inv[OF kick_out_ok[OF inv] this] True show ?thesis by (simp add: kick_or_ban_eq)
next
  case False
  have "owned (kick_out e good bad ban c)"
    by (rule erased_owned[of c _ bad]) (use inv False in \<open>auto simp: ch_inv_def\<close>)
  with kick_out_ok[OF inv] show ?thesis unfolding kick_or_ban_eq if_not_P[OF False] ch_inv_def by blast
qed


lemma SetMode_inv:
  assumes inv: "ch_inv c"
  shows "ch_inv (SetMode e p name md val c)"
proof (cases rule: SetMode_cases[of e p c name md val])
  case refused
  from ch_inv_cong[OF refused_core[OF this]] inv show ?thesis by blast
next
  case (set newp)
  have "ch_inv (pl_upd e (cp_guid newp) (pi_SetModerator val) c)" if md
    by (rule upd_inv[OF inv set(4)]) (use set(5) that in auto)
  moreover have "ch_inv (pl_upd e (cp_guid newp) (pi_SetMuted val) c)"
    by (rule upd_inv[OF inv set(4)]) simp_all
  ultimately show ?thesis using set(6) ch_inv_cong[OF core_SetModerator] ch_inv_cong[OF core_SetMute] by simp
qed

lemma SetOwner_name_inv:
  assumes inv: "ch_inv c"
  shows "ch_inv (SetOwner_name e p name c)"
proof (cases rule: SetOwner_name_cases[of e p c name])
  case refused
  from ch_inv_cong[OF refused_core[OF this]] inv show ?thesis by blast
next
  case (set newp)
  with inv show ?thesis by (auto simp: ch_inv_def[of c] intro: promote_inv)
qed

lemma setting_inv:
  "ch_inv (c\<lparr>m_password := x\<rparr>) = ch_inv c" "ch_inv (c\<lparr>m_announce := b\<rparr>) = ch_inv c"
  by (simp_all add: ch_inv_def marks_ok_def bans_ok_def owned_def query_defs)

lemma unban_inv: "ch_inv c \<Longrightarrow> ch_inv (c\<lparr>m_banned := filter P (m_banned c)\<rparr>)"
  by (auto simp: ch_inv_def marks_ok_def bans_ok_def owned_def query_defs sorted_filter[where f = id, simplified])

lemma UnBan_inv: "ch_inv c \<Longrightarrow> ch_inv (UnBan e p name c)"
  by (cases rule: UnBan_cases[of e p c name]) (metis ch_inv_cong refused_core unban_inv)+

lemma Password_inv: "ch_inv c \<Longrightarrow> ch_inv (Password e p pass c)"
  by (cases rule: Password_cases[of e p c pass]) (metis ch_inv_cong refused_core setting_inv)+

lemma Announce_inv: "ch_inv c \<Longrightarrow> ch_inv (ch_Announce e p c)"
  by (cases rule: Announce_cases[of e p c]) (metis ch_inv_cong refused_core setting_inv)+

lemma Locale_inv: "ch_inv c \<Longrightarrow> ch_inv (UpdateChatLocaleFiltering e pl c)"
  by (auto simp: UpdateChatLocaleFiltering_def pi_IsOwner_def pi_IsModerator_def split: option.split intro!: upd_inv)

lemma KickOrBan_inv:
  assumes inv: "ch_inv c"
    and ne: "\<And>bad. FindPlayerByName e name = Some bad \<Longrightarrow> cp_guid bad = good \<Longrightarrow> good \<noteq> m_ownerGUID c"
  shows "ch_inv (KickOrBan e good name ban c)"
proof (cases rule: KickOrBan_cases[of e good c name ban])
  case refused
  from ch_inv_cong[OF refused_core[OF this]] inv show ?thesis by blast
next
  case (kicked bad)
  have "ch_inv (kick_or_ban e good (cp_guid bad) ban c)"
    by (rule kick_inv[OF inv kicked(2)]) (use ne[OF kicked(1)] in auto)
  with kicked(6) show ?thesis by simp
qed

text \<open>
  A step: any of the operations in any environment. A player is not guid 0; the owner does not kick
  himself; and a channel everybody has left is not used again (\<open>ChannelMgr::LeftChannel\<close> deletes it),
  so a join into an empty channel finds one without an owner.
\<close>

inductive ch_step :: "Channel \<Rightarrow> Channel \<Rightarrow> bool" where
  step: "ch_step c (ch_exec e op c)"
    if "case op of OpJoin p _ \<Rightarrow> p \<noteq> 0 \<and> (m_Players c = [] \<longrightarrow> m_ownerGUID c = 0)
          | OpKick p name _ \<Rightarrow> \<not> (p = m_ownerGUID c \<and> map_option cp_guid (FindPlayerByName e name) = Some p)
          | _ \<Rightarrow> True"

inductive_cases ch_stepE: "ch_step c d"

lemma ch_step_inv: "ch_step c d \<Longrightarrow> ch_inv c \<Longrightarrow> ch_inv d"
proof (induction rule: ch_step.induct)
  case (step op c e)
  note core = ch_inv_cong[OF core_SendWhoOwner] ch_inv_cong[OF core_List] ch_inv_cong[OF core_Say] ch_inv_cong[OF core_Invite]
  show ?case
  proof (cases op)
    case (OpKick p name ban)
    with step show ?thesis by (auto intro!: KickOrBan_inv)
  qed (use step in \<open>simp_all add: core Join_inv Leave_inv UnBan_inv Password_inv SetMode_inv SetOwner_name_inv
      Announce_inv Locale_inv\<close>)
qed

lemma ch_run_inv: "ch_step\<^sup>*\<^sup>* c d \<Longrightarrow> ch_inv c \<Longrightarrow> ch_inv d"
  by (induction rule: rtranclp_induct) (simp_all add: ch_step_inv)

end
