(* ===== verification/ChannelFacts.thy ===== *)
theory ChannelFacts
  imports ChannelRules
begin

text \<open>
  Properties of the chat channels: ownership, bans, who may command, joining, leaving, speaking, and
  two places where the code does not do what it means to.
\<close>

subsection \<open>New channels\<close>

lemma load_bans_ok: "sorted (load_bans s) \<and> distinct (load_bans s)"
proof -
  have "sorted (foldl f b ts) \<and> distinct (foldl f b ts)"
    if "\<And>b t. sorted b \<and> distinct b \<Longrightarrow> sorted (f b t) \<and> distinct (f b t)" and "sorted b \<and> distinct b"
    for f :: "u64 list \<Rightarrow> cstring \<Rightarrow> u64 list" and b ts
    using that(2) by (induction ts arbitrary: b) (simp_all add: that(1))
  then show ?thesis unfolding load_bans_def by (simp add: Let_def sorted_insort_insert distinct_insort_insert)
qed

lemma Channel_new_fields [simp]:
  "m_Players (Channel_new e tbl name cid team) = []" "m_ownerGUID (Channel_new e tbl name cid team) = 0"
  "m_name (Channel_new e tbl name cid team) = name" "m_Team (Channel_new e tbl name cid team) = team"
  "m_channelId (Channel_new e tbl name cid team) = cid"
  by (simp_all add: Channel_new_def Channel_blank_def load_channel_def Let_def ch_effect_def split: option.split)

lemma Channel_new_inv: "ch_inv (Channel_new e tbl name cid team)"
proof -
  have "sorted (m_banned (Channel_new e tbl name cid team)) \<and> distinct (m_banned (Channel_new e tbl name cid team))"
    using load_bans_ok by (simp add: Channel_new_def Channel_blank_def load_channel_def Let_def ch_effect_def split: option.split)
  then show ?thesis by (simp add: ch_inv_def marks_ok_def bans_ok_def owned_def IsOn_def)
qed

subsection \<open>The owner\<close>

text \<open>C1. Over every sequence of operations in which no owner kicks or bans himself (\<open>sole_self_kick_orphans\<close>
  and \<open>self_ban_stays\<close> show what happens then), nobody has guid 0 and nobody joins a channel its last member
  has left (the manager deletes it): whoever carries the mark of the owner is the owner and a moderator; and
  a custom channel with ownership that has members and is not named world has an owner among them (the code
  gives the channel with exactly this name none).\<close>

theorem channel_owner:
  assumes "ch_step\<^sup>*\<^sup>* (Channel_new e tbl name cid team) c"
  shows "(\<forall>g i. map_of (m_Players c) g = Some i \<and> pi_IsOwner i \<longrightarrow> g = m_ownerGUID c \<and> pi_IsModerator i)
    \<and> (m_Players c \<noteq> [] \<and> \<not> IsConstant c \<and> m_ownership c \<and> m_name c \<noteq> cstr ''world'' \<longrightarrow>
        (\<exists>i. map_of (m_Players c) (m_ownerGUID c) = Some i \<and> pi_IsOwner i \<and> pi_IsModerator i))"
proof -
  have inv: "marks_ok c" "owned c" using ch_run_inv[OF assms Channel_new_inv] by (simp_all add: ch_inv_def)
  have "\<exists>i. member c (m_ownerGUID c) = Some i \<and> pi_IsOwner i"
    if "m_Players c \<noteq> []" "\<not> IsConstant c" "m_ownership c" "m_name c \<noteq> cstr ''world''"
    using ownedD[OF inv(2)] that by auto
  with marks_okD(3,4)[OF inv(1)] show ?thesis by blast
qed

text \<open>C7. Over every sequence of operations in which no owner kicks or bans himself (he would stay, banned:
  \<open>self_ban_stays\<close>), nobody has guid 0 and nobody joins a channel its last member has left: no member of the
  channel is banned from it, and every member is stored under his own guid.\<close>

theorem banned_not_member:
  assumes "ch_step\<^sup>*\<^sup>* (Channel_new e tbl name cid team) c" and "IsOn g c"
  shows "\<not> IsBanned g c \<and> (\<exists>i. map_of (m_Players c) g = Some i \<and> pi_player i = g)"
proof -
  have inv: "marks_ok c" "bans_ok c" using ch_run_inv[OF assms(1) Channel_new_inv] by (simp_all add: ch_inv_def)
  with assms(2) marks_okD(2)[OF inv(1)] show ?thesis by (auto simp: bans_ok_def IsOn_def)
qed

lemma hand_out_id: "m_ownerGUID c \<noteq> 0 \<Longrightarrow> g \<noteq> p \<Longrightarrow>
   member (hand_out e p c) g = member c g \<and> m_ownerGUID (hand_out e p c) = m_ownerGUID c"
  by (auto simp: hand_out_def Let_def split: option.split)

lemma Join_other:
  assumes "m_ownerGUID c \<noteq> 0" "g \<noteq> p"
  shows "member (Join e p pass c) g = member c g \<and> m_ownerGUID (Join e p pass c) = m_ownerGUID c"
proof (cases "IsOn p c \<or> \<not> admits e p pass c")
  case True
  from ch_core_fields[OF refused_core[OF Join_refused[OF this]]] show ?thesis by simp
next
  case False
  have "member (join_in e p c) g = member c g" "m_ownerGUID (join_in e p c) = m_ownerGUID c" using assms(2) by simp_all
  with hand_out_id[of "join_in e p c" g p e] assms Join_joined[of p c e pass] False show ?thesis by simp
qed

lemma UnBan_fields [simp]:
  "m_Players (UnBan e p n c) = m_Players c" "m_ownerGUID (UnBan e p n c) = m_ownerGUID c"
  "m_password (UnBan e p n c) = m_password c" "m_announce (UnBan e p n c) = m_announce c"
  by (simp_all add: UnBan_def Let_def split: option.split)

lemma Password_fields [simp]:
  "m_Players (Password e p x c) = m_Players c" "m_ownerGUID (Password e p x c) = m_ownerGUID c"
  "m_banned (Password e p x c) = m_banned c" "m_announce (Password e p x c) = m_announce c"
  by (simp_all add: Password_def Let_def)

lemma Announce_fields [simp]:
  "m_Players (ch_Announce e p c) = m_Players c" "m_ownerGUID (ch_Announce e p c) = m_ownerGUID c"
  "m_banned (ch_Announce e p c) = m_banned c" "m_password (ch_Announce e p c) = m_password c"
  by (simp_all add: ch_Announce_def Let_def)

lemmas core_sends = core_SendWhoOwner core_List core_Say core_Invite

text \<open>C2. Nobody but himself or a game master can take anything from the owner of a channel: after any
  operation by another player he is still the owner, a member, and his entry is as it was.\<close>

theorem owner_protected:
  assumes inv: "ch_inv c" and own: "map_of (m_Players c) (m_ownerGUID c) = Some i"
    and other: "actor op \<noteq> m_ownerGUID c" and nogm: "\<not> IsModeratorAccount (security_of e (actor op))"
  shows "m_ownerGUID (ch_exec e op c) = m_ownerGUID c
    \<and> map_of (m_Players (ch_exec e op c)) (m_ownerGUID c) = Some i"
proof -
  have m: "marks_ok c" using inv by (simp add: ch_inv_def)
  note nz = marks_okD(1)[OF m own]
  have keep: "m_ownerGUID d = m_ownerGUID c \<and> member d (m_ownerGUID c) = Some i" if "ch_core d = ch_core c" for d
    using ch_core_fields[OF that] own by simp
  note ref = keep[OF refused_core]
  show ?thesis
  proof (cases op)
    case (OpJoin p pass)
    with Join_other[OF nz, of "m_ownerGUID c" p e pass] other own show ?thesis by simp
  next
    case (OpLeave p send)
    show ?thesis
    proof (cases "IsOn p c")
      case True
      then obtain j where "member c p = Some j" by (auto simp: IsOn_def)
      then have "\<not> pi_IsOwner (pl_at e p c)" using marks_okD(3)[OF m] other OpLeave by auto
      with OpLeave True other own show ?thesis by (simp add: Leave_member)
    next
      case False
      with OpLeave own show ?thesis by (simp add: Leave_def)
    qed
  next
    case (OpKick p name ban)
    show ?thesis
    proof (cases rule: KickOrBan_cases[of e p c name ban])
      case refused
      from ref[OF this] OpKick show ?thesis by simp
    next
      case (kicked bad)
      with OpKick other nogm own show ?thesis by (auto simp: kick_or_ban_eq)
    qed
  next
    case (OpUnBan p name)
    with own show ?thesis by simp
  next
    case (OpPassword p pass)
    with own show ?thesis by simp
  next
    case (OpMode p name md val)
    show ?thesis
    proof (cases rule: SetMode_cases[of e p c name md val])
      case refused
      from ref[OF this] OpMode show ?thesis by simp
    next
      case (set newp)
      with OpMode other own show ?thesis by auto
    qed
  next
    case (OpOwner p name)
    show ?thesis
    proof (cases rule: SetOwner_name_cases[of e p c name])
      case refused
      from ref[OF this] OpOwner show ?thesis by simp
    next
      case (set newp)
      with OpOwner other nogm show ?thesis by auto
    qed
  next
    case (OpAnnounce p)
    with own show ?thesis by simp
  next
    case (OpLocale pl)
    then show ?thesis using other own by (auto simp: UpdateChatLocaleFiltering_def split: option.splits)
  qed (use keep[OF core_SendWhoOwner] keep[OF core_List] keep[OF core_Say] keep[OF core_Invite] in simp_all)
qed

subsection \<open>Moderation\<close>

lemma hand_out_settings [simp]:
  "m_password (hand_out e p c) = m_password c" "m_announce (hand_out e p c) = m_announce c" "m_banned (hand_out e p c) = m_banned c"
  by (auto simp: hand_out_def Let_def split: option.split)

lemma hand_out_IsOn: "IsOn p c \<Longrightarrow> IsOn g (hand_out e p c) = IsOn g c"
  by (auto simp: hand_out_def Let_def split: option.split)

lemma succeed_settings [simp]:
  "m_password (succeed e c) = m_password c" "m_announce (succeed e c) = m_announce c" "m_banned (succeed e c) = m_banned c"
  by (simp_all add: succeed_def Let_def)

lemma succeed_keeps: "IsOn g c \<Longrightarrow> IsOn g (succeed e c)"
  by (auto simp: succeed_def Let_def)

text \<open>C6. The password, the bans and the announcements of a channel change, and a player is removed by
  another one, only through a member who is a moderator of the channel or a game master.\<close>

theorem commands_need_moderator:
  assumes "m_password (ch_exec e op c) \<noteq> m_password c \<or> m_banned (ch_exec e op c) \<noteq> m_banned c
      \<or> m_announce (ch_exec e op c) \<noteq> m_announce c
      \<or> (\<exists>g. g \<noteq> actor op \<and> IsOn g c \<and> \<not> IsOn g (ch_exec e op c))"
  shows "IsOn (actor op) c
    \<and> (pi_IsModerator (pl_at e (actor op) c) \<or> IsModeratorAccount (security_of e (actor op)))"
proof (rule ccontr)
  assume no: "\<not> ?thesis"
  let ?d = "ch_exec e op c"
  have same: "m_password d = m_password c \<and> m_banned d = m_banned c \<and> m_announce d = m_announce c \<and> (\<forall>g. IsOn g d = IsOn g c)"
    if "ch_core d = ch_core c" for d
    using ch_core_fields[OF that] query_frames(1)[OF that] by simp
  note ref = same[OF refused_core]
  have "m_password ?d = m_password c \<and> m_banned ?d = m_banned c \<and> m_announce ?d = m_announce c
      \<and> (\<forall>g. g \<noteq> actor op \<longrightarrow> IsOn g c \<longrightarrow> IsOn g ?d)"
  proof (cases op)
    case (OpJoin p pass)
    then show ?thesis
    proof (cases "IsOn p c \<or> \<not> admits e p pass c")
      case True
      from ref[OF Join_refused[OF this]] OpJoin show ?thesis by simp
    next
      case False
      with OpJoin Join_joined[of p c e pass] show ?thesis by (simp add: hand_out_IsOn)
    qed
  next
    case (OpLeave p send)
    then show ?thesis
    proof (cases "IsOn p c")
      case True
      have "IsOn g (leave_out e p send c)" if "IsOn g c" "g \<noteq> p" for g using that by (simp add: IsOn_def)
      with OpLeave True show ?thesis by (simp add: Leave_member succeed_keeps)
    qed (simp add: Leave_def)
  next
    case (OpKick p name ban)
    show ?thesis
    proof (cases rule: KickOrBan_cases[of e p c name ban])
      case refused
      from ref[OF this] OpKick show ?thesis by simp
    next
      case (kicked bad)
      with OpKick no show ?thesis by (auto simp: may_moderate_def)
    qed
  next
    case (OpUnBan p name)
    show ?thesis
    proof (cases rule: UnBan_cases[of e p c name])
      case refused
      from ref[OF this] OpUnBan show ?thesis by simp
    next
      case (unbanned bad)
      with OpUnBan no show ?thesis by (auto simp: may_moderate_def)
    qed
  next
    case (OpPassword p pass)
    show ?thesis
    proof (cases rule: Password_cases[of e p c pass])
      case refused
      from ref[OF this] OpPassword show ?thesis by simp
    next
      case changed
      with OpPassword no show ?thesis by (auto simp: may_moderate_def)
    qed
  next
    case (OpMode p name md val)
    show ?thesis
    proof (cases rule: SetMode_cases[of e p c name md val])
      case refused
      from ref[OF this] OpMode show ?thesis by simp
    next
      case (set newp)
      with OpMode show ?thesis by (auto simp: IsOn_def)
    qed
  next
    case (OpOwner p name)
    show ?thesis
    proof (cases rule: SetOwner_name_cases[of e p c name])
      case refused
      from ref[OF this] OpOwner show ?thesis by simp
    next
      case (set newp)
      with OpOwner show ?thesis by auto
    qed
  next
    case (OpAnnounce p)
    show ?thesis
    proof (cases rule: Announce_cases[of e p c])
      case refused
      from ref[OF this] OpAnnounce show ?thesis by simp
    next
      case changed
      with OpAnnounce no show ?thesis by (auto simp: may_moderate_def)
    qed
  next
    case (OpLocale pl)
    then show ?thesis by (auto simp: UpdateChatLocaleFiltering_def split: option.split)
  qed (use same[OF core_SendWhoOwner] same[OF core_List] same[OF core_Say] same[OF core_Invite] in simp_all)
  with assms show False by blast
qed

subsection \<open>Joining and leaving\<close>

text \<open>C9. A player is on the channel after a join exactly when he was on it or was let in: not banned, with
  the right password, and not kept out of a looking-for-group channel; a refused join changes nothing.\<close>

theorem Join_admits:
  "(IsOn p (Join e p pass c) \<longleftrightarrow> IsOn p c \<or> (\<not> IsBanned p c
     \<and> (m_password c = [] \<or> c_str pass = c_str (m_password c)) \<and> \<not> lfg_restricted e p c))
   \<and> (if IsOn p (Join e p pass c) = IsOn p c then (Join e p pass c)\<lparr>m_log := []\<rparr> = c\<lparr>m_log := []\<rparr>
      else map_of (m_Players (Join e p pass c)) p \<noteq> None)"
proof (cases "IsOn p c \<or> \<not> admits e p pass c")
  case True
  note r = refused_core[OF Join_refused[OF this]]
  from query_frames(1)[OF r] r True show ?thesis by (auto simp: admits_def ch_core_def)
next
  case False
  then have "IsOn p (Join e p pass c)" by (simp add: Join_joined hand_out_IsOn)
  with False show ?thesis by (auto simp: admits_def IsOn_def)
qed

lemma sm_hd_least: "sm_ok m \<Longrightarrow> map_of m k \<noteq> None \<Longrightarrow> fst (hd m) \<le> k"
proof (cases m)
  case (Cons x xs)
  assume "sm_ok m" "map_of m k \<noteq> None"
  then have "k \<in> fst ` set m" by (simp add: map_of_eq_None_iff)
  then have "k = fst x \<or> k \<in> fst ` set xs" using Cons by auto
  with Cons \<open>sm_ok m\<close> show ?thesis by (cases x) (auto simp: sm_ok_Cons less_imp_le)
qed simp


subsection \<open>An example\<close>

definition demo_player :: "u64 \<Rightarrow> string \<Rightarrow> AccountTypes \<Rightarrow> ChPlayer" where
  "demo_player g name sec = \<lparr>cp_guid = g, cp_inWorld = True, cp_name = cstr name, cp_security = sec, cp_team = 469,
     cp_group = False, cp_noLocaleFilter = False, cp_locale = 0, cp_account = g + 100, cp_gmVisible = True,
     cp_ignores = (\<lambda>_. False)\<rparr>"

definition demo_env :: ch_env where
  "demo_env = \<lparr>ce_objects = [demo_player 5 ''Ann'' SEC_PLAYER, demo_player 7 ''Bob'' SEC_PLAYER, demo_player 9 ''Gm'' SEC_GAMEMASTER],
     ce_cache = (\<lambda>_. None), ce_cache_size = 0, ce_two_side = False, ce_silent_gm = False, ce_restricted_lfg = False,
     ce_preserve = True, ce_gm_who_level = 7, ce_realm = 1, ce_store = (\<lambda>_. None), ce_visible = (\<lambda>_ _. True),
     ce_char_name = (\<lambda>_. None), ce_chat = (\<lambda>g s l n. [C_guid g, C_u32 l, C_str s]),
     ce_memory = \<lparr>pi_player = 0, pi_flags = 0, pi_LocaleFilter = 0\<rparr>\<rparr>"

definition demo_new :: Channel where
  "demo_new = Channel_new demo_env (\<lambda>_. None) (cstr ''trade'') 0 469"

definition demo_one :: Channel where
  "demo_one = ch_exec demo_env (OpJoin 7 []) demo_new"

definition demo_two :: Channel where
  "demo_two = ch_exec demo_env (OpJoin 5 []) demo_one"

definition demo_owner :: PlayerInfo where
  "demo_owner = \<lparr>pi_player = 7, pi_flags = 3, pi_LocaleFilter = 0xFFFFFFFF\<rparr>"

definition demo_plain :: PlayerInfo where
  "demo_plain = \<lparr>pi_player = 5, pi_flags = 0, pi_LocaleFilter = 0xFFFFFFFF\<rparr>"

definition demo_value :: Channel where
  "demo_value = \<lparr>m_Players = [(5, demo_plain), (7, demo_owner)], m_banned = [],
    m_announce = True, m_special = False, m_ownership = True, m_name = cstr ''trade'', m_password = [], m_flags = 1,
    m_channelId = 0, m_ownerGUID = 7, m_IsSaved = True, m_Team = 469, m_log = []\<rparr>"

lemma demo_core: "ch_core demo_two = ch_core demo_value"
  by code_simp

lemma demo_fields:
  "m_Players demo_two = [(5, demo_plain), (7, demo_owner)]" "m_banned demo_two = []" "m_announce demo_two"
  "\<not> IsConstant demo_two" "m_ownership demo_two" "m_name demo_two = cstr ''trade''" "m_ownerGUID demo_two = 7"
  "m_password demo_two = []"
  using ch_core_fields[OF demo_core] query_frames(4)[OF demo_core] by (simp_all add: demo_value_def IsConstant_def)

lemma demo_flags: "pi_IsOwner demo_owner" "pi_IsModerator demo_owner"
  by code_simp+

lemma demo_find: "FindPlayer demo_env 5 = Some (demo_player 5 ''Ann'' SEC_PLAYER)"
  "FindPlayer demo_env 7 = Some (demo_player 7 ''Bob'' SEC_PLAYER)" "cp_ignores (demo_player g n s) = (\<lambda>_. False)"
  by (simp_all add: FindPlayer_def holder_Find_def demo_env_def demo_player_def)

lemma demo_one_ne: "m_Players demo_one \<noteq> []"
proof -
  have "\<not> IsOn 7 demo_new \<and> admits demo_env 7 [] demo_new" by code_simp
  then have "IsOn 7 demo_one" by (simp add: demo_one_def Join_joined hand_out_IsOn)
  then show ?thesis by (auto simp: IsOn_def)
qed

lemma demo_step1: "ch_step demo_new demo_one"
  unfolding demo_one_def by (rule ch_step.step) (simp add: demo_new_def)

lemma demo_step2: "ch_step demo_one demo_two"
  unfolding demo_two_def by (rule ch_step.step) (simp add: demo_one_ne)

lemma demo_run: "ch_step\<^sup>*\<^sup>* (Channel_new demo_env (\<lambda>_. None) (cstr ''trade'') 0 469) demo_two"
  using demo_step1 demo_step2 unfolding demo_new_def by (blast intro: converse_rtranclp_into_rtranclp)

lemma demo_inv: "ch_inv demo_two"
  by (rule ch_run_inv[OF demo_run Channel_new_inv])

theorem channel_owner_witness:
  "\<exists>i. map_of (m_Players demo_two) 7 = Some i \<and> pi_IsOwner i \<and> pi_IsModerator i"
proof -
  have "cstr ''trade'' \<noteq> cstr ''world''" by code_simp
  then show ?thesis using conjunct2[OF channel_owner[OF demo_run]] by (simp add: demo_fields)
qed

theorem banned_not_member_witness:
  "\<not> IsBanned 5 demo_two \<and> (\<exists>i. map_of (m_Players demo_two) 5 = Some i \<and> pi_player i = 5)"
  by (rule banned_not_member[OF demo_run]) (simp add: IsOn_def demo_fields)

theorem owner_protected_witness:
  "m_ownerGUID (KickOrBan demo_env 5 (cstr ''bob'') True demo_two) = 7
    \<and> map_of (m_Players (KickOrBan demo_env 5 (cstr ''bob'') True demo_two)) 7 = Some demo_owner"
proof -
  have "\<not> IsModeratorAccount (security_of demo_env 5)" by code_simp
  then show ?thesis
    using owner_protected[OF demo_inv, of demo_owner "OpKick 5 (cstr ''bob'') True" demo_env] by (simp add: demo_fields)
qed

theorem commands_need_moderator_witness:
  "IsOn 7 demo_two \<and> (pi_IsModerator (pl_at demo_env 7 demo_two) \<or> IsModeratorAccount (security_of demo_env 7))"
proof -
  have "\<not> IsWorld demo_two" by (simp add: IsWorld_def demo_fields) code_simp
  moreover have "may_moderate demo_env 7 demo_two" using demo_flags by (simp add: may_moderate_def pl_at_def demo_fields)
  moreover have "c_str (cstr ''x'') \<noteq> []" by code_simp
  ultimately have "m_password (ch_exec demo_env (OpPassword 7 (cstr ''x'')) demo_two) \<noteq> m_password demo_two"
    by (simp add: Password_def Let_def IsOn_def demo_fields)
  from commands_need_moderator[OF disjI1[OF this]] show ?thesis by simp
qed


subsection \<open>Speaking\<close>

lemma m_log_send_member: "m_log (send_member e pkt p g c) = m_log c @
   (case FindPlayer e g of None \<Rightarrow> [] | Some pl \<Rightarrow> if p = 0 \<or> \<not> cp_ignores pl (GUID_LOPART p) then [ToPlayer g pkt] else [])"
  by (simp add: send_member_def ch_effect_def split: option.split)

text \<open>Who gets what player \<open>p\<close> says (0: a speaker nobody can ignore).\<close>

definition hears :: "ch_env \<Rightarrow> u64 \<Rightarrow> u64 \<Rightarrow> bool" where
  "hears e p g \<longleftrightarrow> (case FindPlayer e g of None \<Rightarrow> False | Some pl \<Rightarrow> p = 0 \<or> \<not> cp_ignores pl (GUID_LOPART p))"

lemma m_log_SendToAll: "m_log (SendToAll e pkt p c) = m_log c @ map (\<lambda>g. ToPlayer g pkt) (filter (hears e p) (map fst (m_Players c)))"
proof -
  have "m_log (fold (\<lambda>x. send_member e pkt p (fst x)) ms d) = m_log d @ map (\<lambda>g. ToPlayer g pkt) (filter (hears e p) (map fst ms))"
    for ms d
    by (induction ms arbitrary: d) (auto simp: m_log_send_member hears_def split: option.splits)
  then show ?thesis by (simp add: SendToAll_def)
qed

text \<open>C11. What a member in the world who is not muted says reaches the members in the world, each once and in
  the order of their guids: all of them if he is a moderator of the channel, otherwise those who do not ignore him.\<close>

theorem Say_reaches:
  assumes "map_of (m_Players c) p = Some i" and "\<not> pi_IsMuted i" and "FindPlayer e p = Some pl"
  shows "m_log (Say e p (Some what) lang c) = m_log c @ map
     (\<lambda>g. ToPlayer g (SMSG_MESSAGE_CHAT, ce_chat e p (c_str what) (if ce_two_side e then LANG_UNIVERSAL else lang) (m_name c)))
     (filter (hears e (if pi_IsModerator i then 0 else p)) (map fst (m_Players c)))"
proof -
  have "IsOn p c" "pl_at e p c = i" using assms(1) by (simp_all add: IsOn_def)
  then show ?thesis using assms(2,3) by (auto simp: Say_def Let_def m_log_SendToAll)
qed

theorem Say_reaches_witness:
  "m_log (Say demo_env 5 (Some (cstr ''hi'')) 7 demo_two) = m_log demo_two
     @ map (\<lambda>g. ToPlayer g (SMSG_MESSAGE_CHAT, [C_guid 5, C_u32 7, C_str (c_str (cstr ''hi''))])) [5, 7]"
proof -
  have "\<not> pi_IsMuted demo_plain" "\<not> pi_IsModerator demo_plain" by code_simp+
  moreover have "hears demo_env 5 5" "hears demo_env 5 7" by (simp_all add: hears_def demo_find)
  ultimately show ?thesis
    using Say_reaches[of demo_two 5 demo_plain demo_env _ "cstr ''hi''" 7]
    by (simp add: demo_fields demo_find) (simp add: demo_env_def)
qed

subsection \<open>Where the code does not do what it means to\<close>

text \<open>The channel named world is to have no owner, but only the name in small letters is exempt: the
  first player to join a channel the code otherwise treats as the world channel becomes its owner.\<close>

theorem world_has_owner:
  fixes e p tbl name team
  defines "c \<equiv> Join e p [] (Channel_new e tbl name 0 team)"
  assumes w: "map ascii_lower name = cstr ''world''" and nw: "name \<noteq> cstr ''world''" and st: "ce_store e 0 = None"
    and pr: "\<not> ce_preserve e" and p: "p \<noteq> 0"
  shows "IsWorld c \<and> m_ownerGUID c = p \<and> (\<exists>i. map_of (m_Players c) p = Some i \<and> pi_IsOwner i \<and> pi_IsModerator i)"
proof -
  let ?n = "Channel_new e tbl name 0 team"
  have "\<not> stricmp_eq name (cstr ''all'')"
  proof
    assume "stricmp_eq name (cstr ''all'')"
    then have "map ascii_lower (takeWhile (\<lambda>c. c \<noteq> 0) name) = cstr ''all''"
      unfolding stricmp_eq_def c_str_def by (simp add: cstr_def) code_simp
    moreover have "map ascii_lower (takeWhile (\<lambda>c. c \<noteq> 0) name) = takeWhile (\<lambda>c. c \<noteq> 0) (map ascii_lower name)"
    proof -
      have "ascii_lower x = 0 \<longleftrightarrow> x = 0" for x by (auto simp: ascii_lower_def add_eq_0_iff2)
      then show ?thesis by (simp add: takeWhile_map comp_def)
    qed
    ultimately show False using w by (simp add: cstr_def)
  qed
  then have n: "\<not> IsConstant ?n" "m_ownership ?n" "m_password ?n = []" "m_flags ?n = CHANNEL_FLAG_CUSTOM" "m_banned ?n = []"
    using st pr by (simp_all add: Channel_new_def Channel_blank_def IsConstant_def Let_def)
  have "\<not> lfg_restricted e p ?n" by (simp add: lfg_restricted_def ch_HasFlag_def n channel_flag_defs split: option.split)
  then have "c = hand_out e p (join_in e p ?n)"
    unfolding c_def using n by (simp add: Join_joined IsOn_def admits_def IsBanned_def)
  moreover have "m_name (join_in e p ?n) \<noteq> cstr ''world''" using nw by simp
  ultimately have c: "c = pl_upd e p (pi_SetModerator True) (SetOwner e p (1 < length (m_Players (join_in e p ?n))) (join_in e p ?n))"
    using n by (simp add: hand_out_def)
  show ?thesis using w p by (simp add: c IsWorld_def pl_at_def)
qed

theorem world_has_owner_witness:
  "m_ownerGUID (Join (demo_env\<lparr>ce_preserve := False\<rparr>) 5 [] (Channel_new (demo_env\<lparr>ce_preserve := False\<rparr>) (\<lambda>_. None) (cstr ''World'') 0 469)) = 5"
proof -
  have "map ascii_lower (cstr ''World'') = cstr ''world''" "cstr ''World'' \<noteq> cstr ''world''" by code_simp+
  from world_has_owner[OF this, of "demo_env\<lparr>ce_preserve := False\<rparr>" 5] show ?thesis by (simp add: demo_env_def)
qed

text \<open>An owner who bans himself from a channel with other members stays on it, banned and its owner: his
  entry is made anew when he is named his own successor.\<close>

theorem self_ban_stays:
  assumes inv: "ch_inv c" and own: "IsOn p c" "p = m_ownerGUID c" "may_moderate e p c" "m_ownership c"
    and self: "FindPlayerByName e name = Some pl" "cp_guid pl = p" and other: "IsOn h c" "h \<noteq> p"
  shows "IsOn p (KickOrBan e p name True c) \<and> IsBanned p (KickOrBan e p name True c)
    \<and> m_ownerGUID (KickOrBan e p name True c) = p"
proof -
  have p: "p \<noteq> 0" using inv own(1) by (auto simp: ch_inv_def IsOn_def dest: marks_okD(1))
  from other have "map_of (sm_erase p (m_Players c)) h \<noteq> None" by (simp add: IsOn_def)
  then have ne: "sm_erase p (m_Players c) \<noteq> []" by (auto simp del: map_of_sm_erase)
  have k: "KickOrBan e p name True c = kick_or_ban e p p True c"
    using own self by (simp add: KickOrBan_def)
  have "\<not> IsBanned p c" using inv own(1) by (auto simp: ch_inv_def bans_ok_def)
  then have "IsBanned p (kick_or_ban e p p True c)"
    by (simp add: kick_or_ban_eq IsBanned_def set_insort_insert)
  with ne own p show ?thesis unfolding k by (simp add: kick_or_ban_eq)
qed

theorem self_ban_stays_witness:
  "IsOn 7 (KickOrBan demo_env 7 (cstr ''Bob'') True demo_two) \<and> IsBanned 7 (KickOrBan demo_env 7 (cstr ''Bob'') True demo_two)"
proof -
  have "map_option cp_guid (FindPlayerByName demo_env (cstr ''Bob'')) = Some 7" by code_simp
  then obtain pl where pl: "FindPlayerByName demo_env (cstr ''Bob'') = Some pl" "cp_guid pl = 7" by auto
  have may: "may_moderate demo_env 7 demo_two"
    using demo_flags by (simp add: may_moderate_def pl_at_def demo_fields)
  have on: "IsOn 7 demo_two" "7 = m_ownerGUID demo_two" "IsOn 5 demo_two" "(5::u64) \<noteq> 7"
    by (simp_all add: IsOn_def demo_fields)
  from self_ban_stays[OF demo_inv on(1,2) may demo_fields(5) pl on(3,4)] show ?thesis by blast
qed

end
