(* ===== verification/ChannelTable.thy ===== *)
theory ChannelTable
  imports ChannelFacts
begin

text \<open>
  The table a custom channel is saved in: the statements of the operations against the row, the text
  form of the bans, and the constructor as the inverse of saving.
\<close>

subsection \<open>The table of channels\<close>

text \<open>The statements of \<open>CharacterDatabase.cpp\<close> on the table; \<open>d\<close> holds the defaults of the columns an insert
  does not set. Columns are as wide as what is written to them; the removal of rows nobody has used for long
  (\<open>CHAR_DEL_OLD_CHANNELS\<close>, which reads the time of last use) is not part of the runs.\<close>

fun exec_ch :: "ChannelRow \<Rightarrow> ch_stmt \<Rightarrow> ch_table \<Rightarrow> ch_table" where
  "exec_ch d (InsChannel n t) tbl = (case tbl (n, t) of None \<Rightarrow> tbl((n, t) \<mapsto> d) | Some _ \<Rightarrow> tbl)"
| "exec_ch d (UpdChannel a w pw b n t) tbl = (case tbl (n, t) of None \<Rightarrow> tbl
     | Some _ \<Rightarrow> tbl((n, t) \<mapsto> \<lparr>row_announce = a, row_ownership = w, row_password = pw, row_banned = Some b\<rparr>))"
| "exec_ch d (UpdChannelUsage n t) tbl = tbl"

fun stmts_of :: "ch_event list \<Rightarrow> ch_stmt list" where
  "stmts_of [] = []"
| "stmts_of (Exec s # xs) = s # stmts_of xs"
| "stmts_of (_ # xs) = stmts_of xs"

definition table_after :: "ChannelRow \<Rightarrow> ch_table \<Rightarrow> Channel \<Rightarrow> ch_table" where
  "table_after d tbl c = fold (exec_ch d) (stmts_of (m_log c)) tbl"

abbreviation stmts :: "Channel \<Rightarrow> ch_stmt list" where
  "stmts c \<equiv> stmts_of (m_log c)"

lemma stmts_of_append [simp]: "stmts_of (xs @ ys) = stmts_of xs @ stmts_of ys"
  by (induction xs rule: stmts_of.induct) simp_all

lemma stmts_of_sent [simp]: "stmts_of (map (\<lambda>g. ToPlayer (f g) (pkt g)) gs) = []"
  by (induction gs) simp_all

lemma stmts_effect [simp]: "stmts (ch_effect x c) = stmts c @ stmts_of [x]"
  by (simp add: ch_effect_def)

lemma stmts_SendToOne [simp]: "stmts (SendToOne e pkt g c) = stmts c"
  by (simp add: SendToOne_def split: option.split)

lemma stmts_SendToAll [simp]: "stmts (SendToAll e pkt p c) = stmts c"
  by (simp add: m_log_SendToAll)

lemma stmts_SendToAllButOne [simp]: "stmts (SendToAllButOne e pkt who c) = stmts c"
proof -
  have "stmts (fold (\<lambda>x c. if fst x \<noteq> who then SendToOne e pkt (fst x) c else c) ms d) = stmts d" for ms d
    by (induction ms arbitrary: d) simp_all
  then show ?thesis by (simp add: SendToAllButOne_def)
qed

lemma stmts_Notify [simp]: "stmts (JoinNotify e p c) = stmts c" "stmts (LeaveNotify e p c) = stmts c"
  by (simp_all add: JoinNotify_def LeaveNotify_def Let_def)

lemma stmts_DB [simp]:
  "stmts (UpdateChannelInDB c) = stmts c @ (if m_IsSaved c
     then [UpdChannel (m_announce c) (m_ownership c) (m_password c) (ban_list (m_banned c)) (m_name c) (m_Team c)] else [])"
  "stmts (UpdateChannelUseageInDB c) = stmts c @ [UpdChannelUsage (m_name c) (m_Team c)]"
  by (simp_all add: UpdateChannelInDB_def UpdateChannelUseageInDB_def)

lemma stmts_pl [simp]: "stmts (drop_owner c) = stmts c"
  by (simp add: drop_owner_def)

text \<open>What the table is to hold of a channel, and operations that leave it alone or save it as it is.\<close>

definition settings :: "Channel \<Rightarrow> bool \<times> cstring \<times> u64 list \<times> (bool \<times> bool \<times> cstring \<times> u8 \<times> u32 \<times> bool \<times> u32)" where
  "settings c = (m_announce c, m_password c, m_banned c, ch_fixed c)"

definition cur_stmts :: "Channel \<Rightarrow> ch_stmt set" where
  "cur_stmts c = {UpdChannelUsage (m_name c) (m_Team c),
     UpdChannel (m_announce c) (m_ownership c) (m_password c) (ban_list (m_banned c)) (m_name c) (m_Team c)}"

definition quiet :: "Channel \<Rightarrow> Channel \<Rightarrow> bool" where
  "quiet c d \<longleftrightarrow> settings d = settings c \<and> (\<exists>ss. stmts d = stmts c @ ss \<and> set ss \<subseteq> cur_stmts c)"

lemma cur_stmts_cong: "settings d = settings c \<Longrightarrow> cur_stmts d = cur_stmts c"
  by (simp add: settings_def ch_fixed_def cur_stmts_def)

lemma quiet_refl [simp, intro]: "quiet c c"
  by (simp add: quiet_def)

lemma quiet_trans [trans]:
  assumes "quiet c d" "quiet d e"
  shows "quiet c e"
proof -
  from assms obtain ss ts where s: "stmts d = stmts c @ ss" "set ss \<subseteq> cur_stmts c" "stmts e = stmts d @ ts" "set ts \<subseteq> cur_stmts c"
    "settings e = settings c"
    using cur_stmts_cong[of d c] by (auto simp: quiet_def)
  then show ?thesis unfolding quiet_def by (intro conjI exI[of _ "ss @ ts"]) auto
qed

lemma quietI: "settings d = settings c \<Longrightarrow> stmts d = stmts c @ ss \<Longrightarrow> set ss \<subseteq> cur_stmts c \<Longrightarrow> quiet c d"
  by (auto simp: quiet_def)

lemma settings_core: "ch_core d = ch_core c \<Longrightarrow> settings d = settings c"
  by (simp add: settings_def ch_fixed_def ch_core_fields[of d c])

lemma quiet_send: "ch_core d = ch_core c \<Longrightarrow> stmts d = stmts c \<Longrightarrow> quiet c d"
  by (rule quietI[where ss = "[]"], rule settings_core) simp_all

lemma quiet_refused: "refused e p c d \<Longrightarrow> quiet c d"
  by (auto simp: refused_def intro: quiet_send core_SendToOne)


lemma quiet_upd: "quiet c (pl_upd e p f c)" "quiet c (pl_erase p c)" "quiet c (pl_touch e p c)"
  by (auto intro!: quietI[where ss = "[]"] simp: settings_def ch_fixed_def)

lemma quiet_SetOwner: "quiet c (SetOwner e g ex c)"
proof (rule quietI)
  show "settings (SetOwner e g ex c) = settings c" by (simp add: settings_def)
  show "stmts (SetOwner e g ex c) = stmts c @ (if g \<noteq> 0 \<and> m_IsSaved c
      then [UpdChannel (m_announce c) (m_ownership c) (m_password c) (ban_list (m_banned c)) (m_name c) (m_Team c)] else [])"
    by (simp add: SetOwner_def Let_def)
qed (auto simp: cur_stmts_def)

lemma quiet_modes: "quiet c (SetModerator e p b c)" "quiet c (SetMute e p b c)"
  by (auto intro!: quietI[where ss = "[]"] simp: settings_def) (simp_all add: SetModerator_def SetMute_def Let_def)

lemma quiet_join_in: "quiet c (join_in e p c)"
proof (rule quietI)
  show "settings (join_in e p c) = settings c" by (simp add: settings_def)
  show "stmts (join_in e p c) = stmts c @ (if \<not> IsConstant c \<and> sm_insert p (new_member e p c) (m_Players c) \<noteq> []
      then [UpdChannelUsage (m_name c) (m_Team c)] else [])"
    by (simp add: join_in_def Let_def)
qed (auto simp: cur_stmts_def)

lemma quiet_hand_out: "quiet c (hand_out e p c)"
proof -
  have "quiet c (SetOwner e p ex (pl_upd e p f c))" "quiet c (pl_upd e p f (SetOwner e p ex c))" for ex f
    by (rule quiet_trans[OF quiet_upd(1) quiet_SetOwner], rule quiet_trans[OF quiet_SetOwner quiet_upd(1)])
  then show ?thesis using quiet_upd(1) by (simp add: hand_out_def Let_def split: option.split)
qed

lemma quiet_Join: "quiet c (Join e p pass c)"
proof (cases "IsOn p c \<or> \<not> admits e p pass c")
  case True
  then show ?thesis by (rule quiet_refused[OF Join_refused])
next
  case False
  then show ?thesis
    using quiet_join_in quiet_trans[OF quiet_join_in quiet_hand_out] by (simp add: Join_joined)
qed

lemma quiet_leave_out: "quiet c (leave_out e p send c)"
proof (rule quietI)
  show "settings (leave_out e p send c) = settings c" by (simp add: settings_def)
  show "stmts (leave_out e p send c) = stmts c @ (if \<not> IsConstant c then [UpdChannelUsage (m_name c) (m_Team c)] else [])"
    by (simp add: leave_out_def Let_def IsConstant_def)
qed (auto simp: cur_stmts_def)

lemma quiet_promote: "quiet c (SetOwner e g ex (pl_upd e h f c))"
  by (rule quiet_trans[OF quiet_upd(1) quiet_SetOwner])

lemma quiet_Leave: "quiet c (Leave e p send c)"
proof (cases "IsOn p c")
  case True
  have "quiet c (succeed e (leave_out e p send c))"
    unfolding succeed_def Let_def by (rule quiet_trans[OF quiet_leave_out quiet_promote])
  with quiet_leave_out show ?thesis by (simp add: Leave_member[OF True])
next
  case False
  then show ?thesis by (auto simp: Leave_def intro: quiet_refused)
qed

lemma quiet_SetMode: "quiet c (SetMode e p name md val c)"
  by (cases rule: SetMode_cases[of e p c name md val]) (auto simp: quiet_modes intro: quiet_refused)

lemma quiet_SetOwner_name: "quiet c (SetOwner_name e p name c)"
  by (cases rule: SetOwner_name_cases[of e p c name]) (auto simp: quiet_promote intro: quiet_refused)

lemma quiet_sends: "quiet c (SendWhoOwner e p c)" "quiet c (ch_List e pl c)" "quiet c (Say e p what lang c)" "quiet c (Invite e p name c)"
proof -
  have "stmts (Say e p what lang c) = stmts c" by (simp add: Say_def Let_def split: option.split)
  then show "quiet c (Say e p what lang c)" by (rule quiet_send[OF core_Say])
  have "stmts (Invite e p name c) = stmts c" by (simp add: Invite_def Let_def split: option.split)
  then show "quiet c (Invite e p name c)" by (rule quiet_send[OF core_Invite])
  show "quiet c (SendWhoOwner e p c)" by (rule quiet_send[OF core_SendWhoOwner]) (simp add: SendWhoOwner_def)
  show "quiet c (ch_List e pl c)" by (rule quiet_send[OF core_List]) (simp add: ch_List_def Let_def)
qed

lemma quiet_Locale: "quiet c (UpdateChatLocaleFiltering e pl c)"
  by (auto simp: UpdateChatLocaleFiltering_def quiet_upd split: option.split)

text \<open>The row of a saved channel holds its settings; the bans as text, or as text that gives them. The channel named
  world starts without announcements, which the insert does not store.\<close>

definition row_holds :: "ChannelRow \<Rightarrow> Channel \<Rightarrow> bool" where
  "row_holds r c \<longleftrightarrow> (row_announce r = m_announce c \<or> IsWorld c) \<and> row_ownership r = m_ownership c \<and> row_password r = m_password c
     \<and> (case row_banned r of None \<Rightarrow> m_banned c = [] | Some s \<Rightarrow> s = ban_list (m_banned c) \<or> load_bans s = m_banned c)"

definition row_ok :: "ChannelRow \<Rightarrow> ch_table \<Rightarrow> Channel \<Rightarrow> bool" where
  "row_ok d tbl c \<longleftrightarrow> (m_IsSaved c \<longrightarrow> (\<exists>r. table_after d tbl c (m_name c, m_Team c) = Some r \<and> row_holds r c))"

lemma row_holds_cong: "settings c' = settings c \<Longrightarrow> row_holds r c' = row_holds r c"
  by (auto simp: settings_def ch_fixed_def row_holds_def IsWorld_def split: option.split)

lemma cur_stmts_hold:
  assumes "set ss \<subseteq> cur_stmts c" and "tbl (m_name c, m_Team c) = Some r" and "row_holds r c"
  shows "\<exists>r. fold (exec_ch d) ss tbl (m_name c, m_Team c) = Some r \<and> row_holds r c"
  using assms
proof (induction ss arbitrary: tbl r)
  case (Cons s ss)
  from Cons.prems have "\<exists>r. exec_ch d s tbl (m_name c, m_Team c) = Some r \<and> row_holds r c"
    by (auto simp: cur_stmts_def row_holds_def)
  with Cons show ?case by auto
qed auto

lemma row_ok_quiet:
  assumes "row_ok d tbl c" "quiet c c'"
  shows "row_ok d tbl c'"
  unfolding row_ok_def
proof
  assume s: "m_IsSaved c'"
  from assms(2) obtain ss where ss: "settings c' = settings c" "stmts c' = stmts c @ ss" "set ss \<subseteq> cur_stmts c"
    by (auto simp: quiet_def)
  then have f: "m_IsSaved c" "m_name c' = m_name c" "m_Team c' = m_Team c" using s by (simp_all add: settings_def ch_fixed_def)
  with assms(1) obtain r where "table_after d tbl c (m_name c, m_Team c) = Some r" "row_holds r c" by (auto simp: row_ok_def)
  from cur_stmts_hold[of ss c "table_after d tbl c", OF ss(3) this] f row_holds_cong[OF ss(1)] ss(2)
  show "\<exists>r. table_after d tbl c' (m_name c', m_Team c') = Some r \<and> row_holds r c'"
    by (simp add: table_after_def)
qed

lemma row_ok_saved:
  assumes "row_ok d tbl c" and "stmts c' = stmts c" and "ch_fixed c' = ch_fixed c"
  shows "row_ok d tbl (UpdateChannelInDB c')"
  using assms by (auto simp: row_ok_def table_after_def ch_fixed_def row_holds_def)


text \<open>The text of a ban list is read back as the bans.\<close>

lemma decimal_chars: "c \<in> set (decimal n) \<Longrightarrow> is_digit c"
proof (induction n rule: decimal.induct)
  case (1 n)
  have d: "is_digit (48 + word_of_nat k)" if "k < 10" for k
  proof -
    have "unat (48 + word_of_nat k :: u8) = 48 + k" using that by (simp add: unat_word_ariths unat_of_nat)
    then show ?thesis using that by (simp add: is_digit_def word_le_nat_alt)
  qed
  show ?case
  proof (cases "n < 10")
    case True
    with 1(2) d show ?thesis by (simp add: decimal.simps[of n])
  next
    case False
    with 1 d[of "n mod 10"] show ?thesis by (auto simp: decimal.simps[of n])
  qed
qed

lemma decimal_nonempty [simp]: "decimal n \<noteq> []"
  by (subst decimal.simps) simp

lemma digits_val_append: "digits_val (s @ [c]) = digits_val s * 10 + (uint c - 48)"
  by (simp add: digits_val_def)

lemma digits_val_decimal: "digits_val (decimal n) = int n"
proof (induction n rule: decimal.induct)
  case (1 n)
  have d: "uint (48 + word_of_nat k :: u8) = 48 + int k" if "k < 10" for k
  proof -
    have "unat (48 + word_of_nat k :: u8) = 48 + k" using that by (simp add: unat_word_ariths unat_of_nat)
    then show ?thesis by (simp flip: uint_nat[symmetric] add: uint_nat)
  qed
  show ?case
  proof (cases "n < 10")
    case True
    with d show ?thesis by (simp add: decimal.simps[of n] digits_val_def)
  next
    case False
    have "int (n div 10) * 10 + int (n mod 10) = int n" by presburger
    with False 1 d[of "n mod 10"] show ?thesis by (simp add: decimal.simps[of n] digits_val_append)
  qed
qed

lemma digit_no_sign: "is_digit c \<Longrightarrow> c \<noteq> 0 \<and> c \<noteq> 32 \<and> c \<noteq> 43 \<and> c \<noteq> 45 \<and> \<not> is_space c"
  by (auto simp: is_digit_def is_space_def word_le_nat_alt)

lemma atol_decimal:
  assumes "n < 2 ^ 63"
  shows "atol (decimal n) = int n"
proof -
  have all: "\<forall>c\<in>set (decimal n). is_digit c" using decimal_chars by blast
  then have h: "is_digit (hd (decimal n))" by simp
  note s = digit_no_sign[OF h]
  have "dropWhile is_space (decimal n) = decimal n" using s by (cases "decimal n") auto
  moreover have tw: "takeWhile is_digit (decimal n) = decimal n" using all by simp
  ultimately show ?thesis using s assms by (simp add: atol_def Let_def tw digits_val_decimal)
qed

lemma tok_loop_word:
  assumes "\<forall>c\<in>set w. c \<noteq> 0 \<and> c \<noteq> 32"
  shows "tok_loop 32 cur (w @ 32 # rest) = (cur @ w) # tok_loop 32 [] rest"
  using assms by (induction w arbitrary: cur) simp_all

lemma ban_list_chars: "c \<in> set (ban_list gs) \<Longrightarrow> c \<noteq> 0"
  by (auto simp: ban_list_def is_digit_def dest!: decimal_chars split: if_splits)

lemma tokens_ban_list: "tok_loop 32 [] (ban_list gs) = map (\<lambda>g. decimal (unat g)) gs"
proof (induction gs)
  case (Cons g gs)
  have "\<forall>c\<in>set (decimal (unat g)). c \<noteq> 0 \<and> c \<noteq> 32" using decimal_chars digit_no_sign by blast
  from tok_loop_word[OF this, of "[]" "ban_list gs"] Cons show ?case by (simp add: ban_list_def)
qed (simp add: ban_list_def)

lemma insort_insert_end: "sorted b \<Longrightarrow> distinct b \<Longrightarrow> \<forall>x\<in>set b. x < g \<Longrightarrow> insort_insert g b = b @ [g]"
  for g :: "'a::linorder"
  by (induction b) (auto simp: insort_insert_key_def)

lemma foldl_insort: "sorted (b @ gs) \<Longrightarrow> distinct (b @ gs) \<Longrightarrow> foldl (\<lambda>b g. insort_insert g b) b gs = b @ gs"
  for gs :: "'a::linorder list"
proof (induction gs arbitrary: b)
  case (Cons g gs)
  have "\<forall>x\<in>set b. x < g" using Cons.prems by (auto simp: sorted_append order_less_le)
  then have "insort_insert g b = b @ [g]" using Cons.prems by (simp add: insort_insert_end sorted_append)
  with Cons.IH[of "b @ [g]"] Cons.prems show ?case by simp
qed simp

lemma load_bans_ban_list:
  assumes "sorted gs" "distinct gs" and g: "\<forall>g\<in>set gs. g \<noteq> 0 \<and> unat g < 2 ^ 63"
  shows "load_bans (ban_list gs) = gs"
proof -
  let ?f = "\<lambda>b t. let g = word_of_int (atol t) in if g \<noteq> 0 then insort_insert g b else b"
  have "foldl ?f b (map (\<lambda>g. decimal (unat g)) hs) = foldl (\<lambda>b g. insort_insert g b) b hs" if "set hs \<subseteq> set gs" for b hs
    using that g by (induction hs arbitrary: b) (simp_all add: atol_decimal Let_def)
  moreover have "c_str (ban_list gs) = ban_list gs" unfolding c_str_def using ban_list_chars by simp
  ultimately show ?thesis using foldl_insort[of "[]" gs] assms(1,2)
    by (simp add: load_bans_def Tokenizer_def tokens_ban_list)
qed


text \<open>Any operation in any environment: here an owner may kick himself, and an empty channel may be used again.\<close>

inductive ch_any :: "Channel \<Rightarrow> Channel \<Rightarrow> bool" where
  any: "ch_any c (ch_exec e op c)"

inductive_cases ch_anyE: "ch_any c d"

lemma step_any: "ch_step c d \<Longrightarrow> ch_any c d"
  by (auto elim: ch_stepE intro: any)

lemma run_any: "ch_step\<^sup>*\<^sup>* c d \<Longrightarrow> ch_any\<^sup>*\<^sup>* c d"
  by (induction rule: rtranclp_induct) (auto dest: step_any)

lemma row_ok_any:
  assumes "ch_any c c'" and r: "row_ok d tbl c"
  shows "row_ok d tbl c'"
  using assms(1)
proof cases
  case step: (any e op)
  note q = row_ok_quiet[OF r]
  show ?thesis
  proof (cases op)
    case (OpKick p name ban)
    show ?thesis
    proof (cases rule: KickOrBan_cases[of e p c name ban])
      case refused
      with OpKick step show ?thesis by (simp add: q quiet_refused)
    next
      case (kicked bad)
      let ?k = "kick_out e p (cp_guid bad) ban c"
      have "row_ok d tbl ?k"
      proof (cases "ban \<and> \<not> IsBanned (cp_guid bad) c")
        case True
        let ?b = "c\<lparr>m_banned := insort_insert (cp_guid bad) (m_banned c)\<rparr>"
        have "row_ok d tbl (UpdateChannelInDB ?b)" by (rule row_ok_saved[OF r]) (simp_all add: ch_fixed_def)
        moreover have "quiet (UpdateChannelInDB ?b) ?k"
          by (rule quietI[where ss = "[]"]) (use True in \<open>simp_all add: kick_out_def Let_def settings_def ch_fixed_def\<close>)
        ultimately show ?thesis by (rule row_ok_quiet)
      next
        case False
        have "quiet c ?k"
          unfolding kick_out_def Let_def if_not_P[OF False]
          by (rule quietI[where ss = "[]"]) (simp_all add: settings_def ch_fixed_def)
        then show ?thesis by (rule q)
      qed
      then show ?thesis using OpKick step kicked row_ok_quiet[OF _ quiet_promote] by (simp add: kick_or_ban_eq)
    qed
  next
    case (OpUnBan p name)
    show ?thesis
    proof (cases "refused e p c (UnBan e p name c)")
      case True
      with OpUnBan step show ?thesis by (simp add: q quiet_refused)
    next
      case False
      then have "\<exists>x b. UnBan e p name c = UpdateChannelInDB (SendToAll e x 0 (c\<lparr>m_banned := b\<rparr>))"
        by (auto simp: UnBan_def Let_def simp del: split_paired_Ex split: if_splits option.splits)
      then show ?thesis using OpUnBan step row_ok_saved[OF r] by (auto simp: ch_fixed_def)
    qed
  next
    case (OpPassword p pass)
    show ?thesis
    proof (cases "refused e p c (Password e p pass c)")
      case True
      with OpPassword step show ?thesis by (simp add: q quiet_refused)
    next
      case False
      then have "IsOn p c \<and> may_moderate e p c \<and> \<not> IsWorld c" by (cases rule: Password_cases[of e p c pass]) auto
      then have "\<exists>x. Password e p pass c = UpdateChannelInDB (SendToAll e x 0 (c\<lparr>m_password := c_str pass\<rparr>))"
        by (simp only: Password_def Let_def simp_thms if_False) (rule exI, rule refl)
      then show ?thesis using OpPassword step row_ok_saved[OF r] by (auto simp: ch_fixed_def)
    qed
  next
    case (OpAnnounce p)
    show ?thesis
    proof (cases "refused e p c (ch_Announce e p c)")
      case True
      with OpAnnounce step show ?thesis by (simp add: q quiet_refused)
    next
      case False
      then have "IsOn p c \<and> may_moderate e p c" by (cases rule: Announce_cases[of e p c]) auto
      then have "\<exists>x. ch_Announce e p c = UpdateChannelInDB (SendToAll e x 0 (c\<lparr>m_announce := \<not> m_announce c\<rparr>))"
        by (simp only: ch_Announce_def Let_def simp_thms if_False) (rule exI, rule refl)
      then show ?thesis using OpAnnounce step row_ok_saved[OF r] by (auto simp: ch_fixed_def)
    qed
  qed (use step in \<open>simp_all add: q quiet_Join quiet_Leave quiet_SetMode quiet_SetOwner_name quiet_sends quiet_Locale\<close>)
qed

lemma row_ok_run: "ch_any\<^sup>*\<^sup>* c c' \<Longrightarrow> row_ok d tbl c \<Longrightarrow> row_ok d tbl c'"
  by (induction rule: rtranclp_induct) (auto intro: row_ok_any)

text \<open>The bans are a set in the order of guids.\<close>

lemma quiet_bans: "quiet c d \<Longrightarrow> m_banned d = m_banned c"
  by (simp add: quiet_def settings_def)

definition bans_sorted :: "Channel \<Rightarrow> bool" where
  "bans_sorted c \<longleftrightarrow> sorted (m_banned c) \<and> distinct (m_banned c)"

lemma bans_any:
  assumes "ch_any c c'" and s: "bans_sorted c"
  shows "bans_sorted c'"
  using assms(1)
proof cases
  case (any e op)
  note q = quiet_Join quiet_Leave quiet_SetMode quiet_SetOwner_name quiet_sends quiet_Locale
  show ?thesis
  proof (cases op)
    case (OpKick p name ban)
    show ?thesis
    proof (cases rule: KickOrBan_cases[of e p c name ban])
      case refused
      from quiet_bans[OF quiet_refused[OF this]] any OpKick s show ?thesis by (simp add: bans_sorted_def)
    next
      case (kicked bad)
      have "bans_sorted (kick_out e p (cp_guid bad) ban c)"
        using s by (simp add: bans_sorted_def sorted_insort_insert distinct_insort_insert)
      with any OpKick kicked quiet_bans[OF quiet_promote] show ?thesis by (simp add: kick_or_ban_eq bans_sorted_def)
    qed
  next
    case (OpUnBan p name)
    show ?thesis
    proof (cases "refused e p c (UnBan e p name c)")
      case True
      from quiet_bans[OF quiet_refused[OF this]] any OpUnBan s show ?thesis by (simp add: bans_sorted_def)
    next
      case False
      then have "\<exists>P. m_banned (UnBan e p name c) = filter P (m_banned c)"
        by (auto simp: UnBan_def Let_def split: if_splits option.splits)
      then show ?thesis using any OpUnBan s by (auto simp: bans_sorted_def sorted_filter[where f = id, simplified])
    qed
  qed (use any s in \<open>simp_all add: bans_sorted_def q[THEN quiet_bans]\<close>)
qed

lemma bans_run: "ch_any\<^sup>*\<^sup>* c d \<Longrightarrow> bans_sorted c \<Longrightarrow> bans_sorted d"
  by (induction rule: rtranclp_induct) (simp_all add: bans_any)



lemma quiet_fixed: "quiet c d \<Longrightarrow> ch_fixed d = ch_fixed c"
  by (simp add: quiet_def settings_def)

lemma command_fixed:
  "ch_fixed (UnBan e p n c) = ch_fixed c" "ch_fixed (Password e p x c) = ch_fixed c" "ch_fixed (ch_Announce e p c) = ch_fixed c"
  by (simp_all add: ch_fixed_def UnBan_def Password_def ch_Announce_def Let_def split: option.split)

lemma step_fixed: "ch_any c d \<Longrightarrow> ch_fixed d = ch_fixed c"
proof (induction rule: ch_any.induct)
  case (any c e op)
  note q = quiet_Join quiet_Leave quiet_SetMode quiet_SetOwner_name quiet_sends quiet_Locale
  show ?case
  proof (cases op)
    case (OpKick p name ban)
    show ?thesis
    proof (cases rule: KickOrBan_cases[of e p c name ban])
      case refused
      from quiet_fixed[OF quiet_refused[OF this]] OpKick show ?thesis by simp
    next
      case (kicked bad)
      have "ch_fixed (SetOwner e p True (pl_upd e p (pi_SetModerator True) (kick_out e p (cp_guid bad) ban c))) = ch_fixed c"
        using quiet_fixed[OF quiet_promote] by simp
      with OpKick kicked show ?thesis by (simp add: kick_or_ban_eq)
    qed
  qed (simp_all add: command_fixed q[THEN quiet_fixed])
qed

lemma run_fixed: "ch_any\<^sup>*\<^sup>* c d \<Longrightarrow> ch_fixed d = ch_fixed c"
  by (induction rule: rtranclp_induct) (simp_all add: step_fixed)

text \<open>A channel that is saved is a custom one whose row the constructor loads or inserts.\<close>

lemma Channel_new_saved:
  assumes "m_IsSaved (Channel_new e tbl name cid team)"
  shows "Channel_new e tbl' name cid team =
    (let c = (Channel_blank name cid team)\<lparr>m_announce := map ascii_lower name \<noteq> cstr ''world'', m_flags := CHANNEL_FLAG_CUSTOM\<rparr>
     in (case tbl' (name, team) of Some r \<Rightarrow> load_channel r c | None \<Rightarrow> ch_effect (Exec (InsChannel name team)) c)
        \<lparr>m_IsSaved := True\<rparr>)"
proof -
  have b: "\<not> m_IsSaved (Channel_blank name cid team)" by (simp add: Channel_blank_def)
  have st: "ce_store e cid = None"
    by (rule ccontr) (use assms b in \<open>auto simp: Channel_new_def Let_def split: if_splits\<close>)
  have all: "\<not> stricmp_eq name (cstr ''all'')"
    by (rule notI) (use assms st b in \<open>simp add: Channel_new_def Let_def split: if_splits\<close>)
  have pr: "ce_preserve e"
    by (rule ccontr) (use assms st all b in \<open>simp add: Channel_new_def Let_def split: if_splits\<close>)
  show ?thesis
    by (cases "map ascii_lower name = cstr ''world''")
      (simp_all add: st all pr Channel_new_def Channel_blank_def IsWorld_def Let_def split: option.split)
qed

text \<open>C8. After any sequence of operations on a saved channel (an owner may also kick or ban himself), the constructor
  gives its ownership, password and bans back from the table, and its announcements unless it is named world in any
  case: such a channel starts without announcements, but its row with the default of the column. The columns an insert
  does not set have the defaults of a new channel, the row is still there, and the bans are nonzero guids below \<open>2^63\<close>
  (guids of players are), because \<open>atol\<close> reads them.\<close>

theorem channel_reload:
  fixes e tbl name cid team d c
  defines "n \<equiv> Channel_new e (table_after d tbl c) name cid team"
  assumes run: "ch_any\<^sup>*\<^sup>* (Channel_new e tbl name cid team) c" and saved: "m_IsSaved c"
    and new: "tbl (name, team) = None \<Longrightarrow> row_announce d \<and> row_ownership d \<and> row_password d = [] \<and> row_banned d = None"
    and guids: "\<forall>g\<in>set (m_banned c). g \<noteq> 0 \<and> unat g < 2 ^ 63"
  shows "m_ownership n = m_ownership c \<and> m_password n = m_password c \<and> m_banned n = m_banned c
    \<and> (\<not> IsWorld c \<longrightarrow> m_announce n = m_announce c)"
proof -
  let ?c0 = "Channel_new e tbl name cid team"
  note fixed = ch_fixedD[OF run_fixed[OF run]]
  from saved have s0: "m_IsSaved ?c0" by (simp add: fixed(6))
  have "row_ok d tbl ?c0"
  proof (cases "tbl (name, team)")
    case None
    with new show ?thesis unfolding row_ok_def Channel_new_saved[OF s0]
      by (simp add: table_after_def row_holds_def ch_effect_def Channel_blank_def Let_def IsWorld_def)
  next
    case (Some r)
    then show ?thesis unfolding row_ok_def Channel_new_saved[OF s0]
      by (simp add: table_after_def row_holds_def load_channel_def Channel_blank_def Let_def split: option.split)
  qed
  from row_ok_run[OF run this] saved obtain r where
    r: "table_after d tbl c (name, team) = Some r" "row_holds r c"
    by (auto simp: row_ok_def fixed)
  have "bans_sorted ?c0" using Channel_new_inv[of e tbl name cid team] by (simp add: ch_inv_def bans_ok_def bans_sorted_def)
  from bans_run[OF run this] have b: "sorted (m_banned c)" "distinct (m_banned c)" by (simp_all add: bans_sorted_def)
  show ?thesis using r(2) load_bans_ban_list[OF b guids] unfolding n_def Channel_new_saved[OF s0] r(1)
    by (auto simp: row_holds_def load_channel_def Channel_blank_def Let_def split: option.splits)
qed

text \<open>A channel named world that nobody changed announces after a reload, because its row has the default.\<close>

theorem world_reload_announces:
  assumes saved: "m_IsSaved (Channel_new e (\<lambda>_. None) name cid team)" and w: "map ascii_lower name = cstr ''world''"
    and d: "row_announce d"
  shows "\<not> m_announce (Channel_new e (\<lambda>_. None) name cid team)
    \<and> m_announce (Channel_new e (table_after d (\<lambda>_. None) (Channel_new e (\<lambda>_. None) name cid team)) name cid team)"
  unfolding Channel_new_saved[OF saved]
  using w d by (simp add: Let_def table_after_def ch_effect_def Channel_blank_def load_channel_def)

theorem world_reload_announces_witness:
  "m_announce (Channel_new demo_env (table_after \<lparr>row_announce = True, row_ownership = True, row_password = [], row_banned = None\<rparr>
     (\<lambda>_. None) (Channel_new demo_env (\<lambda>_. None) (cstr ''World'') 0 469)) (cstr ''World'') 0 469)"
proof -
  have "m_IsSaved (Channel_new demo_env (\<lambda>_. None) (cstr ''World'') 0 469)" "map ascii_lower (cstr ''World'') = cstr ''world''"
    by code_simp+
  from world_reload_announces[OF this] show ?thesis by simp
qed

definition demo_banned :: Channel where
  "demo_banned = ch_exec demo_env (OpKick 7 (cstr ''ann'') True) demo_two"

definition demo_reload :: Channel where
  "demo_reload = Channel_new demo_env (table_after \<lparr>row_announce = True, row_ownership = True, row_password = [], row_banned = None\<rparr>
     (\<lambda>_. None) demo_banned) (cstr ''trade'') 0 469"

theorem channel_reload_witness:
  "m_banned demo_reload = [5] \<and> m_password demo_reload = [] \<and> m_ownership demo_reload \<and> m_announce demo_reload"
proof -
  let ?d = "\<lparr>row_announce = True, row_ownership = True, row_password = [], row_banned = None\<rparr>"
  have step: "ch_any demo_two demo_banned" unfolding demo_banned_def by (rule any)
  with run_any[OF demo_run] have run: "ch_any\<^sup>*\<^sup>* (Channel_new demo_env (\<lambda>_. None) (cstr ''trade'') 0 469) demo_banned" by simp
  have "map_option cp_guid (FindPlayerByName demo_env (cstr ''ann'')) = Some 5" by code_simp
  then obtain pl where pl: "FindPlayerByName demo_env (cstr ''ann'') = Some pl" "cp_guid pl = 5" by auto
  have "may_moderate demo_env 7 demo_two" using demo_flags by (simp add: may_moderate_def pl_at_def demo_fields)
  then have bans: "m_banned demo_banned = [5]"
    using pl by (simp add: demo_banned_def KickOrBan_def kick_or_ban_eq IsOn_def IsBanned_def demo_fields insort_insert_key_def)
  have "m_IsSaved demo_two" using ch_core_fields[OF demo_core] by (simp add: demo_value_def)
  then have saved: "m_IsSaved demo_banned" using ch_fixedD(6)[OF step_fixed[OF step]] by simp
  have q: "m_password demo_banned = m_password demo_two" "m_announce demo_banned = m_announce demo_two"
    "ch_fixed demo_banned = ch_fixed demo_two"
    using step_fixed[OF step] by (simp_all add: demo_banned_def KickOrBan_def kick_or_ban_eq split: option.split)
  have w: "\<not> IsWorld demo_banned" using ch_fixedD(3)[OF q(3)] demo_fields(6) by (simp add: IsWorld_def) code_simp
  have "m_ownership demo_banned" using ch_fixedD(2)[OF q(3)] demo_fields(5) by simp
  then show ?thesis
    using channel_reload[OF run saved, of ?d] bans w q(1,2) demo_fields(3,8) by (simp add: demo_reload_def)
qed

end
