(* ===== verification/Utf8.thy ===== *)
theory Utf8
  imports Prelude
begin

text \<open>
  Text encodings: the decoder and encoder of \<open>dep/utf8cpp\<close> and the conversions and case tables of
  \<open>src/server/shared/Utilities/Util.h\<close> and \<open>Util.cpp\<close>. An iterator is the list of the octets from it
  to the end of the range. A \<open>wchar_t\<close> is a \<open>u32\<close>: the conversions put sixteen-bit values into it.
\<close>

subsection \<open>Exceptions\<close>

definition bindE :: "'e + 'a \<Rightarrow> ('a \<Rightarrow> 'e + 'b) \<Rightarrow> 'e + 'b" where
  "bindE m f = (case m of Inl x \<Rightarrow> Inl x | Inr a \<Rightarrow> f a)"

lemma bindE_simps [simp]: "bindE (Inl x) f = Inl x" "bindE (Inr a) f = f a"
  by (simp_all add: bindE_def)

lemma bindE_eq_Inr: "bindE m f = Inr b \<longleftrightarrow> (\<exists>a. m = Inr a \<and> f a = Inr b)"
  by (cases m) simp_all

lemma bindE_cong [fundef_cong]:
  "m = n \<Longrightarrow> (\<And>a. n = Inr a \<Longrightarrow> f a = g a) \<Longrightarrow> bindE m f = bindE n g"
  by (cases n) simp_all

datatype utf_error = UTF8_OK | NOT_ENOUGH_ROOM | INVALID_LEAD | INCOMPLETE_SEQUENCE | OVERLONG_SEQUENCE
  | INVALID_CODE_POINT

datatype utf8_exception = not_enough_room | invalid_utf8 u8 | invalid_utf16 u16 | invalid_code_point u32

subsection \<open>Code points\<close>

definition is_trail :: "u8 \<Rightarrow> bool" where
  "is_trail oc \<longleftrightarrow> drop_bit 6 oc = 2"

definition is_lead_surrogate :: "u32 \<Rightarrow> bool" where
  "is_lead_surrogate cp \<longleftrightarrow> cp \<ge> 0xD800 \<and> cp \<le> 0xDBFF"

definition is_trail_surrogate :: "u32 \<Rightarrow> bool" where
  "is_trail_surrogate cp \<longleftrightarrow> cp \<ge> 0xDC00 \<and> cp \<le> 0xDFFF"

definition is_surrogate :: "u32 \<Rightarrow> bool" where
  "is_surrogate cp \<longleftrightarrow> cp \<ge> 0xD800 \<and> cp \<le> 0xDFFF"

definition is_code_point_valid :: "u32 \<Rightarrow> bool" where
  "is_code_point_valid cp \<longleftrightarrow> cp \<le> 0x10FFFF \<and> \<not> is_surrogate cp"

definition sequence_length :: "u8 \<Rightarrow> nat" where
  "sequence_length lead =
     (if lead < 0x80 then 1
      else if drop_bit 5 lead = 0x6 then 2
      else if drop_bit 4 lead = 0xE then 3
      else if drop_bit 3 lead = 0x1E then 4
      else 0)"

definition is_overlong_sequence :: "u32 \<Rightarrow> nat \<Rightarrow> bool" where
  "is_overlong_sequence cp len =
     (if cp < 0x80 then len \<noteq> 1
      else if cp < 0x800 then len \<noteq> 2
      else if cp < 0x10000 then len \<noteq> 3
      else False)"

subsection \<open>Decoding\<close>

definition increase_safely :: "u8 list \<Rightarrow> utf_error + u8 list" where
  "increase_safely it =
     (if tl it = [] then Inl NOT_ENOUGH_ROOM
      else if \<not> is_trail (hd (tl it)) then Inl INCOMPLETE_SEQUENCE
      else Inr (tl it))"

abbreviation low6 :: "u8 \<Rightarrow> u32" where
  "low6 oc \<equiv> ucast (oc AND 0x3F)"

definition get_sequence_1 :: "u8 list \<Rightarrow> utf_error + u32 \<times> u8 list" where
  "get_sequence_1 it = (if it = [] then Inl NOT_ENOUGH_ROOM else Inr (ucast (hd it), it))"

definition get_sequence_2 :: "u8 list \<Rightarrow> utf_error + u32 \<times> u8 list" where
  "get_sequence_2 it =
     (if it = [] then Inl NOT_ENOUGH_ROOM
      else let cp = ucast (hd it)
           in bindE (increase_safely it) (\<lambda>it.
              Inr ((push_bit 6 cp AND 0x7FF) + low6 (hd it), it)))"

definition get_sequence_3 :: "u8 list \<Rightarrow> utf_error + u32 \<times> u8 list" where
  "get_sequence_3 it =
     (if it = [] then Inl NOT_ENOUGH_ROOM
      else let cp = ucast (hd it)
           in bindE (increase_safely it) (\<lambda>it.
              let cp = (push_bit 12 cp AND 0xFFFF) + (push_bit 6 (ucast (hd it)) AND 0xFFF)
              in bindE (increase_safely it) (\<lambda>it. Inr (cp + low6 (hd it), it))))"

definition get_sequence_4 :: "u8 list \<Rightarrow> utf_error + u32 \<times> u8 list" where
  "get_sequence_4 it =
     (if it = [] then Inl NOT_ENOUGH_ROOM
      else let cp = ucast (hd it)
           in bindE (increase_safely it) (\<lambda>it.
              let cp = (push_bit 18 cp AND 0x1FFFFF) + (push_bit 12 (ucast (hd it)) AND 0x3FFFF)
              in bindE (increase_safely it) (\<lambda>it.
                 let cp = cp + (push_bit 6 (ucast (hd it)) AND 0xFFF)
                 in bindE (increase_safely it) (\<lambda>it. Inr (cp + low6 (hd it), it)))))"

text \<open>On success the code point and the iterator behind the sequence; on failure the iterator stays.\<close>

definition validate_next :: "u8 list \<Rightarrow> utf_error + u32 \<times> u8 list" where
  "validate_next it =
     (let len = sequence_length (hd it);
          err = (if len = 1 then get_sequence_1 it
                 else if len = 2 then get_sequence_2 it
                 else if len = 3 then get_sequence_3 it
                 else if len = 4 then get_sequence_4 it
                 else Inl INVALID_LEAD)
      in bindE err (\<lambda>(cp, last).
           if is_code_point_valid cp
           then if \<not> is_overlong_sequence cp len then Inr (cp, tl last) else Inl OVERLONG_SEQUENCE
           else Inl INVALID_CODE_POINT))"

text \<open>\<open>validate_next\<close> does not set the code point on failure, so \<open>next\<close> throws with the zero it began with.\<close>

definition utf8_next :: "u8 list \<Rightarrow> utf8_exception + u32 \<times> u8 list" where
  "utf8_next it =
     (case validate_next it of
        Inr r \<Rightarrow> Inr r
      | Inl NOT_ENOUGH_ROOM \<Rightarrow> Inl not_enough_room
      | Inl INVALID_CODE_POINT \<Rightarrow> Inl (invalid_code_point 0)
      | Inl _ \<Rightarrow> Inl (invalid_utf8 (hd it)))"

lemma increase_safely_Inr: "increase_safely it = Inr r \<longleftrightarrow> r = tl it \<and> r \<noteq> [] \<and> is_trail (hd r)"
  by (auto simp: increase_safely_def)

lemmas get_sequence_defs = get_sequence_1_def get_sequence_2_def get_sequence_3_def get_sequence_4_def

lemma utf8_next_Inr: "utf8_next it = Inr r \<longleftrightarrow> validate_next it = Inr r"
  by (auto simp: utf8_next_def split: sum.splits utf_error.splits)

lemma utf8_next_length:
  assumes "it \<noteq> []" and "utf8_next it = Inr (cp, rest)"
  shows "length rest < length it"
proof -
  have t: "length (tl xs) \<le> length xs" for xs :: "u8 list" by simp
  from assms show ?thesis
    unfolding utf8_next_Inr validate_next_def Let_def
    by (auto simp: bindE_eq_Inr get_sequence_defs increase_safely_Inr Let_def split: if_splits)
qed

subsection \<open>Encoding\<close>

definition utf8_append :: "u32 \<Rightarrow> utf8_exception + u8 list" where
  "utf8_append cp =
     (if \<not> is_code_point_valid cp then Inl (invalid_code_point cp)
      else if cp < 0x80 then Inr [ucast cp]
      else if cp < 0x800 then Inr [ucast (drop_bit 6 cp OR 0xC0), ucast ((cp AND 0x3F) OR 0x80)]
      else if cp < 0x10000 then Inr [ucast (drop_bit 12 cp OR 0xE0),
             ucast ((drop_bit 6 cp AND 0x3F) OR 0x80), ucast ((cp AND 0x3F) OR 0x80)]
      else Inr [ucast (drop_bit 18 cp OR 0xF0), ucast ((drop_bit 12 cp AND 0x3F) OR 0x80),
             ucast ((drop_bit 6 cp AND 0x3F) OR 0x80), ucast ((cp AND 0x3F) OR 0x80)])"

subsection \<open>Loops over a range\<close>

function utf8_distance :: "u8 list \<Rightarrow> utf8_exception + nat" where
  "utf8_distance it =
     (if it = [] then Inr 0
      else bindE (utf8_next it) (\<lambda>x. bindE (utf8_distance (snd x)) (\<lambda>n. Inr (n + 1))))"
  by pat_completeness auto
termination
  by (relation "measure length") (auto dest: utf8_next_length)

definition u16_units :: "u32 \<Rightarrow> u16 list" where
  "u16_units cp =
     (if cp > 0xFFFF then [ucast (drop_bit 10 cp + 0xD7C0), ucast ((cp AND 0x3FF) + 0xDC00)]
      else [ucast cp])"

function utf8to16 :: "u8 list \<Rightarrow> utf8_exception + u16 list" where
  "utf8to16 it =
     (if it = [] then Inr []
      else bindE (utf8_next it) (\<lambda>x. bindE (utf8to16 (snd x)) (\<lambda>us. Inr (u16_units (fst x) @ us))))"
  by pat_completeness auto
termination
  by (relation "measure length") (auto dest: utf8_next_length)

definition mask16 :: "u32 \<Rightarrow> u32" where
  "mask16 oc = oc AND 0xFFFF"

text \<open>\<open>SURROGATE_OFFSET\<close> is \<open>0x10000 - (0xD800 << 10) - 0xDC00\<close> in 32 bits (the macro subtracts
  \<open>TRAIL_SURROGATE_MIN\<close>).\<close>

definition SURROGATE_OFFSET :: u32 where
  "SURROGATE_OFFSET = 0x10000 - push_bit 10 0xD800 - 0xDC00"

fun utf16to8 :: "u32 list \<Rightarrow> utf8_exception + u8 list" where
  "utf16to8 [] = Inr []"
| "utf16to8 (w # ws) =
     (let cp = mask16 w
      in if is_lead_surrogate cp
         then (case ws of
                 [] \<Rightarrow> Inl (invalid_utf16 (ucast cp))
               | w2 # ws' \<Rightarrow>
                   let trail = mask16 w2
                   in if is_trail_surrogate trail
                      then bindE (utf8_append (push_bit 10 cp + trail + SURROGATE_OFFSET)) (\<lambda>bs.
                           bindE (utf16to8 ws') (\<lambda>r. Inr (bs @ r)))
                      else Inl (invalid_utf16 (ucast trail)))
         else if is_trail_surrogate cp then Inl (invalid_utf16 (ucast cp))
         else bindE (utf8_append cp) (\<lambda>bs. bindE (utf16to8 ws) (\<lambda>r. Inr (bs @ r))))"

subsection \<open>Classes of characters\<close>

definition isBasicLatinCharacter :: "u32 \<Rightarrow> bool" where
  "isBasicLatinCharacter w \<longleftrightarrow> (w \<ge> 0x61 \<and> w \<le> 0x7A) \<or> (w \<ge> 0x41 \<and> w \<le> 0x5A)"

definition isExtendedLatinCharacter :: "u32 \<Rightarrow> bool" where
  "isExtendedLatinCharacter w \<longleftrightarrow> isBasicLatinCharacter w
     \<or> (w \<ge> 0x00C0 \<and> w \<le> 0x00D6) \<or> (w \<ge> 0x00D8 \<and> w \<le> 0x00DF) \<or> w = 0x00DF
     \<or> (w \<ge> 0x00E0 \<and> w \<le> 0x00F6) \<or> (w \<ge> 0x00F8 \<and> w \<le> 0x00FE) \<or> (w \<ge> 0x0100 \<and> w \<le> 0x012F)
     \<or> w = 0x1E9E"

definition isCyrillicCharacter :: "u32 \<Rightarrow> bool" where
  "isCyrillicCharacter w \<longleftrightarrow> (w \<ge> 0x0410 \<and> w \<le> 0x044F) \<or> w = 0x0401 \<or> w = 0x0451"

definition isEastAsianCharacter :: "u32 \<Rightarrow> bool" where
  "isEastAsianCharacter w \<longleftrightarrow> (w \<ge> 0x1100 \<and> w \<le> 0x11F9) \<or> (w \<ge> 0x3041 \<and> w \<le> 0x30FF)
     \<or> (w \<ge> 0x3131 \<and> w \<le> 0x318E) \<or> (w \<ge> 0x31F0 \<and> w \<le> 0x31FF) \<or> (w \<ge> 0x3400 \<and> w \<le> 0x4DB5)
     \<or> (w \<ge> 0x4E00 \<and> w \<le> 0x9FC3) \<or> (w \<ge> 0xAC00 \<and> w \<le> 0xD7A3) \<or> (w \<ge> 0xFF01 \<and> w \<le> 0xFFEE)"

definition isNumeric :: "u32 \<Rightarrow> bool" where
  "isNumeric w \<longleftrightarrow> w \<ge> 0x30 \<and> w \<le> 0x39"

definition isNumericOrSpace :: "u32 \<Rightarrow> bool" where
  "isNumericOrSpace w \<longleftrightarrow> isNumeric w \<or> w = 0x20"

definition isBasicLatinString :: "u32 list \<Rightarrow> bool \<Rightarrow> bool" where
  "isBasicLatinString ws num = list_all (\<lambda>w. isBasicLatinCharacter w \<or> (num \<and> isNumericOrSpace w)) ws"

definition isExtendedLatinString :: "u32 list \<Rightarrow> bool \<Rightarrow> bool" where
  "isExtendedLatinString ws num = list_all (\<lambda>w. isExtendedLatinCharacter w \<or> (num \<and> isNumericOrSpace w)) ws"

definition isCyrillicString :: "u32 list \<Rightarrow> bool \<Rightarrow> bool" where
  "isCyrillicString ws num = list_all (\<lambda>w. isCyrillicCharacter w \<or> (num \<and> isNumericOrSpace w)) ws"

definition isEastAsianString :: "u32 list \<Rightarrow> bool \<Rightarrow> bool" where
  "isEastAsianString ws num = list_all (\<lambda>w. isEastAsianCharacter w \<or> (num \<and> isNumericOrSpace w)) ws"

subsection \<open>Case\<close>

abbreviation uint16 :: "u32 \<Rightarrow> u32" where
  "uint16 w \<equiv> ucast (ucast w :: u16)"

definition wcharToUpper :: "u32 \<Rightarrow> u32" where
  "wcharToUpper w =
     (if w \<ge> 0x61 \<and> w \<le> 0x7A then uint16 w - 0x20
      else if w = 0xDF then 0x1E9E
      else if w \<ge> 0xE0 \<and> w \<le> 0xF6 then uint16 w - 0x20
      else if w \<ge> 0xF8 \<and> w \<le> 0xFE then uint16 w - 0x20
      else if w \<ge> 0x101 \<and> w \<le> 0x12F \<and> w mod 2 = 1 then uint16 w - 1
      else if w \<ge> 0x430 \<and> w \<le> 0x44F then uint16 w - 0x20
      else if w = 0x451 then 0x401
      else if w = 0x153 then 0x152
      else if w = 0xFF then 0x178
      else w)"

definition wcharToLower :: "u32 \<Rightarrow> u32" where
  "wcharToLower w =
     (if w \<ge> 0x41 \<and> w \<le> 0x5A then uint16 w + 0x20
      else if w \<ge> 0xC0 \<and> w \<le> 0xD6 then uint16 w + 0x20
      else if w \<ge> 0xD8 \<and> w \<le> 0xDE then uint16 w + 0x20
      else if w \<ge> 0x100 \<and> w \<le> 0x12E \<and> w mod 2 = 0 then uint16 w + 1
      else if w = 0x1E9E then 0xDF
      else if w = 0x401 then 0x451
      else if w = 0x152 then 0x153
      else if w = 0x178 then 0xFF
      else if w \<ge> 0x410 \<and> w \<le> 0x42F then uint16 w + 0x20
      else w)"

definition wcharToUpperOnlyLatin :: "u32 \<Rightarrow> u32" where
  "wcharToUpperOnlyLatin w = (if isBasicLatinCharacter w then wcharToUpper w else w)"

definition wcharToLowerOnlyLatin :: "u32 \<Rightarrow> u32" where
  "wcharToLowerOnlyLatin w = (if isBasicLatinCharacter w then wcharToLower w else w)"

definition wstrToUpper :: "u32 list \<Rightarrow> u32 list" where
  "wstrToUpper ws = map wcharToUpper ws"

definition wstrToLower :: "u32 list \<Rightarrow> u32 list" where
  "wstrToLower ws = map wcharToLower ws"

subsection \<open>Conversions\<close>

text \<open>Output through a pointer to the first element of a buffer: \<open>None\<close> is a write behind its end.\<close>

definition put_units :: "'a list \<Rightarrow> 'a list \<Rightarrow> 'a list option" where
  "put_units us buf = (if length us \<le> length buf then Some (us @ drop (length us) buf) else None)"

text \<open>The result of a conversion that fails: the first element is cleared if the size allows.\<close>

definition conversion_failed :: "u32 list \<Rightarrow> nat \<Rightarrow> (bool \<times> u32 list \<times> nat) option" where
  "conversion_failed wstr wsize =
     (if wsize > 0 then map_option (\<lambda>b. (False, b, 0)) (put_units [0] wstr) else Some (False, wstr, 0))"

definition Utf8toWStr_buf :: "u8 list \<Rightarrow> u32 list \<Rightarrow> nat \<Rightarrow> (bool \<times> u32 list \<times> nat) option" where
  "Utf8toWStr_buf bs wstr wsize =
     (case utf8_distance bs of
        Inl _ \<Rightarrow> conversion_failed wstr wsize
      | Inr len \<Rightarrow>
          if len > wsize then conversion_failed wstr wsize
          else (case utf8to16 bs of
                  Inl _ \<Rightarrow> conversion_failed wstr len
                | Inr us \<Rightarrow>
                    (case put_units (map ucast us) wstr of
                       None \<Rightarrow> None
                     | Some b \<Rightarrow> if len < length b then Some (True, b[len := 0], len) else None)))"

definition Utf8toWStr :: "u8 list \<Rightarrow> u32 list \<Rightarrow> (bool \<times> u32 list) option" where
  "Utf8toWStr bs wstr =
     (case utf8_distance bs of
        Inl _ \<Rightarrow> Some (False, [])
      | Inr len \<Rightarrow>
          if len = 0 then Some (True, wstr)
          else (case utf8to16 bs of
                  Inl _ \<Rightarrow> Some (False, [])
                | Inr us \<Rightarrow> map_option (Pair True) (put_units (map ucast us) (resize_to len wstr))))"

text \<open>The result is resized to what was written.\<close>

definition WStrToUtf8 :: "u32 list \<Rightarrow> (bool \<times> u8 list) option" where
  "WStrToUtf8 ws =
     (if ws = [] then Some (True, [])
      else case utf16to8 ws of
             Inl _ \<Rightarrow> Some (False, [])
           | Inr out \<Rightarrow> map_option (\<lambda>b. (True, take (length out) b)) (put_units out (replicate (length ws * 4) 0)))"

definition utf8length :: "u8 list \<Rightarrow> nat \<times> u8 list" where
  "utf8length bs = (case utf8_distance bs of Inr n \<Rightarrow> (n, bs) | Inl _ \<Rightarrow> (0, []))"

definition utf8truncate :: "u8 list \<Rightarrow> nat \<Rightarrow> u8 list option" where
  "utf8truncate bs len =
     (case utf8_distance bs of
        Inl _ \<Rightarrow> Some []
      | Inr wlen \<Rightarrow>
          if wlen \<le> len then Some bs
          else (case utf8to16 bs of
                  Inl _ \<Rightarrow> Some []
                | Inr us \<Rightarrow>
                    (case put_units (map ucast us) (replicate wlen 0) of
                       None \<Rightarrow> None
                     | Some b \<Rightarrow>
                         (case utf16to8 (resize_to len b) of
                            Inl _ \<Rightarrow> Some []
                          | Inr out \<Rightarrow> map_option (take (length out)) (put_units out bs)))))"

fun occurs :: "'a list \<Rightarrow> 'a list \<Rightarrow> bool" where
  "occurs pat [] \<longleftrightarrow> pat = []"
| "occurs pat (x # xs) \<longleftrightarrow> take (length pat) (x # xs) = pat \<or> occurs pat xs"

definition Utf8FitTo :: "u8 list \<Rightarrow> u32 list \<Rightarrow> bool option" where
  "Utf8FitTo str search = map_option (\<lambda>(ok, temp). ok \<and> occurs search (wstrToLower temp)) (Utf8toWStr str [])"

subsection \<open>Names\<close>

definition dropEnds :: "u32 \<Rightarrow> u32 list list" where
  "dropEnds declension =
     [[[0x430], [0x43E], [0x44F], [0x435], [0x44C], [0x439]],
      [[0x430], [0x44F], [0x44B], [0x438]],
      [[0x435], [0x443], [0x44E], [0x438]],
      [[0x443], [0x44E], [0x43E], [0x435], [0x44C], [0x44F], [0x430]],
      [[0x43E, 0x439], [0x451, 0x439], [0x435, 0x439], [0x43E, 0x43C], [0x451, 0x43C], [0x435, 0x43C], [0x44E]],
      [[0x435], [0x438]]] ! unat declension"

text \<open>\<open>substr\<close> throws when the position (a wrapped difference) lies behind the end: \<open>None\<close>.\<close>

fun drop_ending :: "u32 list list \<Rightarrow> u32 list \<Rightarrow> u32 list option" where
  "drop_ending [] wname = Some wname"
| "drop_ending (end # ends) wname =
     (if length wname < length end then None
      else if drop (length wname - length end) wname = end then Some (take (length wname - length end) wname)
      else drop_ending ends wname)"

definition GetMainPartOfName :: "u32 list \<Rightarrow> u32 \<Rightarrow> u32 list option" where
  "GetMainPartOfName wname declension =
     (if length wname < 1 \<or> \<not> isCyrillicCharacter (hd wname) \<or> declension > 5 then Some wname
      else drop_ending (dropEnds declension) wname)"

definition MAX_INTERNAL_PLAYER_NAME :: nat where
  "MAX_INTERNAL_PLAYER_NAME = 15"

text \<open>\<open>mem\<close> is what the stack holds where \<open>wstr_buf\<close> lies. The result is whether the name is one, and the name.\<close>

definition normalizePlayerName :: "u32 list \<Rightarrow> u8 list \<Rightarrow> (bool \<times> u8 list) option" where
  "normalizePlayerName mem name =
     (if name = [] then Some (False, name)
      else if hd name = 0xC3 \<and> length name > 1 \<and> name ! 1 = 0x9F then Some (False, name)
      else
        (case Utf8toWStr_buf name (resize_to (MAX_INTERNAL_PLAYER_NAME + 1) mem) MAX_INTERNAL_PLAYER_NAME of
           None \<Rightarrow> None
         | Some (ok, buf, len) \<Rightarrow>
             if \<not> ok then Some (False, name)
             else
               let buf = buf[0 := wcharToUpper (buf ! 0)];
                   buf = fold (\<lambda>i b. b[i := wcharToLower (b ! i)]) [1..<len] buf
               in (case WStrToUtf8 (take len buf) of
                     None \<Rightarrow> None
                   | Some (ok, out) \<Rightarrow>
                       if \<not> ok then Some (False, out)
                       else Some (True, takeWhile (\<lambda>c. c \<noteq> 0x2D) out))))"

end
