(* ===== verification/Utf8Codec.thy ===== *)
theory Utf8Codec
  imports Utf8
begin

text \<open>
  The decoder against the encoder: the bits of a sequence of each length, the accepted sequences, and
  the equivalence of \<open>next\<close> with \<open>append\<close>.
\<close>

subsection \<open>Bits\<close>

lemma word_less_exp_iff:
  assumes "n < LENGTH('a)"
  shows "(w :: 'a::len word) < 2 ^ n \<longleftrightarrow> (\<forall>i. bit w i \<longrightarrow> i < n)"
proof
  assume "w < 2 ^ n" then show "\<forall>i. bit w i \<longrightarrow> i < n" using bit_lt_exp by blast
next
  assume a: "\<forall>i. bit w i \<longrightarrow> i < n"
  have "take_bit n w = w" by (rule bit_eqI) (use a in \<open>auto simp: bit_take_bit_iff\<close>)
  moreover have "w AND mask n < 2 ^ n" using assms by (rule and_mask_less')
  ultimately show "w < 2 ^ n" by (simp add: take_bit_eq_mask)
qed

lemma all_less_8: "(\<forall>n<8. P n) \<longleftrightarrow> P 0 \<and> P 1 \<and> P 2 \<and> P 3 \<and> P 4 \<and> P 5 \<and> P 6 \<and> P (7::nat)"
  by (auto simp: eval_nat_numeral All_less_Suc)

lemma all_less_add: "(\<forall>n<a + b. P n) \<longleftrightarrow> (\<forall>n<a. P n) \<and> (\<forall>n<b. P (a + n :: nat))"
proof -
  have "P n" if "\<forall>n<a. P n" "\<forall>n<b. P (a + n)" "n < a + b" for n
    using that(1) that(2)[rule_format, of "n - a"] that(3) by (cases "n < a") auto
  then show ?thesis by auto
qed

lemma all_less_32:
  "(\<forall>n<32. P n) \<longleftrightarrow> (\<forall>n<8. P n) \<and> (\<forall>n<8. P (8 + n)) \<and> (\<forall>n<8. P (16 + n)) \<and> (\<forall>n<8. P (24 + n :: nat))"
  using all_less_add[of 24 8 P] all_less_add[of 16 8 P] all_less_add[of 8 8 P] by simp

lemma u8_eqI: "(\<forall>n<8. bit a n \<longleftrightarrow> bit b n) \<Longrightarrow> a = (b :: u8)"
  by (rule bit_word_eqI) simp

lemma u32_eqI: "(\<forall>n<32. bit a n \<longleftrightarrow> bit b n) \<Longrightarrow> a = (b :: u32)"
  by (rule bit_word_eqI) simp

lemma u8_high: "n \<ge> 8 \<Longrightarrow> \<not> bit (c :: u8) n"
  using bit_imp_le_length[of c n] by auto

lemma u8_bit_less: "bit (c :: u8) n \<Longrightarrow> n < 8"
  using bit_imp_le_length[of c n] by simp

lemma u8_bits:
  "c < 0x80 \<longleftrightarrow> \<not> bit (c::u8) 7"
  "drop_bit 6 c = 2 \<longleftrightarrow> bit c 7 \<and> \<not> bit c 6"
  "drop_bit 5 c = 6 \<longleftrightarrow> bit c 7 \<and> bit c 6 \<and> \<not> bit c 5"
  "drop_bit 4 c = 0xE \<longleftrightarrow> bit c 7 \<and> bit c 6 \<and> bit c 5 \<and> \<not> bit c 4"
  "drop_bit 3 c = 0x1E \<longleftrightarrow> bit c 7 \<and> bit c 6 \<and> bit c 5 \<and> bit c 4 \<and> \<not> bit c 3"
proof -
  have "(\<forall>i. bit c i \<longrightarrow> i < 7) \<longleftrightarrow> \<not> bit c 7"
    using bit_imp_le_length[of c] by (auto simp: less_Suc_eq eval_nat_numeral)
  then show "c < 0x80 \<longleftrightarrow> \<not> bit c 7" using word_less_exp_iff[of 7 c] by simp
qed (auto simp: bit_eq_iff bit_drop_bit_eq all_less_8 u8_high)

lemma u32_bounds:
  "(w :: u32) < 0x80 \<longleftrightarrow> (\<forall>i. bit w i \<longrightarrow> i < 7)"
  "w < 0x800 \<longleftrightarrow> (\<forall>i. bit w i \<longrightarrow> i < 11)"
  "w < 0x10000 \<longleftrightarrow> (\<forall>i. bit w i \<longrightarrow> i < 16)"
  "w < 0x200000 \<longleftrightarrow> (\<forall>i. bit w i \<longrightarrow> i < 21)"
  using word_less_exp_iff[of 7 w] word_less_exp_iff[of 11 w] word_less_exp_iff[of 16 w] word_less_exp_iff[of 21 w]
  by simp_all

lemma mask_bits:
  "bit (0x7FF :: int) i \<Longrightarrow> i < 11" "bit (0xFFFF :: int) i \<Longrightarrow> i < 16" "bit (0xFFF :: int) i \<Longrightarrow> i < 12"
proof -
  have "(0x7FF :: int) = mask 11" "(0xFFFF :: int) = mask 16" "(0xFFF :: int) = mask 12"
    by (simp_all add: mask_eq_exp_minus_1)
  then show "bit (0x7FF :: int) i \<Longrightarrow> i < 11" "bit (0xFFFF :: int) i \<Longrightarrow> i < 16" "bit (0xFFF :: int) i \<Longrightarrow> i < 12"
    by (metis bit_mask_iff)+
qed

lemmas bits_eval = all_less_32 all_less_8 bit_simps

text \<open>The sums of the decoder are disjoint.\<close>

lemma sum_2: "(push_bit 6 (ucast (c :: u8)) AND 0x7FF) + low6 d = (push_bit 6 (ucast c) AND 0x7FF) OR low6 d"
  by (rule disjunctive_add_eq_or, rule u32_eqI) (simp add: bits_eval)

lemma sum_3: "(push_bit 12 (ucast (c :: u8)) AND 0xFFFF) + (push_bit 6 (ucast (d :: u8)) AND 0xFFF) + low6 f
    = (push_bit 12 (ucast c) AND 0xFFFF) OR (push_bit 6 (ucast d) AND 0xFFF) OR low6 f"
proof -
  let ?c = "push_bit 12 (ucast c :: u32) AND 0xFFFF" and ?d = "push_bit 6 (ucast d :: u32) AND 0xFFF"
  have "?c + ?d = ?c OR ?d" by (rule disjunctive_add_eq_or, rule u32_eqI) (simp add: bits_eval)
  moreover have "(?c OR ?d) + low6 f = ?c OR ?d OR low6 f"
    by (subst disjunctive_add_eq_or, rule u32_eqI) (simp_all add: bits_eval or.assoc)
  ultimately show ?thesis by simp
qed

lemma sum_4: "is_trail d \<Longrightarrow> (push_bit 18 (ucast (c :: u8)) AND 0x1FFFFF) + (push_bit 12 (ucast (d :: u8)) AND 0x3FFFF)
      + (push_bit 6 (ucast (f :: u8)) AND 0xFFF) + low6 g
    = (push_bit 18 (ucast c) AND 0x1FFFFF) OR (push_bit 12 (ucast d) AND 0x3FFFF) OR (push_bit 6 (ucast f) AND 0xFFF) OR low6 g"
proof -
  let ?a = "push_bit 18 (ucast c :: u32) AND 0x1FFFFF" and ?b = "push_bit 12 (ucast d :: u32) AND 0x3FFFF"
    and ?c = "push_bit 6 (ucast f :: u32) AND 0xFFF"
  have "?a + ?b = ?a OR ?b"
    by (rule disjunctive_add_eq_or, rule u32_eqI) (simp add: bits_eval)
  moreover have "(?a OR ?b) + ?c = ?a OR ?b OR ?c"
    by (subst disjunctive_add_eq_or, rule u32_eqI) (simp_all add: bits_eval or.assoc)
  moreover have "(?a OR ?b OR ?c) + low6 g = ?a OR ?b OR ?c OR low6 g"
    by (subst disjunctive_add_eq_or, rule u32_eqI) (simp_all add: bits_eval or.assoc)
  ultimately show ?thesis by simp
qed

text \<open>What is decoded is encoded as it was, and conversely.\<close>

lemma decode_2:
  fixes c :: u8
  assumes "drop_bit 5 c = 6" "is_trail d" "cp = (push_bit 6 (ucast c) AND 0x7FF) + low6 d"
  shows "cp < 0x800" "ucast (drop_bit 6 cp OR 0xC0) = c" "ucast ((cp AND 0x3F) OR 0x80) = d"
proof -
  have b: "bit c 7" "bit c 6" "\<not> bit c 5" "bit d 7" "\<not> bit d 6" using assms(1,2) by (auto simp: u8_bits is_trail_def)
  show "cp < 0x800" unfolding u32_bounds assms(3) sum_2
    by (auto simp: bit_or_iff bit_and_iff bit_unsigned_iff dest: mask_bits u8_bit_less)
  show "ucast (drop_bit 6 cp OR 0xC0) = c" "ucast ((cp AND 0x3F) OR 0x80) = d"
    unfolding assms(3) sum_2 by (rule u8_eqI, simp add: bits_eval b)+
qed

lemma decode_3:
  fixes c :: u8
  assumes "drop_bit 4 c = 0xE" "is_trail d" "is_trail f"
    "cp = (push_bit 12 (ucast c) AND 0xFFFF) + (push_bit 6 (ucast d) AND 0xFFF) + low6 f"
  shows "cp < 0x10000" "ucast (drop_bit 12 cp OR 0xE0) = c" "ucast ((drop_bit 6 cp AND 0x3F) OR 0x80) = d"
    "ucast ((cp AND 0x3F) OR 0x80) = f"
proof -
  have b: "bit c 7" "bit c 6" "bit c 5" "\<not> bit c 4" "bit d 7" "\<not> bit d 6" "bit f 7" "\<not> bit f 6"
    using assms(1-3) by (auto simp: u8_bits is_trail_def)
  show "cp < 0x10000" unfolding u32_bounds assms(4) sum_3
    by (auto simp: bit_or_iff bit_and_iff bit_unsigned_iff dest: mask_bits u8_bit_less)
  show "ucast (drop_bit 12 cp OR 0xE0) = c" "ucast ((drop_bit 6 cp AND 0x3F) OR 0x80) = d"
    "ucast ((cp AND 0x3F) OR 0x80) = f"
    unfolding assms(4) sum_3 by (rule u8_eqI, simp add: bits_eval b)+
qed

lemma decode_4:
  fixes c :: u8
  assumes "drop_bit 3 c = 0x1E" "is_trail d" "is_trail f" "is_trail g"
    "cp = (push_bit 18 (ucast c) AND 0x1FFFFF) + (push_bit 12 (ucast d) AND 0x3FFFF)
      + (push_bit 6 (ucast f) AND 0xFFF) + low6 g"
  shows "ucast (drop_bit 18 cp OR 0xF0) = c" "ucast ((drop_bit 12 cp AND 0x3F) OR 0x80) = d"
    "ucast ((drop_bit 6 cp AND 0x3F) OR 0x80) = f" "ucast ((cp AND 0x3F) OR 0x80) = g"
proof -
  have b: "bit c 7" "bit c 6" "bit c 5" "bit c 4" "\<not> bit c 3" "bit d 7" "\<not> bit d 6" "bit f 7" "\<not> bit f 6" "bit g 7" "\<not> bit g 6"
    using assms(1-4) by (auto simp: u8_bits is_trail_def)
  show "ucast (drop_bit 18 cp OR 0xF0) = c" "ucast ((drop_bit 12 cp AND 0x3F) OR 0x80) = d"
    "ucast ((drop_bit 6 cp AND 0x3F) OR 0x80) = f" "ucast ((cp AND 0x3F) OR 0x80) = g"
    unfolding assms(5) sum_4[OF assms(2)] by (rule u8_eqI, simp add: bits_eval b)+
qed

lemma is_trail_encode: "is_trail (ucast ((x AND 0x3F) OR (0x80 :: u32)))"
  unfolding is_trail_def u8_bits by (simp add: bit_simps)

lemma encode_2:
  assumes "cp < 0x800"
  defines "c \<equiv> ucast (drop_bit 6 cp OR 0xC0) :: u8" and "d \<equiv> ucast ((cp AND 0x3F) OR 0x80) :: u8"
  shows "drop_bit 5 c = 6" "(push_bit 6 (ucast c) AND 0x7FF) + low6 d = cp"
proof -
  have h: "\<not> bit cp n" if "11 \<le> n" for n using assms(1) that unfolding u32_bounds by (meson not_le)
  show "drop_bit 5 c = 6" unfolding u8_bits c_def by (simp add: bit_simps h)
  show "(push_bit 6 (ucast c) AND 0x7FF) + low6 d = cp"
    unfolding sum_2 c_def d_def by (rule u32_eqI) (simp add: bits_eval h)
qed

lemma encode_3:
  assumes "cp < 0x10000"
  defines "c \<equiv> ucast (drop_bit 12 cp OR 0xE0) :: u8" and "d \<equiv> ucast ((drop_bit 6 cp AND 0x3F) OR 0x80) :: u8"
    and "f \<equiv> ucast ((cp AND 0x3F) OR 0x80) :: u8"
  shows "drop_bit 4 c = 0xE" "(push_bit 12 (ucast c) AND 0xFFFF) + (push_bit 6 (ucast d) AND 0xFFF) + low6 f = cp"
proof -
  have h: "\<not> bit cp n" if "16 \<le> n" for n using assms(1) that unfolding u32_bounds by (meson not_le)
  show "drop_bit 4 c = 0xE" unfolding u8_bits c_def by (simp add: bit_simps h)
  show "(push_bit 12 (ucast c) AND 0xFFFF) + (push_bit 6 (ucast d) AND 0xFFF) + low6 f = cp"
    unfolding sum_3 c_def d_def f_def by (rule u32_eqI) (simp add: bits_eval h)
qed

lemma encode_4:
  assumes "cp < 0x200000"
  defines "c \<equiv> ucast (drop_bit 18 cp OR 0xF0) :: u8" and "d \<equiv> ucast ((drop_bit 12 cp AND 0x3F) OR 0x80) :: u8"
    and "f \<equiv> ucast ((drop_bit 6 cp AND 0x3F) OR 0x80) :: u8" and "g \<equiv> ucast ((cp AND 0x3F) OR 0x80) :: u8"
  shows "drop_bit 3 c = 0x1E" "(push_bit 18 (ucast c) AND 0x1FFFFF) + (push_bit 12 (ucast d) AND 0x3FFFF)
      + (push_bit 6 (ucast f) AND 0xFFF) + low6 g = cp"
proof -
  have h: "\<not> bit cp n" if "21 \<le> n" for n using assms(1) that unfolding u32_bounds by (meson not_le)
  show "drop_bit 3 c = 0x1E" unfolding u8_bits c_def by (simp add: bit_simps h)
  have t: "is_trail d" unfolding d_def by (rule is_trail_encode)
  show "(push_bit 18 (ucast c) AND 0x1FFFFF) + (push_bit 12 (ucast d) AND 0x3FFFF)
      + (push_bit 6 (ucast f) AND 0xFFF) + low6 g = cp"
    unfolding sum_4[OF t] unfolding c_def d_def f_def g_def by (rule u32_eqI) (simp add: bits_eval h)
qed

subsection \<open>Decoding inverts encoding\<close>

lemma drop_bit_exclusive:
  "drop_bit 5 (c :: u8) = 6 \<Longrightarrow> \<not> c < 0x80"
  "drop_bit 4 c = 0xE \<Longrightarrow> \<not> c < 0x80 \<and> drop_bit 5 c \<noteq> 6"
  "drop_bit 3 c = 0x1E \<Longrightarrow> \<not> c < 0x80 \<and> drop_bit 5 c \<noteq> 6 \<and> drop_bit 4 c \<noteq> 0xE"
  unfolding u8_bits by auto

lemma get_sequence_Inr:
  "get_sequence_1 (c # r) = Inr x \<longleftrightarrow> x = (ucast c, c # r)"
  "get_sequence_2 (c # r) = Inr x \<longleftrightarrow> (\<exists>d t. r = d # t \<and> is_trail d \<and> x = ((push_bit 6 (ucast c) AND 0x7FF) + low6 d, d # t))"
  "get_sequence_3 (c # r) = Inr x \<longleftrightarrow> (\<exists>d f t. r = d # f # t \<and> is_trail d \<and> is_trail f
     \<and> x = ((push_bit 12 (ucast c) AND 0xFFFF) + (push_bit 6 (ucast d) AND 0xFFF) + low6 f, f # t))"
  "get_sequence_4 (c # r) = Inr x \<longleftrightarrow> (\<exists>d f g t. r = d # f # g # t \<and> is_trail d \<and> is_trail f \<and> is_trail g
     \<and> x = ((push_bit 18 (ucast c) AND 0x1FFFFF) + (push_bit 12 (ucast d) AND 0x3FFFF)
              + (push_bit 6 (ucast f) AND 0xFFF) + low6 g, g # t))"
  by (auto simp: get_sequence_defs Let_def bindE_eq_Inr increase_safely_Inr neq_Nil_conv)

definition octets_of :: "u32 \<Rightarrow> u8 list \<Rightarrow> bool" where
  "octets_of cp bs \<longleftrightarrow>
     (\<exists>c. bs = [c] \<and> c < 0x80 \<and> cp = ucast c)
     \<or> (\<exists>c d. bs = [c, d] \<and> drop_bit 5 c = 6 \<and> is_trail d \<and> 0x80 \<le> cp
          \<and> cp = (push_bit 6 (ucast c) AND 0x7FF) + low6 d)
     \<or> (\<exists>c d f. bs = [c, d, f] \<and> drop_bit 4 c = 0xE \<and> is_trail d \<and> is_trail f \<and> 0x800 \<le> cp
          \<and> cp = (push_bit 12 (ucast c) AND 0xFFFF) + (push_bit 6 (ucast d) AND 0xFFF) + low6 f)
     \<or> (\<exists>c d f g. bs = [c, d, f, g] \<and> drop_bit 3 c = 0x1E \<and> is_trail d \<and> is_trail f \<and> is_trail g \<and> 0x10000 \<le> cp
          \<and> cp = (push_bit 18 (ucast c) AND 0x1FFFFF) + (push_bit 12 (ucast d) AND 0x3FFFF)
              + (push_bit 6 (ucast f) AND 0xFFF) + low6 g)"

lemma ucast_ascii: "(c :: u8) < 0x80 \<Longrightarrow> (ucast c :: u32) < 0x80"
  unfolding u32_bounds using word_less_exp_iff[of 7 c] by (auto simp: bit_unsigned_iff)

text \<open>What \<open>validate_next\<close> accepts, one case per length of the sequence.\<close>

lemma checks_Inr:
  "bindE m (\<lambda>(cp, last). if is_code_point_valid cp then if \<not> is_overlong_sequence cp n then Inr (cp, tl last)
       else Inl OVERLONG_SEQUENCE else Inl INVALID_CODE_POINT) = Inr (cp, rest)
   \<longleftrightarrow> (\<exists>last. m = Inr (cp, last) \<and> is_code_point_valid cp \<and> \<not> is_overlong_sequence cp n \<and> rest = tl last)"
  by (auto simp: bindE_eq_Inr split: if_splits)

lemma validate_next_Inr:
  "validate_next (c # r) = Inr (cp, rest) \<longleftrightarrow> is_code_point_valid cp \<and> (\<exists>bs. octets_of cp bs \<and> c # r = bs @ rest)"
proof -
  consider (1) "c < 0x80" | (2) "drop_bit 5 c = 6" | (3) "drop_bit 4 c = 0xE" | (4) "drop_bit 3 c = 0x1E"
    | (0) "\<not> c < 0x80" "drop_bit 5 c \<noteq> 6" "drop_bit 4 c \<noteq> 0xE" "drop_bit 3 c \<noteq> 0x1E" by blast
  then show ?thesis
  proof cases
    case 1
    note x = 1 drop_bit_exclusive[of c]
    from x show ?thesis
      by (auto simp: validate_next_def sequence_length_def Let_def checks_Inr get_sequence_Inr octets_of_def
          is_overlong_sequence_def ucast_ascii)
  next
    case 2
    note x = 2 drop_bit_exclusive[of c]
    have n: "\<not> is_overlong_sequence q 2 \<longleftrightarrow> 0x80 \<le> q" if "q = (push_bit 6 (ucast c) AND 0x7FF) + low6 d" "is_trail d" for q d
      using decode_2(1)[OF 2 that(2,1)] by (auto simp: is_overlong_sequence_def)
    from x show ?thesis
      by (auto simp: validate_next_def sequence_length_def Let_def checks_Inr get_sequence_Inr octets_of_def n[OF refl])
  next
    case 3
    note x = 3 drop_bit_exclusive[of c]
    have n: "\<not> is_overlong_sequence q 3 \<longleftrightarrow> 0x800 \<le> q"
      if "q = (push_bit 12 (ucast c) AND 0xFFFF) + (push_bit 6 (ucast d) AND 0xFFF) + low6 f" "is_trail d" "is_trail f" for q d f
      using decode_3(1)[OF 3 that(2,3,1)] by (auto simp: is_overlong_sequence_def word_less_nat_alt word_le_nat_alt)
    from x show ?thesis
      by (auto simp: validate_next_def sequence_length_def Let_def checks_Inr get_sequence_Inr octets_of_def n[OF refl])
  next
    case 4
    note x = 4 drop_bit_exclusive[of c]
    have n: "\<not> is_overlong_sequence q 4 \<longleftrightarrow> 0x10000 \<le> q" for q
      by (auto simp: is_overlong_sequence_def word_less_nat_alt word_le_nat_alt)
    from x show ?thesis
      by (auto simp: validate_next_def sequence_length_def Let_def checks_Inr get_sequence_Inr octets_of_def n)
  next
    case 0
    then show ?thesis by (auto simp: validate_next_def sequence_length_def Let_def octets_of_def)
  qed
qed

lemma valid_less: "is_code_point_valid cp \<Longrightarrow> cp < 0x200000"
  by (simp add: is_code_point_valid_def word_less_nat_alt word_le_nat_alt)

lemma less_to_le: "\<not> (cp :: u32) < a \<Longrightarrow> a \<le> cp"
  by simp

lemma ucast_low: "(cp :: u32) < 0x80 \<Longrightarrow> (ucast (ucast cp :: u8) :: u32) = cp \<and> (ucast cp :: u8) < 0x80"
proof -
  assume "cp < 0x80"
  then have h: "\<not> bit cp n" if "7 \<le> n" for n using that unfolding u32_bounds by (meson not_le)
  have "(ucast (ucast cp :: u8) :: u32) = cp" by (rule u32_eqI) (simp add: bits_eval h)
  moreover have "(ucast cp :: u8) < 0x80" unfolding u8_bits by (simp add: bit_simps h)
  ultimately show ?thesis ..
qed

lemma octets_of_append:
  assumes "is_code_point_valid cp"
  shows "utf8_append cp = Inr bs \<longleftrightarrow> octets_of cp bs"
proof
  assume a: "utf8_append cp = Inr bs"
  note e2 = encode_2[of cp] and e3 = encode_3[of cp] and e4 = encode_4[OF valid_less[OF assms]]
  consider (1) "cp < 0x80" | (2) "\<not> cp < 0x80" "cp < 0x800" | (3) "\<not> cp < 0x80" "\<not> cp < 0x800" "cp < 0x10000"
    | (4) "\<not> cp < 0x80" "\<not> cp < 0x800" "\<not> cp < 0x10000" by blast
  then show "octets_of cp bs"
  proof cases
    case 1 then show ?thesis using a assms ucast_low[of cp] by (auto simp: utf8_append_def octets_of_def)
  next
    case 2 then show ?thesis using a assms e2 by (auto simp: utf8_append_def octets_of_def is_trail_encode)
  next
    case 3 then show ?thesis using a assms e3 by (auto simp: utf8_append_def octets_of_def is_trail_encode)
  next
    case 4 then show ?thesis using a assms e4 by (auto simp: utf8_append_def octets_of_def is_trail_encode)
  qed
next
  assume "octets_of cp bs"
  then consider (1) c where "bs = [c]" "c < 0x80" "cp = ucast c"
    | (2) c d where "bs = [c, d]" "drop_bit 5 c = 6" "is_trail d" "0x80 \<le> cp" "cp = (push_bit 6 (ucast c) AND 0x7FF) + low6 d"
    | (3) c d f where "bs = [c, d, f]" "drop_bit 4 c = 0xE" "is_trail d" "is_trail f" "0x800 \<le> cp"
        "cp = (push_bit 12 (ucast c) AND 0xFFFF) + (push_bit 6 (ucast d) AND 0xFFF) + low6 f"
    | (4) c d f g where "bs = [c, d, f, g]" "drop_bit 3 c = 0x1E" "is_trail d" "is_trail f" "is_trail g" "0x10000 \<le> cp"
        "cp = (push_bit 18 (ucast c) AND 0x1FFFFF) + (push_bit 12 (ucast d) AND 0x3FFFF) + (push_bit 6 (ucast f) AND 0xFFF) + low6 g"
    unfolding octets_of_def by blast
  then show "utf8_append cp = Inr bs"
  proof cases
    case 1
    have "(ucast (ucast c :: u32) :: u8) = c" by (rule u8_eqI) (simp add: bits_eval)
    with 1 show ?thesis using assms ucast_ascii by (simp add: utf8_append_def)
  next
    case 2
    note d = decode_2[OF 2(2,3,5)]
    have "\<not> cp < 0x80" using 2(4) by simp
    then show ?thesis using assms d 2(1) by (simp add: utf8_append_def)
  next
    case 3
    note d = decode_3[OF 3(2,3,4,6)]
    have "\<not> cp < 0x800" "\<not> cp < 0x80" using 3(5) by (simp_all add: word_less_nat_alt word_le_nat_alt)
    then show ?thesis using assms d 3(1) by (simp add: utf8_append_def)
  next
    case 4
    note d = decode_4[OF 4(2,3,4,5,7)]
    have "\<not> cp < 0x10000" "\<not> cp < 0x800" "\<not> cp < 0x80" using 4(6) by (simp_all add: word_less_nat_alt word_le_nat_alt)
    then show ?thesis using assms d 4(1) by (simp add: utf8_append_def)
  qed
qed

text \<open>C12. The decoder accepts exactly what the encoder writes: \<open>next\<close> yields a code point and the rest of
  the range if and only if the range is the encoding of that code point followed by the rest. So overlong
  forms, surrogates, stray and missing continuation bytes are all refused.\<close>

theorem utf8_next_iff:
  assumes "bs \<noteq> []"
  shows "utf8_next bs = Inr (cp, rest) \<longleftrightarrow> (\<exists>enc. utf8_append cp = Inr enc \<and> bs = enc @ rest)"
proof -
  obtain c r where bs: "bs = c # r" using assms by (cases bs) auto
  have v: "utf8_append cp = Inr enc \<Longrightarrow> is_code_point_valid cp" for enc by (auto simp: utf8_append_def split: if_splits)
  show ?thesis unfolding utf8_next_Inr bs validate_next_Inr using v octets_of_append by metis
qed

theorem utf8_next_iff_witness:
  "utf8_next [0xC3, 0xA9, 0x21] = Inr (0xE9, [0x21]) \<longleftrightarrow> (\<exists>enc. utf8_append 0xE9 = Inr enc \<and> [0xC3, 0xA9, 0x21] = enc @ [0x21])"
  by (rule utf8_next_iff) simp

end
