(* ===== verification/Utf8Facts.thy ===== *)
theory Utf8Facts
  imports Utf8Codec
begin

text \<open>
  The conversions between octets and wide strings over whole texts, the case tables, and the normal
  form of player names.
\<close>

subsection \<open>Texts\<close>

definition octets :: "u32 \<Rightarrow> u8 list" where
  "octets cp = (case utf8_append cp of Inl _ \<Rightarrow> [] | Inr bs \<Rightarrow> bs)"

definition utext :: "u32 list \<Rightarrow> u8 list" where
  "utext cps = concat (map octets cps)"

abbreviation valid_text :: "u32 list \<Rightarrow> bool" where
  "valid_text cps \<equiv> list_all is_code_point_valid cps"

definition units :: "u32 list \<Rightarrow> u16 list" where
  "units cps = concat (map u16_units cps)"

lemma utext_simps [simp]: "utext [] = []" "utext (c # cs) = octets c @ utext cs" "utext (xs @ ys) = utext xs @ utext ys"
  by (simp_all add: utext_def)

lemma units_simps [simp]: "units [] = []" "units (c # cs) = u16_units c @ units cs"
  by (simp_all add: units_def)

lemma append_valid: "is_code_point_valid cp \<Longrightarrow> utf8_append cp = Inr (octets cp) \<and> octets cp \<noteq> []"
  by (simp add: octets_def utf8_append_def)

lemma append_Inr_valid: "utf8_append cp = Inr bs \<Longrightarrow> is_code_point_valid cp \<and> bs = octets cp"
  by (auto simp: octets_def utf8_append_def split: if_splits)

lemma next_octets: "is_code_point_valid cp \<Longrightarrow> utf8_next (octets cp @ bs) = Inr (cp, bs)"
  using append_valid[of cp] by (auto simp: octets_of_append validate_next_Inr utf8_next_Inr neq_Nil_conv)

lemma next_Inr: "bs \<noteq> [] \<Longrightarrow> utf8_next bs = Inr (cp, rest) \<Longrightarrow> is_code_point_valid cp \<and> bs = octets cp @ rest"
proof -
  assume "bs \<noteq> []" "utf8_next bs = Inr (cp, rest)"
  then obtain c r where bs: "bs = c # r" and "validate_next (c # r) = Inr (cp, rest)" by (auto simp: neq_Nil_conv utf8_next_Inr)
  then have v: "is_code_point_valid cp" and "\<exists>enc. octets_of cp enc \<and> c # r = enc @ rest" by (simp_all add: validate_next_Inr)
  then show ?thesis using bs append_Inr_valid octets_of_append[OF v] by metis
qed

declare utf8_distance.simps [simp del] utf8to16.simps [simp del]

lemma distance_text: "valid_text cps \<Longrightarrow> utf8_distance (utext cps) = Inr (length cps)"
proof (induction cps)
  case (Cons c cs)
  then show ?case using append_valid[of c] by (subst utf8_distance.simps) (simp add: next_octets)
qed (simp add: utf8_distance.simps)

lemma utf8to16_text: "valid_text cps \<Longrightarrow> utf8to16 (utext cps) = Inr (units cps)"
proof (induction cps)
  case (Cons c cs)
  then show ?case using append_valid[of c] by (subst utf8to16.simps) (simp add: next_octets)
qed (simp add: utf8to16.simps)

lemma distance_Inr: "utf8_distance bs = Inr n \<Longrightarrow> \<exists>cps. valid_text cps \<and> bs = utext cps \<and> length cps = n"
proof (induction bs arbitrary: n rule: utf8_distance.induct)
  case (1 bs)
  show ?case
  proof (cases "bs = []")
    case True with 1 show ?thesis by (auto simp: utf8_distance.simps intro!: exI[of _ "[]"])
  next
    case False
    with 1(2) obtain cp rest m where n: "utf8_next bs = Inr (cp, rest)" "utf8_distance rest = Inr m" "n = m + 1"
      by (subst (asm) utf8_distance.simps) (auto simp: bindE_eq_Inr)
    from 1(1)[OF False n(1)] n(2) obtain cps where "valid_text cps" "rest = utext cps" "length cps = m" by auto
    with next_Inr[OF False n(1)] n(3) show ?thesis by (intro exI[of _ "cp # cps"]) simp
  qed
qed

text \<open>A range is either refused at once or the text of code points.\<close>

lemma text_cases:
  obtains (bad) x where "utf8_distance bs = Inl x"
  | (good) cps where "valid_text cps" "bs = utext cps" "utf8_distance bs = Inr (length cps)" "utf8to16 bs = Inr (units cps)"
proof (cases "utf8_distance bs")
  case (Inr n)
  from distance_Inr[OF this] obtain cps where "valid_text cps" "bs = utext cps" by auto
  then show ?thesis using good[of cps] distance_text utf8to16_text by simp
qed (rule bad)

lemma length_units: "length cps \<le> length (units cps)" "length (units cps) = length cps \<longleftrightarrow> list_all (\<lambda>cp. cp \<le> 0xFFFF) cps"
proof -
  show "length cps \<le> length (units cps)" by (induction cps) (simp_all add: u16_units_def)
  have "length cps \<le> length (units cps) \<and> (length (units cps) = length cps \<longleftrightarrow> list_all (\<lambda>cp. cp \<le> 0xFFFF) cps)"
  proof (induction cps)
    case (Cons c cs) then show ?case by (cases "c > 0xFFFF") (auto simp: u16_units_def)
  qed simp
  then show "length (units cps) = length cps \<longleftrightarrow> list_all (\<lambda>cp. cp \<le> 0xFFFF) cps" ..
qed

lemma utext_inject: "valid_text as \<Longrightarrow> valid_text bs \<Longrightarrow> utext as = utext bs \<Longrightarrow> as = bs"
proof (induction as arbitrary: bs)
  case Nil then show ?case using append_valid by (cases bs) auto
next
  case (Cons c cs)
  then obtain d ds where bs: "bs = d # ds" using append_valid[of c] by (cases bs) auto
  have vc: "is_code_point_valid c" "is_code_point_valid d" using Cons.prems bs by simp_all
  have "utf8_next (octets c @ utext cs) = Inr (c, utext cs)" "utf8_next (octets d @ utext ds) = Inr (d, utext ds)"
    using vc by (simp_all add: next_octets)
  moreover have "octets c @ utext cs = octets d @ utext ds" using Cons.prems(3) bs by simp
  ultimately have "c = d" "utext cs = utext ds" by (metis Pair_inject sum.inject(2))+
  then show ?case using Cons.IH[of ds] Cons.prems bs by simp
qed

lemma utext_iff: "valid_text as \<Longrightarrow> valid_text bs \<Longrightarrow> utext as = utext bs \<longleftrightarrow> as = bs"
  using utext_inject by blast

abbreviation bmp :: "u32 list \<Rightarrow> bool" where
  "bmp cps \<equiv> list_all (\<lambda>cp. cp \<le> 0xFFFF) cps"

lemma not_bmp: "list_ex (\<lambda>cp. cp > 0xFFFF) cps \<longleftrightarrow> \<not> bmp cps"
  by (auto simp: list_ex_iff list_all_iff not_le)

lemma uint16_id: "cp \<le> 0xFFFF \<Longrightarrow> uint16 cp = cp"
proof -
  assume "cp \<le> 0xFFFF"
  then have "cp < 0x10000" by (simp add: word_less_nat_alt word_le_nat_alt)
  then have h: "\<not> bit cp n" if "16 \<le> n" for n using that unfolding u32_bounds by (meson not_le)
  show ?thesis by (rule u32_eqI) (simp add: bits_eval h)
qed

lemma units_bmp: "bmp cps \<Longrightarrow> map ucast (units cps) = cps"
  by (induction cps) (auto simp: u16_units_def uint16_id not_less[symmetric])

lemma Utf8toWStr_text:
  assumes "valid_text cps"
  shows "Utf8toWStr (utext cps) [] = (if bmp cps then Some (True, cps) else None)"
proof -
  have "bmp cps \<longleftrightarrow> \<not> length cps < length (units cps)" using length_units[of cps] by linarith
  then show ?thesis
    using distance_text[OF assms] utf8to16_text[OF assms] length_units[of cps] units_bmp[of cps]
    by (auto simp: Utf8toWStr_def put_units_def)
qed

lemma Utf8toWStr_True: "Utf8toWStr bs [] = Some (True, ws) \<longleftrightarrow> valid_text ws \<and> bmp ws \<and> bs = utext ws"
proof (cases bs rule: text_cases)
  case (bad x)
  then have "\<not> (valid_text cps \<and> bs = utext cps)" for cps using distance_text by auto
  with bad show ?thesis by (auto simp: Utf8toWStr_def)
next
  case (good cps)
  then show ?thesis using Utf8toWStr_text utext_inject[OF good(1)] by auto
qed

text \<open>C13. The conversion to a wide string writes behind the end of the string exactly when the text holds a code
  point above 0xFFFF: the string gets one element per code point, but such a code point takes two.\<close>

theorem Utf8toWStr_overruns:
  "Utf8toWStr bs [] = None \<longleftrightarrow> (\<exists>cps. valid_text cps \<and> bs = utext cps \<and> list_ex (\<lambda>cp. cp > 0xFFFF) cps)"
proof (cases bs rule: text_cases)
  case (bad x)
  then have "\<not> (valid_text cps \<and> bs = utext cps)" for cps using distance_text by auto
  with bad show ?thesis by (auto simp: Utf8toWStr_def)
next
  case (good cps)
  have "(valid_text cps' \<and> bs = utext cps') \<longleftrightarrow> cps' = cps" for cps' using good(1,2) utext_inject by auto
  then have "(\<exists>cps. valid_text cps \<and> bs = utext cps \<and> list_ex (\<lambda>cp. cp > 0xFFFF) cps) \<longleftrightarrow> list_ex (\<lambda>cp. cp > 0xFFFF) cps"
    by metis
  then show ?thesis using Utf8toWStr_text[OF good(1)] good(2) not_bmp by simp
qed

subsection \<open>Back to octets\<close>

lemma mask16_ucast: "mask16 (ucast (u :: u16)) = ucast u"
proof -
  have h: "\<not> bit u n" if "16 \<le> n" for n using bit_imp_le_length[of u n] that by auto
  show ?thesis unfolding mask16_def by (rule u32_eqI) (simp add: bits_eval h)
qed

lemma surrogate_bmp: "is_code_point_valid cp \<Longrightarrow> \<not> is_lead_surrogate cp \<and> \<not> is_trail_surrogate cp"
  by (auto simp: is_code_point_valid_def is_surrogate_def is_lead_surrogate_def is_trail_surrogate_def
      word_less_nat_alt word_le_nat_alt)

lemma surrogate_pair:
  assumes "cp > 0xFFFF" "cp \<le> 0x10FFFF"
  defines "hi \<equiv> ucast (ucast (drop_bit 10 cp + 0xD7C0) :: u16) :: u32"
    and "lo \<equiv> ucast (ucast ((cp AND 0x3FF) + 0xDC00) :: u16) :: u32"
  shows "is_lead_surrogate hi \<and> is_trail_surrogate lo \<and> push_bit 10 hi + lo + SURROGATE_OFFSET = cp"
proof -
  let ?n = "unat cp"
  have n: "65536 \<le> ?n" "?n < 1114112" using assms(1,2) by (simp_all add: word_less_nat_alt word_le_nat_alt)
  have d: "unat (drop_bit 10 cp) = ?n div 1024" by (simp add: drop_bit_eq_div unat_div)
  have m: "unat (cp AND 0x3FF) = ?n mod 1024"
  proof -
    have "cp AND 0x3FF = take_bit 10 cp" by (simp add: take_bit_eq_mask mask_eq_exp_minus_1)
    then show ?thesis by (simp add: take_bit_eq_mod unat_mod)
  qed
  have hi: "unat hi = ?n div 1024 + 0xD7C0"
    unfolding hi_def using n d by (simp add: unsigned_ucast_eq unat_word_ariths take_bit_eq_mod)
  have lo: "unat lo = ?n mod 1024 + 0xDC00"
    unfolding lo_def using n m by (simp add: unsigned_ucast_eq unat_word_ariths take_bit_eq_mod)
  have l: "is_lead_surrogate hi" "is_trail_surrogate lo"
    using n unfolding is_lead_surrogate_def is_trail_surrogate_def word_le_nat_alt hi lo by auto
  have "unat (hi * 1024 + lo) = unat (cp + 56613888)"
    using n hi lo by (simp add: unat_word_ariths)
  then have "hi * 1024 + lo = cp + 56613888" by (simp only: word_unat_eq_iff)
  moreover have "push_bit 10 hi + lo + SURROGATE_OFFSET = (hi * 1024 + lo) - 56613888"
    by (simp add: SURROGATE_OFFSET_def push_bit_eq_mult)
  ultimately show ?thesis using l by simp
qed

lemma utf16to8_units: "valid_text cps \<Longrightarrow> utf16to8 (map ucast (units cps) @ ws) = bindE (utf16to8 ws) (\<lambda>r. Inr (utext cps @ r))"
proof (induction cps)
  case Nil then show ?case by (cases "utf16to8 ws") simp_all
next
  case (Cons c cs)
  then have v: "is_code_point_valid c" "utf8_append c = Inr (octets c)" using append_valid by simp_all
  have IH: "utf16to8 (map ucast (units cs) @ ws) = bindE (utf16to8 ws) (\<lambda>r. Inr (utext cs @ r))" using Cons by simp
  show ?case
  proof (cases "c > 0xFFFF")
    case True
    note s = surrogate_pair[OF True] v(1)[unfolded is_code_point_valid_def]
    then show ?thesis using True v(2) IH
      by (cases "utf16to8 ws") (simp_all add: u16_units_def mask16_ucast Let_def del: push_bit_of_Suc_0)
  next
    case False
    then have u: "uint16 c = c" by (simp add: uint16_id)
    then have "mask16 c = c" using mask16_ucast[of "ucast c"] by simp
    then show ?thesis using False v IH surrogate_bmp[OF v(1)] u
      by (cases "utf16to8 ws") (simp_all add: u16_units_def Let_def)
  qed
qed

lemma to16_Inl: "utf8_distance bs = Inl x \<Longrightarrow> utf8to16 bs = Inl x"
proof (induction bs rule: utf8_distance.induct)
  case (1 bs)
  show ?case
  proof (cases "bs = []")
    case True with 1(2) show ?thesis by (simp add: utf8_distance.simps)
  next
    case False
    have d: "bindE (utf8_next bs) (\<lambda>y. bindE (utf8_distance (snd y)) (\<lambda>n. Inr (n + 1))) = Inl x"
      using 1(2) False by (subst (asm) utf8_distance.simps) simp
    have "bindE (utf8_next bs) (\<lambda>y. bindE (utf8to16 (snd y)) (\<lambda>us. Inr (u16_units (fst y) @ us))) = Inl x"
    proof (cases "utf8_next bs")
      case (Inr a)
      then show ?thesis using d 1(1)[OF False Inr] by (cases "utf8_distance (snd a)") simp_all
    qed (use d in simp)
    then show ?thesis using False by (subst utf8to16.simps) simp
  qed
qed

text \<open>What \<open>utf8to16\<close> makes of a text, surrogate pairs included, \<open>utf16to8\<close> turns back into the text.\<close>

lemma utf16_roundtrip: "utf8to16 bs = Inr us \<Longrightarrow> utf16to8 (map ucast us) = Inr bs"
proof (cases bs rule: text_cases)
  case (good cps)
  assume "utf8to16 bs = Inr us"
  then show ?thesis using good utf16to8_units[OF good(1), of "[]"] by simp
qed (simp add: to16_Inl)

lemma length_append: "utf8_append cp = Inr bs \<Longrightarrow> length bs \<le> 4"
  by (auto simp: utf8_append_def split: if_splits)

lemma length_utf16to8: "utf16to8 ws = Inr out \<Longrightarrow> length out \<le> length ws * 4"
proof (induction ws arbitrary: out rule: utf16to8.induct)
  case (2 w ws)
  consider (pair) w2 ws' bs r where "ws = w2 # ws'" "is_lead_surrogate (mask16 w)" "is_trail_surrogate (mask16 w2)"
      "utf8_append (push_bit 10 (mask16 w) + mask16 w2 + SURROGATE_OFFSET) = Inr bs" "utf16to8 ws' = Inr r" "out = bs @ r"
    | (one) bs r where "\<not> is_lead_surrogate (mask16 w)" "\<not> is_trail_surrogate (mask16 w)" "utf8_append (mask16 w) = Inr bs"
      "utf16to8 ws = Inr r" "out = bs @ r"
    using 2(3) by (auto simp: Let_def bindE_eq_Inr split: if_splits list.splits)
  then show ?case
  proof cases
    case pair
    then show ?thesis using 2(1)[OF refl pair(2,1) refl pair(3,4,5)] length_append[OF pair(4)] by simp
  next
    case one
    then show ?thesis using 2(2)[OF refl one(1,2,3,4)] length_append[OF one(3)] by simp
  qed
qed simp

lemma WStrToUtf8_value:
  "WStrToUtf8 ws = (if ws = [] then Some (True, [])
     else case utf16to8 ws of Inl _ \<Rightarrow> Some (False, []) | Inr out \<Rightarrow> Some (True, out))"
  using length_utf16to8[of ws] by (auto simp: WStrToUtf8_def put_units_def split: sum.split)

lemma WStrToUtf8_text: "valid_text ws \<Longrightarrow> bmp ws \<Longrightarrow> WStrToUtf8 ws = Some (True, utext ws)"
  using utf16to8_units[of ws "[]"] units_bmp[of ws] by (simp add: WStrToUtf8_value)

text \<open>C14. A text that converts to a wide string converts back to the same octets; and the conversion back
  never writes behind the four octets per element it reserves.\<close>

theorem wstring_roundtrip:
  "WStrToUtf8 ws \<noteq> None \<and> (Utf8toWStr bs [] = Some (True, ws) \<longrightarrow> WStrToUtf8 ws = Some (True, bs))"
  by (auto simp: Utf8toWStr_True WStrToUtf8_text) (auto simp: WStrToUtf8_value split: sum.splits if_splits)

subsection \<open>Case\<close>

text \<open>The case tables on natural numbers.\<close>

definition lower_nat :: "nat \<Rightarrow> nat" where
  "lower_nat n =
     (if 65 \<le> n \<and> n \<le> 90 \<or> 192 \<le> n \<and> n \<le> 214 \<or> 216 \<le> n \<and> n \<le> 222 \<or> 1040 \<le> n \<and> n \<le> 1071 then n + 32
      else if 256 \<le> n \<and> n \<le> 302 \<and> even n then n + 1
      else if n = 7838 then 223 else if n = 1025 then 1105 else if n = 338 then 339 else if n = 376 then 255 else n)"

definition upper_nat :: "nat \<Rightarrow> nat" where
  "upper_nat n =
     (if 97 \<le> n \<and> n \<le> 122 \<or> 224 \<le> n \<and> n \<le> 246 \<or> 248 \<le> n \<and> n \<le> 254 \<or> 1072 \<le> n \<and> n \<le> 1103 then n - 32
      else if 257 \<le> n \<and> n \<le> 303 \<and> odd n then n - 1
      else if n = 223 then 7838 else if n = 1105 then 1025 else if n = 339 then 338 else if n = 255 then 376 else n)"

lemma unat_eq_numeral: "(w :: u32) = numeral k \<longleftrightarrow> unat w = unat (numeral k :: u32)"
  by (rule word_unat_eq_iff)

lemma unat_shift:
  assumes "(w :: u32) \<le> 0xFFFF"
  shows "unat (uint16 w + 0x20) = unat w + 32" "unat (uint16 w + 1) = unat w + 1"
    "0x20 \<le> w \<Longrightarrow> unat (uint16 w - 0x20) = unat w - 32" "1 \<le> w \<Longrightarrow> unat (uint16 w - 1) = unat w - 1"
  using assms by (simp_all add: uint16_id unat_sub unat_word_ariths word_le_nat_alt)

lemma odd_word: "(w :: u32) mod 2 = 1 \<longleftrightarrow> odd (unat w)" "w mod 2 = 0 \<longleftrightarrow> even (unat w)"
  by (simp_all add: word_unat_eq_iff unat_mod odd_iff_mod_2_eq_one even_iff_mod_2_eq_zero)

lemma unat_lower: "unat (wcharToLower w) = lower_nat (unat w)"
  unfolding wcharToLower_def lower_nat_def odd_word
  by (simp add: unat_eq_numeral word_le_nat_alt unat_shift)

lemma unat_upper: "unat (wcharToUpper w) = upper_nat (unat w)"
  unfolding wcharToUpper_def upper_nat_def odd_word
  by (simp add: unat_eq_numeral word_le_nat_alt unat_shift)

lemma upper_changes:
  "upper_nat n = n \<or> (upper_nat n + 32 = n \<and> (65 \<le> upper_nat n \<and> upper_nat n \<le> 90 \<or> 192 \<le> upper_nat n \<and> upper_nat n \<le> 214
     \<or> 216 \<le> upper_nat n \<and> upper_nat n \<le> 222 \<or> 1040 \<le> upper_nat n \<and> upper_nat n \<le> 1071))
   \<or> (upper_nat n + 1 = n \<and> 256 \<le> upper_nat n \<and> upper_nat n \<le> 302 \<and> even (upper_nat n))
   \<or> n = 223 \<or> n = 1105 \<or> n = 339 \<or> n = 255"
proof (cases "97 \<le> n \<and> n \<le> 122 \<or> 224 \<le> n \<and> n \<le> 246 \<or> 248 \<le> n \<and> n \<le> 254 \<or> 1072 \<le> n \<and> n \<le> 1103")
  case True
  then have u: "upper_nat n = n - 32" unfolding upper_nat_def by (rule if_P)
  from True show ?thesis unfolding u by presburger
next
  case False
  show ?thesis
  proof (cases "257 \<le> n \<and> n \<le> 303 \<and> odd n")
    case True
    then have "upper_nat n = n - 1" unfolding upper_nat_def using False by simp
    with True show ?thesis by auto
  next
    case F: False
    have "upper_nat n = n" if "n \<noteq> 223" "n \<noteq> 1105" "n \<noteq> 339" "n \<noteq> 255"
      unfolding upper_nat_def if_not_P[OF False] if_not_P[OF F] using that by simp
    then show ?thesis by blast
  qed
qed

lemma lower_changes:
  "lower_nat n = n \<or> (lower_nat n = n + 32 \<and> (65 \<le> n \<and> n \<le> 90 \<or> 192 \<le> n \<and> n \<le> 214
     \<or> 216 \<le> n \<and> n \<le> 222 \<or> 1040 \<le> n \<and> n \<le> 1071))
   \<or> (lower_nat n = n + 1 \<and> 256 \<le> n \<and> n \<le> 302 \<and> even n)
   \<or> n = 7838 \<or> n = 1025 \<or> n = 338 \<or> n = 376"
  by (auto simp: lower_nat_def)

lemma lower_values:
  "65 \<le> k \<and> k \<le> 90 \<or> 192 \<le> k \<and> k \<le> 214 \<or> 216 \<le> k \<and> k \<le> 222 \<or> 1040 \<le> k \<and> k \<le> 1071
    \<Longrightarrow> lower_nat k = k + 32 \<and> lower_nat (k + 32) = k + 32 \<and> upper_nat (k + 32) = k \<and> upper_nat k = k"
  "256 \<le> k \<Longrightarrow> k \<le> 302 \<Longrightarrow> even k \<Longrightarrow> lower_nat k = k + 1 \<and> lower_nat (k + 1) = k + 1 \<and> upper_nat (k + 1) = k \<and> upper_nat k = k"
  by (elim disjE; simp add: lower_nat_def upper_nat_def) (simp add: lower_nat_def upper_nat_def)

lemma case_specials:
  "lower_nat 223 = 223" "upper_nat 223 = 7838" "lower_nat 7838 = 223" "upper_nat 7838 = 7838"
  "lower_nat 1105 = 1105" "upper_nat 1105 = 1025" "lower_nat 1025 = 1105" "upper_nat 1025 = 1025"
  "lower_nat 339 = 339" "upper_nat 339 = 338" "lower_nat 338 = 339" "upper_nat 338 = 338"
  "lower_nat 255 = 255" "upper_nat 255 = 376" "lower_nat 376 = 255" "upper_nat 376 = 376"
  by (simp_all add: lower_nat_def upper_nat_def)

lemma lower_upper_nat: "lower_nat (upper_nat n) = lower_nat n"
  using upper_changes[of n] lower_values[of "upper_nat n"] by (elim disjE) (auto simp: case_specials)

lemma upper_lower_nat: "upper_nat (lower_nat n) = upper_nat n"
  using lower_changes[of n] lower_values[of n] by (elim disjE) (auto simp: case_specials)

lemma lower_lower_nat: "lower_nat (lower_nat n) = lower_nat n"
  using lower_upper_nat[of "lower_nat n"] lower_upper_nat[of n] upper_lower_nat[of n] by simp

lemma upper_upper_nat: "upper_nat (upper_nat n) = upper_nat n"
  using upper_lower_nat[of "upper_nat n"] upper_lower_nat[of n] lower_upper_nat[of n] by simp

lemmas case_iff = word_unat_eq_iff unat_lower unat_upper

text \<open>The two case tables belong together: characters have the same small letter exactly when they have
  the same capital, and both maps are idempotent, so names that differ only in case have one key.\<close>

theorem case_folding:
  "(wcharToLower a = wcharToLower b \<longleftrightarrow> wcharToUpper a = wcharToUpper b)
   \<and> wcharToLower (wcharToLower a) = wcharToLower a \<and> wcharToUpper (wcharToUpper a) = wcharToUpper a"
  unfolding case_iff by (metis lower_upper_nat upper_lower_nat lower_lower_nat upper_upper_nat)

subsection \<open>Names of players\<close>

lemma changed_small:
  "wcharToLower w = w \<or> unat (wcharToLower w) \<le> 7838" "wcharToUpper w = w \<or> unat (wcharToUpper w) \<le> 7838"
  unfolding case_iff using lower_changes[of "unat w"] upper_changes[of "unat w"]
  by (auto simp: case_specials)

lemma dash_case: "wcharToLower w = 0x2D \<longleftrightarrow> w = 0x2D" "wcharToUpper w = 0x2D \<longleftrightarrow> w = 0x2D"
proof -
  have v: "lower_nat 45 = 45" "upper_nat 45 = 45" "unat (0x2D :: u32) = 45" by (simp_all add: lower_nat_def upper_nat_def)
  have "n = 45" if "lower_nat n = 45" for n
    using that by (simp add: lower_nat_def split: if_splits)
  moreover have "n = 45" if "upper_nat n = 45" for n
  proof -
    have "n = 45 \<or> n = 223 \<or> n = 1105 \<or> n = 339 \<or> n = 255" using upper_changes[of n, unfolded that] by simp
    then show ?thesis using that case_specials by auto
  qed
  ultimately show "wcharToLower w = 0x2D \<longleftrightarrow> w = 0x2D" "wcharToUpper w = 0x2D \<longleftrightarrow> w = 0x2D"
    unfolding case_iff using v by metis+
qed

lemma upper_not_sharp: "wcharToUpper w \<noteq> 0xDF"
proof -
  have "upper_nat n \<noteq> 223" for n using upper_changes[of n] case_specials(2) by (auto simp: case_specials)
  then show ?thesis unfolding case_iff by simp
qed

lemma small_valid: "unat w \<le> 7838 \<Longrightarrow> is_code_point_valid w \<and> w \<le> 0xFFFF"
  by (simp add: is_code_point_valid_def is_surrogate_def word_le_nat_alt)

lemma case_valid:
  "is_code_point_valid w \<and> w \<le> 0xFFFF \<Longrightarrow> is_code_point_valid (wcharToLower w) \<and> wcharToLower w \<le> 0xFFFF"
  "is_code_point_valid w \<and> w \<le> 0xFFFF \<Longrightarrow> is_code_point_valid (wcharToUpper w) \<and> wcharToUpper w \<le> 0xFFFF"
  using changed_small[of w] small_valid by metis+

fun capitalize :: "u32 list \<Rightarrow> u32 list" where
  "capitalize [] = []"
| "capitalize (c # cs) = wcharToUpper c # map wcharToLower cs"

definition normal_name :: "u32 list \<Rightarrow> u32 list" where
  "normal_name cps = takeWhile (\<lambda>c. c \<noteq> 0x2D) (capitalize cps)"

lemma capitalize_valid: "valid_text cps \<Longrightarrow> bmp cps \<Longrightarrow> valid_text (capitalize cps) \<and> bmp (capitalize cps)"
  by (cases cps) (auto simp: list_all_iff case_valid)

lemma length_capitalize [simp]: "length (capitalize cps) = length cps"
  by (cases cps) simp_all

lemma fold_update:
  "b \<le> length xs \<Longrightarrow> a \<le> b \<Longrightarrow>
   fold (\<lambda>i ys. ys[i := f (ys ! i)]) [a..<b] xs = take a xs @ map f (take (b - a) (drop a xs)) @ drop b xs"
proof (induction b)
  case (Suc b)
  show ?case
  proof (cases "a = Suc b")
    case False
    then have le: "a \<le> b" "b \<le> length xs" using Suc by simp_all
    let ?r = "take a xs @ map f (take (b - a) (drop a xs)) @ drop b xs"
    have r: "fold (\<lambda>i ys. ys[i := f (ys ! i)]) [a..<b] xs = ?r" using Suc.IH le by simp
    have nth: "?r ! b = xs ! b" using le Suc.prems by (auto simp: nth_append min_def)
    have up: "?r[b := y] = take a xs @ map f (take (b - a) (drop a xs)) @ y # drop (Suc b) xs" for y
      using le Suc.prems by (auto simp: list_update_append min_def Cons_nth_drop_Suc[symmetric])
    have "take (Suc b - a) (drop a xs) = take (b - a) (drop a xs) @ [xs ! b]"
      using le Suc.prems by (simp add: Suc_diff_le take_Suc_conv_app_nth)
    then show ?thesis using le r nth up by simp
  qed simp
qed simp

text \<open>Octets of other characters are never the dash.\<close>

lemma takeWhile_utext: "valid_text cps \<Longrightarrow> takeWhile (\<lambda>c. c \<noteq> 0x2D) (utext cps) = utext (takeWhile (\<lambda>c. c \<noteq> 0x2D) cps)"
proof (induction cps)
  case (Cons c cs)
  have dash: "octets 0x2D = [0x2D]" by (simp add: octets_def utf8_append_def is_code_point_valid_def is_surrogate_def)
  have "0x2D \<notin> set (octets c)" if "c \<noteq> 0x2D"
  proof
    assume "0x2D \<in> set (octets c)"
    then obtain bs where o: "octets_of c bs" "0x2D \<in> set bs"
      using Cons.prems append_valid[of c] octets_of_append[of c] by auto
    have d: "\<not> bit (0x2D :: u8) 7" by simp
    from o have "bs = [0x2D] \<and> c = ucast (0x2D :: u8)"
      unfolding octets_of_def is_trail_def u8_bits using d by auto
    with that show False by simp
  qed
  then have "\<And>b. b \<in> set (octets c) \<Longrightarrow> b \<noteq> 0x2D" if "c \<noteq> 0x2D" using that by blast
  then show ?case using Cons dash by (cases "c = 0x2D") (auto simp: takeWhile_append2)
qed simp

lemma octets_sharp: "octets 0xDF = [0xC3, 0x9F]"
  by (simp add: octets_def utf8_append_def is_code_point_valid_def is_surrogate_def)

lemma starts_with_sharp:
  assumes "valid_text (c # cs)" and "hd (utext (c # cs)) = 0xC3" "length (utext (c # cs)) > 1" "utext (c # cs) ! 1 = 0x9F"
  shows "c = 0xDF"
proof -
  obtain r where r: "utext (c # cs) = 0xC3 # 0x9F # r"
    using assms(2-4) by (cases "utext (c # cs)"; cases "tl (utext (c # cs))") auto
  have "utf8_next (octets 0xDF @ r) = Inr (0xDF, r)"
    by (rule next_octets) (simp add: is_code_point_valid_def is_surrogate_def)
  moreover have "utf8_next (utext (c # cs)) = Inr (c, utext cs)" using assms(1) by (simp add: next_octets)
  ultimately show ?thesis using r octets_sharp by simp
qed

lemma normalize_text:
  assumes v: "valid_text cps" "bmp cps" and ne: "cps \<noteq> []" "hd cps \<noteq> 0xDF" and len: "length cps \<le> 15"
  shows "normalizePlayerName mem (utext cps) = Some (True, utext (normal_name cps))"
proof -
  obtain c cs where cps: "cps = c # cs" using ne by (cases cps) auto
  have "utext cps \<noteq> []" using cps v append_valid[of c] by simp
  moreover have "\<not> (hd (utext cps) = 0xC3 \<and> length (utext cps) > 1 \<and> utext cps ! 1 = 0x9F)"
    using starts_with_sharp[of c cs] v(1) ne(2) cps by auto
  moreover
  let ?m = "resize_to 16 mem"
  have u: "length (units cps) = length cps" using length_units(2)[of cps] v(2) by simp
  let ?b = "cps @ drop (length cps) ?m"
  have "Utf8toWStr_buf (utext cps) ?m 15 = Some (True, ?b[length cps := 0], length cps)"
    using distance_text[OF v(1)] utf8to16_text[OF v(1)] len u units_bmp[OF v(2)]
    by (simp add: Utf8toWStr_buf_def put_units_def)
  moreover
  let ?b1 = "?b[length cps := 0, 0 := wcharToUpper ((?b[length cps := 0]) ! 0)]"
  have "take (length cps) (fold (\<lambda>i b. b[i := wcharToLower (b ! i)]) [1..<length cps] ?b1) = capitalize cps"
  proof -
    have l: "length cps \<le> length ?b1" "1 \<le> length cps" using len cps by simp_all
    have t: "take (length cps) ?b1 = wcharToUpper c # cs" using cps len
      by (simp add: take_update_swap list_update_append)
    have "take (length cps) (fold (\<lambda>i b. b[i := wcharToLower (b ! i)]) [1..<length cps] ?b1)
        = take 1 ?b1 @ map wcharToLower (take (length cps - 1) (drop 1 ?b1))"
      unfolding fold_update[OF l] using l by simp
    also have "take 1 ?b1 = take 1 (take (length cps) ?b1)" using l by (simp add: min_def)
    also have "take (length cps - 1) (drop 1 ?b1) = drop 1 (take (length cps) ?b1)" by (simp add: drop_take)
    finally show ?thesis unfolding t using cps by simp
  qed
  moreover have "WStrToUtf8 (capitalize cps) = Some (True, utext (capitalize cps))"
    using capitalize_valid[OF v] by (simp add: WStrToUtf8_text)
  ultimately show ?thesis using takeWhile_utext[of "capitalize cps"] capitalize_valid[OF v]
    by (simp add: normalizePlayerName_def MAX_INTERNAL_PLAYER_NAME_def normal_name_def Let_def)
qed

lemma takeWhile_list_all: "list_all P xs \<Longrightarrow> list_all P (takeWhile Q xs)"
  using set_takeWhileD by (fastforce simp: list_all_iff)

lemma normal_name_ok:
  assumes "valid_text cps" "bmp cps" "normal_name cps \<noteq> []"
  shows "valid_text (normal_name cps)" "bmp (normal_name cps)" "hd (normal_name cps) \<noteq> 0xDF"
    "length (normal_name cps) \<le> length cps" "normal_name (normal_name cps) = normal_name cps"
proof -
  show "valid_text (normal_name cps)" "bmp (normal_name cps)"
    unfolding normal_name_def using capitalize_valid[OF assms(1,2)] by (simp_all add: takeWhile_list_all)
  show "length (normal_name cps) \<le> length cps"
    unfolding normal_name_def using length_takeWhile_le[of "\<lambda>c. c \<noteq> 0x2D" "capitalize cps"] by simp
  obtain c cs where cps: "cps = c # cs" using assms(3) by (cases cps) (auto simp: normal_name_def)
  have n: "normal_name cps = wcharToUpper c # takeWhile (\<lambda>c. c \<noteq> 0x2D) (map wcharToLower cs)"
    using assms(3) cps by (auto simp: normal_name_def split: if_splits)
  show "hd (normal_name cps) \<noteq> 0xDF" unfolding n using upper_not_sharp by simp
  have idem: "wcharToUpper (wcharToUpper c) = wcharToUpper c" "wcharToLower (wcharToLower d) = wcharToLower d" for d
    unfolding case_iff by (rule upper_upper_nat, rule lower_lower_nat)
  have "map wcharToLower (takeWhile (\<lambda>c. c \<noteq> 0x2D) (map wcharToLower cs)) = takeWhile (\<lambda>c. c \<noteq> 0x2D) (map wcharToLower cs)"
    by (induction cs) (auto simp: idem)
  then show "normal_name (normal_name cps) = normal_name cps"
    unfolding n using assms(3) cps idem(1) by (auto simp: normal_name_def split: if_splits)
qed

text \<open>C15. Two names of one to fifteen characters that convert to wide strings (their code points are at most 0xFFFF),
  do not begin with U+00DF (the code refuses that letter) and differ only in case normalise to the same name; if this
  name is not empty (it ends before the first dash), normalising it again leaves it as it is.\<close>

theorem normalizePlayerName_canonical:
  assumes "Utf8toWStr a [] = Some (True, ws)" "Utf8toWStr b [] = Some (True, vs)"
    and "map wcharToLower ws = map wcharToLower vs" and "ws \<noteq> []" "hd ws \<noteq> 0xDF" "hd vs \<noteq> 0xDF" "length ws \<le> 15"
  shows "\<exists>n. normalizePlayerName mem a = Some (True, n) \<and> normalizePlayerName mem b = Some (True, n)
    \<and> (n \<noteq> [] \<longrightarrow> normalizePlayerName mem n = Some (True, n))"
proof -
  have v: "valid_text ws" "bmp ws" "a = utext ws" "valid_text vs" "bmp vs" "b = utext vs"
    using assms(1,2) by (simp_all add: Utf8toWStr_True)
  obtain x xs where ws: "ws = x # xs" using assms(4) by (cases ws) auto
  then obtain y ys where vs: "vs = y # ys" "wcharToLower x = wcharToLower y" "map wcharToLower xs = map wcharToLower ys"
    using assms(3) by (cases vs) auto
  have "wcharToUpper x = wcharToUpper y" using vs(2) unfolding case_iff by (metis upper_lower_nat)
  then have "capitalize ws = capitalize vs" using ws vs by simp
  then have eq: "normal_name vs = normal_name ws" by (simp add: normal_name_def)
  have "length vs \<le> 15" using assms(3,7) map_eq_imp_length_eq by fastforce
  then have "normalizePlayerName mem b = Some (True, utext (normal_name ws))"
    using normalize_text[OF v(4,5), of mem] vs assms(6) eq v(6) by simp
  moreover have "normalizePlayerName mem a = Some (True, utext (normal_name ws))"
    using normalize_text[OF v(1,2) assms(4,5,7), of mem] v(3) by simp
  moreover have "normalizePlayerName mem (utext (normal_name ws)) = Some (True, utext (normal_name ws))" if "utext (normal_name ws) \<noteq> []"
  proof -
    have "normal_name ws \<noteq> []" using that by auto
    note ok = normal_name_ok[OF v(1,2) this]
    show ?thesis using normalize_text[OF ok(1,2) \<open>normal_name ws \<noteq> []\<close> ok(3), of mem] ok(4,5) assms(7) by simp
  qed
  ultimately show ?thesis by blast
qed

text \<open>A name of few characters can still overrun the buffer of sixteen elements on the stack.\<close>

lemma normalizePlayerName_overruns:
  assumes "valid_text cps" "cps \<noteq> []" "hd cps \<noteq> 0xDF" "length cps \<le> 15" "length (units cps) > 16"
  shows "normalizePlayerName mem (utext cps) = None"
proof -
  obtain c cs where cps: "cps = c # cs" using assms(2) by (cases cps) auto
  have "utext cps \<noteq> []" using cps assms(1) append_valid[of c] by simp
  moreover have "\<not> (hd (utext cps) = 0xC3 \<and> length (utext cps) > 1 \<and> utext cps ! 1 = 0x9F)"
    using starts_with_sharp[of c cs] assms(1,3) cps by auto
  moreover have "Utf8toWStr_buf (utext cps) (resize_to 16 mem) 15 = None"
    using distance_text[OF assms(1)] utf8to16_text[OF assms(1)] assms(4,5)
    by (simp add: Utf8toWStr_buf_def put_units_def)
  ultimately show ?thesis by (simp add: normalizePlayerName_def MAX_INTERNAL_PLAYER_NAME_def)
qed

text \<open>\<open>Zo\<close> with a diaeresis, and the same name in the other case.\<close>

definition demo_name :: "u8 list" where
  "demo_name = utext [0x5A, 0x6F, 0xEB]"

definition demo_name_other :: "u8 list" where
  "demo_name_other = utext [0x7A, 0x4F, 0xCB]"

lemma demo_name_wide: "Utf8toWStr demo_name [] = Some (True, [0x5A, 0x6F, 0xEB])"
    "Utf8toWStr demo_name_other [] = Some (True, [0x7A, 0x4F, 0xCB])"
  by (simp_all add: Utf8toWStr_True demo_name_def demo_name_other_def is_code_point_valid_def is_surrogate_def)

theorem wstring_roundtrip_witness: "WStrToUtf8 [0x5A, 0x6F, 0xEB] = Some (True, demo_name)"
  using wstring_roundtrip[of "[0x5A, 0x6F, 0xEB]" demo_name] demo_name_wide(1) by simp

theorem normalizePlayerName_canonical_witness:
  "\<exists>n. normalizePlayerName [] demo_name = Some (True, n) \<and> normalizePlayerName [] demo_name_other = Some (True, n)"
  using normalizePlayerName_canonical[OF demo_name_wide, of "[]"] by (auto simp: wcharToLower_def)

end
