(* ===== verification/ChannelMgr.thy ===== *)
theory ChannelMgr
  imports ChannelTable Utf8Facts
begin

text \<open>
  The channels of the world: the managers of the two sides (\<open>src/server/game/Chat/Channels/ChannelMgr.cpp\<close>),
  the channel lists of the players (\<open>Player.cpp\<close>) and the packet handlers
  (\<open>src/server/game/Handlers/ChannelHandler.cpp\<close>). Channels are objects in a store; the maps of the managers
  and the lists of the players hold their addresses. A result \<open>None\<close> is undefined behaviour: a
  dereferenced pointer to a deleted channel, or a conversion that writes behind its buffer.
\<close>

subsection \<open>State\<close>

datatype Side = AllianceChannelMgr | HordeChannelMgr

datatype ch_command = CmdPass | CmdSetowner | CmdOwner | CmdModer | CmdUnmoder | CmdMute | CmdUnmute | CmdInvite
  | CmdKick | CmdBan | CmdUnban | CmdAnnounce

record chat_world =
  cw_map :: "Side \<Rightarrow> u32 list \<Rightarrow> nat option"
  cw_team :: "Side \<Rightarrow> u32"
  cw_heap :: "nat \<Rightarrow> Channel option"
  cw_next :: nat
  cw_lists :: "u64 \<Rightarrow> nat list"
  cw_table :: ch_table
  cw_log :: "ch_event list"
  cw_times :: "u64 \<Rightarrow> ch_command \<Rightarrow> int"

text \<open>An area, and what the handlers ask beside \<open>ch_env\<close>: the names of the built-in channels and the number of
  rows of their store, the areas, zone and guild membership of players, the name of the city channels,
  the strictness of the link check and the verdict of the link parser, the defaults of the table,
  and what the stack holds where a name is converted.\<close>

record AreaTableEntry =
  area_Flags :: u32
  area_NameLang :: cstring

record chat_env =
  cx_base :: ch_env
  cx_names :: "u32 \<Rightarrow> cstring"
  cx_rows :: nat
  cx_area :: "u32 \<Rightarrow> AreaTableEntry option"
  cx_zone :: "u64 \<Rightarrow> u32"
  cx_guild :: "u64 \<Rightarrow> bool"
  cx_city :: cstring
  cx_severity :: nat
  cx_links :: "cstring \<Rightarrow> bool"
  cx_row :: ChannelRow
  cx_stack :: "u32 list"

definition ALLIANCE :: u32 where "ALLIANCE = 469"
definition HORDE :: u32 where "HORDE = 67"
definition PANDAREN_NEUTRAL :: u32 where "PANDAREN_NEUTRAL = 1249"

text \<open>The team of a race, by the team numbers of the store of races.\<close>

definition TeamForRace :: "(u8 \<Rightarrow> u32 option) \<Rightarrow> u8 \<Rightarrow> u32" where
  "TeamForRace teams race =
     (case teams race of
        None \<Rightarrow> ALLIANCE
      | Some t \<Rightarrow> if t = 1 then HORDE else if t = 7 then ALLIANCE else if t = 42 then PANDAREN_NEUTRAL else ALLIANCE)"
definition AREA_FLAG_SLAVE_CAPITAL :: u32 where "AREA_FLAG_SLAVE_CAPITAL = 0x8"
definition AREA_FLAG_ARENA_INSTANCE :: u32 where "AREA_FLAG_ARENA_INSTANCE = 0x10000"

subsection \<open>Channels in the world\<close>

text \<open>The effects of an operation of the channel at \<open>a\<close> on the rest of the world.\<close>

fun world_effect :: "ChannelRow \<Rightarrow> nat \<Rightarrow> ch_event \<Rightarrow> chat_world \<Rightarrow> chat_world" where
  "world_effect d a (ToPlayer g pkt) w = w\<lparr>cw_log := cw_log w @ [ToPlayer g pkt]\<rparr>"
| "world_effect d a (JoinedChannel p) w = w\<lparr>cw_lists := (cw_lists w)(p := cw_lists w p @ [a])\<rparr>"
| "world_effect d a (LeftChannel p) w = w\<lparr>cw_lists := (cw_lists w)(p := removeAll a (cw_lists w p))\<rparr>"
| "world_effect d a (Exec s) w = w\<lparr>cw_table := exec_ch d s (cw_table w), cw_log := cw_log w @ [Exec s]\<rparr>"

definition put_channel :: "ChannelRow \<Rightarrow> nat \<Rightarrow> Channel \<Rightarrow> chat_world \<Rightarrow> chat_world" where
  "put_channel d a c w = fold (world_effect d a) (m_log c) (w\<lparr>cw_heap := (cw_heap w)(a \<mapsto> c\<lparr>m_log := []\<rparr>)\<rparr>)"

definition run_channel :: "chat_env \<Rightarrow> nat \<Rightarrow> (Channel \<Rightarrow> Channel) \<Rightarrow> chat_world \<Rightarrow> chat_world option" where
  "run_channel x a f w = map_option (\<lambda>c. put_channel (cx_row x) a (f c) w) (cw_heap w a)"

subsection \<open>The managers\<close>

definition channelMgr :: "ch_env \<Rightarrow> u32 \<Rightarrow> Side option" where
  "channelMgr e team =
     (if ce_two_side e then Some AllianceChannelMgr
      else if team = ALLIANCE then Some AllianceChannelMgr
      else if team = HORDE then Some HordeChannelMgr
      else None)"

text \<open>The key of a name: converted, then in small letters.\<close>

definition chan_key :: "cstring \<Rightarrow> u32 list option" where
  "chan_key name = map_option (\<lambda>(ok, w). wstrToLower w) (Utf8toWStr name [])"

definition GetJoinChannel :: "chat_env \<Rightarrow> Side \<Rightarrow> cstring \<Rightarrow> u32 \<Rightarrow> chat_world \<Rightarrow> (nat \<times> chat_world) option" where
  "GetJoinChannel x s name channel_id w =
     (case chan_key name of
        None \<Rightarrow> None
      | Some k \<Rightarrow>
          (case cw_map w s k of
             Some a \<Rightarrow> Some (a, w)
           | None \<Rightarrow>
               let a = cw_next w;
                   w = put_channel (cx_row x) a (Channel_new (cx_base x) (cw_table w) name channel_id (cw_team w s)) w
               in Some (a, w\<lparr>cw_next := a + 1, cw_map := (cw_map w)(s := (cw_map w s)(k \<mapsto> a))\<rparr>)))"

definition MakeNotOnPacket :: "cstring \<Rightarrow> ch_packet" where
  "MakeNotOnPacket name = (SMSG_CHANNEL_NOTIFY, [C_u8 0x05, C_str name, C_u8 0])"

definition GetChannel :: "Side \<Rightarrow> cstring \<Rightarrow> u64 \<Rightarrow> bool \<Rightarrow> chat_world \<Rightarrow> (nat option \<times> chat_world) option" where
  "GetChannel s name p pkt w =
     (case chan_key name of
        None \<Rightarrow> None
      | Some k \<Rightarrow>
          (case cw_map w s k of
             None \<Rightarrow> Some (None, if pkt then w\<lparr>cw_log := cw_log w @ [ToPlayer p (MakeNotOnPacket name)]\<rparr> else w)
           | Some a \<Rightarrow> Some (Some a, w)))"

definition mgr_LeftChannel :: "Side \<Rightarrow> cstring \<Rightarrow> chat_world \<Rightarrow> chat_world option" where
  "mgr_LeftChannel s name w =
     (case chan_key name of
        None \<Rightarrow> None
      | Some k \<Rightarrow>
          (case cw_map w s k of
             None \<Rightarrow> Some w
           | Some a \<Rightarrow>
               (case cw_heap w a of
                  None \<Rightarrow> None
                | Some c \<Rightarrow>
                    if length (m_Players c) = 0 \<and> \<not> IsConstant c
                    then Some (w\<lparr>cw_map := (cw_map w)(s := (cw_map w s)(k := None)), cw_heap := (cw_heap w)(a := None)\<rparr>)
                    else Some w)))"

subsection \<open>The channels of a player\<close>

definition CanJoinConstantChannelInZone :: "chat_env \<Rightarrow> u64 \<Rightarrow> u32 \<Rightarrow> AreaTableEntry \<Rightarrow> bool" where
  "CanJoinConstantChannelInZone x p channel_Flags zone =
     (if channel_Flags AND CHANNEL_DBC_FLAG_ZONE_DEP \<noteq> 0 \<and> area_Flags zone AND AREA_FLAG_ARENA_INSTANCE \<noteq> 0 then False
      else if channel_Flags AND CHANNEL_DBC_FLAG_CITY_ONLY \<noteq> 0 \<and> \<not> area_Flags zone AND AREA_FLAG_SLAVE_CAPITAL \<noteq> 0 then False
      else if channel_Flags AND CHANNEL_DBC_FLAG_GUILD_REQ \<noteq> 0 \<and> cx_guild x p then False
      else True)"

text \<open>Each round takes the first channel of the list; \<open>n\<close> is the length of the list at the start, which the
  rounds only shorten.\<close>

fun cleanup :: "chat_env \<Rightarrow> nat \<Rightarrow> ChPlayer \<Rightarrow> chat_world \<Rightarrow> chat_world option" where
  "cleanup x 0 pl w = Some w"
| "cleanup x (Suc n) pl w =
     (case cw_lists w (cp_guid pl) of
        [] \<Rightarrow> Some w
      | ch # rest \<Rightarrow>
          let w = w\<lparr>cw_lists := (cw_lists w)(cp_guid pl := rest)\<rparr>
          in Option.bind (run_channel x ch (Leave (cx_base x) (cp_guid pl) False) w) (\<lambda>w.
             Option.bind (case channelMgr (cx_base x) (cp_team pl) of
                            None \<Rightarrow> Some w
                          | Some s \<Rightarrow> Option.bind (cw_heap w ch) (\<lambda>c. mgr_LeftChannel s (m_name c) w)) (\<lambda>w.
             cleanup x n pl w)))"

definition CleanupChannels :: "chat_env \<Rightarrow> ChPlayer \<Rightarrow> chat_world \<Rightarrow> chat_world option" where
  "CleanupChannels x pl w = cleanup x (length (cw_lists w (cp_guid pl))) pl w"

fun bind_all :: "('a \<Rightarrow> 'b \<Rightarrow> 'b option) \<Rightarrow> 'a list \<Rightarrow> 'b \<Rightarrow> 'b option" where
  "bind_all f [] w = Some w"
| "bind_all f (a # as) w = Option.bind (f a w) (bind_all f as)"

definition player_UpdateChatLocaleFiltering :: "chat_env \<Rightarrow> ChPlayer \<Rightarrow> chat_world \<Rightarrow> chat_world option" where
  "player_UpdateChatLocaleFiltering x pl w =
     bind_all (\<lambda>a. run_channel x a (UpdateChatLocaleFiltering (cx_base x) (Some pl))) (cw_lists w (cp_guid pl)) w"

text \<open>\<open>std::find_if\<close> over a list of channels.\<close>

fun find_channel :: "(Channel \<Rightarrow> bool) \<Rightarrow> (nat \<Rightarrow> Channel option) \<Rightarrow> nat list \<Rightarrow> nat option option" where
  "find_channel P h [] = Some None"
| "find_channel P h (a # as) = Option.bind (h a) (\<lambda>c. if P c then Some (Some a) else find_channel P h as)"

text \<open>\<open>snprintf\<close> of a format with no conversion but \<open>%s\<close> and \<open>%%\<close> (names of built-in channels hold no other), into a buffer of 100 characters.\<close>

fun format_s :: "cstring \<Rightarrow> cstring \<Rightarrow> cstring" where
  "format_s arg [] = []"
| "format_s arg [c] = [c]"
| "format_s arg (c # d # fmt) =
     (if c = 0x25 \<and> d = 0x73 then arg @ format_s arg fmt
      else if c = 0x25 \<and> d = 0x25 then 0x25 # format_s arg fmt
      else c # format_s arg (d # fmt))"

definition channel_name :: "cstring \<Rightarrow> cstring \<Rightarrow> cstring" where
  "channel_name fmt arg = take 99 (format_s (c_str arg) (c_str fmt))"

text \<open>The channels to join and to leave for row \<open>i\<close> of the store, with the channels it creates; then the join and the
  leave.\<close>

definition local_channel :: "chat_env \<Rightarrow> ChPlayer \<Rightarrow> Side \<Rightarrow> AreaTableEntry \<Rightarrow> u32 \<Rightarrow> u32 \<Rightarrow> nat option \<Rightarrow> chat_world
    \<Rightarrow> (nat option \<times> nat option \<times> bool \<times> chat_world) option" where
  "local_channel x pl s zone i channel_Flags used w =
     (if CanJoinConstantChannelInZone x (cp_guid pl) channel_Flags zone
      then if \<not> channel_Flags AND CHANNEL_DBC_FLAG_GLOBAL \<noteq> 0
           then if channel_Flags AND CHANNEL_DBC_FLAG_CITY_ONLY \<noteq> 0 \<and> used \<noteq> None then Some (None, None, True, w)
                else map_option (\<lambda>(a, w).
                       case used of
                         None \<Rightarrow> (Some a, None, True, w)
                       | Some u \<Rightarrow> if a \<noteq> u then (Some a, Some u, False, w) else (None, None, True, w))
                     (GetJoinChannel x s (channel_name (cx_names x i)
                        (if channel_Flags AND CHANNEL_DBC_FLAG_CITY_ONLY \<noteq> 0 then cx_city x else area_NameLang zone)) i w)
           else map_option (\<lambda>(a, w). (Some a, None, True, w)) (GetJoinChannel x s (c_str (cx_names x i)) i w)
      else Some (None, used, True, w))"

definition remove_channel :: "chat_env \<Rightarrow> ChPlayer \<Rightarrow> Side \<Rightarrow> nat \<Rightarrow> bool \<Rightarrow> chat_world \<Rightarrow> chat_world option" where
  "remove_channel x pl s u sendRemove w =
     Option.bind (run_channel x u (Leave (cx_base x) (cp_guid pl) sendRemove) w) (\<lambda>w.
     Option.bind (cw_heap w u) (\<lambda>c.
     mgr_LeftChannel s (m_name c) (w\<lparr>cw_lists := (cw_lists w)(cp_guid pl := removeAll u (cw_lists w (cp_guid pl)))\<rparr>)))"

definition update_local :: "chat_env \<Rightarrow> ChPlayer \<Rightarrow> Side \<Rightarrow> AreaTableEntry \<Rightarrow> u32 \<Rightarrow> chat_world \<Rightarrow> chat_world option" where
  "update_local x pl s zone i w =
     (case ce_store (cx_base x) i of
        None \<Rightarrow> Some w
      | Some channel_Flags \<Rightarrow>
          Option.bind (find_channel (\<lambda>c. m_channelId c = i) (cw_heap w) (cw_lists w (cp_guid pl))) (\<lambda>used.
          Option.bind (local_channel x pl s zone i channel_Flags used w) (\<lambda>(join, remove, sendRemove, w).
          Option.bind (case join of None \<Rightarrow> Some w
                       | Some a \<Rightarrow> run_channel x a (Join (cx_base x) (cp_guid pl) []) w) (\<lambda>w.
          case remove of None \<Rightarrow> Some w | Some u \<Rightarrow> remove_channel x pl s u sendRemove w))))"

definition UpdateLocalChannels :: "chat_env \<Rightarrow> ChPlayer \<Rightarrow> bool \<Rightarrow> bool \<Rightarrow> u32 \<Rightarrow> chat_world \<Rightarrow> chat_world option" where
  "UpdateLocalChannels x pl loading far newZone w =
     (if loading \<and> \<not> far then Some w
      else case cx_area x newZone of
             None \<Rightarrow> Some w
           | Some zone \<Rightarrow>
               (case channelMgr (cx_base x) (cp_team pl) of
                  None \<Rightarrow> Some w
                | Some s \<Rightarrow> bind_all (\<lambda>i. update_local x pl s zone (word_of_nat i)) [0..<cx_rows x] w))"

definition LeaveLFGChannel :: "chat_env \<Rightarrow> ChPlayer \<Rightarrow> chat_world \<Rightarrow> chat_world option" where
  "LeaveLFGChannel x pl w =
     Option.bind (find_channel IsLFG (cw_heap w) (cw_lists w (cp_guid pl))) (\<lambda>r.
     case r of None \<Rightarrow> Some w | Some a \<Rightarrow> run_channel x a (Leave (cx_base x) (cp_guid pl) True) w)"

end
