(* ===== verification/ChannelHandler.thy ===== *)
theory ChannelHandler
  imports ChannelMgr
begin

text \<open>
  The packet handlers of the channels: \<open>src/server/game/Handlers/ChannelHandler.cpp\<close>, with the check of chat
  messages in \<open>Chat.cpp\<close>, the channel part of \<open>ChatHandler.cpp\<close>, and the channels a session keeps for a player who
  visits a battleground between realms (\<open>WorldSession.cpp\<close>). A handler reads its packet with the operations of \<open>ByteBuffer\<close>; an exception of a
  read is caught by the session and drops the packet.
\<close>

subsection \<open>Chat messages\<close>

definition validSequence :: cstring where
  "validSequence = cstr ''cHhhr''"

text \<open>The loop behind the next pipe; \<open>i\<close> is the position in \<open>validSequence\<close>.\<close>

fun valid_pipes :: "bool \<Rightarrow> nat \<Rightarrow> cstring \<Rightarrow> bool" where
  "valid_pipes strict i [] = True"
| "valid_pipes strict i [c] = (c \<noteq> 0x7C)"
| "valid_pipes strict i (c # d # cs) =
     (if c \<noteq> 0x7C then valid_pipes strict i (d # cs)
      else if d \<notin> set (cstr ''cHhr|'') then False
      else if strict
      then if d = validSequence ! i then valid_pipes strict (if i = 4 then 0 else i + 1) cs else False
      else valid_pipes strict i cs)"

definition isValidChatMessage :: "chat_env \<Rightarrow> cstring \<Rightarrow> bool" where
  "isValidChatMessage x message =
     (if length (c_str message) > 255 then False
      else if cx_severity x < 3 then valid_pipes (cx_severity x = 2) 0 (c_str message)
      else cx_links x (c_str message))"

subsection \<open>The steps the handlers share\<close>

definition one_string :: "nat \<Rightarrow> cstring bb" where
  "one_string n = bindS (ReadBits n) (\<lambda>l. ReadString (unat l))"

definition two_strings :: "nat \<Rightarrow> nat \<Rightarrow> (cstring \<times> cstring) bb" where
  "two_strings n m = bindS (ReadBits n) (\<lambda>l1. bindS (ReadBits m) (\<lambda>l2.
     bindS (ReadString (unat l1)) (\<lambda>a. bindS (ReadString (unat l2)) (\<lambda>b. retS (a, b)))))"

definition received :: "'a bb \<Rightarrow> ByteBuffer \<Rightarrow> chat_world \<Rightarrow> ('a \<Rightarrow> chat_world option) \<Rightarrow> chat_world option" where
  "received m pkt w act = (case fst (m pkt) of Inl _ \<Rightarrow> Some w | Inr a \<Rightarrow> act a)"

text \<open>At most one command of a kind in five seconds and session.\<close>

definition throttled :: "ch_command \<Rightarrow> int \<Rightarrow> ChPlayer \<Rightarrow> chat_world \<Rightarrow> (chat_world \<Rightarrow> chat_world option) \<Rightarrow> chat_world option" where
  "throttled cmd now pl w act =
     (if now - cw_times w (cp_account pl) cmd < 5 then Some w
      else act (w\<lparr>cw_times := (cw_times w)(cp_account pl := (cw_times w (cp_account pl))(cmd := now))\<rparr>))"

definition normalized :: "chat_env \<Rightarrow> cstring \<Rightarrow> chat_world \<Rightarrow> (cstring \<Rightarrow> chat_world option) \<Rightarrow> chat_world option" where
  "normalized x name w act =
     (case normalizePlayerName (cx_stack x) name of
        None \<Rightarrow> None
      | Some (ok, n) \<Rightarrow> if \<not> ok then Some w else act n)"

definition on_channel :: "chat_env \<Rightarrow> ChPlayer \<Rightarrow> cstring \<Rightarrow> (Channel \<Rightarrow> Channel) \<Rightarrow> chat_world \<Rightarrow> chat_world option" where
  "on_channel x pl name f w =
     (case channelMgr (cx_base x) (cp_team pl) of
        None \<Rightarrow> Some w
      | Some s \<Rightarrow> Option.bind (GetChannel s name (cp_guid pl) True w) (\<lambda>(ch, w).
          case ch of None \<Rightarrow> Some w | Some a \<Rightarrow> run_channel x a f w))"

subsection \<open>The handlers\<close>

definition read_join :: "(u32 \<times> cstring \<times> cstring) bb" where
  "read_join = bindS read_val (\<lambda>channelId. bindS ReadBit (\<lambda>_. bindS ReadBit (\<lambda>_.
     bindS (two_strings 7 7) (\<lambda>(name, pass). retS (channelId, name, pass)))))"

definition may_join_builtin :: "chat_env \<Rightarrow> ChPlayer \<Rightarrow> u32 \<Rightarrow> bool" where
  "may_join_builtin x pl channelId =
     (case ce_store (cx_base x) channelId of
        None \<Rightarrow> False
      | Some channel_Flags \<Rightarrow>
          (case cx_area x (cx_zone x (cp_guid pl)) of
             None \<Rightarrow> False
           | Some zone \<Rightarrow> CanJoinConstantChannelInZone x (cp_guid pl) channel_Flags zone))"

definition HandleJoinChannel :: "chat_env \<Rightarrow> ChPlayer \<Rightarrow> ByteBuffer \<Rightarrow> chat_world \<Rightarrow> chat_world option" where
  "HandleJoinChannel x pl pkt w = received read_join pkt w (\<lambda>(channelId, channelName, pass).
     if channelId \<noteq> 0 \<and> \<not> may_join_builtin x pl channelId then Some w
     else if channelName = [] then Some w
     else if \<not> isValidChatMessage x channelName then Some w
     else case channelMgr (cx_base x) (cp_team pl) of
            None \<Rightarrow> Some w
          | Some s \<Rightarrow>
              let w = w\<lparr>cw_team := (cw_team w)(s := cp_team pl)\<rparr>
              in Option.bind (GetJoinChannel x s channelName channelId w) (\<lambda>(a, w).
                 run_channel x a (Join (cx_base x) (cp_guid pl) pass) w))"

definition HandleLeaveChannel :: "chat_env \<Rightarrow> ChPlayer \<Rightarrow> ByteBuffer \<Rightarrow> chat_world \<Rightarrow> chat_world option" where
  "HandleLeaveChannel x pl pkt w = received (bindS (read_val :: u32 bb) (\<lambda>_. one_string 7)) pkt w (\<lambda>name.
     if name = [] then Some w
     else case channelMgr (cx_base x) (cp_team pl) of
            None \<Rightarrow> Some w
          | Some s \<Rightarrow>
              Option.bind (GetChannel s name (cp_guid pl) True w) (\<lambda>(ch, w).
              Option.bind (case ch of None \<Rightarrow> Some w
                           | Some a \<Rightarrow> run_channel x a (Leave (cx_base x) (cp_guid pl) True) w) (\<lambda>w.
              mgr_LeftChannel s name w)))"

definition HandleChannelList :: "chat_env \<Rightarrow> ChPlayer \<Rightarrow> ByteBuffer \<Rightarrow> chat_world \<Rightarrow> chat_world option" where
  "HandleChannelList x pl pkt w = received (one_string 7) pkt w (\<lambda>name.
     if \<not> isValidChatMessage x name then Some w
     else on_channel x pl name (ch_List (cx_base x) pl) w)"

definition HandleChannelDisplayListQuery :: "chat_env \<Rightarrow> ChPlayer \<Rightarrow> ByteBuffer \<Rightarrow> chat_world \<Rightarrow> chat_world option" where
  "HandleChannelDisplayListQuery = HandleChannelList"

definition HandleChannelPassword :: "chat_env \<Rightarrow> int \<Rightarrow> ChPlayer \<Rightarrow> ByteBuffer \<Rightarrow> chat_world \<Rightarrow> chat_world option" where
  "HandleChannelPassword x now pl pkt w = throttled CmdPass now pl w (\<lambda>w.
     received (two_strings 7 7) pkt w (\<lambda>(name, pass).
     on_channel x pl name (Password (cx_base x) (cp_guid pl) pass) w))"

definition HandleChannelSetOwner :: "chat_env \<Rightarrow> int \<Rightarrow> ChPlayer \<Rightarrow> ByteBuffer \<Rightarrow> chat_world \<Rightarrow> chat_world option" where
  "HandleChannelSetOwner x now pl pkt w = throttled CmdSetowner now pl w (\<lambda>w.
     received (two_strings 7 9) pkt w (\<lambda>(name, who). normalized x who w (\<lambda>who.
     on_channel x pl name (SetOwner_name (cx_base x) (cp_guid pl) who) w)))"

definition HandleChannelOwner :: "chat_env \<Rightarrow> int \<Rightarrow> ChPlayer \<Rightarrow> ByteBuffer \<Rightarrow> chat_world \<Rightarrow> chat_world option" where
  "HandleChannelOwner x now pl pkt w = throttled CmdOwner now pl w (\<lambda>w.
     received (one_string 7) pkt w (\<lambda>name. on_channel x pl name (SendWhoOwner (cx_base x) (cp_guid pl)) w))"

definition HandleChannelModerator :: "chat_env \<Rightarrow> int \<Rightarrow> ChPlayer \<Rightarrow> ByteBuffer \<Rightarrow> chat_world \<Rightarrow> chat_world option" where
  "HandleChannelModerator x now pl pkt w = throttled CmdModer now pl w (\<lambda>w.
     received (two_strings 7 9) pkt w (\<lambda>(name, who). normalized x who w (\<lambda>who.
     on_channel x pl name (SetMode (cx_base x) (cp_guid pl) who True True) w)))"

definition HandleChannelUnmoderator :: "chat_env \<Rightarrow> int \<Rightarrow> ChPlayer \<Rightarrow> ByteBuffer \<Rightarrow> chat_world \<Rightarrow> chat_world option" where
  "HandleChannelUnmoderator x now pl pkt w = throttled CmdUnmoder now pl w (\<lambda>w.
     received (two_strings 7 9) pkt w (\<lambda>(name, who). normalized x who w (\<lambda>who.
     on_channel x pl name (SetMode (cx_base x) (cp_guid pl) who True False) w)))"

definition HandleChannelMute :: "chat_env \<Rightarrow> int \<Rightarrow> ChPlayer \<Rightarrow> ByteBuffer \<Rightarrow> chat_world \<Rightarrow> chat_world option" where
  "HandleChannelMute x now pl pkt w = throttled CmdMute now pl w (\<lambda>w.
     received (two_strings 7 9) pkt w (\<lambda>(name, who). normalized x who w (\<lambda>who.
     on_channel x pl name (SetMode (cx_base x) (cp_guid pl) who False True) w)))"

definition HandleChannelUnmute :: "chat_env \<Rightarrow> int \<Rightarrow> ChPlayer \<Rightarrow> ByteBuffer \<Rightarrow> chat_world \<Rightarrow> chat_world option" where
  "HandleChannelUnmute x now pl pkt w = throttled CmdUnmute now pl w (\<lambda>w.
     received (two_strings 7 9) pkt w (\<lambda>(name, who). normalized x who w (\<lambda>who.
     on_channel x pl name (SetMode (cx_base x) (cp_guid pl) who False False) w)))"

definition HandleChannelInvite :: "chat_env \<Rightarrow> int \<Rightarrow> ChPlayer \<Rightarrow> ByteBuffer \<Rightarrow> chat_world \<Rightarrow> chat_world option" where
  "HandleChannelInvite x now pl pkt w = throttled CmdInvite now pl w (\<lambda>w.
     received (two_strings 7 9) pkt w (\<lambda>(name, who). normalized x who w (\<lambda>who.
     if \<not> isValidChatMessage x name then Some w
     else on_channel x pl name (Invite (cx_base x) (cp_guid pl) who) w)))"

definition HandleChannelKick :: "chat_env \<Rightarrow> int \<Rightarrow> ChPlayer \<Rightarrow> ByteBuffer \<Rightarrow> chat_world \<Rightarrow> chat_world option" where
  "HandleChannelKick x now pl pkt w = throttled CmdKick now pl w (\<lambda>w.
     received (two_strings 7 9) pkt w (\<lambda>(name, who). normalized x who w (\<lambda>who.
     on_channel x pl name (KickOrBan (cx_base x) (cp_guid pl) who False) w)))"

definition HandleChannelBan :: "chat_env \<Rightarrow> int \<Rightarrow> ChPlayer \<Rightarrow> ByteBuffer \<Rightarrow> chat_world \<Rightarrow> chat_world option" where
  "HandleChannelBan x now pl pkt w = throttled CmdBan now pl w (\<lambda>w.
     received (two_strings 7 9) pkt w (\<lambda>(name, who). normalized x who w (\<lambda>who.
     on_channel x pl name (KickOrBan (cx_base x) (cp_guid pl) who True) w)))"

definition HandleChannelUnban :: "chat_env \<Rightarrow> int \<Rightarrow> ChPlayer \<Rightarrow> ByteBuffer \<Rightarrow> chat_world \<Rightarrow> chat_world option" where
  "HandleChannelUnban x now pl pkt w = throttled CmdUnban now pl w (\<lambda>w.
     received (two_strings 7 9) pkt w (\<lambda>(name, who). normalized x who w (\<lambda>who.
     on_channel x pl name (UnBan (cx_base x) (cp_guid pl) who) w)))"

definition HandleChannelAnnouncements :: "chat_env \<Rightarrow> int \<Rightarrow> ChPlayer \<Rightarrow> ByteBuffer \<Rightarrow> chat_world \<Rightarrow> chat_world option" where
  "HandleChannelAnnouncements x now pl pkt w = throttled CmdAnnounce now pl w (\<lambda>w.
     received (one_string 7) pkt w (\<lambda>name. on_channel x pl name (ch_Announce (cx_base x) (cp_guid pl)) w))"

subsection \<open>Speaking\<close>

text \<open>The channel case of \<open>HandleMessagechatOpcode\<close>: \<open>text\<close> is what the checks before it and the script hook leave of
  the message, \<open>low\<close> says that the player is below the level the settings ask for.\<close>

definition HandleMessagechat_channel :: "chat_env \<Rightarrow> ChPlayer \<Rightarrow> bool \<Rightarrow> cstring \<Rightarrow> cstring \<Rightarrow> u32 \<Rightarrow> chat_world \<Rightarrow> chat_world option" where
  "HandleMessagechat_channel x pl low name text lang w =
     (if cp_security pl = SEC_PLAYER \<and> low then Some w
      else on_channel x pl name (Say (cx_base x) (cp_guid pl) (Some text) lang) w)"

subsection \<open>Visits to another realm\<close>

fun special_names :: "(nat \<Rightarrow> Channel option) \<Rightarrow> nat list \<Rightarrow> cstring list option" where
  "special_names h [] = Some []"
| "special_names h (a # as) = Option.bind (h a) (\<lambda>c.
     map_option (\<lambda>ns. if \<not> IsConstant c then m_name c # ns else ns) (special_names h as))"

text \<open>\<open>saved\<close> is \<open>m_SpecialChannelsSave\<close>, a member of the session.\<close>

definition SaveSpecialChannels :: "ChPlayer \<Rightarrow> chat_world \<Rightarrow> cstring list \<Rightarrow> cstring list option" where
  "SaveSpecialChannels pl w saved = map_option (\<lambda>ns. saved @ ns) (special_names (cw_heap w) (cw_lists w (cp_guid pl)))"

definition RestoreSpecialChannels :: "chat_env \<Rightarrow> ChPlayer \<Rightarrow> cstring list \<Rightarrow> chat_world \<Rightarrow> chat_world option" where
  "RestoreSpecialChannels x pl saved w =
     (case channelMgr (cx_base x) (cp_team pl) of
        None \<Rightarrow> Some w
      | Some s \<Rightarrow> bind_all (\<lambda>name w. Option.bind (GetJoinChannel x s name 0 w) (\<lambda>(a, w).
          run_channel x a (\<lambda>c. Join (cx_base x) (cp_guid pl) (c_str (m_password c)) c) w)) saved w)"

end
