(* ===== verification/ChannelWorld.thy ===== *)
theory ChannelWorld
  imports ChannelHandler
begin

text \<open>
  The world of channels over all packets: which channels are in a player's list, that no pointer dangles,
  that every handler is defined, and that a logout removes the player everywhere.
\<close>

subsection \<open>Moves\<close>

text \<open>The changes an operation makes to the lists of players, and what they have to do with its members.\<close>

fun moves_of :: "ch_event list \<Rightarrow> ch_event list" where
  "moves_of [] = []"
| "moves_of (JoinedChannel p # xs) = JoinedChannel p # moves_of xs"
| "moves_of (LeftChannel p # xs) = LeftChannel p # moves_of xs"
| "moves_of (_ # xs) = moves_of xs"

abbreviation moves :: "Channel \<Rightarrow> ch_event list" where
  "moves c \<equiv> moves_of (m_log c)"

lemma moves_of_append [simp]: "moves_of (xs @ ys) = moves_of xs @ moves_of ys"
  by (induction xs rule: moves_of.induct) simp_all

lemma moves_of_sent [simp]: "moves_of (map (\<lambda>g. ToPlayer (f g) (pkt g)) gs) = []"
  by (induction gs) simp_all

lemma moves_effect [simp]: "moves (ch_effect x c) = moves c @ moves_of [x]"
  by (simp add: ch_effect_def)

lemma moves_SendToOne [simp]: "moves (SendToOne e pkt g c) = moves c"
  by (simp add: SendToOne_def split: option.split)

lemma moves_SendToAll [simp]: "moves (SendToAll e pkt p c) = moves c"
  by (simp add: m_log_SendToAll)

lemma moves_SendToAllButOne [simp]: "moves (SendToAllButOne e pkt who c) = moves c"
proof -
  have "moves (fold (\<lambda>x c. if fst x \<noteq> who then SendToOne e pkt (fst x) c else c) ms d) = moves d" for ms d
    by (induction ms arbitrary: d) simp_all
  then show ?thesis by (simp add: SendToAllButOne_def)
qed

lemma moves_frames [simp]:
  "moves (JoinNotify e p c) = moves c" "moves (LeaveNotify e p c) = moves c" "moves (UpdateChannelInDB c) = moves c"
  "moves (UpdateChannelUseageInDB c) = moves c" "moves (drop_owner c) = moves c"
  by (simp_all add: JoinNotify_def LeaveNotify_def Let_def UpdateChannelInDB_def UpdateChannelUseageInDB_def drop_owner_def)

lemma moves_modes [simp]:
  "moves (SetOwner e g ex c) = moves c" "moves (SetModerator e p b c) = moves c" "moves (SetMute e p b c) = moves c"
  by (simp_all add: SetOwner_def SetModerator_def SetMute_def Let_def)

lemma moves_hand_out [simp]: "moves (hand_out e p c) = moves c"
  by (simp add: hand_out_def Let_def split: option.split)

lemma moves_refused: "refused e p c d \<Longrightarrow> moves d = moves c"
  by (auto simp: refused_def)

text \<open>Members are stored under the guid they carry (not so after an owner has kicked himself).\<close>

definition keys_ok :: "Channel \<Rightarrow> bool" where
  "keys_ok c \<longleftrightarrow> (\<forall>g i. member c g = Some i \<longrightarrow> pi_player i = g)"

text \<open>\<open>tracks c d mv\<close>: from \<open>c\<close> to \<open>d\<close> the list changes \<open>mv\<close> were made, and every member that is not in them
  stays; if the guids were right (and \<open>exact\<close>), the members change exactly as the lists.\<close>

definition members_after :: "ch_event list \<Rightarrow> (u64 \<Rightarrow> bool) \<Rightarrow> u64 \<Rightarrow> bool" where
  "members_after mv on q = fold (\<lambda>x b. case x of JoinedChannel p \<Rightarrow> b \<or> p = q | LeftChannel p \<Rightarrow> b \<and> p \<noteq> q | _ \<Rightarrow> b) mv (on q)"

definition tracks :: "bool \<Rightarrow> Channel \<Rightarrow> Channel \<Rightarrow> bool" where
  "tracks exact c d \<longleftrightarrow> ch_fixed d = ch_fixed c \<and> (\<exists>mv. moves d = moves c @ mv \<and> length mv \<le> 1
     \<and> (\<forall>q. members_after mv (\<lambda>q. IsOn q c) q \<longrightarrow> IsOn q d)
     \<and> (\<forall>p. mv = [JoinedChannel p] \<longrightarrow> \<not> IsOn p c)
     \<and> (exact \<and> keys_ok c \<longrightarrow> keys_ok d \<and> (\<forall>q. IsOn q d \<longrightarrow> members_after mv (\<lambda>q. IsOn q c) q)))"

lemma tracksI:
  assumes "ch_fixed d = ch_fixed c" "moves d = moves c @ mv" "length mv \<le> 1"
    and "\<And>q. members_after mv (\<lambda>q. IsOn q c) q \<Longrightarrow> IsOn q d" "\<And>p. mv = [JoinedChannel p] \<Longrightarrow> \<not> IsOn p c"
    and "exact \<Longrightarrow> keys_ok c \<Longrightarrow> keys_ok d" "\<And>q. exact \<Longrightarrow> keys_ok c \<Longrightarrow> IsOn q d \<Longrightarrow> members_after mv (\<lambda>q. IsOn q c) q"
  shows "tracks exact c d"
  unfolding tracks_def using assms by blast

lemma members_after_simps [simp]:
  "members_after [] on q = on q" "members_after [JoinedChannel p] on q = (on q \<or> p = q)"
  "members_after [LeftChannel p] on q = (on q \<and> p \<noteq> q)"
  by (simp_all add: members_after_def)

lemma tracks_core:
  assumes "ch_core d = ch_core c" "moves d = moves c"
  shows "tracks exact c d"
  using ch_core_fields[OF assms(1)] assms(2)
  by (intro tracksI[where mv = "[]"]) (simp_all add: ch_fixed_def keys_ok_def query_frames(1)[OF assms(1)])

lemma tracks_refused: "refused e p c d \<Longrightarrow> tracks exact c d"
  by (rule tracks_core[OF refused_core moves_refused])

lemma keys_okD: "keys_ok c \<Longrightarrow> member c g = Some i \<Longrightarrow> pi_player i = g"
  by (simp add: keys_ok_def)

lemma keys_upd: "keys_ok c \<Longrightarrow> IsOn g c \<Longrightarrow> (\<And>i. pi_player (f i) = pi_player i) \<Longrightarrow> keys_ok (pl_upd e g f c)"
  by (auto simp: keys_ok_def IsOn_def pl_at_def)

lemma keys_cong: "m_Players d = m_Players c \<Longrightarrow> keys_ok d = keys_ok c"
  by (simp add: keys_ok_def)

lemma keys_SetOwner: "keys_ok c \<Longrightarrow> IsOn g c \<Longrightarrow> keys_ok (SetOwner e g ex c)"
  by (auto simp: keys_ok_def IsOn_def pl_at_def split: if_splits)

lemma keys_modes: "keys_ok c \<Longrightarrow> IsOn g c \<Longrightarrow> keys_ok (SetModerator e g b c) \<and> keys_ok (SetMute e g b c)"
  by (auto simp: keys_ok_def IsOn_def pl_at_def split: if_splits)

lemma IsOn_modes [simp]: "IsOn h (SetModerator e g b c) \<longleftrightarrow> IsOn h c \<or> h = g" "IsOn h (SetMute e g b c) \<longleftrightarrow> IsOn h c \<or> h = g"
  by (simp_all add: IsOn_def)

lemma ch_fixed_upd [simp]: "ch_fixed (pl_upd e p f c) = ch_fixed c" "ch_fixed (hand_out e p c) = ch_fixed c"
  by (simp_all add: ch_fixed_def hand_out_def Let_def split: option.split)

lemma ch_fixed_core: "ch_core d = ch_core c \<Longrightarrow> ch_fixed d = ch_fixed c"
  by (simp add: ch_fixed_def ch_core_fields[of d c])

text \<open>The operations.\<close>

lemma moves_join_in: "moves (join_in e p c) = moves c @ (if FindPlayer e p \<noteq> None then [JoinedChannel p] else [])"
  by (simp add: join_in_def Let_def)

lemma IsOn_hand_out: "IsOn p c \<Longrightarrow> IsOn q (hand_out e p c) = IsOn q c"
  by (auto simp: hand_out_def Let_def split: option.split)

lemma tracks_Join:
  assumes "FindPlayer e p \<noteq> None"
  shows "tracks exact c (Join e p pass c)"
proof (cases "IsOn p c \<or> \<not> admits e p pass c")
  case True
  then show ?thesis by (rule tracks_refused[OF Join_refused])
next
  case False
  let ?j = "join_in e p c"
  have k: "keys_ok ?j" if "keys_ok c" using that by (auto simp: keys_ok_def)
  have kh: "keys_ok (hand_out e p ?j)" if "keys_ok c"
    using k[OF that] by (auto simp: hand_out_def Let_def intro!: keys_upd keys_SetOwner split: option.split)
  have eq: "Join e p pass c = (if IsConstant c then ?j else hand_out e p ?j)" using Join_joined False by simp
  have on: "IsOn q (Join e p pass c) \<longleftrightarrow> IsOn q c \<or> q = p" for q unfolding eq by (simp add: IsOn_hand_out)
  show ?thesis
  proof (rule tracksI[where mv = "[JoinedChannel p]"])
    show "ch_fixed (Join e p pass c) = ch_fixed c" unfolding eq by simp
    show "moves (Join e p pass c) = moves c @ [JoinedChannel p]" unfolding eq using assms by (simp add: moves_join_in)
    show "keys_ok (Join e p pass c)" if "keys_ok c" unfolding eq using k kh that by simp
  qed (use False on in auto)
qed

lemma moves_leave_out: "moves (leave_out e p send c) = moves c @ (if send \<and> FindPlayer e p \<noteq> None then [LeftChannel p] else [])"
  by (simp add: leave_out_def Let_def)

text \<open>Leaving: the member goes; unless the members are stored under wrong guids, nobody comes.\<close>

lemma Leave_parts:
  fixes e send
  assumes "IsOn p c"
  defines "d \<equiv> Leave e p send c"
  shows "ch_fixed d = ch_fixed c" "moves d = moves c @ (if send \<and> FindPlayer e p \<noteq> None then [LeftChannel p] else [])"
    "IsOn q c \<Longrightarrow> q \<noteq> p \<Longrightarrow> IsOn q d" "keys_ok c \<Longrightarrow> keys_ok d" "keys_ok c \<Longrightarrow> IsOn q d \<longleftrightarrow> IsOn q c \<and> q \<noteq> p"
proof -
  let ?l = "leave_out e p send c"
  have d: "d = (if \<not> IsConstant c \<and> pi_IsOwner (pl_at e p c) \<and> m_ownership c \<and> sm_erase p (m_Players c) \<noteq> []
     then succeed e ?l else ?l)" unfolding d_def by (rule Leave_member[OF assms(1)])
  have l: "IsOn q ?l \<longleftrightarrow> IsOn q c \<and> q \<noteq> p" for q by (simp add: IsOn_def)
  have kl: "keys_ok ?l" if "keys_ok c" using that by (auto simp: keys_ok_def split: if_splits)
  have s: "keys_ok (succeed e ?l) \<and> (IsOn q (succeed e ?l) \<longleftrightarrow> IsOn q ?l)" if "keys_ok c" "sm_erase p (m_Players c) \<noteq> []" for q
  proof -
    have ne: "m_Players ?l \<noteq> []" using that(2) by simp
    note h = hd_member[OF ne]
    have g: "pi_player (snd (hd (m_Players ?l))) = fst (hd (m_Players ?l))" by (rule keys_okD[OF kl[OF that(1)] h])
    have o: "IsOn (fst (hd (m_Players ?l))) ?l" using h unfolding IsOn_def by simp
    show ?thesis unfolding succeed_def Let_def g using o kl[OF that(1)]
      by (auto intro!: keys_SetOwner keys_upd)
  qed
  show "ch_fixed d = ch_fixed c" unfolding d by (simp add: succeed_def Let_def)
  show "moves d = moves c @ (if send \<and> FindPlayer e p \<noteq> None then [LeftChannel p] else [])"
    unfolding d by (simp add: succeed_def Let_def moves_leave_out)
  show "IsOn q d" if "IsOn q c" "q \<noteq> p" using that l unfolding d by (simp add: succeed_def Let_def)
  show "keys_ok d" if "keys_ok c" unfolding d using s[OF that] kl[OF that] by (simp del: leave_out_fields)
  show "IsOn q d \<longleftrightarrow> IsOn q c \<and> q \<noteq> p" if "keys_ok c" unfolding d using s[OF that, of q] l[of q] by (simp del: leave_out_fields)
qed

lemma tracks_Leave:
  assumes "FindPlayer e p \<noteq> None"
  shows "tracks exact c (Leave e p True c)"
proof (cases "IsOn p c")
  case True
  note L = Leave_parts[OF True, where e = e and send = True]
  show ?thesis by (rule tracksI[where mv = "[LeftChannel p]"]) (use L assms in auto)
next
  case False
  then show ?thesis by (auto simp: Leave_def intro: tracks_refused)
qed

lemma tracks_KickOrBan:
  assumes "exact \<Longrightarrow> map_option cp_guid (FindPlayerByName e name) \<noteq> Some good"
  shows "tracks exact c (KickOrBan e good name ban c)"
proof (cases rule: KickOrBan_cases[of e good c name ban])
  case refused
  then show ?thesis by (rule tracks_refused)
next
  case (kicked bad)
  let ?k = "kick_out e good (cp_guid bad) ban c"
  have mk: "moves ?k = moves c @ [LeftChannel (cp_guid bad)]" by (simp add: kick_out_def Let_def)
  have onk: "IsOn q ?k \<longleftrightarrow> IsOn q c \<and> q \<noteq> cp_guid bad" for q by (simp add: IsOn_def)
  have ne: "exact \<Longrightarrow> good \<noteq> cp_guid bad" using assms kicked(1) by auto
  have kk: "keys_ok ?k" if "keys_ok c" using that by (auto simp: keys_ok_def split: if_splits)
  have good: "exact \<Longrightarrow> IsOn good ?k" using kicked(2) onk ne by simp
  let ?d = "SetOwner e good True (pl_upd e good (pi_SetModerator True) ?k)"
  have "tracks exact c ?d"
  proof (rule tracksI[where mv = "[LeftChannel (cp_guid bad)]"])
    show "keys_ok ?d" if exact "keys_ok c" using kk[OF that(2)] good[OF that(1)] by (simp add: keys_SetOwner keys_upd)
    show "IsOn q ?d" if "members_after [LeftChannel (cp_guid bad)] (\<lambda>q. IsOn q c) q" for q using that onk by auto
    show "members_after [LeftChannel (cp_guid bad)] (\<lambda>q. IsOn q c) q" if exact "keys_ok c" "IsOn q ?d" for q
      using that onk good[OF that(1)] by auto
  qed (simp_all add: mk)
  moreover have "tracks exact c ?k"
  proof (rule tracksI[where mv = "[LeftChannel (cp_guid bad)]"])
    show "keys_ok ?k" if "keys_ok c" by (rule kk[OF that])
    show "IsOn q ?k" if "members_after [LeftChannel (cp_guid bad)] (\<lambda>q. IsOn q c) q" for q using that onk by auto
    show "members_after [LeftChannel (cp_guid bad)] (\<lambda>q. IsOn q c) q" if "IsOn q ?k" for q using that onk by auto
  qed (simp_all add: mk)
  ultimately show ?thesis unfolding kicked(6) kick_or_ban_eq by simp
qed

lemma tracks_set:
  assumes "IsOn g c"
  shows "tracks exact c (SetModerator e g b c)" "tracks exact c (SetMute e g b c)"
    "tracks exact c (SetOwner e g ex (pl_upd e g (pi_SetModerator True) c))"
    "(\<And>i. pi_player (f i) = pi_player i) \<Longrightarrow> tracks exact c (pl_upd e g f c)"
  by (rule tracksI[where mv = "[]"]; use assms keys_modes[where c = c and g = g and e = e and b = b] in \<open>auto intro!: keys_SetOwner keys_upd\<close>)+

lemma tracks_SetMode: "tracks exact c (SetMode e p name md val c)"
  by (cases rule: SetMode_cases[of e p c name md val]) (auto simp: tracks_set intro: tracks_refused)

lemma tracks_SetOwner_name: "tracks exact c (SetOwner_name e p name c)"
  by (cases rule: SetOwner_name_cases[of e p c name]) (auto simp: tracks_set intro: tracks_refused)

lemma tracks_settings:
  "tracks exact c (UnBan e p name c)" "tracks exact c (Password e p pass c)" "tracks exact c (ch_Announce e p c)"
proof -
  have settings: "tracks exact c d" if "ch_core d = ch_core c'" "m_Players c' = m_Players c" "ch_fixed c' = ch_fixed c"
      "moves d = moves c" for d c'
    using that by (intro tracksI[where mv = "[]"])
      (simp_all add: ch_fixed_core[OF that(1)] keys_cong IsOn_def ch_core_fields(1)[OF that(1)] keys_ok_def)
  have mv: "moves (UnBan e p name c) = moves c" "moves (Password e p pass c) = moves c" "moves (ch_Announce e p c) = moves c"
    by (simp_all add: UnBan_def Password_def ch_Announce_def Let_def split: option.split)
  show "tracks exact c (UnBan e p name c)"
  proof (cases rule: UnBan_cases[of e p c name])
    case (unbanned bad)
    show ?thesis by (rule settings[OF unbanned(5) _ _ mv(1)]) (simp_all add: ch_fixed_def)
  qed (rule tracks_refused)
  show "tracks exact c (Password e p pass c)"
  proof (cases rule: Password_cases[of e p c pass])
    case changed
    show ?thesis by (rule settings[OF changed(4) _ _ mv(2)]) (simp_all add: ch_fixed_def)
  qed (rule tracks_refused)
  show "tracks exact c (ch_Announce e p c)"
  proof (cases rule: Announce_cases[of e p c])
    case changed
    show ?thesis by (rule settings[OF changed(3) _ _ mv(3)]) (simp_all add: ch_fixed_def)
  qed (rule tracks_refused)
qed

lemma tracks_sends: "tracks exact c (SendWhoOwner e p c)" "tracks exact c (ch_List e pl c)" "tracks exact c (Invite e p name c)"
proof -
  show "tracks exact c (Invite e p name c)"
    by (rule tracks_core[OF core_Invite]) (simp add: Invite_def Let_def split: option.split)
  show "tracks exact c (SendWhoOwner e p c)" by (rule tracks_core[OF core_SendWhoOwner]) (simp add: SendWhoOwner_def)
  show "tracks exact c (ch_List e pl c)" by (rule tracks_core[OF core_List]) (simp add: ch_List_def Let_def)
qed

lemma tracks_Say: "tracks exact c (Say e p what lang c)"
  by (rule tracks_core[OF core_Say]) (simp add: Say_def Let_def split: option.split)

lemma tracks_Locale: "tracks exact c (UpdateChatLocaleFiltering e pl c)"
proof -
  have "tracks exact c c" by (rule tracks_core) simp_all
  then show ?thesis by (simp add: UpdateChatLocaleFiltering_def tracks_set split: option.split)
qed

subsection \<open>The world\<close>

text \<open>Every managed channel is alive under the key of its name, in one place; nothing else is alive.\<close>

definition managed :: "chat_world \<Rightarrow> bool" where
  "managed w \<longleftrightarrow> (\<forall>s k a. cw_map w s k = Some a \<longrightarrow> (\<exists>c. cw_heap w a = Some c \<and> chan_key (m_name c) = Some k))
     \<and> (\<forall>s k s' k' a. cw_map w s k = Some a \<longrightarrow> cw_map w s' k' = Some a \<longrightarrow> s = s')
     \<and> (\<forall>a c. cw_heap w a = Some c \<longrightarrow> m_log c = [] \<and> a < cw_next w \<and> (\<exists>s k. cw_map w s k = Some a))"

text \<open>The lists hold live channels the player is on, each once; and (with \<open>exact\<close>) all of them.\<close>

definition refs_live :: "chat_world \<Rightarrow> bool" where
  "refs_live w \<longleftrightarrow> (\<forall>p. distinct (cw_lists w p)
     \<and> (\<forall>a\<in>set (cw_lists w p). \<exists>c. cw_heap w a = Some c \<and> IsOn p c))"

definition refs_all :: "chat_world \<Rightarrow> bool" where
  "refs_all w \<longleftrightarrow> (\<forall>a c. cw_heap w a = Some c \<longrightarrow> keys_ok c \<and> (\<forall>p. IsOn p c \<longrightarrow> a \<in> set (cw_lists w p)))"

definition world_ok :: "bool \<Rightarrow> chat_world \<Rightarrow> bool" where
  "world_ok exact w \<longleftrightarrow> managed w \<and> refs_live w \<and> (exact \<longrightarrow> refs_all w)"

fun list_effect :: "nat \<Rightarrow> u64 \<Rightarrow> ch_event \<Rightarrow> nat list \<Rightarrow> nat list" where
  "list_effect a q (JoinedChannel p) L = (if p = q then L @ [a] else L)"
| "list_effect a q (LeftChannel p) L = (if p = q then removeAll a L else L)"
| "list_effect a q _ L = L"

lemma world_effect_fields [simp]:
  "cw_map (world_effect d a x w) = cw_map w" "cw_team (world_effect d a x w) = cw_team w"
  "cw_heap (world_effect d a x w) = cw_heap w" "cw_next (world_effect d a x w) = cw_next w"
  "cw_times (world_effect d a x w) = cw_times w" "cw_lists (world_effect d a x w) q = list_effect a q x (cw_lists w q)"
  by (cases x; simp)+

lemma fold_world_effect:
  "cw_map (fold (world_effect d a) xs w) = cw_map w" "cw_team (fold (world_effect d a) xs w) = cw_team w"
  "cw_heap (fold (world_effect d a) xs w) = cw_heap w" "cw_next (fold (world_effect d a) xs w) = cw_next w"
  "cw_times (fold (world_effect d a) xs w) = cw_times w"
  "cw_lists (fold (world_effect d a) xs w) q = fold (list_effect a q) (moves_of xs) (cw_lists w q)"
proof -
  show "cw_lists (fold (world_effect d a) xs w) q = fold (list_effect a q) (moves_of xs) (cw_lists w q)"
    by (induction xs arbitrary: w rule: moves_of.induct) simp_all
qed (induction xs arbitrary: w; simp)+

lemma put_channel_fields [simp]:
  "cw_map (put_channel d a c w) = cw_map w" "cw_team (put_channel d a c w) = cw_team w"
  "cw_heap (put_channel d a c w) = (cw_heap w)(a \<mapsto> c\<lparr>m_log := []\<rparr>)" "cw_next (put_channel d a c w) = cw_next w"
  "cw_times (put_channel d a c w) = cw_times w"
  "cw_lists (put_channel d a c w) q = fold (list_effect a q) (moves c) (cw_lists w q)"
  by (simp_all add: put_channel_def fold_world_effect)

lemma relist:
  assumes "length mv \<le> 1" "\<And>x. x \<in> set mv \<Longrightarrow> (\<exists>p. x = JoinedChannel p \<or> x = LeftChannel p)"
    and "distinct L" "a \<in> set L \<Longrightarrow> on q" "\<And>p. mv = [JoinedChannel p] \<Longrightarrow> \<not> on p"
  defines "L' \<equiv> fold (list_effect a q) mv L"
  shows "distinct L'" "b \<noteq> a \<Longrightarrow> b \<in> set L' \<longleftrightarrow> b \<in> set L" "a \<in> set L' \<Longrightarrow> members_after mv on q"
    "(on q \<Longrightarrow> a \<in> set L) \<Longrightarrow> members_after mv on q \<Longrightarrow> a \<in> set L'"
proof -
  consider "mv = []" | p where "mv = [JoinedChannel p]" | p where "mv = [LeftChannel p]"
    using assms(1,2) by (cases mv) auto
  then show "distinct L'" "b \<noteq> a \<Longrightarrow> b \<in> set L' \<longleftrightarrow> b \<in> set L" "a \<in> set L' \<Longrightarrow> members_after mv on q"
    "(on q \<Longrightarrow> a \<in> set L) \<Longrightarrow> members_after mv on q \<Longrightarrow> a \<in> set L'"
    by (cases; use assms(3-5) in \<open>auto simp: L'_def distinct_removeAll split: if_splits\<close>)+
qed

lemma moves_of_kinds: "x \<in> set (moves_of xs) \<Longrightarrow> \<exists>p. x = JoinedChannel p \<or> x = LeftChannel p"
  by (induction xs rule: moves_of.induct) auto

lemma without_log [simp]:
  "IsOn q (c\<lparr>m_log := xs\<rparr>) = IsOn q c" "keys_ok (c\<lparr>m_log := xs\<rparr>) = keys_ok c" "IsConstant (c\<lparr>m_log := xs\<rparr>) = IsConstant c"
  by (simp_all add: IsOn_def keys_ok_def IsConstant_def)

lemma managed_heap: "managed w \<Longrightarrow> cw_heap w a = Some c \<Longrightarrow> m_log c = [] \<and> a < cw_next w \<and> (\<exists>s k. cw_map w s k = Some a)"
  unfolding managed_def by blast

lemma managed_map: "managed w \<Longrightarrow> cw_map w s k = Some a \<Longrightarrow> \<exists>c. cw_heap w a = Some c \<and> chan_key (m_name c) = Some k"
  unfolding managed_def by blast

lemma managed_put:
  assumes "managed w" "cw_heap w a = Some c" "m_name d = m_name c"
  shows "managed (put_channel r a d w)"
proof -
  note m = managed_map[OF assms(1)] and h = managed_heap[OF assms(1)]
  show ?thesis
    unfolding managed_def put_channel_fields
  proof (intro conjI allI impI)
    fix s k b assume "cw_map w s k = Some b"
    from m[OF this] assms(2,3) show "\<exists>e. ((cw_heap w)(a \<mapsto> d\<lparr>m_log := []\<rparr>)) b = Some e \<and> chan_key (m_name e) = Some k"
      by (cases "b = a") auto
  next
    fix s k s' k' b assume "cw_map w s k = Some b" "cw_map w s' k' = Some b"
    then show "s = s'" using assms(1) unfolding managed_def by blast
  next
    fix b e assume "((cw_heap w)(a \<mapsto> d\<lparr>m_log := []\<rparr>)) b = Some e"
    then show "m_log e = []" "b < cw_next w" "\<exists>s k. cw_map w s k = Some b"
      using h[OF assms(2)] h[of b e] by (auto split: if_splits)
  qed
qed

lemma run_channel_ok:
  assumes w: "world_ok exact w" and c: "cw_heap w a = Some c" and t: "tracks exact c (f c)"
  obtains w' where "run_channel x a f w = Some w'" "world_ok exact w'" "cw_map w' = cw_map w"
    "cw_heap w' = (cw_heap w)(a \<mapsto> (f c)\<lparr>m_log := []\<rparr>)"
proof -
  let ?d = "f c" and ?w = "put_channel (cx_row x) a (f c) w"
  have m: "managed w" "refs_live w" "exact \<Longrightarrow> refs_all w" using w by (simp_all add: world_ok_def)
  from managed_heap[OF m(1) c] have log: "m_log c = []" by blast
  from t obtain mv where fx: "ch_fixed ?d = ch_fixed c" and mv0: "moves ?d = moves c @ mv" "length mv \<le> 1"
    and on0: "\<forall>q. members_after mv (\<lambda>q. IsOn q c) q \<longrightarrow> IsOn q ?d" "\<forall>p. mv = [JoinedChannel p] \<longrightarrow> \<not> IsOn p c"
    and ex0: "exact \<and> keys_ok c \<longrightarrow> keys_ok ?d \<and> (\<forall>q. IsOn q ?d \<longrightarrow> members_after mv (\<lambda>q. IsOn q c) q)"
    unfolding tracks_def by blast
  have mv: "moves ?d = mv" "length mv \<le> 1" using mv0 log by simp_all
  note on = on0[rule_format]
  have ex: "exact \<Longrightarrow> keys_ok c \<Longrightarrow> keys_ok ?d \<and> (\<forall>q. IsOn q ?d \<longrightarrow> members_after mv (\<lambda>q. IsOn q c) q)" using ex0 by blast
  have l: "distinct (cw_lists w q)" "a \<in> set (cw_lists w q) \<Longrightarrow> IsOn q c"
    "\<And>b. b \<in> set (cw_lists w q) \<Longrightarrow> \<exists>c. cw_heap w b = Some c \<and> IsOn q c" for q
  proof -
    show "distinct (cw_lists w q)" using m(2) unfolding refs_live_def by blast
    show *: "\<exists>c. cw_heap w b = Some c \<and> IsOn q c" if "b \<in> set (cw_lists w q)" for b
      using m(2) that unfolding refs_live_def by blast
    show "IsOn q c" if "a \<in> set (cw_lists w q)" using *[OF that] c by simp
  qed
  have kinds: "\<And>x. x \<in> set mv \<Longrightarrow> \<exists>p. x = JoinedChannel p \<or> x = LeftChannel p" using moves_of_kinds mv(1) by blast
  let ?L = "\<lambda>q. fold (list_effect a q) mv (cw_lists w q)"
  have R: "distinct (?L q)" "\<And>b. b \<noteq> a \<Longrightarrow> b \<in> set (?L q) \<longleftrightarrow> b \<in> set (cw_lists w q)"
    "a \<in> set (?L q) \<Longrightarrow> members_after mv (\<lambda>q. IsOn q c) q"
    "(IsOn q c \<Longrightarrow> a \<in> set (cw_lists w q)) \<Longrightarrow> members_after mv (\<lambda>q. IsOn q c) q \<Longrightarrow> a \<in> set (?L q)" for q
    using relist[where L = "cw_lists w q" and a = a and q = q and on = "\<lambda>q. IsOn q c", OF mv(2) kinds l(1) l(2) on(2)]
    by blast+
  have "refs_live ?w"
    unfolding refs_live_def put_channel_fields mv(1)
  proof (intro allI conjI ballI)
    fix q
    show "distinct (fold (list_effect a q) mv (cw_lists w q))" by (rule R(1))
    fix b assume b: "b \<in> set (fold (list_effect a q) mv (cw_lists w q))"
    show "\<exists>e. ((cw_heap w)(a \<mapsto> ?d\<lparr>m_log := []\<rparr>)) b = Some e \<and> IsOn q e"
    proof (cases "b = a")
      case True then show ?thesis using R(3) b on(1) by simp
    next
      case False then show ?thesis using R(2)[of b] b l(3) by simp
    qed
  qed
  moreover have "refs_all ?w" if exact
  proof -
    have all: "keys_ok e" "IsOn q e \<Longrightarrow> b \<in> set (cw_lists w q)" if "cw_heap w b = Some e" for b e q
      using m(3)[OF \<open>exact\<close>] that unfolding refs_all_def by blast+
    note ex = ex[OF that all(1)[OF c]]
    show ?thesis
      unfolding refs_all_def put_channel_fields mv(1)
    proof (intro allI impI conjI)
      fix b e assume e: "((cw_heap w)(a \<mapsto> ?d\<lparr>m_log := []\<rparr>)) b = Some e"
      show "keys_ok e" using e ex all(1) by (auto split: if_splits)
      fix q assume q: "IsOn q e"
      show "b \<in> set (fold (list_effect a q) mv (cw_lists w q))"
      proof (cases "b = a")
        case True
        then have "members_after mv (\<lambda>q. IsOn q c) q" using e q ex by auto
        then show ?thesis using True R(4) all(2)[OF c] by blast
      next
        case False then show ?thesis using R(2)[of b] e q all(2) by simp
      qed
    qed
  qed
  moreover have "managed ?w" using managed_put[OF m(1) c] ch_fixedD(3)[OF fx] by blast
  ultimately have "world_ok exact ?w" by (simp add: world_ok_def)
  then show ?thesis using that[of ?w] c by (simp add: run_channel_def)
qed

lemma world_ok_other [simp]:
  "world_ok exact (w\<lparr>cw_team := t\<rparr>) = world_ok exact w" "world_ok exact (w\<lparr>cw_times := u\<rparr>) = world_ok exact w"
  "world_ok exact (w\<lparr>cw_log := l\<rparr>) = world_ok exact w"
  by (simp_all add: world_ok_def managed_def refs_live_def refs_all_def)

lemma Channel_new_off:
  "m_Players (Channel_new e tbl name i t) = []" "m_name (Channel_new e tbl name i t) = name"
  "moves (Channel_new e tbl name i t) = []"
  by (simp_all add: Channel_new_def Let_def Channel_blank_def load_channel_def ch_effect_def split: option.split)

lemma world_okD:
  assumes "world_ok exact w"
  shows "managed w" "distinct (cw_lists w p)" "a \<in> set (cw_lists w p) \<Longrightarrow> \<exists>c. cw_heap w a = Some c \<and> IsOn p c"
    "exact \<Longrightarrow> cw_heap w a = Some c \<Longrightarrow> keys_ok c \<and> (\<forall>p. IsOn p c \<longrightarrow> a \<in> set (cw_lists w p))"
  using assms unfolding world_ok_def refs_live_def refs_all_def by blast+

lemma GetJoinChannel_ok:
  assumes w: "world_ok exact w" and k: "chan_key name = Some k"
  obtains a w' c where "GetJoinChannel x s name i w = Some (a, w')" "world_ok exact w'" "cw_heap w' a = Some c"
    "cw_lists w' = cw_lists w" "\<And>b d. cw_heap w b = Some d \<Longrightarrow> cw_heap w' b = Some d"
proof (cases "cw_map w s k")
  case (Some a)
  from managed_map[OF world_okD(1)[OF w] Some] obtain c where c: "cw_heap w a = Some c" by blast
  have "GetJoinChannel x s name i w = Some (a, w)" using k Some by (simp add: GetJoinChannel_def)
  from that[OF this w c refl] show ?thesis by blast
next
  case None
  note m = world_okD(1)[OF w]
  let ?a = "cw_next w" and ?c = "Channel_new (cx_base x) (cw_table w) name i (cw_team w s)"
  let ?p = "put_channel (cx_row x) ?a ?c w"
  let ?w = "?p\<lparr>cw_next := ?a + 1, cw_map := (cw_map ?p)(s := (cw_map ?p s)(k \<mapsto> ?a))\<rparr>"
  have eq: "GetJoinChannel x s name i w = Some (?a, ?w)" using None k by (simp add: GetJoinChannel_def Let_def)
  have lt: "b < ?a" if "cw_heap w b = Some d" for b d using managed_heap[OF m that] by blast
  have fresh: "cw_heap w ?a = None" using lt[of ?a] by (cases "cw_heap w ?a") auto
  have none: "cw_map w s' k' \<noteq> Some ?a" for s' k' using managed_map[OF m] fresh by fastforce
  have lists: "cw_lists ?w = cw_lists w" by (rule ext) (simp add: Channel_new_off)
  have new: "\<not> IsOn q ?c" "keys_ok ?c" for q by (simp_all add: IsOn_def keys_ok_def Channel_new_off)
  have "managed ?w"
    unfolding managed_def
  proof (intro conjI allI impI)
    fix s' k' b assume "cw_map ?w s' k' = Some b"
    then show "\<exists>c. cw_heap ?w b = Some c \<and> chan_key (m_name c) = Some k'"
      using none managed_map[OF m, of s' k' b] k by (cases "s' = s \<and> k' = k") (auto simp: Channel_new_off split: if_splits)
  next
    fix s1 k1 s2 k2 b assume "cw_map ?w s1 k1 = Some b" "cw_map ?w s2 k2 = Some b"
    then show "s1 = s2" using none m unfolding managed_def by (auto split: if_splits)
  next
    fix b d assume d: "cw_heap ?w b = Some d"
    show "m_log d = []" using d managed_heap[OF m, of b d] by (auto split: if_splits)
    show "b < cw_next ?w" using d lt[of b d] by (auto split: if_splits)
    show "\<exists>s' k'. cw_map ?w s' k' = Some b"
    proof (cases "b = ?a")
      case True then show ?thesis by (intro exI[of _ s] exI[of _ k]) simp
    next
      case False
      with d managed_heap[OF m, of b d] obtain s' k' where "cw_map w s' k' = Some b" by auto
      with None show ?thesis by (intro exI[of _ s'] exI[of _ k']) auto
    qed
  qed
  moreover have "refs_live ?w"
    unfolding refs_live_def lists
  proof (intro allI conjI ballI)
    fix p show "distinct (cw_lists w p)" by (rule world_okD(2)[OF w])
    fix b assume "b \<in> set (cw_lists w p)"
    from world_okD(3)[OF w this] fresh show "\<exists>c. cw_heap ?w b = Some c \<and> IsOn p c" by auto
  qed
  moreover have "refs_all ?w" if exact
    unfolding refs_all_def lists using world_okD(4)[OF w that] new by simp
  ultimately have "world_ok exact ?w" unfolding world_ok_def by blast
  moreover have "cw_heap ?w b = Some d" if "cw_heap w b = Some d" for b d using that lt[OF that] by simp
  ultimately show ?thesis using lists by (intro that[OF eq, of "?c\<lparr>m_log := []\<rparr>"]) simp_all
qed

lemma mgr_LeftChannel_ok:
  assumes w: "world_ok exact w" and k: "chan_key name = Some k"
  obtains w' where "mgr_LeftChannel s name w = Some w'" "world_ok exact w'" "cw_lists w' = cw_lists w"
    "\<And>b d. cw_heap w' b = Some d \<Longrightarrow> cw_heap w b = Some d"
    "\<And>b d. cw_heap w b = Some d \<Longrightarrow> m_Players d \<noteq> [] \<Longrightarrow> cw_heap w' b = Some d"
proof (cases "cw_map w s k")
  case None
  then have "mgr_LeftChannel s name w = Some w" using k by (simp add: mgr_LeftChannel_def)
  from that[OF this w refl] show ?thesis by blast
next
  case (Some a)
  note m = world_okD(1)[OF w]
  from managed_map[OF m Some] obtain c where c: "cw_heap w a = Some c" "chan_key (m_name c) = Some k" by blast
  show ?thesis
  proof (cases "length (m_Players c) = 0 \<and> \<not> IsConstant c")
    case False
    then have "mgr_LeftChannel s name w = Some w" using k Some c by (auto simp: mgr_LeftChannel_def)
    from that[OF this w refl] show ?thesis by blast
  next
    case True
    let ?w = "w\<lparr>cw_map := (cw_map w)(s := (cw_map w s)(k := None)), cw_heap := (cw_heap w)(a := None)\<rparr>"
    have eq: "mgr_LeftChannel s name w = Some ?w" using k Some c True by (simp add: mgr_LeftChannel_def)
    have off: "\<not> IsOn q c" for q using True by (simp add: IsOn_def)
    have one: "s' = s \<and> k' = k" if "cw_map w s' k' = Some a" for s' k'
    proof -
      have "s' = s" using that Some m unfolding managed_def by blast
      moreover have "k' = k" using managed_map[OF m that] c by auto
      ultimately show ?thesis ..
    qed
    have "managed ?w"
      unfolding managed_def
    proof (intro conjI allI impI)
      fix s' k' b assume b: "cw_map ?w s' k' = Some b"
      then have "cw_map w s' k' = Some b" "\<not> (s' = s \<and> k' = k)" by (auto split: if_splits)
      then show "\<exists>c. cw_heap ?w b = Some c \<and> chan_key (m_name c) = Some k'"
        using managed_map[OF m, of s' k' b] one[of s' k'] by auto
    next
      fix s1 k1 s2 k2 b assume "cw_map ?w s1 k1 = Some b" "cw_map ?w s2 k2 = Some b"
      then have "cw_map w s1 k1 = Some b" "cw_map w s2 k2 = Some b" by (auto split: if_splits)
      then show "s1 = s2" using m unfolding managed_def by blast
    next
      fix b d assume "cw_heap ?w b = Some d"
      then have b: "b \<noteq> a" "cw_heap w b = Some d" by (auto split: if_splits)
      from managed_heap[OF m b(2)] obtain s' k' where d: "m_log d = []" "b < cw_next w" "cw_map w s' k' = Some b" by blast
      have "\<not> (s' = s \<and> k' = k)" using d(3) Some b(1) by auto
      then have "cw_map ?w s' k' = Some b" using d(3) by auto
      then show "\<exists>s k. cw_map ?w s k = Some b" by blast
      show "m_log d = []" "b < cw_next ?w" using d by simp_all
    qed
    moreover have "refs_live ?w"
      unfolding refs_live_def
    proof (intro allI conjI ballI)
      fix p show "distinct (cw_lists ?w p)" using world_okD(2)[OF w] by simp
      fix b assume "b \<in> set (cw_lists ?w p)"
      with world_okD(3)[OF w, of b p] off[of p] c(1) show "\<exists>c. cw_heap ?w b = Some c \<and> IsOn p c" by auto
    qed
    moreover have "refs_all ?w" if exact
      unfolding refs_all_def using world_okD(4)[OF w that] by auto
    ultimately have "world_ok exact ?w" unfolding world_ok_def by blast
    moreover have "cw_heap ?w b = Some d" if "cw_heap w b = Some d" "m_Players d \<noteq> []" for b d using that c(1) True by auto
    ultimately show ?thesis by (intro that[OF eq]) (auto split: if_splits)
  qed
qed

lemma GetChannel_ok:
  assumes w: "world_ok exact w" and k: "chan_key name = Some k"
  obtains (none) w' where "GetChannel s name p pkt w = Some (None, w')" "world_ok exact w'"
  | (some) a c where "GetChannel s name p pkt w = Some (Some a, w)" "cw_heap w a = Some c"
proof (cases "cw_map w s k")
  case None
  let ?w = "if pkt then w\<lparr>cw_log := cw_log w @ [ToPlayer p (MakeNotOnPacket name)]\<rparr> else w"
  have "GetChannel s name p pkt w = Some (None, ?w)" using k None by (simp add: GetChannel_def)
  then show ?thesis using w by (intro that(1)[of ?w]) simp_all
next
  case (Some a)
  from managed_map[OF world_okD(1)[OF w] Some] obtain c where "cw_heap w a = Some c" by blast
  then show ?thesis using k Some by (intro that(2)) (simp_all add: GetChannel_def)
qed

lemma on_channel_ok:
  assumes w: "world_ok exact w" and k: "chan_key name = Some k" and t: "\<And>c. tracks exact c (f c)"
  shows "\<exists>w'. on_channel x pl name f w = Some w' \<and> world_ok exact w'"
proof (cases "channelMgr (cx_base x) (cp_team pl)")
  case None with w show ?thesis by (simp add: on_channel_def)
next
  case (Some s)
  from w k show ?thesis
  proof (cases rule: GetChannel_ok[of exact w name k s "cp_guid pl" True])
    case none
    with Some show ?thesis by (simp add: on_channel_def)
  next
    case (some a c)
    from run_channel_ok[where f = f, OF w some(2) t] obtain w' where "run_channel x a f w = Some w'" "world_ok exact w'" by blast
    with Some some show ?thesis by (simp add: on_channel_def)
  qed
qed

subsection \<open>Defined results\<close>

text \<open>A result is a good world, or undefined where \<open>R\<close> does not hold.\<close>

definition fine :: "bool \<Rightarrow> bool \<Rightarrow> chat_world option \<Rightarrow> bool" where
  "fine exact R r = (case r of None \<Rightarrow> \<not> R | Some w \<Rightarrow> world_ok exact w)"

lemma fine_simps [simp]: "fine exact R (Some w) = world_ok exact w" "fine exact R None = (\<not> R)"
  by (simp_all add: fine_def)

lemma fine_bind: "fine exact R m \<Longrightarrow> (\<And>w. world_ok exact w \<Longrightarrow> fine exact R (f w)) \<Longrightarrow> fine exact R (Option.bind m f)"
  by (cases m) simp_all

lemma fine_bind_all: "(\<And>a w. a \<in> set as \<Longrightarrow> world_ok exact w \<Longrightarrow> fine exact R (f a w)) \<Longrightarrow> world_ok exact w \<Longrightarrow> fine exact R (bind_all f as w)"
  by (induction as arbitrary: w) (auto intro: fine_bind)

lemma on_channel_fine:
  assumes "world_ok exact w" "R \<Longrightarrow> chan_key name \<noteq> None" "\<And>c. tracks exact c (f c)"
  shows "fine exact R (on_channel x pl name f w)"
proof (cases "chan_key name")
  case None
  then have "fine exact R (on_channel x pl name f w)" if "channelMgr (cx_base x) (cp_team pl) = Some s" for s
    using that assms(2) by (auto simp: on_channel_def GetChannel_def)
  then show ?thesis using assms(1) by (cases "channelMgr (cx_base x) (cp_team pl)") (simp add: on_channel_def, blast)
next
  case (Some k)
  from on_channel_ok[where f = f and x = x and pl = pl, OF assms(1) Some assms(3)]
  obtain w' where "on_channel x pl name f w = Some w'" "world_ok exact w'" by blast
  then show ?thesis by simp
qed

lemma received_fine:
  "world_ok exact w \<Longrightarrow> (\<And>a. fst (m pkt) = Inr a \<Longrightarrow> fine exact R (act a)) \<Longrightarrow> fine exact R (received m pkt w act)"
  by (auto simp: received_def split: sum.split)

lemma throttled_fine:
  "world_ok exact w \<Longrightarrow> (\<And>w. world_ok exact w \<Longrightarrow> fine exact R (act w)) \<Longrightarrow> fine exact R (throttled cmd now pl w act)"
  by (auto simp: throttled_def)

lemma normalized_fine:
  "world_ok exact w \<Longrightarrow> (R \<Longrightarrow> normalizePlayerName (cx_stack x) who \<noteq> None)
   \<Longrightarrow> (\<And>n. normalizePlayerName (cx_stack x) who = Some (True, n) \<Longrightarrow> fine exact R (act n)) \<Longrightarrow> fine exact R (normalized x who w act)"
  by (auto simp: normalized_def split: option.split)

lemma world_ok_cong:
  assumes "cw_map w' = cw_map w" "cw_heap w' = cw_heap w" "cw_next w' = cw_next w" "cw_lists w' = cw_lists w"
  shows "world_ok exact w' = world_ok exact w"
  using assms by (simp add: world_ok_def managed_def refs_live_def refs_all_def)

text \<open>A player leaves a channel and the channel leaves his list, in whatever order.\<close>

lemma leave_world_ok:
  assumes w: "world_ok exact w" and c: "cw_heap w a = Some c" "IsOn p c"
    and w': "cw_map w' = cw_map w" "cw_heap w' = (cw_heap w)(a \<mapsto> (Leave e p send c)\<lparr>m_log := []\<rparr>)" "cw_next w' = cw_next w"
      "cw_lists w' = (cw_lists w)(p := removeAll a (cw_lists w p))"
  shows "world_ok exact w'"
proof -
  let ?d = "Leave e p send c"
  note L = Leave_parts[OF c(2), where e = e and send = send]
  note m = world_okD(1)[OF w]
  have name: "m_name ?d = m_name c" using ch_fixedD(3)[OF L(1)] .
  have "managed (put_channel r a ?d w)" for r by (rule managed_put[OF m c(1) name])
  then have "managed w'" using w' by (simp add: managed_def)
  moreover have "refs_live w'"
    unfolding refs_live_def w'
  proof (intro allI conjI ballI)
    fix q
    show "distinct (((cw_lists w)(p := removeAll a (cw_lists w p))) q)" using world_okD(2)[OF w] by (simp add: distinct_removeAll)
    fix b assume b: "b \<in> set (((cw_lists w)(p := removeAll a (cw_lists w p))) q)"
    then have "b \<in> set (cw_lists w q)" by (auto split: if_splits)
    from world_okD(3)[OF w this] obtain d where d: "cw_heap w b = Some d" "IsOn q d" by blast
    show "\<exists>c. ((cw_heap w)(a \<mapsto> ?d\<lparr>m_log := []\<rparr>)) b = Some c \<and> IsOn q c"
      using d b c(1) L(3)[of q] by (cases "b = a") (auto split: if_splits)
  qed
  moreover have "refs_all w'" if exact
    unfolding refs_all_def w'
  proof (intro allI impI conjI)
    fix b d assume d: "((cw_heap w)(a \<mapsto> ?d\<lparr>m_log := []\<rparr>)) b = Some d"
    note all = world_okD(4)[OF w that]
    show "keys_ok d" using d all[of b] all[OF c(1)] L(4) by (auto split: if_splits)
    fix q assume q: "IsOn q d"
    show "b \<in> set (((cw_lists w)(p := removeAll a (cw_lists w p))) q)"
      using d q all[of b] all[OF c(1)] L(5)[of q] by (auto split: if_splits)
  qed
  ultimately show ?thesis unfolding world_ok_def by blast
qed

lemma list_effects_Leave:
  assumes "IsOn p c" "m_log c = []"
  shows "fold (list_effect a q) (moves (Leave e p send c)) L
    = (if send \<and> FindPlayer e p \<noteq> None \<and> p = q then removeAll a L else L)"
  using Leave_parts(2)[OF assms(1), where e = e and send = send] assms(2) by auto

text \<open>The end of a visit: the channel is taken from the list, left, and given up if it is empty.\<close>

lemma remove_channel_fine:
  assumes w: "world_ok exact w" and c: "cw_heap w u = Some c" "IsOn (cp_guid pl) c"
  shows "fine exact R (remove_channel x pl s u send w) \<and> remove_channel x pl s u send w \<noteq> None"
proof -
  let ?p = "cp_guid pl" and ?d = "Leave (cx_base x) (cp_guid pl) send c"
  let ?w1 = "put_channel (cx_row x) u ?d w"
  let ?w2 = "?w1\<lparr>cw_lists := (cw_lists ?w1)(?p := removeAll u (cw_lists ?w1 ?p))\<rparr>"
  note m = world_okD(1)[OF w]
  have log: "m_log c = []" using managed_heap[OF m c(1)] by blast
  have lists: "cw_lists ?w2 = (cw_lists w)(?p := removeAll u (cw_lists w ?p))"
    by (rule ext) (simp add: list_effects_Leave[OF c(2) log])
  have ok: "world_ok exact ?w2"
    by (rule leave_world_ok[OF w c, where e = "cx_base x" and send = send]) (simp_all only: lists, simp_all)
  have name: "m_name ?d = m_name c" using ch_fixedD(3)[OF Leave_parts(1)[OF c(2)]] .
  obtain s' k where "cw_map w s' k = Some u" using managed_heap[OF m c(1)] by blast
  from managed_map[OF m this] c(1) have key: "chan_key (m_name c) = Some k" by auto
  obtain w3 where "mgr_LeftChannel s (m_name c) ?w2 = Some w3" "world_ok exact w3"
    by (rule mgr_LeftChannel_ok[OF ok key, where s = s], rule that, assumption+)
  then show ?thesis using c(1) name by (simp add: remove_channel_def run_channel_def)
qed

lemma cleanup_fine:
  assumes "world_ok exact w"
  shows "\<exists>w'. cleanup x n pl w = Some w' \<and> world_ok exact w'
    \<and> (n = length (cw_lists w (cp_guid pl)) \<longrightarrow> cw_lists w' (cp_guid pl) = [])"
  using assms
proof (induction n arbitrary: w)
  case (Suc n)
  let ?p = "cp_guid pl" and ?e = "cx_base x"
  show ?case
  proof (cases "cw_lists w ?p")
    case Nil with Suc show ?thesis by simp
  next
    case (Cons ch rest)
    note w = Suc.prems
    note m = world_okD(1)[OF w]
    have "ch \<in> set (cw_lists w ?p)" using Cons by simp
    from world_okD(3)[OF w this] obtain c where c: "cw_heap w ch = Some c" "IsOn ?p c" by blast
    have log: "m_log c = []" using managed_heap[OF m c(1)] by blast
    let ?d = "Leave ?e ?p False c"
    let ?w0 = "w\<lparr>cw_lists := (cw_lists w)(?p := rest)\<rparr>"
    let ?w1 = "put_channel (cx_row x) ch ?d ?w0"
    have rest: "rest = removeAll ch (cw_lists w ?p)" using world_okD(2)[OF w, of ?p] Cons by simp
    have lists: "cw_lists ?w1 = (cw_lists w)(?p := removeAll ch (cw_lists w ?p))"
      by (rule ext) (simp add: list_effects_Leave[OF c(2) log] rest[symmetric])
    have ok: "world_ok exact ?w1"
      by (rule leave_world_ok[OF w c, where e = ?e and send = False]) (simp_all only: lists, simp_all)
    have name: "m_name ?d = m_name c" using ch_fixedD(3)[OF Leave_parts(1)[OF c(2)]] .
    obtain s' k where "cw_map w s' k = Some ch" using managed_heap[OF m c(1)] by blast
    from managed_map[OF m this] c(1) have key: "chan_key (m_name c) = Some k" by auto
    have r: "run_channel x ch (Leave ?e ?p False) ?w0 = Some ?w1" "cw_heap ?w1 ch = Some (?d\<lparr>m_log := []\<rparr>)"
      using c(1) by (simp_all add: run_channel_def)
    have step: "cleanup x (Suc n) pl w = Option.bind (case channelMgr ?e (cp_team pl) of None \<Rightarrow> Some ?w1
        | Some s \<Rightarrow> mgr_LeftChannel s (m_name c) ?w1) (cleanup x n pl)"
      using Cons r name by (simp add: Let_def cong: option.case_cong)
    have "\<exists>w2. (case channelMgr ?e (cp_team pl) of None \<Rightarrow> Some ?w1 | Some s \<Rightarrow> mgr_LeftChannel s (m_name c) ?w1) = Some w2
        \<and> world_ok exact w2 \<and> cw_lists w2 = cw_lists ?w1"
    proof (cases "channelMgr ?e (cp_team pl)")
      case (Some s)
      obtain w2 where "mgr_LeftChannel s (m_name c) ?w1 = Some w2" "world_ok exact w2" "cw_lists w2 = cw_lists ?w1"
        by (rule mgr_LeftChannel_ok[OF ok key, where s = s], rule that, assumption+)
      with Some show ?thesis by simp
    qed (use ok in simp)
    then obtain w2 where w2: "cleanup x (Suc n) pl w = cleanup x n pl w2" "world_ok exact w2" "cw_lists w2 = cw_lists ?w1"
      unfolding step by auto
    from Suc.IH[OF w2(2)] obtain w' where w': "cleanup x n pl w2 = Some w'" "world_ok exact w'"
      "n = length (cw_lists w2 ?p) \<Longrightarrow> cw_lists w' ?p = []" by blast
    have "length (cw_lists w2 ?p) = length rest" unfolding w2(3) lists using rest by simp
    with w' w2(1) Cons show ?thesis by auto
  qed
qed simp

lemma find_channel_live:
  assumes "\<And>a. a \<in> set L \<Longrightarrow> h a \<noteq> None"
  obtains r where "find_channel P h L = Some r" "r = None \<or> (\<exists>a\<in>set L. r = Some a)"
  using assms
proof (induction L arbitrary: thesis)
  case (Cons a L)
  obtain c where c: "h a = Some c" using Cons.prems(2)[of a] by auto
  show ?case
  proof (cases "P c")
    case True with c Cons.prems(1)[of "Some a"] show ?thesis by simp
  next
    case False
    show ?thesis
      by (rule Cons.IH) (use Cons.prems c False in auto)
  qed
qed simp

lemma GetJoinChannel_cases:
  assumes w: "world_ok exact w" and R: "R \<longrightarrow> chan_key name \<noteq> None"
  obtains (undef) "\<not> R" "GetJoinChannel x s name i w = None"
  | (got) a w' c where "GetJoinChannel x s name i w = Some (a, w')" "world_ok exact w'" "cw_heap w' a = Some c"
    "\<And>b d. cw_heap w b = Some d \<Longrightarrow> cw_heap w' b = Some d"
proof (cases "chan_key name")
  case None
  then show ?thesis using R by (intro undef) (auto simp: GetJoinChannel_def)
next
  case (Some k)
  show ?thesis by (rule GetJoinChannel_ok[OF w Some, where x = x and s = s and i = i]) (rule got)
qed

lemma local_channel_cases:
  assumes w: "world_ok exact w"
    and R: "R \<longrightarrow> (\<forall>n\<in>{cx_city x, area_NameLang zone}. chan_key (channel_name (cx_names x i) n) \<noteq> None)
      \<and> chan_key (c_str (cx_names x i)) \<noteq> None"
  obtains (undef) "\<not> R" "local_channel x pl s zone i fl used w = None"
  | (chosen) join remove send w' where "local_channel x pl s zone i fl used w = Some (join, remove, send, w')" "world_ok exact w'"
    "\<And>b d. cw_heap w b = Some d \<Longrightarrow> cw_heap w' b = Some d" "\<And>a. join = Some a \<Longrightarrow> cw_heap w' a \<noteq> None"
    "\<And>u. remove = Some u \<Longrightarrow> used = Some u \<and> join \<noteq> Some u"
proof -
  consider (no) "\<not> CanJoinConstantChannelInZone x (cp_guid pl) fl zone"
    | (stay) "CanJoinConstantChannelInZone x (cp_guid pl) fl zone" "\<not> fl AND CHANNEL_DBC_FLAG_GLOBAL \<noteq> 0"
        "fl AND CHANNEL_DBC_FLAG_CITY_ONLY \<noteq> 0 \<and> used \<noteq> None"
    | (zone) "CanJoinConstantChannelInZone x (cp_guid pl) fl zone" "\<not> fl AND CHANNEL_DBC_FLAG_GLOBAL \<noteq> 0"
        "\<not> (fl AND CHANNEL_DBC_FLAG_CITY_ONLY \<noteq> 0 \<and> used \<noteq> None)"
    | (global) "CanJoinConstantChannelInZone x (cp_guid pl) fl zone" "fl AND CHANNEL_DBC_FLAG_GLOBAL \<noteq> 0" by blast
  then show ?thesis
  proof cases
    case no
    then have "local_channel x pl s zone i fl used w = Some (None, used, True, w)" by (simp add: local_channel_def)
    then show ?thesis using w by (rule chosen) simp_all
  next
    case stay
    then have "local_channel x pl s zone i fl used w = Some (None, None, True, w)" by (simp add: local_channel_def)
    then show ?thesis using w by (rule chosen) simp_all
  next
    case zone
    let ?n = "channel_name (cx_names x i) (if fl AND CHANNEL_DBC_FLAG_CITY_ONLY \<noteq> 0 then cx_city x else area_NameLang zone)"
    let ?f = "\<lambda>(a, w). case used of None \<Rightarrow> (Some a, None, True, w)
      | Some u \<Rightarrow> if a \<noteq> u then (Some a, Some u, False, w) else (None, None, True, w)"
    have eq: "local_channel x pl s zone i fl used w = map_option ?f (GetJoinChannel x s ?n i w)"
      using zone by (simp only: local_channel_def if_True if_False simp_thms)
    have k: "R \<longrightarrow> chan_key ?n \<noteq> None" using R by simp
    from w k show ?thesis
    proof (cases rule: GetJoinChannel_cases[where x = x and s = s and i = i])
      case undef
      then show ?thesis using that(1) eq by simp
    next
      case (got a w' c)
      show ?thesis
      proof (cases used)
        case None
        with got eq have "local_channel x pl s zone i fl used w = Some (Some a, None, True, w')" by simp
        then show ?thesis by (rule chosen) (use got in auto)
      next
        case (Some u)
        with got eq have "local_channel x pl s zone i fl used w
            = Some (if a \<noteq> u then (Some a, Some u, False, w') else (None, None, True, w'))" by simp
        then show ?thesis
          by (cases "a = u") (auto intro!: chosen[OF _ got(2)] simp: got(3,4) Some)
      qed
    qed
  next
    case global
    have eq: "local_channel x pl s zone i fl used w
        = map_option (\<lambda>(a, w). (Some a, None, True, w)) (GetJoinChannel x s (c_str (cx_names x i)) i w)"
      using global by (simp only: local_channel_def if_True if_False simp_thms)
    have k: "R \<longrightarrow> chan_key (c_str (cx_names x i)) \<noteq> None" using R by simp
    from w k show ?thesis
    proof (cases rule: GetJoinChannel_cases[where x = x and s = s and i = i])
      case undef
      then show ?thesis using that(1) eq by simp
    next
      case (got a w' c)
      with eq have "local_channel x pl s zone i fl used w = Some (Some a, None, True, w')" by simp
      then show ?thesis by (rule chosen) (use got in auto)
    qed
  qed
qed

lemma update_local_fine:
  assumes w: "world_ok exact w" and inw: "FindPlayer (cx_base x) (cp_guid pl) \<noteq> None"
    and R: "R \<longrightarrow> (\<forall>n\<in>{cx_city x, area_NameLang zone}. chan_key (channel_name (cx_names x i) n) \<noteq> None)
      \<and> chan_key (c_str (cx_names x i)) \<noteq> None"
  shows "fine exact R (update_local x pl s zone i w)"
proof (cases "ce_store (cx_base x) i")
  case None with w show ?thesis by (simp add: update_local_def)
next
  case (Some fl)
  let ?p = "cp_guid pl"
  have live: "cw_heap w a \<noteq> None" if "a \<in> set (cw_lists w ?p)" for a using world_okD(3)[OF w that] by auto
  obtain used where used: "find_channel (\<lambda>c. m_channelId c = i) (cw_heap w) (cw_lists w ?p) = Some used"
      "used = None \<or> (\<exists>a\<in>set (cw_lists w ?p). used = Some a)"
    by (rule find_channel_live[where L = "cw_lists w ?p" and h = "cw_heap w" and P = "\<lambda>c. m_channelId c = i"]) (use live in auto)
  from w R show ?thesis
  proof (cases rule: local_channel_cases[where pl = pl and s = s and fl = fl and used = used])
    case undef
    then show ?thesis using Some used(1) by (simp add: update_local_def)
  next
    case (chosen join remove send w')
    let ?after = "\<lambda>w. case remove of None \<Rightarrow> Some w | Some u \<Rightarrow> remove_channel x pl s u send w"
    have eq: "update_local x pl s zone i w = Option.bind (case join of None \<Rightarrow> Some w'
        | Some a \<Rightarrow> run_channel x a (Join (cx_base x) ?p []) w') ?after"
      using Some used(1) chosen(1) by (simp add: update_local_def)
    obtain w2 where w2: "(case join of None \<Rightarrow> Some w' | Some a \<Rightarrow> run_channel x a (Join (cx_base x) ?p []) w') = Some w2"
        "world_ok exact w2" "\<And>u. join \<noteq> Some u \<Longrightarrow> cw_heap w2 u = cw_heap w' u"
    proof (cases join)
      case None
      then show ?thesis using chosen(2) by (intro that[of w']) simp_all
    next
      case (Some a)
      then obtain c where c: "cw_heap w' a = Some c" using chosen(4) by blast
      obtain w2 where "run_channel x a (Join (cx_base x) ?p []) w' = Some w2" "world_ok exact w2"
          "cw_heap w2 = (cw_heap w')(a \<mapsto> (Join (cx_base x) ?p [] c)\<lparr>m_log := []\<rparr>)"
        by (rule run_channel_ok[where f = "Join (cx_base x) ?p []", OF chosen(2) c tracks_Join[OF inw]], rule that, assumption+)
      then show ?thesis using Some by (intro that[of w2]) simp_all
    qed
    have "fine exact R (?after w2)"
    proof (cases remove)
      case (Some u)
      then have u: "used = Some u" "join \<noteq> Some u" using chosen(5) by simp_all
      then have "u \<in> set (cw_lists w ?p)" using used(2) by auto
      from world_okD(3)[OF w this] obtain c where c: "cw_heap w u = Some c" "IsOn ?p c" by blast
      then have "cw_heap w2 u = Some c" using chosen(3) w2(3)[OF u(2)] by simp
      from remove_channel_fine[OF w2(2) this c(2)] show ?thesis using Some by simp
    qed (use w2(2) in simp)
    then show ?thesis unfolding eq w2(1) by simp
  qed
qed

end
