(* ===== verification/ChannelRuns.thy ===== *)
theory ChannelRuns
  imports ChannelWorld
begin

text \<open>
  Runs of the chat world: every packet, zone change, return from another realm and logout, in any order and from any player. No list of a
  player ever holds a channel that is gone, no handler runs into undefined behaviour on names of the basic
  plane, and a logout leaves no trace of the player. The last theorem shows the case the code gets wrong.
\<close>

subsection \<open>Inputs and runs\<close>

datatype chat_input = RecvJoin ByteBuffer | RecvLeave ByteBuffer | RecvList ByteBuffer | RecvCommand ch_command ByteBuffer
  | Spoken bool cstring cstring u32 | ZoneUpdate bool bool u32 | LocaleUpdate | LfgLeft | CrossReturn "cstring list" | Logout | NewSession

fun HandleCommand :: "ch_command \<Rightarrow> chat_env \<Rightarrow> int \<Rightarrow> ChPlayer \<Rightarrow> ByteBuffer \<Rightarrow> chat_world \<Rightarrow> chat_world option" where
  "HandleCommand CmdPass = HandleChannelPassword"
| "HandleCommand CmdSetowner = HandleChannelSetOwner"
| "HandleCommand CmdOwner = HandleChannelOwner"
| "HandleCommand CmdModer = HandleChannelModerator"
| "HandleCommand CmdUnmoder = HandleChannelUnmoderator"
| "HandleCommand CmdMute = HandleChannelMute"
| "HandleCommand CmdUnmute = HandleChannelUnmute"
| "HandleCommand CmdInvite = HandleChannelInvite"
| "HandleCommand CmdKick = HandleChannelKick"
| "HandleCommand CmdBan = HandleChannelBan"
| "HandleCommand CmdUnban = HandleChannelUnban"
| "HandleCommand CmdAnnounce = HandleChannelAnnouncements"

fun chat_exec :: "chat_env \<Rightarrow> int \<Rightarrow> ChPlayer \<Rightarrow> chat_input \<Rightarrow> chat_world \<Rightarrow> chat_world option" where
  "chat_exec x now pl (RecvJoin pkt) w = HandleJoinChannel x pl pkt w"
| "chat_exec x now pl (RecvLeave pkt) w = HandleLeaveChannel x pl pkt w"
| "chat_exec x now pl (RecvList pkt) w = HandleChannelList x pl pkt w"
| "chat_exec x now pl (RecvCommand cmd pkt) w = HandleCommand cmd x now pl pkt w"
| "chat_exec x now pl (Spoken low name what lang) w = HandleMessagechat_channel x pl low name what lang w"
| "chat_exec x now pl (ZoneUpdate loading far zone) w = UpdateLocalChannels x pl loading far zone w"
| "chat_exec x now pl LocaleUpdate w = player_UpdateChatLocaleFiltering x pl w"
| "chat_exec x now pl LfgLeft w = LeaveLFGChannel x pl w"
| "chat_exec x now pl (CrossReturn saved) w = RestoreSpecialChannels x pl saved w"
| "chat_exec x now pl Logout w = CleanupChannels x pl w"
| "chat_exec x now pl NewSession w = Some (w\<lparr>cw_times := (cw_times w)(cp_account pl := (\<lambda>_. 0))\<rparr>)"

text \<open>Players send packets while they are in the world; a logout may find them outside, and a session begins without.\<close>

definition present :: "chat_env \<Rightarrow> ChPlayer \<Rightarrow> chat_input \<Rightarrow> bool" where
  "present x pl inp \<longleftrightarrow> inp = Logout \<or> inp = NewSession \<or> FindPlayer (cx_base x) (cp_guid pl) \<noteq> None"

text \<open>A kick or ban that names its sender.\<close>

definition names_self :: "chat_env \<Rightarrow> ChPlayer \<Rightarrow> ByteBuffer \<Rightarrow> bool" where
  "names_self x pl pkt \<longleftrightarrow> (case fst (two_strings 7 9 pkt) of Inl _ \<Rightarrow> False
     | Inr (name, who) \<Rightarrow>
         (case normalizePlayerName (cx_stack x) who of
            Some (True, n) \<Rightarrow> map_option cp_guid (FindPlayerByName (cx_base x) n) = Some (cp_guid pl)
          | _ \<Rightarrow> False))"

fun kicks_self :: "chat_env \<Rightarrow> ChPlayer \<Rightarrow> chat_input \<Rightarrow> bool" where
  "kicks_self x pl (RecvCommand cmd pkt) = ((cmd = CmdKick \<or> cmd = CmdBan) \<and> names_self x pl pkt)"
| "kicks_self x pl _ = False"

definition chat_start :: "(Side \<Rightarrow> u32) \<Rightarrow> ch_table \<Rightarrow> chat_world" where
  "chat_start teams tbl = \<lparr>cw_map = (\<lambda>_ _. None), cw_team = teams, cw_heap = (\<lambda>_. None), cw_next = 0,
     cw_lists = (\<lambda>_. []), cw_table = tbl, cw_log = [], cw_times = (\<lambda>_ _. 0)\<rparr>"

text \<open>With \<open>exact\<close>, runs in which nobody kicks or bans himself.\<close>

inductive chat_reach :: "bool \<Rightarrow> chat_world \<Rightarrow> bool" for exact where
  start: "chat_reach exact (chat_start teams tbl)"
| step: "chat_reach exact w \<Longrightarrow> present x pl inp \<Longrightarrow> (exact \<longrightarrow> \<not> kicks_self x pl inp)
    \<Longrightarrow> chat_exec x now pl inp w = Some w' \<Longrightarrow> chat_reach exact w'"

subsection \<open>What packets hold\<close>

text \<open>A text is clean if no byte of it starts a sequence of four bytes.\<close>

definition clean :: "cstring \<Rightarrow> bool" where
  "clean s \<longleftrightarrow> list_all (\<lambda>b. b < 0xF0) s"

lemma clean_simps [simp]: "clean []" "clean (b # s) \<longleftrightarrow> b < 0xF0 \<and> clean s" "clean (s @ t) \<longleftrightarrow> clean s \<and> clean t"
  by (simp_all add: clean_def)

lemma clean_subset: "clean s \<Longrightarrow> set t \<subseteq> set s \<Longrightarrow> clean t"
  by (auto simp: clean_def list_all_iff)

lemma octets_clean: "is_code_point_valid cp \<Longrightarrow> clean (octets cp) \<Longrightarrow> cp \<le> 0xFFFF"
proof (rule ccontr)
  assume v: "is_code_point_valid cp" and c: "clean (octets cp)" and "\<not> cp \<le> 0xFFFF"
  then have big: "\<not> cp < 0x80" "\<not> cp < 0x800" "\<not> cp < 0x10000" by (simp_all add: word_less_nat_alt word_le_nat_alt)
  let ?c = "ucast (drop_bit 18 cp OR 0xF0) :: u8"
  have "hd (octets cp) = ?c" "octets cp \<noteq> []" using v big by (simp_all add: octets_def utf8_append_def)
  then have "?c < 0xF0" using c by (cases "octets cp") simp_all
  moreover have "drop_bit 3 ?c = 0x1E" by (rule encode_4(1)[OF valid_less[OF v]])
  then have "unat ?c div 8 = 30" using unat_drop_bit_eq[of 3 ?c] by (simp add: drop_bit_eq_div)
  ultimately show False by (simp add: word_less_nat_alt)
qed

lemma clean_bmp: "valid_text cps \<Longrightarrow> clean (utext cps) \<Longrightarrow> bmp cps"
  by (induction cps) (simp_all add: octets_clean)

lemma Utf8toWStr_clean: "clean s \<Longrightarrow> Utf8toWStr s [] \<noteq> None"
proof (cases s rule: text_cases)
  case (good cps)
  assume "clean s"
  then show ?thesis using Utf8toWStr_text[OF good(1)] clean_bmp[OF good(1)] good(2) by simp
qed (simp add: Utf8toWStr_def)

lemma chan_key_clean: "clean s \<Longrightarrow> chan_key s \<noteq> None"
  using Utf8toWStr_clean[of s] by (simp add: chan_key_def)

lemma Utf8toWStr_buf_clean:
  assumes "clean s" "n < length mem" "0 < n"
  shows "Utf8toWStr_buf s mem n \<noteq> None"
proof (cases s rule: text_cases)
  case (bad e)
  then show ?thesis using assms by (simp add: Utf8toWStr_buf_def conversion_failed_def put_units_def)
next
  case (good cps)
  have "length (units cps) = length cps" using length_units(2) clean_bmp[OF good(1)] good(2) assms(1) by simp
  then show ?thesis using assms good(3,4)
    by (simp add: Utf8toWStr_buf_def conversion_failed_def put_units_def del: not_None_eq)
qed

lemma WStrToUtf8_defined: "WStrToUtf8 ws \<noteq> None"
  by (simp add: WStrToUtf8_value del: not_None_eq split: sum.split)

lemma normalize_clean:
  assumes "clean s"
  shows "normalizePlayerName mem s \<noteq> None"
proof -
  have "Utf8toWStr_buf s (resize_to 16 mem) 15 \<noteq> None"
    by (rule Utf8toWStr_buf_clean[OF assms]) (simp_all add: resize_to_def)
  then show ?thesis using WStrToUtf8_defined
    by (auto simp: normalizePlayerName_def MAX_INTERNAL_PLAYER_NAME_def Let_def simp del: not_None_eq split: option.split)
qed

text \<open>\<open>yields st Q m\<close>: reading from the storage \<open>st\<close> keeps it and gives values with \<open>Q\<close>.\<close>

definition yields :: "u8 list \<Rightarrow> ('a \<Rightarrow> bool) \<Rightarrow> 'a bb \<Rightarrow> bool" where
  "yields st Q m \<longleftrightarrow> (\<forall>b. storage b = st \<longrightarrow> storage (snd (m b)) = st \<and> (\<forall>a. fst (m b) = Inr a \<longrightarrow> Q a))"

lemma yieldsI: "(\<And>b. storage b = st \<Longrightarrow> storage (snd (m b)) = st) \<Longrightarrow> (\<And>b a. storage b = st \<Longrightarrow> fst (m b) = Inr a \<Longrightarrow> Q a)
    \<Longrightarrow> yields st Q m"
  unfolding yields_def by blast

lemma yieldsD: "yields st Q m \<Longrightarrow> storage b = st \<Longrightarrow> fst (m b) = Inr a \<Longrightarrow> Q a"
  unfolding yields_def by blast

lemma yields_retS: "Q a \<Longrightarrow> yields st Q (retS a)"
  by (simp add: yields_def)

lemma yields_bindS: "yields st P m \<Longrightarrow> (\<And>a. P a \<Longrightarrow> yields st Q (f a)) \<Longrightarrow> yields st Q (bindS m f)"
  unfolding yields_def bindS_def by (auto split: prod.splits sum.splits)

lemma yields_foldS: "(\<And>i a. yields st (\<lambda>_. True) (f i a)) \<Longrightarrow> yields st (\<lambda>_. True) (foldS f xs a)"
  by (induction xs arbitrary: a) (auto intro: yields_retS yields_bindS)

lemma yields_read_val: "yields st (\<lambda>_. True) read_val"
  by (simp add: yields_def read_val_def bindS_def read_at_def Let_def)

lemma yields_ReadBit: "yields st (\<lambda>_. True) ReadBit"
  by (simp add: yields_def ReadBit_def read_val_def bindS_def read_at_def Let_def)

lemma yields_ReadBits: "yields st (\<lambda>_. True) (ReadBits n)"
  unfolding ReadBits_def
  by (intro yields_foldS yields_bindS[OF yields_ReadBit]) (simp add: yields_def throwS_def)

lemma yields_ReadString: "yields st (\<lambda>s. set s \<subseteq> set st) (ReadString n)"
proof (rule yieldsI)
  fix b :: ByteBuffer assume b: "storage b = st"
  show "storage (snd (ReadString n b)) = st" using b by (simp add: ReadString_def read_bytes_def bindS_def)
  fix s assume "fst (ReadString n b) = Inr s"
  then have "n = 0 \<and> s = [] \<or> s = takeWhile (\<lambda>c. c \<noteq> 0) (take n (drop (rpos b) st))"
    using b by (auto simp: ReadString_def read_bytes_def bindS_def split: if_splits)
  then show "set s \<subseteq> set st" by (auto dest!: set_takeWhileD in_set_takeD in_set_dropD)
qed

lemma yields_one: "yields st (\<lambda>s. set s \<subseteq> set st) (one_string n)"
  unfolding one_string_def by (intro yields_bindS[OF yields_ReadBits] yields_ReadString)

lemma yields_two: "yields st (\<lambda>(a, b). set a \<subseteq> set st \<and> set b \<subseteq> set st) (two_strings n m)"
  unfolding two_strings_def
  by (intro yields_bindS[OF yields_ReadBits] yields_bindS[OF yields_ReadString] yields_retS) simp

lemma yields_join: "yields st (\<lambda>(i, a, b). set a \<subseteq> set st \<and> set b \<subseteq> set st) read_join"
  unfolding read_join_def
  by (intro yields_bindS[OF yields_read_val] yields_bindS[OF yields_ReadBit] yields_bindS[OF yields_two])
    (auto intro: yields_retS)

lemma yields_leave: "yields st (\<lambda>s. set s \<subseteq> set st) (bindS (read_val :: u32 bb) (\<lambda>_. one_string 7))"
  by (intro yields_bindS[OF yields_read_val] yields_one)


subsection \<open>Every handler keeps the world\<close>

lemma GetJoin_run_fine:
  assumes "world_ok exact w" "R \<longrightarrow> chan_key name \<noteq> None" and t: "\<And>c. tracks exact c (f c)"
  shows "fine exact R (Option.bind (GetJoinChannel x s name i w) (\<lambda>(a, w). run_channel x a f w))"
  using assms(1,2)
proof (cases rule: GetJoinChannel_cases[where x = x and s = s and i = i])
  case (got a w' c)
  obtain w2 where "run_channel x a f w' = Some w2" "world_ok exact w2"
    by (rule run_channel_ok[where f = f, OF got(2,3) t], rule that, assumption+)
  with got(1) show ?thesis by simp
qed simp

lemma join_fine:
  assumes w: "world_ok exact w" and p: "FindPlayer (cx_base x) (cp_guid pl) \<noteq> None" and R: "R \<longrightarrow> clean (storage pkt)"
  shows "fine exact R (HandleJoinChannel x pl pkt w)"
  unfolding HandleJoinChannel_def
proof (rule received_fine[OF w])
  fix r assume r: "fst (read_join pkt) = Inr r"
  obtain i name pass where [simp]: "r = (i, name, pass)" by (cases r)
  have "set name \<subseteq> set (storage pkt)" using yieldsD[OF yields_join refl r] by simp
  then have "R \<longrightarrow> chan_key name \<noteq> None" using R clean_subset chan_key_clean by blast
  note F = GetJoin_run_fine[OF _ this tracks_Join[OF p]]
  show "fine exact R (case r of (channelId, channelName, pass) \<Rightarrow>
     if channelId \<noteq> 0 \<and> \<not> may_join_builtin x pl channelId then Some w
     else if channelName = [] then Some w
     else if \<not> isValidChatMessage x channelName then Some w
     else case channelMgr (cx_base x) (cp_team pl) of
            None \<Rightarrow> Some w
          | Some s \<Rightarrow>
              let w = w\<lparr>cw_team := (cw_team w)(s := cp_team pl)\<rparr>
              in Option.bind (GetJoinChannel x s channelName channelId w) (\<lambda>(a, w).
                 run_channel x a (Join (cx_base x) (cp_guid pl) pass) w))"
    using w F by (simp add: Let_def split: option.split)
qed

lemma leave_fine:
  assumes w: "world_ok exact w" and p: "FindPlayer (cx_base x) (cp_guid pl) \<noteq> None" and R: "R \<longrightarrow> clean (storage pkt)"
  shows "fine exact R (HandleLeaveChannel x pl pkt w)"
  unfolding HandleLeaveChannel_def
proof (rule received_fine[OF w])
  let ?f = "Leave (cx_base x) (cp_guid pl) True"
  fix name assume r: "fst (bindS (read_val :: u32 bb) (\<lambda>_. one_string 7) pkt) = Inr name"
  have "set name \<subseteq> set (storage pkt)" using yieldsD[OF yields_leave refl r] .
  then have key: "R \<longrightarrow> chan_key name \<noteq> None" using R clean_subset chan_key_clean by blast
  have "fine exact R (Option.bind (GetChannel s name (cp_guid pl) True w) (\<lambda>(ch, w).
              Option.bind (case ch of None \<Rightarrow> Some w | Some a \<Rightarrow> run_channel x a ?f w) (mgr_LeftChannel s name)))" for s
  proof (cases "chan_key name")
    case None
    then show ?thesis using key by (simp add: GetChannel_def)
  next
    case (Some k)
    have left: "fine exact R (mgr_LeftChannel s name w)" if w: "world_ok exact w" for w
      by (rule mgr_LeftChannel_ok[OF w Some, where s = s]) simp
    from w Some show ?thesis
    proof (cases rule: GetChannel_ok[of exact w name k s "cp_guid pl" True])
      case (none w')
      then show ?thesis using left by simp
    next
      case (some a c)
      obtain w2 where "run_channel x a ?f w = Some w2" "world_ok exact w2"
        by (rule run_channel_ok[where f = ?f, OF w some(2) tracks_Leave[OF p]], rule that, assumption+)
      then show ?thesis using some(1) left by simp
    qed
  qed
  then show "fine exact R (if name = [] then Some w
     else case channelMgr (cx_base x) (cp_team pl) of
            None \<Rightarrow> Some w
          | Some s \<Rightarrow>
              Option.bind (GetChannel s name (cp_guid pl) True w) (\<lambda>(ch, w).
              Option.bind (case ch of None \<Rightarrow> Some w
                           | Some a \<Rightarrow> run_channel x a (Leave (cx_base x) (cp_guid pl) True) w) (\<lambda>w.
              mgr_LeftChannel s name w)))"
    using w by (simp split: option.split)
qed

lemma list_fine:
  assumes w: "world_ok exact w" and R: "R \<longrightarrow> clean (storage pkt)"
  shows "fine exact R (HandleChannelList x pl pkt w)"
  unfolding HandleChannelList_def
proof (rule received_fine[OF w])
  fix name assume "fst (one_string 7 pkt) = Inr name"
  then have "set name \<subseteq> set (storage pkt)" by (rule yieldsD[OF yields_one refl])
  then have "R \<Longrightarrow> chan_key name \<noteq> None" using R clean_subset chan_key_clean by blast
  from on_channel_fine[OF w this tracks_sends(2)]
  show "fine exact R (if \<not> isValidChatMessage x name then Some w else on_channel x pl name (ch_List (cx_base x) pl) w)"
    using w by simp
qed

lemma speak_fine:
  assumes w: "world_ok exact w" and R: "R \<longrightarrow> clean name"
  shows "fine exact R (HandleMessagechat_channel x pl low name what lang w)"
  using on_channel_fine[OF w _ tracks_Say] w R chan_key_clean by (simp add: HandleMessagechat_channel_def)

lemma restore_fine:
  assumes w: "world_ok exact w" and p: "FindPlayer (cx_base x) (cp_guid pl) \<noteq> None" and R: "R \<longrightarrow> list_all clean saved"
  shows "fine exact R (RestoreSpecialChannels x pl saved w)"
proof (cases "channelMgr (cx_base x) (cp_team pl)")
  case None with w show ?thesis by (simp add: RestoreSpecialChannels_def)
next
  case (Some s)
  let ?f = "\<lambda>c. Join (cx_base x) (cp_guid pl) (c_str (m_password c)) c"
  have "fine exact R (bind_all (\<lambda>name w. Option.bind (GetJoinChannel x s name 0 w) (\<lambda>(a, w). run_channel x a ?f w)) saved w)"
  proof (rule fine_bind_all[OF _ w])
    fix name w assume name: "name \<in> set saved" and w: "world_ok exact w"
    show "fine exact R (Option.bind (GetJoinChannel x s name 0 w) (\<lambda>(a, w). run_channel x a ?f w))"
    proof (rule GetJoin_run_fine[OF w _ tracks_Join[OF p]])
      show "R \<longrightarrow> chan_key name \<noteq> None" using R name chan_key_clean by (auto simp: list_all_iff simp del: not_None_eq)
    qed
  qed
  then show ?thesis using Some by (simp add: RestoreSpecialChannels_def)
qed

text \<open>Commands of one string, and of a channel and a player.\<close>

lemma one_fine:
  assumes w: "world_ok exact w" and R: "R \<longrightarrow> clean (storage pkt)" and t: "\<And>c. tracks exact c (f c)"
  shows "fine exact R (throttled cmd now pl w (\<lambda>w. received (one_string n) pkt w (\<lambda>name. on_channel x pl name f w)))"
proof (rule throttled_fine[OF w], rule received_fine, assumption)
  fix w name assume w: "world_ok exact w" and "fst (one_string n pkt) = Inr name"
  then have "set name \<subseteq> set (storage pkt)" using yieldsD[OF yields_one refl] by blast
  then have "R \<Longrightarrow> chan_key name \<noteq> None" using R clean_subset chan_key_clean by blast
  from on_channel_fine[OF w this t] show "fine exact R (on_channel x pl name f w)" .
qed

lemma two_fine:
  assumes w: "world_ok exact w" and R: "R \<longrightarrow> clean (storage pkt)"
    and t: "\<And>name who n c. fst (two_strings 7 9 pkt) = Inr (name, who) \<Longrightarrow> normalizePlayerName (cx_stack x) who = Some (True, n)
      \<Longrightarrow> tracks exact c (f n c)"
  shows "fine exact R (throttled cmd now pl w (\<lambda>w. received (two_strings 7 9) pkt w (\<lambda>(name, who).
     normalized x who w (\<lambda>who. if \<not> (v \<longrightarrow> isValidChatMessage x name) then Some w else on_channel x pl name (f who) w))))"
proof (rule throttled_fine[OF w], rule received_fine, assumption)
  fix w a assume w: "world_ok exact w" and a: "fst (two_strings 7 9 pkt) = Inr a"
  obtain name who where [simp]: "a = (name, who)" by (cases a)
  have s: "set name \<subseteq> set (storage pkt)" "set who \<subseteq> set (storage pkt)" using yieldsD[OF yields_two refl a] by simp_all
  have k: "R \<Longrightarrow> chan_key name \<noteq> None" using R s(1) clean_subset chan_key_clean by blast
  have n: "R \<Longrightarrow> normalizePlayerName (cx_stack x) who \<noteq> None" using R s(2) clean_subset normalize_clean by blast
  have "fine exact R (normalized x who w (\<lambda>who. if \<not> (v \<longrightarrow> isValidChatMessage x name) then Some w else on_channel x pl name (f who) w))"
  proof (rule normalized_fine[OF w n])
    fix m assume m: "normalizePlayerName (cx_stack x) who = Some (True, m)"
    have "fine exact R (on_channel x pl name (f m) w)" 
      by (rule on_channel_fine[OF w]) (use k t[OF _ m] a in simp_all)
    then show "fine exact R (if \<not> (v \<longrightarrow> isValidChatMessage x name) then Some w else on_channel x pl name (f m) w)" using w by simp
  qed
  then show "fine exact R (case a of (name, who) \<Rightarrow> normalized x who w (\<lambda>who. if \<not> (v \<longrightarrow> isValidChatMessage x name) then Some w
      else on_channel x pl name (f who) w))" by simp
qed

lemma tracks_kick_sent:
  assumes "exact \<longrightarrow> \<not> names_self x pl pkt" "fst (two_strings 7 9 pkt) = Inr (name, who)"
    "normalizePlayerName (cx_stack x) who = Some (True, n)"
  shows "tracks exact c (KickOrBan (cx_base x) (cp_guid pl) n ban c)"
  by (rule tracks_KickOrBan) (use assms in \<open>auto simp: names_self_def\<close>)

lemma password_fine:
  assumes w: "world_ok exact w" and R: "R \<longrightarrow> clean (storage pkt)"
  shows "fine exact R (HandleChannelPassword x now pl pkt w)"
  unfolding HandleChannelPassword_def
proof (rule throttled_fine[OF w], rule received_fine, assumption)
  fix w a assume w: "world_ok exact w" and a: "fst (two_strings 7 7 pkt) = Inr a"
  obtain name pass where [simp]: "a = (name, pass)" by (cases a)
  have "set name \<subseteq> set (storage pkt)" using yieldsD[OF yields_two refl a] by simp
  then have "R \<Longrightarrow> chan_key name \<noteq> None" using R clean_subset chan_key_clean by blast
  from on_channel_fine[OF w this tracks_settings(2)]
  show "fine exact R (case a of (name, pass) \<Rightarrow> on_channel x pl name (Password (cx_base x) (cp_guid pl) pass) w)" by simp
qed

lemma command_fine:
  assumes w: "world_ok exact w" and R: "R \<longrightarrow> clean (storage pkt)"
    and k: "exact \<longrightarrow> \<not> kicks_self x pl (RecvCommand cmd pkt)"
  shows "fine exact R (HandleCommand cmd x now pl pkt w)"
proof -
  note two = two_fine[where v = False, OF w R, simplified]
  note one = one_fine[OF w R]
  have kick: "exact \<longrightarrow> \<not> names_self x pl pkt" if "cmd = CmdKick \<or> cmd = CmdBan" using k that by simp
  show ?thesis
    by (cases cmd) (simp_all add: password_fine[OF w R] HandleChannelSetOwner_def HandleChannelOwner_def
      HandleChannelModerator_def HandleChannelUnmoderator_def HandleChannelMute_def HandleChannelUnmute_def
      HandleChannelInvite_def HandleChannelKick_def HandleChannelBan_def HandleChannelUnban_def HandleChannelAnnouncements_def
      one two two_fine[where v = True, OF w R, simplified] tracks_sends tracks_settings tracks_SetMode tracks_SetOwner_name
      tracks_kick_sent[OF kick])
qed


subsection \<open>Zones, locales and logouts\<close>

text \<open>The names the stores give are clean.\<close>

definition clean_env :: "chat_env \<Rightarrow> bool" where
  "clean_env x \<longleftrightarrow> (\<forall>i. clean (cx_names x i)) \<and> clean (cx_city x) \<and> (\<forall>z e. cx_area x z = Some e \<longrightarrow> clean (area_NameLang e))"

fun clean_input :: "chat_input \<Rightarrow> bool" where
  "clean_input (RecvJoin pkt) = clean (storage pkt)"
| "clean_input (RecvLeave pkt) = clean (storage pkt)"
| "clean_input (RecvList pkt) = clean (storage pkt)"
| "clean_input (RecvCommand cmd pkt) = clean (storage pkt)"
| "clean_input (Spoken low name what lang) = clean name"
| "clean_input (CrossReturn saved) = list_all clean saved"
| "clean_input _ = True"

lemma clean_c_str: "clean s \<Longrightarrow> clean (c_str s)"
  by (rule clean_subset) (auto simp: c_str_def dest: set_takeWhileD)

lemma clean_format: "clean arg \<Longrightarrow> clean fmt \<Longrightarrow> clean (format_s arg fmt)"
  by (induction arg fmt rule: format_s.induct) simp_all

lemma clean_channel_name: "clean fmt \<Longrightarrow> clean arg \<Longrightarrow> clean (channel_name fmt arg)"
  unfolding channel_name_def by (rule clean_subset[OF clean_format set_take_subset]) (simp_all add: clean_c_str)

lemma zone_fine:
  assumes w: "world_ok exact w" and p: "FindPlayer (cx_base x) (cp_guid pl) \<noteq> None" and R: "R \<longrightarrow> clean_env x"
  shows "fine exact R (UpdateLocalChannels x pl loading far z w)"
proof -
  have "fine exact R (bind_all (\<lambda>i. update_local x pl s zone (word_of_nat i)) is w)" if "cx_area x z = Some zone" for s zone "is"
  proof (rule fine_bind_all[OF _ w])
    fix a w assume "world_ok exact w"
    then show "fine exact R (update_local x pl s zone (word_of_nat a) w)"
    proof (rule update_local_fine[OF _ p])
      show "R \<longrightarrow> (\<forall>n\<in>{cx_city x, area_NameLang zone}. chan_key (channel_name (cx_names x (word_of_nat a)) n) \<noteq> None)
          \<and> chan_key (c_str (cx_names x (word_of_nat a))) \<noteq> None"
        using R that by (auto simp: clean_env_def intro!: chan_key_clean clean_channel_name clean_c_str simp del: not_None_eq)
    qed
  qed
  then show ?thesis using w by (simp add: UpdateLocalChannels_def split: option.split)
qed

lemma listed_live: "world_ok exact w \<Longrightarrow> a \<in> set (cw_lists w p) \<Longrightarrow> cw_heap w a \<noteq> None"
  using world_okD(3) by blast

lemma locale_fine:
  assumes w: "world_ok exact w"
  shows "fine exact R (player_UpdateChatLocaleFiltering x pl w)"
proof -
  let ?f = "UpdateChatLocaleFiltering (cx_base x) (Some pl)"
  have "fine exact R (bind_all (\<lambda>a. run_channel x a ?f) as w)"
    if "world_ok exact w" "\<And>a. a \<in> set as \<Longrightarrow> cw_heap w a \<noteq> None" for as w
    using that
  proof (induction as arbitrary: w)
    case (Cons a as)
    obtain c where c: "cw_heap w a = Some c" using Cons.prems(2)[of a] by auto
    obtain w2 where w2: "run_channel x a ?f w = Some w2" "world_ok exact w2" "cw_heap w2 = (cw_heap w)(a \<mapsto> (?f c)\<lparr>m_log := []\<rparr>)"
      by (rule run_channel_ok[where f = ?f, OF Cons.prems(1) c tracks_Locale], rule that, assumption+)
    have "fine exact R (bind_all (\<lambda>a. run_channel x a ?f) as w2)"
      by (rule Cons.IH[OF w2(2)]) (use Cons.prems(2) w2(3) in simp)
    then show ?case using w2(1) by simp
  qed simp
  from this[OF w listed_live[OF w]] show ?thesis by (simp add: player_UpdateChatLocaleFiltering_def)
qed

lemma lfg_fine:
  assumes w: "world_ok exact w" and p: "FindPlayer (cx_base x) (cp_guid pl) \<noteq> None"
  shows "fine exact R (LeaveLFGChannel x pl w)"
proof -
  let ?L = "cw_lists w (cp_guid pl)" and ?f = "Leave (cx_base x) (cp_guid pl) True"
  obtain r where r: "find_channel IsLFG (cw_heap w) ?L = Some r" "r = None \<or> (\<exists>a\<in>set ?L. r = Some a)"
    by (rule find_channel_live[where L = ?L and h = "cw_heap w" and P = IsLFG]) (use listed_live[OF w] in blast)+
  show ?thesis
  proof (cases r)
    case None with r(1) w show ?thesis by (simp add: LeaveLFGChannel_def)
  next
    case (Some a)
    then obtain c where c: "cw_heap w a = Some c" using r(2) listed_live[OF w] by blast
    obtain w2 where "run_channel x a ?f w = Some w2" "world_ok exact w2"
      by (rule run_channel_ok[where f = ?f, OF w c tracks_Leave[OF p]], rule that, assumption+)
    with r(1) Some show ?thesis by (simp add: LeaveLFGChannel_def)
  qed
qed

lemma logout_ok:
  assumes "world_ok exact w"
  obtains w' where "CleanupChannels x pl w = Some w'" "world_ok exact w'" "cw_lists w' (cp_guid pl) = []"
  using cleanup_fine[OF assms, of x "length (cw_lists w (cp_guid pl))" pl] unfolding CleanupChannels_def by blast

lemma chat_exec_fine:
  assumes w: "world_ok exact w" and p: "present x pl inp" and k: "exact \<longrightarrow> \<not> kicks_self x pl inp"
    and R: "R \<longrightarrow> clean_env x \<and> clean_input inp"
  shows "fine exact R (chat_exec x now pl inp w)"
proof -
  have in_world: "FindPlayer (cx_base x) (cp_guid pl) \<noteq> None" if "inp \<noteq> Logout" "inp \<noteq> NewSession" using p that by (simp add: present_def)
  show ?thesis
  proof (cases inp)
    case (RecvJoin pkt) then show ?thesis using join_fine[OF w in_world] R by simp
  next
    case (RecvLeave pkt) then show ?thesis using leave_fine[OF w in_world] R by simp
  next
    case (RecvList pkt) then show ?thesis using list_fine[OF w] R by simp
  next
    case (RecvCommand cmd pkt)
    then show ?thesis using command_fine[OF w _ k[unfolded RecvCommand]] R by simp
  next
    case (Spoken low name what lang) then show ?thesis using speak_fine[OF w] R by simp
  next
    case (CrossReturn saved) then show ?thesis using restore_fine[OF w in_world] R by simp
  next
    case (ZoneUpdate l f z) then show ?thesis using zone_fine[OF w in_world] R by simp
  next
    case LocaleUpdate then show ?thesis using locale_fine[OF w] by simp
  next
    case LfgLeft then show ?thesis using lfg_fine[OF w in_world] by simp
  next
    case NewSession then show ?thesis using w by simp
  next
    case Logout
    show ?thesis by (rule logout_ok[OF w, of x pl]) (simp add: Logout)
  qed
qed

text \<open>The channels of a player who leaves for another realm are alive.\<close>

lemma special_names_live: "(\<And>a. a \<in> set as \<Longrightarrow> h a \<noteq> None) \<Longrightarrow> \<exists>ns. special_names h as = Some ns
    \<and> set ns = {m_name c | a c. a \<in> set as \<and> h a = Some c \<and> \<not> IsConstant c}"
proof (induction as)
  case (Cons a as)
  obtain c where c: "h a = Some c" using Cons.prems[of a] by auto
  obtain ns where "special_names h as = Some ns" "set ns = {m_name c | a c. a \<in> set as \<and> h a = Some c \<and> \<not> IsConstant c}"
    using Cons.IH Cons.prems by auto
  with c show ?case by (auto simp: exI)
qed simp

lemma start_ok: "world_ok exact (chat_start teams tbl)"
  by (simp add: world_ok_def managed_def refs_live_def refs_all_def chat_start_def)

lemma reach_ok: "chat_reach exact w \<Longrightarrow> world_ok exact w"
proof (induction rule: chat_reach.induct)
  case (step w x pl inp now w')
  from chat_exec_fine[OF step.IH step.hyps(2,3), of False now] step.hyps(4) show ?case by simp
qed (rule start_ok)

lemma kick_alone:
  assumes "m_Players c = [(p, i)]" "pi_IsModerator i" "FindPlayerByName e name = Some pl" "cp_guid pl = p"
    "m_ownerGUID c = p"
  shows "KickOrBan e p name ban c = kick_out e p p ban c"
proof -
  have m: "map_of (m_Players c) p = Some i" "sm_erase p (m_Players c) = []" unfolding assms(1) by (simp_all add: sm_erase_def)
  then have "IsOn p c" "may_moderate e p c" using assms(2) by (simp_all add: IsOn_def may_moderate_def)
  then have "KickOrBan e p name ban c = kick_or_ban e p p ban c" using assms(3-5) by (simp add: KickOrBan_def)
  then show ?thesis using m(2) by (simp add: kick_or_ban_eq)
qed

text \<open>C4. Whatever packets arrive, in any order and from any player: the channels in a player's list are distinct,
  alive, under the key of their name in one of the managers, and have the player as a member.\<close>

theorem chat_no_dangling:
  assumes "chat_reach exact w"
  shows "distinct (cw_lists w p) \<and> list_all (\<lambda>a. \<exists>c s k. cw_heap w a = Some c \<and> IsOn p c
    \<and> cw_map w s k = Some a \<and> chan_key (m_name c) = Some k) (cw_lists w p)"
proof
  note w = reach_ok[OF assms]
  show "distinct (cw_lists w p)" by (rule world_okD(2)[OF w])
  show "list_all (\<lambda>a. \<exists>c s k. cw_heap w a = Some c \<and> IsOn p c \<and> cw_map w s k = Some a \<and> chan_key (m_name c) = Some k) (cw_lists w p)"
    unfolding list_all_iff
  proof
    fix a assume "a \<in> set (cw_lists w p)"
    from world_okD(3)[OF w this] obtain c where c: "cw_heap w a = Some c" "IsOn p c" by blast
    from managed_heap[OF world_okD(1)[OF w] c(1)] obtain s k where "cw_map w s k = Some a" by blast
    with managed_map[OF world_okD(1)[OF w] this] c
    show "\<exists>c s k. cw_heap w a = Some c \<and> IsOn p c \<and> cw_map w s k = Some a \<and> chan_key (m_name c) = Some k" by auto
  qed
qed

text \<open>C3. As long as no byte of a packet (of the channel name, for a message), of a name the session kept or of a name
  of the stores starts a sequence of four bytes, every handler returns from every reachable world: no pointer to a deleted
  channel is used and no buffer is overrun.\<close>

theorem chat_safe:
  assumes "chat_reach False w" and "present x pl inp" and "clean_env x" and "clean_input inp"
  shows "chat_exec x now pl inp w \<noteq> None"
proof
  assume "chat_exec x now pl inp w = None"
  then show False
    using chat_exec_fine[OF reach_ok[OF assms(1)] assms(2), where R = True and now = now] assms(3,4) by simp
qed

text \<open>C5. If nobody ever kicked or banned himself, the members of a channel are exactly the players that have it
  in their list; so a logout ends with the player a member of no channel.\<close>

theorem logout_leaves_all:
  assumes "chat_reach True w"
  shows "(cw_heap w a = Some c \<longrightarrow> IsOn p c = (a \<in> set (cw_lists w p)))
    \<and> (\<exists>w'. chat_exec x now pl Logout w = Some w' \<and> cw_lists w' (cp_guid pl) = []
          \<and> (\<nexists>b d. cw_heap w' b = Some d \<and> IsOn (cp_guid pl) d))"
proof
  note w = reach_ok[OF assms]
  show "cw_heap w a = Some c \<longrightarrow> IsOn p c = (a \<in> set (cw_lists w p))"
    using world_okD(4)[OF w TrueI, of a c] world_okD(3)[OF w, of a p] by auto
  obtain w' where w': "CleanupChannels x pl w = Some w'" "world_ok True w'" "cw_lists w' (cp_guid pl) = []"
    by (rule logout_ok[OF w])
  have "\<not> IsOn (cp_guid pl) d" if "cw_heap w' b = Some d" for b d using world_okD(4)[OF w'(2) TrueI that] w'(3) by auto
  with w' show "\<exists>w'. chat_exec x now pl Logout w = Some w' \<and> cw_lists w' (cp_guid pl) = []
      \<and> (\<nexists>b d. cw_heap w' b = Some d \<and> IsOn (cp_guid pl) d)" by auto
qed

text \<open>What the session keeps of a player who leaves for another realm: besides what it kept before, the names of his
  custom channels.\<close>

theorem special_channels_saved:
  assumes "chat_reach exact w"
  shows "\<exists>ns. SaveSpecialChannels pl w saved = Some (saved @ ns)
    \<and> set ns = {m_name c | a c. a \<in> set (cw_lists w (cp_guid pl)) \<and> cw_heap w a = Some c \<and> \<not> IsConstant c}"
proof -
  obtain ns where "special_names (cw_heap w) (cw_lists w (cp_guid pl)) = Some ns"
      "set ns = {m_name c | a c. a \<in> set (cw_lists w (cp_guid pl)) \<and> cw_heap w a = Some c \<and> \<not> IsConstant c}"
    using special_names_live[of "cw_lists w (cp_guid pl)" "cw_heap w"] listed_live[OF reach_ok[OF assms]] by auto
  then show ?thesis by (simp add: SaveSpecialChannels_def)
qed

text \<open>A sole member who kicks himself leaves the channel empty but owned by him: nobody gives it up, and the
  next one to join becomes neither its owner nor a moderator.\<close>

theorem sole_self_kick_orphans:
  assumes alone: "m_Players c = [(p, i)]" "pi_IsModerator i" "m_ownerGUID c = p" "p \<noteq> 0"
    and self: "FindPlayerByName e name = Some pl" "cp_guid pl = p"
    and custom: "\<not> IsConstant c" "m_name c \<noteq> cstr ''world''"
  defines "d \<equiv> KickOrBan e p name False c"
  assumes q: "admits e q pass d"
  shows "m_Players d = [] \<and> m_ownerGUID d = p
    \<and> m_ownerGUID (Join e q pass d) = p \<and> GetPlayerFlags q (Join e q pass d) = MEMBER_FLAG_NONE"
proof -
  have d: "d = kick_out e p p False c" unfolding d_def by (rule kick_alone[OF alone(1,2) self alone(3)])
  have f: "m_Players d = []" "m_ownerGUID d = p" "\<not> IsConstant d" "m_name d \<noteq> cstr ''world''"
    using alone(1,3) custom unfolding d by (simp_all add: sm_erase_def)
  have "Join e q pass d = hand_out e q (join_in e q d)" using Join_joined[OF _ q] f by (simp add: IsOn_def)
  moreover have "hand_out e q (join_in e q d) = join_in e q d" using f alone(4) by (simp add: hand_out_def)
  ultimately show ?thesis using f by (simp add: GetPlayerFlags_def new_member_def)
qed

subsection \<open>An example\<close>

definition demo_chat :: chat_env where
  "demo_chat = \<lparr>cx_base = demo_env, cx_names = (\<lambda>_. cstr ''General - %s''), cx_rows = 0, cx_area = (\<lambda>_. None),
     cx_zone = (\<lambda>_. 0), cx_guild = (\<lambda>_. False), cx_city = cstr ''City'', cx_severity = 0, cx_links = (\<lambda>_. True),
     cx_row = \<lparr>row_announce = True, row_ownership = True, row_password = [], row_banned = None\<rparr>, cx_stack = []\<rparr>"

text \<open>A packet that asks for the channel \<open>ab\<close>.\<close>

definition demo_join :: ByteBuffer where
  "demo_join = \<lparr>rpos = 0, wpos = 8, wbitpos = 8, rbitpos = 8, curbitval = 0, storage = [0, 0, 0, 0, 1, 0, 0x61, 0x62]\<rparr>"

abbreviation demo_joined :: "chat_world option" where
  "demo_joined \<equiv> chat_exec demo_chat 10 (demo_player 5 ''Ann'' SEC_PLAYER) (RecvJoin demo_join) (chat_start (\<lambda>_. 0) (\<lambda>_. None))"

lemma segment_take:
  assumes "k \<le> length (bits_of st)" "take (length bs) (drop k (bits_of st)) = bs"
  shows "segment st k bs"
  unfolding segment_def
proof (intro exI conjI)
  show "bits_of st = take k (bits_of st) @ bs @ drop (length bs) (drop k (bits_of st))"
    using assms(2) append_take_drop_id[of k "bits_of st"] append_take_drop_id[of "length bs" "drop k (bits_of st)"] by simp
  show "length (take k (bits_of st)) = k" using assms(1) by simp
qed

lemma demo_read: "fst (read_join demo_join) = Inr (0, [0x61, 0x62], [])"
proof -
  let ?st = "[0, 0, 0, 0, 1, 0, 0x61, 0x62] :: u8 list"
  have i: "reads read_val ?st 0 (0 :: u32) 32"
    using reads_read_val[of ?st 0 "[0, 0, 0, 0]", where 'a = 32] by (simp add: segment_def pad_def)
  have b: "reads ReadBit ?st 32 (bits_of ?st ! 32) 33" "reads ReadBit ?st 33 (bits_of ?st ! 33) 34"
    using reads_ReadBit[of 32 ?st] reads_ReadBit[of 33 ?st] by simp_all
  have "segment ?st 34 (val_bits 7 (2 :: u32))" "segment ?st 41 (val_bits 7 (0 :: u32))"
    by (rule segment_take; code_simp)+
  from this[THEN reads_ReadBits] have n: "reads (ReadBits 7) ?st 34 (2 :: u32) 41" "reads (ReadBits 7) ?st 41 (0 :: u32) 48"
    by simp_all
  have "segment ?st 48 (pad 48 @ bits_of [0x61, 0x62])" by (rule segment_take; code_simp)
  from reads_read_bytes[OF this] have "reads (read_bytes 2) ?st 48 [0x61, 0x62] 64"
    by (simp add: pad_def numeral_2_eq_2)
  from reads_bindS[OF this, where f = "\<lambda>buf. retS (takeWhile (\<lambda>c. c \<noteq> 0) buf)" and w = "[0x61, 0x62]" and k'' = 64]
  have s: "reads (ReadString 2) ?st 48 [0x61, 0x62] 64" by (simp add: ReadString_def reads_retS)
  have z: "reads (ReadString 0) ?st 64 [] 64" by (simp add: ReadString_def reads_retS)
  have u: "unat (2 :: u32) = 2" "unat (0 :: u32) = 0" by simp_all
  have "reads (two_strings 7 7) ?st 34 ([0x61, 0x62], []) 64"
    unfolding two_strings_def
    by (rule reads_bindS[OF n(1)], rule reads_bindS[OF n(2)], unfold u, rule reads_bindS[OF s], rule reads_bindS[OF z reads_retS])
  then have "reads read_join ?st 0 (0, [0x61, 0x62], []) 64"
    unfolding read_join_def by (intro reads_bindS[OF i] reads_bindS[OF b(1)] reads_bindS[OF b(2)]) (auto intro: reads_bindS)
  then show ?thesis
    by (rule readsD[of _ _ _ _ _ demo_join]) (simp_all add: reader_at_def demo_join_def)
qed

lemma demo_present: "present demo_chat (demo_player 5 n s) inp"
  by (simp add: present_def demo_chat_def demo_find demo_player_def FindPlayer_def holder_Find_def demo_env_def)

lemma demo_joined_eq: "demo_joined = Option.bind (GetJoinChannel demo_chat AllianceChannelMgr [0x61, 0x62] 0 (chat_start (\<lambda>s. if s = AllianceChannelMgr then 469 else 0) (\<lambda>_. None)))
    (\<lambda>(a, w). run_channel demo_chat a (Join demo_env 5 []) w)"
proof -
  have v: "isValidChatMessage demo_chat [0x61, 0x62]" by code_simp
  have m: "channelMgr (cx_base demo_chat) 469 = Some AllianceChannelMgr" by code_simp
  have e: "cx_base demo_chat = demo_env" by (simp add: demo_chat_def)
  have f: "cp_team (demo_player 5 ''Ann'' SEC_PLAYER) = 469" "cp_guid (demo_player 5 ''Ann'' SEC_PLAYER) = 5"
    by (simp_all add: demo_player_def)
  have w: "chat_start (\<lambda>_. 0) (\<lambda>_. None)\<lparr>cw_team := (cw_team (chat_start (\<lambda>_. 0) (\<lambda>_. None)))(AllianceChannelMgr := 469)\<rparr>
      = chat_start (\<lambda>s. if s = AllianceChannelMgr then 469 else 0) (\<lambda>_. None)" by (simp add: chat_start_def fun_eq_iff)
  show ?thesis using v m e f w by (simp add: HandleJoinChannel_def received_def demo_read Let_def)
qed

lemma demo_joined_lists: "map_option (\<lambda>w. cw_lists w 5) demo_joined = Some [0]"
  unfolding demo_joined_eq by code_simp

lemma demo_world: obtains w where "demo_joined = Some w" "cw_lists w 5 = [0]" "chat_reach exact w"
proof -
  obtain w where w: "demo_joined = Some w" "cw_lists w 5 = [0]" using demo_joined_lists by auto
  have "chat_reach exact w" by (rule chat_reach.step[OF chat_reach.start demo_present _ w(1)]) simp
  with w show ?thesis using that by blast
qed

theorem chat_no_dangling_witness:
  "\<exists>w c s k. demo_joined = Some w \<and> cw_lists w 5 = [0] \<and> cw_heap w 0 = Some c \<and> IsOn 5 c \<and> cw_map w s k = Some 0"
proof -
  obtain w where w: "demo_joined = Some w" "cw_lists w 5 = [0]" "chat_reach True w" by (rule demo_world)
  from chat_no_dangling[OF w(3), of 5] w(1,2) show ?thesis by auto
qed

theorem chat_safe_witness: "demo_joined \<noteq> None"
proof (rule chat_safe[OF chat_reach.start demo_present])
  show "clean_env demo_chat" unfolding clean_env_def demo_chat_def chat_env.simps by (intro conjI allI impI; (code_simp | simp))
  show "clean_input (RecvJoin demo_join)" by (simp add: demo_join_def)
qed

theorem logout_leaves_all_witness:
  "\<exists>w w'. demo_joined = Some w \<and> cw_lists w 5 = [0]
    \<and> chat_exec demo_chat 11 (demo_player 5 ''Ann'' SEC_PLAYER) Logout w = Some w' \<and> cw_lists w' 5 = []"
proof -
  obtain w where w: "demo_joined = Some w" "cw_lists w 5 = [0]" "chat_reach True w" by (rule demo_world)
  have "cp_guid (demo_player 5 ''Ann'' SEC_PLAYER) = 5" by (simp add: demo_player_def)
  with logout_leaves_all[OF w(3), of 0 demo_one 5 demo_chat 11 "demo_player 5 ''Ann'' SEC_PLAYER"]
  obtain w' where "chat_exec demo_chat 11 (demo_player 5 ''Ann'' SEC_PLAYER) Logout w = Some w'" "cw_lists w' 5 = []" by auto
  with w(1,2) show ?thesis by blast
qed

theorem sole_self_kick_orphans_witness:
  "let d = KickOrBan demo_env 7 (cstr ''Bob'') False demo_one
   in m_Players d = [] \<and> m_ownerGUID (Join demo_env 5 [] d) = 7"
proof -
  have "map_option cp_guid (FindPlayerByName demo_env (cstr ''Bob'')) = Some 7" by code_simp
  then obtain pl where pl: "FindPlayerByName demo_env (cstr ''Bob'') = Some pl" "cp_guid pl = 7" by auto
  have c: "m_Players demo_one = [(7, demo_owner)]" "m_ownerGUID demo_one = 7" "\<not> IsConstant demo_one"
    "m_name demo_one \<noteq> cstr ''world''" "admits demo_env 5 [] (KickOrBan demo_env 7 (cstr ''Bob'') False demo_one)"
    by code_simp+
  show ?thesis unfolding Let_def
    using sole_self_kick_orphans[OF c(1) demo_flags(2) c(2) _ pl c(3,4,5)] by simp
qed

end
