(* ===== verification/LinkedList.thy ===== *)
theory LinkedList
  imports Prelude
begin

text \<open>
  The intrusive doubly linked list under all references between units:
  \<open>src/server/shared/Dynamic/LinkedList.h\<close> and \<open>LinkedReference/RefManager.h\<close>. Elements lie at addresses in a
  memory; a head owns two sentinel elements, which are never handed out. Reading or writing through a null
  pointer gives \<open>None\<close>. The iterators only wrap \<open>next\<close> and \<open>prev\<close>.
\<close>

subsection \<open>Elements\<close>

type_synonym addr = nat

record LinkedListElement =
  iNext :: "addr option"
  iPrev :: "addr option"

type_synonym ll_mem = "addr \<Rightarrow> LinkedListElement"

definition LinkedListElement_new :: "addr \<Rightarrow> ll_mem \<Rightarrow> ll_mem" where
  "LinkedListElement_new e m = m(e := \<lparr>iNext = None, iPrev = None\<rparr>)"

definition set_next :: "addr \<Rightarrow> addr option \<Rightarrow> ll_mem \<Rightarrow> ll_mem" where
  "set_next e v m = m(e := (m e)\<lparr>iNext := v\<rparr>)"

definition set_prev :: "addr \<Rightarrow> addr option \<Rightarrow> ll_mem \<Rightarrow> ll_mem" where
  "set_prev e v m = m(e := (m e)\<lparr>iPrev := v\<rparr>)"

definition hasNext :: "addr \<Rightarrow> ll_mem \<Rightarrow> bool" where
  "hasNext e m = (case iNext (m e) of None \<Rightarrow> False | Some n \<Rightarrow> iNext (m n) \<noteq> None)"

definition hasPrev :: "addr \<Rightarrow> ll_mem \<Rightarrow> bool" where
  "hasPrev e m = (case iPrev (m e) of None \<Rightarrow> False | Some p \<Rightarrow> iPrev (m p) \<noteq> None)"

definition isInList :: "addr \<Rightarrow> ll_mem \<Rightarrow> bool" where
  "isInList e m \<longleftrightarrow> iNext (m e) \<noteq> None \<and> iPrev (m e) \<noteq> None"

definition ll_next :: "addr \<Rightarrow> ll_mem \<Rightarrow> addr option" where
  "ll_next e m = (if hasNext e m then iNext (m e) else None)"

definition ll_prev :: "addr \<Rightarrow> ll_mem \<Rightarrow> addr option" where
  "ll_prev e m = (if hasPrev e m then iPrev (m e) else None)"

definition delink :: "addr \<Rightarrow> ll_mem \<Rightarrow> ll_mem" where
  "delink e m =
     (case (iNext (m e), iPrev (m e)) of
        (Some n, Some p) \<Rightarrow>
          let m = set_prev n (iPrev (m e)) m
          in (case iPrev (m e) of
                None \<Rightarrow> m
              | Some p \<Rightarrow> set_prev e None (set_next e None (set_next p (iNext (m e)) m)))
      | _ \<Rightarrow> m)"

definition insertBefore :: "addr \<Rightarrow> addr \<Rightarrow> ll_mem \<Rightarrow> ll_mem option" where
  "insertBefore this pElem m =
     (let m = set_next pElem (Some this) m;
          m = set_prev pElem (iPrev (m this)) m
      in case iPrev (m this) of
           None \<Rightarrow> None
         | Some p \<Rightarrow> Some (set_prev this (Some pElem) (set_next p (Some pElem) m)))"

definition insertAfter :: "addr \<Rightarrow> addr \<Rightarrow> ll_mem \<Rightarrow> ll_mem option" where
  "insertAfter this pElem m =
     (let m = set_prev pElem (Some this) m;
          m = set_next pElem (iNext (m this)) m
      in case iNext (m this) of
           None \<Rightarrow> None
         | Some n \<Rightarrow> Some (set_next this (Some pElem) (set_prev n (Some pElem) m)))"

subsection \<open>The head\<close>

record LinkedListHead =
  iFirst :: addr
  iLast :: addr
  iSize :: u32

definition LinkedListHead_new :: "addr \<Rightarrow> addr \<Rightarrow> ll_mem \<Rightarrow> LinkedListHead \<times> ll_mem" where
  "LinkedListHead_new f l m =
     (let m = LinkedListElement_new l (LinkedListElement_new f m)
      in (\<lparr>iFirst = f, iLast = l, iSize = 0\<rparr>, set_prev l (Some f) (set_next f (Some l) m)))"

definition isEmpty :: "LinkedListHead \<Rightarrow> ll_mem \<Rightarrow> bool" where
  "isEmpty h m = (case iNext (m (iFirst h)) of None \<Rightarrow> True | Some e \<Rightarrow> \<not> isInList e m)"

definition getFirst :: "LinkedListHead \<Rightarrow> ll_mem \<Rightarrow> addr option" where
  "getFirst h m = (if isEmpty h m then None else iNext (m (iFirst h)))"

definition getLast :: "LinkedListHead \<Rightarrow> ll_mem \<Rightarrow> addr option" where
  "getLast h m = (if isEmpty h m then None else iPrev (m (iLast h)))"

definition insertFirst :: "LinkedListHead \<Rightarrow> addr \<Rightarrow> ll_mem \<Rightarrow> ll_mem option" where
  "insertFirst h e = insertAfter (iFirst h) e"

definition insertLast :: "LinkedListHead \<Rightarrow> addr \<Rightarrow> ll_mem \<Rightarrow> ll_mem option" where
  "insertLast h e = insertBefore (iLast h) e"

definition incSize :: "LinkedListHead \<Rightarrow> LinkedListHead" where
  "incSize h = h\<lparr>iSize := iSize h + 1\<rparr>"

definition decSize :: "LinkedListHead \<Rightarrow> LinkedListHead" where
  "decSize h = h\<lparr>iSize := iSize h - 1\<rparr>"

text \<open>The counting loop; it does not end on a cycle.\<close>

partial_function (option) count_from :: "ll_mem \<Rightarrow> addr option \<Rightarrow> u32 \<Rightarrow> u32 option" where
  [code]: "count_from m e result = (case e of None \<Rightarrow> Some result | Some a \<Rightarrow> count_from m (ll_next a m) (result + 1))"

definition getSize :: "LinkedListHead \<Rightarrow> ll_mem \<Rightarrow> u32 option" where
  "getSize h m = (if iSize h = 0 then count_from m (getFirst h m) 0 else Some (iSize h))"

subsection \<open>Chains\<close>

text \<open>\<open>links m xs\<close>: the addresses in \<open>xs\<close> point at each other in this order. \<open>holds h xs m\<close>: the head holds
  the elements \<open>xs\<close>.\<close>

fun links :: "ll_mem \<Rightarrow> addr list \<Rightarrow> bool" where
  "links m (a # b # xs) \<longleftrightarrow> iNext (m a) = Some b \<and> iPrev (m b) = Some a \<and> links m (b # xs)"
| "links m _ \<longleftrightarrow> True"

definition chain :: "LinkedListHead \<Rightarrow> addr list \<Rightarrow> addr list" where
  "chain h xs = iFirst h # xs @ [iLast h]"

definition holds :: "LinkedListHead \<Rightarrow> addr list \<Rightarrow> ll_mem \<Rightarrow> bool" where
  "holds h xs m \<longleftrightarrow> distinct (chain h xs) \<and> links m (chain h xs) \<and> iPrev (m (iFirst h)) = None \<and> iNext (m (iLast h)) = None"

lemma links_append: "links m (xs @ a # ys) \<longleftrightarrow> links m (xs @ [a]) \<and> links m (a # ys)"
proof (induction xs)
  case (Cons x xs) then show ?case by (cases xs) auto
qed simp

lemma links_join: "links m (xs @ a # b # ys) \<longleftrightarrow> links m (xs @ [a]) \<and> iNext (m a) = Some b \<and> iPrev (m b) = Some a \<and> links m (b # ys)"
  using links_append[of m xs a "b # ys"] by simp

lemma links_cong:
  assumes "\<And>a. a \<in> set (butlast xs) \<Longrightarrow> iNext (m' a) = iNext (m a)" "\<And>a. a \<in> set (tl xs) \<Longrightarrow> iPrev (m' a) = iPrev (m a)"
  shows "links m' xs = links m xs"
  using assms
proof (induction xs rule: induct_list012)
  case (3 a b xs)
  have "links m' (b # xs) = links m (b # xs)"
    by (rule "3.IH"(2)) (use "3.prems" in \<open>auto dest: in_set_butlastD split: if_splits\<close>)
  then show ?case using "3.prems"(1)[of a] "3.prems"(2)[of b] by simp
qed auto

lemma set_fields [simp]:
  "iNext (set_next e v m a) = (if a = e then v else iNext (m a))" "iPrev (set_next e v m a) = iPrev (m a)"
  "iNext (set_prev e v m a) = iNext (m a)" "iPrev (set_prev e v m a) = (if a = e then v else iPrev (m a))"
  by (simp_all add: set_next_def set_prev_def)

lemma links_next: "links m (xs @ a # b # ys) \<Longrightarrow> iNext (m a) = Some b"
  by (simp add: links_join)

lemma links_prev: "links m (xs @ a # b # ys) \<Longrightarrow> iPrev (m b) = Some a"
  by (simp add: links_join)


lemma links_ends:
  assumes d: "distinct (as @ a # b # bs)" "v \<notin> set (as @ a # b # bs)"
    and outside: "\<And>x. x \<notin> {a, v} \<Longrightarrow> iNext (m' x) = iNext (m x)" "\<And>x. x \<notin> {b, v} \<Longrightarrow> iPrev (m' x) = iPrev (m x)"
  shows "links m' (as @ [a]) = links m (as @ [a])" "links m' (b # bs) = links m (b # bs)"
proof -
  have off: "x \<noteq> v" if "x \<in> set (as @ [a]) \<or> x \<in> set (b # bs)" for x using that d(2) by auto
  show "links m' (as @ [a]) = links m (as @ [a])"
  proof (rule links_cong)
    fix x
    show "iNext (m' x) = iNext (m x)" if "x \<in> set (butlast (as @ [a]))"
      by (rule outside(1)) (use that d(1) off[of x] in auto)
    show "iPrev (m' x) = iPrev (m x)" if "x \<in> set (tl (as @ [a]))"
    proof (rule outside(2))
      have "x \<in> set (as @ [a])" using that by (cases as) auto
      then show "x \<notin> {b, v}" using d(1) off[of x] by auto
    qed
  qed
  show "links m' (b # bs) = links m (b # bs)"
  proof (rule links_cong)
    fix x
    show "iNext (m' x) = iNext (m x)" if "x \<in> set (butlast (b # bs))"
      by (rule outside(1)) (use in_set_butlastD[OF that] d(1) off[of x] in auto)
    show "iPrev (m' x) = iPrev (m x)" if "x \<in> set (tl (b # bs))"
      by (rule outside(2)) (use that d(1) off[of x] in auto)
  qed
qed

lemma links_insert:
  assumes "links m (as @ a # b # bs)" "distinct (as @ a # b # bs)" "p \<notin> set (as @ a # b # bs)"
    and "iNext (m' a) = Some p" "iPrev (m' p) = Some a" "iNext (m' p) = Some b" "iPrev (m' b) = Some p"
    and "\<And>x. x \<notin> {a, p} \<Longrightarrow> iNext (m' x) = iNext (m x)" "\<And>x. x \<notin> {b, p} \<Longrightarrow> iPrev (m' x) = iPrev (m x)"
  shows "links m' (as @ a # p # b # bs)"
  using links_ends[where m = m and m' = m', OF assms(2,3,8,9)] assms(1,4-7) by (simp add: links_join)

lemma links_remove:
  assumes "links m (as @ a # e # b # bs)" "distinct (as @ a # e # b # bs)"
    and "iNext (m' a) = Some b" "iPrev (m' b) = Some a"
    and "\<And>x. x \<notin> {a, e} \<Longrightarrow> iNext (m' x) = iNext (m x)" "\<And>x. x \<notin> {b, e} \<Longrightarrow> iPrev (m' x) = iPrev (m x)"
  shows "links m' (as @ a # b # bs)"
proof -
  have "distinct (as @ a # b # bs)" "e \<notin> set (as @ a # b # bs)" using assms(2) by auto
  from links_ends[where m = m and m' = m', OF this assms(5,6)] assms(1,3,4) show ?thesis by (simp add: links_join)
qed

text \<open>The neighbours of the gap behind \<open>xs\<close> and before \<open>ys\<close>.\<close>

definition gap_left :: "LinkedListHead \<Rightarrow> addr list \<Rightarrow> addr" where
  "gap_left h xs = (if xs = [] then iFirst h else last xs)"

definition gap_right :: "LinkedListHead \<Rightarrow> addr list \<Rightarrow> addr" where
  "gap_right h ys = (if ys = [] then iLast h else hd ys)"

lemma gap_ends_simps [simp]:
  "gap_left h [] = iFirst h" "gap_left h (xs @ [e]) = e" "gap_right h [] = iLast h" "gap_right h (e # ys) = e"
  by (simp_all add: gap_left_def gap_right_def)

lemma chain_gap: "\<exists>as bs. chain h (xs @ ys) = as @ gap_left h xs # gap_right h ys # bs
    \<and> (\<forall>p. chain h (xs @ p # ys) = as @ gap_left h xs # p # gap_right h ys # bs)"
proof -
  have "\<exists>as. iFirst h # xs = as @ [gap_left h xs]" by (cases xs rule: rev_cases) auto
  then obtain as where l: "iFirst h # xs = as @ [gap_left h xs]" by blast
  have "\<exists>bs. ys @ [iLast h] = gap_right h ys # bs" by (cases ys) auto
  then obtain bs where r: "ys @ [iLast h] = gap_right h ys # bs" by blast
  have "chain h (xs @ ys) = (iFirst h # xs) @ (ys @ [iLast h])" "\<And>p. chain h (xs @ p # ys) = (iFirst h # xs) @ p # (ys @ [iLast h])"
    by (simp_all add: chain_def)
  then show ?thesis using l r by (intro exI[of _ as] exI[of _ bs]) simp
qed

text \<open>The neighbours point at each other.\<close>

lemma gap_links:
  assumes "holds h (xs @ ys) m"
  shows "iNext (m (gap_left h xs)) = Some (gap_right h ys)" "iPrev (m (gap_right h ys)) = Some (gap_left h xs)"
    "gap_left h xs \<noteq> gap_right h ys" "gap_left h xs \<in> set (chain h (xs @ ys))" "gap_right h ys \<in> set (chain h (xs @ ys))"
proof -
  obtain as bs where c: "chain h (xs @ ys) = as @ gap_left h xs # gap_right h ys # bs" using chain_gap by blast
  have l: "links m (as @ gap_left h xs # gap_right h ys # bs)" "distinct (as @ gap_left h xs # gap_right h ys # bs)"
    using assms unfolding holds_def c by simp_all
  show "iNext (m (gap_left h xs)) = Some (gap_right h ys)" by (rule links_next[OF l(1)])
  show "iPrev (m (gap_right h ys)) = Some (gap_left h xs)" by (rule links_prev[OF l(1)])
  show "gap_left h xs \<noteq> gap_right h ys" using l(2) by simp
  show "gap_left h xs \<in> set (chain h (xs @ ys))" "gap_right h ys \<in> set (chain h (xs @ ys))" unfolding c by simp_all
qed

lemma chain_ends [simp]: "iFirst h \<in> set (chain h xs)" "iLast h \<in> set (chain h xs)" "x \<in> set xs \<Longrightarrow> x \<in> set (chain h xs)"
  by (auto simp: chain_def)

lemma gap_ends:
  assumes "distinct (chain h (xs @ ys))"
  shows "iFirst h \<noteq> gap_right h ys" "iLast h \<noteq> gap_left h xs"
proof -
  show "iFirst h \<noteq> gap_right h ys" using assms unfolding chain_def by (cases ys) auto
  show "iLast h \<noteq> gap_left h xs" using assms unfolding chain_def by (cases xs rule: rev_cases) auto
qed

text \<open>A memory that differs from \<open>m\<close> by a new element in the gap, or lacks one.\<close>

lemma holds_insert:
  assumes w: "holds h (xs @ ys) m" and p: "p \<notin> set (chain h (xs @ ys))"
    and m': "iNext (m' (gap_left h xs)) = Some p" "iPrev (m' p) = Some (gap_left h xs)"
      "iNext (m' p) = Some (gap_right h ys)" "iPrev (m' (gap_right h ys)) = Some p"
    and outside: "\<And>x. x \<notin> {gap_left h xs, p} \<Longrightarrow> iNext (m' x) = iNext (m x)" "\<And>x. x \<notin> {gap_right h ys, p} \<Longrightarrow> iPrev (m' x) = iPrev (m x)"
  shows "holds h (xs @ p # ys) m'"
proof -
  obtain as bs where c: "chain h (xs @ ys) = as @ gap_left h xs # gap_right h ys # bs"
    and c': "chain h (xs @ p # ys) = as @ gap_left h xs # p # gap_right h ys # bs" using chain_gap by blast
  have l: "links m (chain h (xs @ ys))" and d: "distinct (chain h (xs @ ys))" using w by (simp_all add: holds_def)
  have "links m' (chain h (xs @ p # ys))"
    unfolding c' by (rule links_insert[OF l[unfolded c] d[unfolded c] p[unfolded c] m' outside]) auto
  moreover have "distinct (chain h (xs @ p # ys))" using d p unfolding c c' by auto
  moreover have "iFirst h \<noteq> p" "iLast h \<noteq> p" using p by (auto simp: chain_def)
  ultimately show ?thesis using w gap_ends[OF d] outside by (simp add: holds_def)
qed

lemma holds_remove:
  assumes w: "holds h (xs @ e # ys) m"
    and m': "iNext (m' (gap_left h xs)) = Some (gap_right h ys)" "iPrev (m' (gap_right h ys)) = Some (gap_left h xs)"
    and outside: "\<And>x. x \<notin> {gap_left h xs, e} \<Longrightarrow> iNext (m' x) = iNext (m x)" "\<And>x. x \<notin> {gap_right h ys, e} \<Longrightarrow> iPrev (m' x) = iPrev (m x)"
  shows "holds h (xs @ ys) m'"
proof -
  obtain as bs where c: "chain h (xs @ ys) = as @ gap_left h xs # gap_right h ys # bs"
    and c': "chain h (xs @ e # ys) = as @ gap_left h xs # e # gap_right h ys # bs" using chain_gap by blast
  have l: "links m (chain h (xs @ e # ys))" and d: "distinct (chain h (xs @ e # ys))" using w by (simp_all add: holds_def)
  have "links m' (chain h (xs @ ys))"
    unfolding c by (rule links_remove[OF l[unfolded c'] d[unfolded c'] m' outside]) auto
  moreover have d': "distinct (chain h (xs @ ys))" "e \<noteq> iFirst h" "e \<noteq> iLast h" using d by (auto simp: chain_def)
  ultimately show ?thesis using w gap_ends[OF d'(1)] outside by (simp add: holds_def)
qed

subsection \<open>What the operations do\<close>

lemma insertAfter_holds:
  assumes w: "holds h (xs @ ys) m" and p: "p \<notin> set (chain h (xs @ ys))"
  shows "\<exists>m'. insertAfter (gap_left h xs) p m = Some m' \<and> holds h (xs @ p # ys) m'
    \<and> (\<forall>x. x \<notin> set (chain h (xs @ p # ys)) \<longrightarrow> m' x = m x)"
proof -
  let ?a = "gap_left h xs" and ?b = "gap_right h ys"
  note g = gap_links[OF w]
  have np: "?a \<noteq> p" "?b \<noteq> p" using p g(4,5) by auto
  let ?m = "set_next ?a (Some p) (set_prev ?b (Some p) (set_next p (Some ?b) (set_prev p (Some ?a) m)))"
  have "insertAfter ?a p m = Some ?m" using g np by (simp add: insertAfter_def Let_def)
  moreover have "holds h (xs @ p # ys) ?m" by (rule holds_insert[OF w p]) (use g np in auto)
  moreover have "?m x = m x" if "x \<notin> set (chain h (xs @ p # ys))" for x
  proof -
    have "x \<noteq> p" "x \<notin> set (chain h (xs @ ys))" using that by (auto simp: chain_def)
    then have "x \<noteq> p" "x \<noteq> ?a" "x \<noteq> ?b" using g(4,5) by auto
    then show ?thesis by (simp add: set_next_def set_prev_def)
  qed
  ultimately show ?thesis by blast
qed

lemma insertBefore_holds:
  assumes w: "holds h (xs @ ys) m" and p: "p \<notin> set (chain h (xs @ ys))"
  shows "\<exists>m'. insertBefore (gap_right h ys) p m = Some m' \<and> holds h (xs @ p # ys) m'
    \<and> (\<forall>x. x \<notin> set (chain h (xs @ p # ys)) \<longrightarrow> m' x = m x)"
proof -
  let ?a = "gap_left h xs" and ?b = "gap_right h ys"
  note g = gap_links[OF w]
  have np: "?a \<noteq> p" "?b \<noteq> p" using p g(4,5) by auto
  let ?m = "set_prev ?b (Some p) (set_next ?a (Some p) (set_prev p (Some ?a) (set_next p (Some ?b) m)))"
  have "insertBefore ?b p m = Some ?m" using g np by (simp add: insertBefore_def Let_def)
  moreover have "holds h (xs @ p # ys) ?m" by (rule holds_insert[OF w p]) (use g np in auto)
  moreover have "?m x = m x" if "x \<notin> set (chain h (xs @ p # ys))" for x
  proof -
    have "x \<noteq> p" "x \<notin> set (chain h (xs @ ys))" using that by (auto simp: chain_def)
    then have "x \<noteq> p" "x \<noteq> ?a" "x \<noteq> ?b" using g(4,5) by auto
    then show ?thesis by (simp add: set_next_def set_prev_def)
  qed
  ultimately show ?thesis by blast
qed

lemma in_list_gap:
  assumes w: "holds h (xs @ e # ys) m"
  shows "iPrev (m e) = Some (gap_left h xs)" "iNext (m e) = Some (gap_right h ys)"
  using gap_links(2)[OF w] gap_links(1)[of h "xs @ [e]" ys m] w by simp_all

lemma delink_holds:
  assumes w: "holds h (xs @ e # ys) m"
  shows "holds h (xs @ ys) (delink e m)" "\<not> isInList e (delink e m)"
    "x \<notin> set (chain h (xs @ e # ys)) \<Longrightarrow> delink e m x = m x"
proof -
  let ?a = "gap_left h xs" and ?b = "gap_right h ys"
  note g = in_list_gap[OF w]
  obtain as bs where c: "chain h (xs @ e # ys) = as @ ?a # e # ?b # bs" using chain_gap by blast
  have d: "distinct (chain h (xs @ e # ys))" using w by (simp add: holds_def)
  have ne: "?a \<noteq> e" "?b \<noteq> e" "?a \<noteq> ?b" using d unfolding c by auto
  let ?m = "set_prev e None (set_next e None (set_next ?a (Some ?b) (set_prev ?b (Some ?a) m)))"
  have eq: "delink e m = ?m" using g ne by (simp add: delink_def Let_def)
  show "holds h (xs @ ys) (delink e m)" unfolding eq by (rule holds_remove[OF w]) (use g ne in auto)
  show "\<not> isInList e (delink e m)" unfolding eq by (simp add: isInList_def)
  show "delink e m x = m x" if "x \<notin> set (chain h (xs @ e # ys))"
    unfolding eq using that unfolding c by (auto simp: set_next_def set_prev_def)
qed

text \<open>The observations, in terms of the list of elements.\<close>

lemma LinkedListHead_new_holds:
  assumes "f \<noteq> l"
  shows "holds (fst (LinkedListHead_new f l m)) [] (snd (LinkedListHead_new f l m))"
    "iSize (fst (LinkedListHead_new f l m)) = 0" "chain (fst (LinkedListHead_new f l m)) [] = [f, l]"
    "x \<notin> {f, l} \<Longrightarrow> snd (LinkedListHead_new f l m) x = m x"
  using assms by (auto simp: LinkedListHead_new_def LinkedListElement_new_def Let_def holds_def chain_def set_next_def set_prev_def)

lemma holds_in_list: "holds h xs m \<Longrightarrow> e \<in> set xs \<Longrightarrow> isInList e m"
  using in_list_gap by (metis isInList_def option.distinct(1) split_list)

lemma holds_ends:
  assumes "holds h xs m"
  shows "\<not> isInList (iFirst h) m" "\<not> isInList (iLast h) m"
  using assms by (simp_all add: holds_def isInList_def)

lemma holds_next:
  assumes w: "holds h (xs @ e # ys) m"
  shows "ll_next e m = (case ys of [] \<Rightarrow> None | y # _ \<Rightarrow> Some y)"
proof (cases ys)
  case Nil
  then show ?thesis using in_list_gap(2)[OF w] w by (simp add: ll_next_def hasNext_def holds_def)
next
  case (Cons y zs)
  then have "iNext (m y) \<noteq> None" using in_list_gap(2)[of h "xs @ [e]" y zs m] w by simp
  then show ?thesis using in_list_gap(2)[OF w] Cons by (simp add: ll_next_def hasNext_def)
qed

lemma holds_prev:
  assumes w: "holds h (xs @ e # ys) m"
  shows "ll_prev e m = (if xs = [] then None else Some (last xs))"
proof (cases xs rule: rev_cases)
  case Nil
  then show ?thesis using in_list_gap(1)[OF w] w by (simp add: ll_prev_def hasPrev_def holds_def)
next
  case (snoc zs x)
  then have "iPrev (m x) \<noteq> None" using in_list_gap(1)[of h zs x "e # ys" m] w by simp
  then show ?thesis using in_list_gap(1)[OF w] snoc by (simp add: ll_prev_def hasPrev_def)
qed

lemma holds_isEmpty:
  assumes w: "holds h xs m"
  shows "isEmpty h m \<longleftrightarrow> xs = []"
proof (cases xs)
  case Nil
  then show ?thesis using gap_links(1)[of h "[]" "[]" m] w holds_ends(2)[OF w] by (simp add: isEmpty_def)
next
  case (Cons x ys)
  then show ?thesis using gap_links(1)[of h "[]" xs m] w holds_in_list[OF w] by (simp add: isEmpty_def)
qed

lemma holds_getFirst:
  assumes w: "holds h xs m"
  shows "getFirst h m = (case xs of [] \<Rightarrow> None | x # _ \<Rightarrow> Some x)"
  using gap_links(1)[of h "[]" xs m] w by (cases xs) (simp_all add: getFirst_def holds_isEmpty[OF w])

lemma holds_getLast:
  assumes w: "holds h xs m"
  shows "getLast h m = (if xs = [] then None else Some (last xs))"
  using gap_links(2)[of h xs "[]" m] w by (cases xs rule: rev_cases) (simp_all add: getLast_def holds_isEmpty[OF w])

lemma holds_count:
  assumes "holds h (xs @ ys) m"
  shows "count_from m (case ys of [] \<Rightarrow> None | y # _ \<Rightarrow> Some y) r = Some (r + of_nat (length ys))"
  using assms
proof (induction ys arbitrary: xs r)
  case Nil
  show ?case by (subst count_from.simps) simp
next
  case (Cons y ys)
  have "count_from m (Some y) r = count_from m (ll_next y m) (r + 1)" by (subst count_from.simps) simp
  also have "\<dots> = Some (r + 1 + of_nat (length ys))"
    using Cons.IH[of "xs @ [y]" "r + 1"] Cons.prems holds_next[OF Cons.prems] by simp
  finally show ?case by (simp add: add_ac)
qed

lemma holds_getSize:
  assumes w: "holds h xs m" and "iSize h = 0 \<or> iSize h = of_nat (length xs)"
  shows "getSize h m = Some (of_nat (length xs))"
  using assms(2) holds_count[of h "[]" xs m 0] w by (auto simp: getSize_def holds_getFirst[OF w])

lemma insertFirst_holds:
  assumes "holds h xs m" "p \<notin> set (chain h xs)"
  shows "\<exists>m'. insertFirst h p m = Some m' \<and> holds h (p # xs) m' \<and> (\<forall>x. x \<notin> set (chain h (p # xs)) \<longrightarrow> m' x = m x)"
  using insertAfter_holds[of h "[]" xs m p] assms by (simp add: insertFirst_def)

lemma insertLast_holds:
  assumes "holds h xs m" "p \<notin> set (chain h xs)"
  shows "\<exists>m'. insertLast h p m = Some m' \<and> holds h (xs @ [p]) m' \<and> (\<forall>x. x \<notin> set (chain h (xs @ [p])) \<longrightarrow> m' x = m x)"
  using insertBefore_holds[of h xs "[]" m p] assms by (simp add: insertLast_def)

lemma holds_cong: "(\<And>x. x \<in> set (chain h xs) \<Longrightarrow> m' x = m x) \<Longrightarrow> holds h xs m' = holds h xs m"
proof -
  assume a: "\<And>x. x \<in> set (chain h xs) \<Longrightarrow> m' x = m x"
  have "links m' (chain h xs) = links m (chain h xs)"
    by (rule links_cong) (use a in_set_butlastD in \<open>fastforce simp: chain_def dest: in_set_butlastD list.set_sel(2)\<close>)+
  then show ?thesis using a by (simp add: holds_def)
qed

lemma holds_size [simp]: "holds (h\<lparr>iSize := k\<rparr>) xs m = holds h xs m" "chain (h\<lparr>iSize := k\<rparr>) xs = chain h xs"
  by (simp_all add: holds_def chain_def)

end
