(* ===== verification/References.thy ===== *)
theory References
  imports LinkedList
begin

text \<open>
  The references between a target and a source that lie on an intrusive list of the target:
  \<open>src/server/shared/Dynamic/LinkedReference/Reference.h\<close>, \<open>RefManager.h\<close>, with the two users that follow
  different rules for the size, \<open>game/Maps/MapReference.h\<close> (counted) and \<open>game/Groups/GroupReference.cpp\<close>.
  A use of an object that does not live, a null pointer and a failed \<open>assert\<close> give \<open>None\<close>.
\<close>

subsection \<open>State\<close>

type_synonym manager = nat

record Reference =
  iRefTo :: "manager option"
  iRefFrom :: "nat option"

record refs =
  rs_mem :: ll_mem
  rs_mgr :: "manager \<Rightarrow> LinkedListHead option"
  rs_ref :: "addr \<Rightarrow> Reference option"

text \<open>The virtual functions of a reference.\<close>

record ref_ops =
  targetObjectBuildLink :: "addr \<Rightarrow> refs \<Rightarrow> refs option"
  targetObjectDestroyLink :: "addr \<Rightarrow> refs \<Rightarrow> refs option"
  sourceObjectDestroyLink :: "addr \<Rightarrow> refs \<Rightarrow> refs option"

definition set_target :: "addr \<Rightarrow> manager option \<Rightarrow> nat option \<Rightarrow> refs \<Rightarrow> refs" where
  "set_target r to src s = s\<lparr>rs_ref := (rs_ref s)(r \<mapsto> \<lparr>iRefTo = to, iRefFrom = src\<rparr>)\<rparr>"

definition ref_delink :: "addr \<Rightarrow> refs \<Rightarrow> refs" where
  "ref_delink r s = s\<lparr>rs_mem := delink r (rs_mem s)\<rparr>"

definition ref_isValid :: "addr \<Rightarrow> refs \<Rightarrow> bool option" where
  "ref_isValid r s = map_option (\<lambda>x. iRefTo x \<noteq> None) (rs_ref s r)"

definition Reference_new :: "addr \<Rightarrow> refs \<Rightarrow> refs" where
  "Reference_new r s = set_target r None None (s\<lparr>rs_mem := LinkedListElement_new r (rs_mem s)\<rparr>)"

definition unlink :: "ref_ops \<Rightarrow> addr \<Rightarrow> refs \<Rightarrow> refs option" where
  "unlink ops r s = map_option (\<lambda>s. set_target r None None (ref_delink r s)) (targetObjectDestroyLink ops r s)"

definition invalidate :: "ref_ops \<Rightarrow> addr \<Rightarrow> refs \<Rightarrow> refs option" where
  "invalidate ops r s = (case sourceObjectDestroyLink ops r s of None \<Rightarrow> None
     | Some s \<Rightarrow> map_option (\<lambda>x. set_target r None (iRefFrom x) (ref_delink r s)) (rs_ref s r))"

definition link :: "ref_ops \<Rightarrow> addr \<Rightarrow> manager option \<Rightarrow> nat option \<Rightarrow> refs \<Rightarrow> refs option" where
  "link ops r toObj fromObj s =
     (if fromObj = None then None
      else case ref_isValid r s of None \<Rightarrow> None
        | Some v \<Rightarrow>
            (case if v then unlink ops r s else Some s of None \<Rightarrow> None
             | Some s \<Rightarrow>
                 if toObj = None then Some s
                 else targetObjectBuildLink ops r (set_target r toObj fromObj s)))"

definition RefManager_new :: "manager \<Rightarrow> addr \<Rightarrow> addr \<Rightarrow> refs \<Rightarrow> refs" where
  "RefManager_new M f l s = (let (h, m) = LinkedListHead_new f l (rs_mem s)
     in s\<lparr>rs_mem := m, rs_mgr := (rs_mgr s)(M \<mapsto> h)\<rparr>)"

partial_function (option) clearReferences :: "ref_ops \<Rightarrow> manager \<Rightarrow> refs \<Rightarrow> refs option" where
  [code]: "clearReferences ops M s =
     (case rs_mgr s M of None \<Rightarrow> None
      | Some h \<Rightarrow>
          (case getFirst h (rs_mem s) of
             None \<Rightarrow> Some s
           | Some ref \<Rightarrow>
               (case invalidate ops ref s of None \<Rightarrow> None
                | Some s \<Rightarrow> clearReferences ops M (ref_delink ref s))))"

text \<open>The destructors.\<close>

definition RefManager_delete :: "ref_ops \<Rightarrow> manager \<Rightarrow> refs \<Rightarrow> refs option" where
  "RefManager_delete ops M s = map_option (\<lambda>s. s\<lparr>rs_mgr := (rs_mgr s)(M := None)\<rparr>) (clearReferences ops M s)"

definition Reference_delete :: "ref_ops \<Rightarrow> addr \<Rightarrow> refs \<Rightarrow> refs option" where
  "Reference_delete ops r s = map_option (\<lambda>s. let s = ref_delink r s in s\<lparr>rs_ref := (rs_ref s)(r := None)\<rparr>) (unlink ops r s)"

subsection \<open>References to maps and groups\<close>

definition target_of :: "addr \<Rightarrow> refs \<Rightarrow> manager option" where
  "target_of r s = (case rs_ref s r of None \<Rightarrow> None | Some x \<Rightarrow> iRefTo x)"

definition add_first :: "(LinkedListHead \<Rightarrow> LinkedListHead) \<Rightarrow> addr \<Rightarrow> refs \<Rightarrow> refs option" where
  "add_first upd r s = (case target_of r s of None \<Rightarrow> None | Some M \<Rightarrow>
     (case rs_mgr s M of None \<Rightarrow> None | Some h \<Rightarrow>
        (case insertFirst h r (rs_mem s) of None \<Rightarrow> None
         | Some m \<Rightarrow> Some (s\<lparr>rs_mem := m, rs_mgr := (rs_mgr s)(M \<mapsto> upd h)\<rparr>))))"

definition map_build :: "addr \<Rightarrow> refs \<Rightarrow> refs option" where
  "map_build = add_first incSize"

definition map_source_destroy :: "addr \<Rightarrow> refs \<Rightarrow> refs option" where
  "map_source_destroy r s = (case target_of r s of None \<Rightarrow> None | Some M \<Rightarrow>
     (case rs_mgr s M of None \<Rightarrow> None | Some h \<Rightarrow> Some (s\<lparr>rs_mgr := (rs_mgr s)(M \<mapsto> decSize h)\<rparr>)))"

definition map_target_destroy :: "addr \<Rightarrow> refs \<Rightarrow> refs option" where
  "map_target_destroy r s = (case ref_isValid r s of None \<Rightarrow> None
     | Some v \<Rightarrow> if v then map_source_destroy r s else Some s)"

definition LinkMember :: "addr \<Rightarrow> refs \<Rightarrow> refs option" where
  "LinkMember = add_first id"

definition map_ops :: ref_ops where
  "map_ops = \<lparr>targetObjectBuildLink = map_build, targetObjectDestroyLink = map_target_destroy, sourceObjectDestroyLink = map_source_destroy\<rparr>"

definition group_ops :: ref_ops where
  "group_ops = \<lparr>targetObjectBuildLink = LinkMember, targetObjectDestroyLink = (\<lambda>r. Some), sourceObjectDestroyLink = (\<lambda>r. Some)\<rparr>"

definition ops_of :: "bool \<Rightarrow> ref_ops" where
  "ops_of counted = (if counted then map_ops else group_ops)"

subsection \<open>Runs\<close>

definition refs_init :: "ll_mem \<Rightarrow> refs" where
  "refs_init m = \<lparr>rs_mem = m, rs_mgr = (\<lambda>_. None), rs_ref = (\<lambda>_. None)\<rparr>"

text \<open>Addresses of live objects; the allocator hands out others.\<close>

definition in_use :: "refs \<Rightarrow> addr set" where
  "in_use s = dom (rs_ref s) \<union> (\<Union>h \<in> ran (rs_mgr s). {iFirst h, iLast h})"

inductive ref_step :: "bool \<Rightarrow> refs \<Rightarrow> refs \<Rightarrow> bool" for k :: bool where
  new_manager: "rs_mgr s M = None \<Longrightarrow> f \<noteq> l \<Longrightarrow> f \<notin> in_use s \<Longrightarrow> l \<notin> in_use s \<Longrightarrow> ref_step k s (RefManager_new M f l s)"
| new_reference: "r \<notin> in_use s \<Longrightarrow> ref_step k s (Reference_new r s)"
| linked: "rs_ref s r \<noteq> None \<Longrightarrow> \<forall>M. toObj = Some M \<longrightarrow> rs_mgr s M \<noteq> None \<Longrightarrow>
    link (ops_of k) r toObj fromObj s = Some s' \<Longrightarrow> ref_step k s s'"
| unlinked: "rs_ref s r \<noteq> None \<Longrightarrow> unlink (ops_of k) r s = Some s' \<Longrightarrow> ref_step k s s'"
| deleted: "rs_ref s r \<noteq> None \<Longrightarrow> Reference_delete (ops_of k) r s = Some s' \<Longrightarrow> ref_step k s s'"
| cleared: "rs_mgr s M \<noteq> None \<Longrightarrow> clearReferences (ops_of k) M s = Some s' \<Longrightarrow> ref_step k s s'"
| manager_deleted: "rs_mgr s M \<noteq> None \<Longrightarrow> RefManager_delete (ops_of k) M s = Some s' \<Longrightarrow> ref_step k s s'"

inductive ref_run :: "bool \<Rightarrow> refs \<Rightarrow> bool" for k :: bool where
  start: "ref_run k (refs_init m)"
| step: "ref_run k s \<Longrightarrow> ref_step k s s' \<Longrightarrow> ref_run k s'"

subsection \<open>The invariant\<close>

definition refs_inv :: "bool \<Rightarrow> (manager \<Rightarrow> addr list) \<Rightarrow> refs \<Rightarrow> bool" where
  "refs_inv k L s \<longleftrightarrow>
     (\<forall>M h. rs_mgr s M = Some h \<longrightarrow> holds h (L M) (rs_mem s) \<and> iSize h = (if k then of_nat (length (L M)) else 0)) \<and>
     (\<forall>M N h g. rs_mgr s M = Some h \<and> rs_mgr s N = Some g \<and> M \<noteq> N \<longrightarrow> set (chain h (L M)) \<inter> set (chain g (L N)) = {}) \<and>
     (\<forall>M h. rs_mgr s M = Some h \<longrightarrow> rs_ref s (iFirst h) = None \<and> rs_ref s (iLast h) = None) \<and>
     (\<forall>M r. r \<in> set (L M) \<longleftrightarrow> target_of r s = Some M) \<and>
     (\<forall>r M. target_of r s = Some M \<longrightarrow> rs_mgr s M \<noteq> None) \<and>
     (\<forall>r. rs_ref s r \<noteq> None \<and> target_of r s = None \<longrightarrow> \<not> isInList r (rs_mem s))"

lemma refs_invD:
  assumes "refs_inv k L s"
  shows "rs_mgr s M = Some h \<Longrightarrow> holds h (L M) (rs_mem s)"
    "rs_mgr s M = Some h \<Longrightarrow> iSize h = (if k then of_nat (length (L M)) else 0)"
    "rs_mgr s M = Some h \<Longrightarrow> rs_mgr s N = Some g \<Longrightarrow> M \<noteq> N \<Longrightarrow> set (chain h (L M)) \<inter> set (chain g (L N)) = {}"
    "rs_mgr s M = Some h \<Longrightarrow> rs_ref s (iFirst h) = None" "rs_mgr s M = Some h \<Longrightarrow> rs_ref s (iLast h) = None"
    "r \<in> set (L M) \<longleftrightarrow> target_of r s = Some M"
    "target_of r s = Some M \<Longrightarrow> \<exists>h. rs_mgr s M = Some h"
    "rs_ref s r \<noteq> None \<Longrightarrow> target_of r s = None \<Longrightarrow> \<not> isInList r (rs_mem s)"
  using assms unfolding refs_inv_def by (blast, blast, blast, blast, blast, blast, blast, blast)

lemma refs_invI:
  assumes "\<And>M h. rs_mgr s M = Some h \<Longrightarrow> holds h (L M) (rs_mem s)"
    "\<And>M h. rs_mgr s M = Some h \<Longrightarrow> iSize h = (if k then of_nat (length (L M)) else 0)"
    "\<And>M N h g. rs_mgr s M = Some h \<Longrightarrow> rs_mgr s N = Some g \<Longrightarrow> M \<noteq> N \<Longrightarrow> set (chain h (L M)) \<inter> set (chain g (L N)) = {}"
    "\<And>M h. rs_mgr s M = Some h \<Longrightarrow> rs_ref s (iFirst h) = None" "\<And>M h. rs_mgr s M = Some h \<Longrightarrow> rs_ref s (iLast h) = None"
    "\<And>M r. r \<in> set (L M) \<longleftrightarrow> target_of r s = Some M"
    "\<And>r M. target_of r s = Some M \<Longrightarrow> \<exists>h. rs_mgr s M = Some h"
    "\<And>r. rs_ref s r \<noteq> None \<Longrightarrow> target_of r s = None \<Longrightarrow> \<not> isInList r (rs_mem s)"
  shows "refs_inv k L s"
  unfolding refs_inv_def using assms by (intro conjI allI impI) blast+

lemma refs_inv_init: "refs_inv k (\<lambda>_. []) (refs_init m)"
  by (rule refs_invI) (simp_all add: refs_init_def target_of_def)

lemma off_chain:
  assumes "refs_inv k L s" "rs_mgr s M = Some h" "rs_ref s r \<noteq> None" "target_of r s \<noteq> Some M"
  shows "r \<notin> set (chain h (L M))"
  using refs_invD(4,5)[OF assms(1,2)] refs_invD(6)[OF assms(1), of r M] assms(3,4) by (auto simp: chain_def)

lemma chain_free:
  assumes "refs_inv k L s" "rs_mgr s M = Some h" "r \<notin> in_use s"
  shows "r \<notin> set (chain h (L M))"
proof -
  have "rs_ref s r = None" "r \<noteq> iFirst h" "r \<noteq> iLast h" using assms(2,3) by (auto simp: in_use_def ran_def)
  moreover have "r \<notin> set (L M)" using refs_invD(6)[OF assms(1), of r M] calculation(1) by (simp add: target_of_def)
  ultimately show ?thesis by (simp add: chain_def)
qed

text \<open>A reference that loses its target leaves the list of the target.\<close>

definition dec_mgr :: "bool \<Rightarrow> manager option \<Rightarrow> (manager \<Rightarrow> LinkedListHead option) \<Rightarrow> manager \<Rightarrow> LinkedListHead option" where
  "dec_mgr k to mgr = (case to of Some M \<Rightarrow> if k then mgr(M \<mapsto> decSize (the (mgr M))) else mgr | None \<Rightarrow> mgr)"

lemma size_upd_simps [simp]: "chain (decSize h) xs = chain h xs" "holds (decSize h) xs m = holds h xs m"
  "chain (incSize h) xs = chain h xs" "holds (incSize h) xs m = holds h xs m"
  "iFirst (decSize h) = iFirst h" "iLast (decSize h) = iLast h" "iFirst (incSize h) = iFirst h" "iLast (incSize h) = iLast h"
  "iSize (decSize h) = iSize h - 1" "iSize (incSize h) = iSize h + 1"
  by (simp_all add: decSize_def incSize_def)

lemma delink_not_in_list: "\<not> isInList r m \<Longrightarrow> delink r m = m"
  by (auto simp: delink_def isInList_def split: option.splits)

text \<open>A change of one list, its head and the references on it.\<close>

lemma change_one:
  assumes inv: "refs_inv k L s" and h: "rs_mgr s M = Some h"
    and mgr': "rs_mgr s' = (rs_mgr s)(M \<mapsto> g)" and ends: "iFirst g = iFirst h" "iLast g = iLast h"
    and ref': "\<And>q. q \<noteq> r \<Longrightarrow> rs_ref s' q = rs_ref s q" and r: "rs_ref s r \<noteq> None" "rs_ref s' r \<noteq> None"
    and t: "target_of r s = None \<or> target_of r s = Some M" "target_of r s' = None \<or> target_of r s' = Some M"
    and mem': "\<And>q. q \<notin> set (chain h (L M)) \<Longrightarrow> q \<noteq> r \<Longrightarrow> rs_mem s' q = rs_mem s q"
    and w: "holds g xs (rs_mem s')" "iSize g = (if k then of_nat (length xs) else 0)"
    and set_xs: "\<And>q. q \<noteq> r \<Longrightarrow> q \<in> set xs \<longleftrightarrow> q \<in> set (L M)" "r \<in> set xs \<longleftrightarrow> target_of r s' = Some M"
    and out: "target_of r s' = None \<Longrightarrow> \<not> isInList r (rs_mem s')"
  shows "refs_inv k (L(M := xs)) s'"
proof -
  note I = refs_invD[OF inv]
  have t': "target_of q s' = target_of q s" if "q \<noteq> r" for q using ref'[OF that] by (simp add: target_of_def)
  have other: "rs_mem s' q = rs_mem s q" if "rs_mgr s N = Some f" "N \<noteq> M" "q \<in> set (chain f (L N))" for q N f
  proof (rule mem')
    show "q \<notin> set (chain h (L M))" using I(3)[OF that(1) h that(2)] that(3) by blast
    have "r \<notin> set (chain f (L N))" by (rule off_chain[OF inv that(1) r(1)]) (use t(1) that(2) in auto)
    then show "q \<noteq> r" using that(3) by auto
  qed
  have sub: "q \<in> set (chain h (L M)) \<or> q = r" if "q \<in> set (chain g xs)" for q
    using that set_xs(1)[of q] ends by (auto simp: chain_def)
  have old: "rs_mgr s N = Some f" if "rs_mgr s' N = Some f" "N \<noteq> M" for N f using that by (simp add: mgr')
  have apart: "set (chain g xs) \<inter> set (chain f (L N)) = {}" if "rs_mgr s N = Some f" "N \<noteq> M" for N f
  proof -
    have "r \<notin> set (chain f (L N))" by (rule off_chain[OF inv that(1) r(1)]) (use t(1) that(2) in auto)
    then show ?thesis using sub I(3)[OF that(1) h that(2)] by blast
  qed
  show ?thesis
  proof (rule refs_invI)
    fix N f assume f: "rs_mgr s' N = Some f"
    have "N = M \<Longrightarrow> f = g" using f by (simp add: mgr')
    note this [dest!]
    show "holds f ((L(M := xs)) N) (rs_mem s')"
    proof (cases "N = M")
      case False
      have "holds f (L N) (rs_mem s') = holds f (L N) (rs_mem s)" by (rule holds_cong, rule other[OF old[OF f False] False])
      then show ?thesis using I(1)[OF old[OF f False]] False by simp
    qed (use w in auto)
    show "iSize f = (if k then of_nat (length ((L(M := xs)) N)) else 0)"
      by (cases "N = M") (use w(2) I(2)[OF old[OF f]] in auto)
    show "rs_ref s' (iFirst f) = None"
    proof -
      have "rs_ref s (iFirst f) = None" by (cases "N = M") (use I(4)[OF h] I(4)[OF old[OF f]] ends in auto)
      then show ?thesis using ref' r(1) by metis
    qed
    show "rs_ref s' (iLast f) = None"
    proof -
      have "rs_ref s (iLast f) = None" by (cases "N = M") (use I(5)[OF h] I(5)[OF old[OF f]] ends in auto)
      then show ?thesis using ref' r(1) by metis
    qed
  next
    fix A B f f' assume f: "rs_mgr s' A = Some f" "rs_mgr s' B = Some f'" "A \<noteq> B"
    consider "A = M" | "B = M" | "A \<noteq> M" "B \<noteq> M" by blast
    then show "set (chain f ((L(M := xs)) A)) \<inter> set (chain f' ((L(M := xs)) B)) = {}"
    proof cases
      case 1
      then have "f = g" "B \<noteq> M" using f by (auto simp: mgr')
      then show ?thesis using apart[OF old[OF f(2)]] 1 by simp
    next
      case 2
      then have "f' = g" "A \<noteq> M" using f by (auto simp: mgr')
      then show ?thesis using apart[OF old[OF f(1)]] 2 by (simp add: Int_commute)
    next
      case 3
      then show ?thesis using I(3)[OF old[OF f(1)] old[OF f(2)] f(3)] by simp
    qed
  next
    fix N q
    show "q \<in> set ((L(M := xs)) N) \<longleftrightarrow> target_of q s' = Some N"
    proof (cases "q = r")
      case True
      then show ?thesis using set_xs(2) I(6)[of r N] t by (cases "N = M") auto
    next
      case False
      then show ?thesis using set_xs(1)[OF False] I(6)[of q N] t'[OF False] by (cases "N = M") auto
    qed
  next
    fix q N assume q: "target_of q s' = Some N"
    show "\<exists>h. rs_mgr s' N = Some h"
    proof (cases "q = r")
      case True then show ?thesis using q t(2) by (simp add: mgr')
    next
      case False then show ?thesis using q t'[OF False] I(7)[of q N] by (simp add: mgr')
    qed
  next
    fix q assume q: "rs_ref s' q \<noteq> None" "target_of q s' = None"
    show "\<not> isInList q (rs_mem s')"
    proof (cases "q = r")
      case True then show ?thesis using out q(2) by simp
    next
      case False
      then have o: "rs_ref s q \<noteq> None" "target_of q s = None" using q ref' t' by auto
      have "q \<notin> set (chain h (L M))" by (rule off_chain[OF inv h o(1)]) (use o(2) in simp)
      then show ?thesis using I(8)[OF o] mem'[OF _ False] by (simp add: isInList_def)
    qed
  qed
qed

lemma detach:
  assumes inv: "refs_inv k L s" and x: "rs_ref s r = Some x"
    and mem': "rs_mem s' = delink r (rs_mem s)" and ref': "rs_ref s' = (rs_ref s)(r \<mapsto> y)" and y: "iRefTo y = None"
    and mgr': "rs_mgr s' = dec_mgr k (iRefTo x) (rs_mgr s)"
  shows "refs_inv k (\<lambda>M. remove1 r (L M)) s'"
proof -
  note I = refs_invD[OF inv]
  have t: "target_of r s = iRefTo x" using x by (simp add: target_of_def)
  have t': "target_of q s' = (if q = r then None else target_of q s)" for q by (simp add: target_of_def ref' y)
  show ?thesis
  proof (cases "iRefTo x")
    case None
    have off: "r \<notin> set (L M)" for M using I(6)[of r M] t None by simp
    have same: "rs_mem s' = rs_mem s" "rs_mgr s' = rs_mgr s"
      using delink_not_in_list[OF I(8)[of r]] x t None by (simp_all add: mem' mgr' dec_mgr_def)
    have tt: "target_of q s' = target_of q s" for q using t' t None by simp
    have L: "(\<lambda>M. remove1 r (L M)) = L" using off by (simp add: remove1_idem)
    show ?thesis unfolding L
    proof (rule refs_invI)
      show "rs_ref s' (iFirst h) = None" "rs_ref s' (iLast h) = None" if "rs_mgr s' M = Some h" for M h
        using I(4,5)[of M h] that x by (auto simp: ref' same)
      show "\<not> isInList q (rs_mem s')" if "rs_ref s' q \<noteq> None" "target_of q s' = None" for q
        using I(8)[of q] that x tt by (auto simp: ref' same split: if_splits)
    qed (use I in \<open>auto simp: same tt\<close>)
  next
    case (Some M)
    then obtain h where h: "rs_mgr s M = Some h" using I(7)[of r M] t by auto
    have "r \<in> set (L M)" using I(6)[of r M] t Some by simp
    then obtain xs ys where L: "L M = xs @ r # ys" "r \<notin> set xs" by (meson split_list_first)
    have d: "distinct (L M)" using I(1)[OF h] by (simp add: holds_def chain_def)
    let ?g = "if k then decSize h else h"
    have "(\<lambda>N. remove1 r (L N)) = L(M := xs @ ys)"
    proof
      fix N show "remove1 r (L N) = (L(M := xs @ ys)) N"
        using I(6)[of r N] t Some L by (cases "N = M") (simp_all add: remove1_append remove1_idem)
    qed
    moreover have "refs_inv k (L(M := xs @ ys)) s'"
    proof (rule change_one[OF inv h, where g = ?g and r = r])
      show "rs_mgr s' = (rs_mgr s)(M \<mapsto> ?g)" using Some h by (auto simp: mgr' dec_mgr_def)
      show "rs_mem s' q = rs_mem s q" if "q \<notin> set (chain h (L M))" "q \<noteq> r" for q
        using delink_holds(3)[of h xs r ys "rs_mem s" q] I(1)[OF h] L that by (simp add: mem')
      show "holds ?g (xs @ ys) (rs_mem s')" using delink_holds(1)[of h xs r ys "rs_mem s"] I(1)[OF h] L by (simp add: mem')
      show "iSize ?g = (if k then of_nat (length (xs @ ys)) else 0)" using I(2)[OF h] L by simp
      show "\<not> isInList r (rs_mem s')" using delink_holds(2)[of h xs r ys "rs_mem s"] I(1)[OF h] L by (simp add: mem')
    qed (use x t t' Some L d in \<open>auto simp: ref'\<close>)
    ultimately show ?thesis by simp
  qed
qed

subsection \<open>The operations\<close>

lemma target_destroy:
  assumes "refs_inv k L s" "rs_ref s r = Some x"
  shows "targetObjectDestroyLink (ops_of k) r s = Some (s\<lparr>rs_mgr := dec_mgr k (iRefTo x) (rs_mgr s)\<rparr>)"
  using refs_invD(7)[OF assms(1), of r] assms(2)
  by (auto simp: ops_of_def map_ops_def group_ops_def map_target_destroy_def map_source_destroy_def ref_isValid_def target_of_def
      dec_mgr_def split: option.splits)

lemma source_destroy:
  assumes "refs_inv k L s" "rs_ref s r = Some x" "iRefTo x \<noteq> None"
  shows "sourceObjectDestroyLink (ops_of k) r s = Some (s\<lparr>rs_mgr := dec_mgr k (iRefTo x) (rs_mgr s)\<rparr>)"
  using refs_invD(7)[OF assms(1), of r] assms(2,3)
  by (auto simp: ops_of_def map_ops_def group_ops_def map_source_destroy_def target_of_def dec_mgr_def split: option.splits)

lemma dom_dec_mgr: "(\<And>M. to = Some M \<Longrightarrow> mgr M \<noteq> None) \<Longrightarrow> dom (dec_mgr k to mgr) = dom mgr"
  by (auto simp: dec_mgr_def split: option.splits)

text \<open>What a reference that loses its target leaves.\<close>

definition detached :: "bool \<Rightarrow> addr \<Rightarrow> Reference \<Rightarrow> nat option \<Rightarrow> refs \<Rightarrow> refs" where
  "detached k r x src s = set_target r None src (ref_delink r (s\<lparr>rs_mgr := dec_mgr k (iRefTo x) (rs_mgr s)\<rparr>))"

lemma detached_inv:
  assumes inv: "refs_inv k L s" and x: "rs_ref s r = Some x"
  shows "refs_inv k (\<lambda>M. remove1 r (L M)) (detached k r x src s)"
    "rs_ref (detached k r x src s) = (rs_ref s)(r \<mapsto> \<lparr>iRefTo = None, iRefFrom = src\<rparr>)"
    "dom (rs_mgr (detached k r x src s)) = dom (rs_mgr s)"
proof -
  show "refs_inv k (\<lambda>M. remove1 r (L M)) (detached k r x src s)"
    by (rule detach[OF inv x, where y = "\<lparr>iRefTo = None, iRefFrom = src\<rparr>"]) (simp_all add: detached_def set_target_def ref_delink_def)
  have "rs_mgr s M \<noteq> None" if "iRefTo x = Some M" for M
    using refs_invD(7)[OF inv, of r M] x that by (auto simp: target_of_def)
  then show "dom (rs_mgr (detached k r x src s)) = dom (rs_mgr s)"
    using dom_dec_mgr by (simp add: detached_def set_target_def ref_delink_def)
  show "rs_ref (detached k r x src s) = (rs_ref s)(r \<mapsto> \<lparr>iRefTo = None, iRefFrom = src\<rparr>)"
    by (simp add: detached_def set_target_def ref_delink_def)
qed

lemma unlink_detached:
  assumes "refs_inv k L s" "rs_ref s r = Some x"
  shows "unlink (ops_of k) r s = Some (detached k r x None s)"
  by (simp add: unlink_def target_destroy[OF assms] detached_def)

lemma invalidate_detached:
  assumes "refs_inv k L s" "rs_ref s r = Some x" "iRefTo x \<noteq> None"
  shows "invalidate (ops_of k) r s = Some (detached k r x (iRefFrom x) s)"
  by (simp add: invalidate_def source_destroy[OF assms] detached_def assms(2))

lemma attach:
  assumes inv: "refs_inv k L s" and x: "rs_ref s r = Some x" "iRefTo x = None" and h: "rs_mgr s M = Some h"
  shows "\<exists>s'. targetObjectBuildLink (ops_of k) r (set_target r (Some M) src s) = Some s' \<and> refs_inv k (L(M := r # L M)) s'
    \<and> rs_ref s' = (rs_ref s)(r \<mapsto> \<lparr>iRefTo = Some M, iRefFrom = src\<rparr>) \<and> dom (rs_mgr s') = dom (rs_mgr s)"
proof -
  note I = refs_invD[OF inv]
  have t: "target_of r s = None" using x by (simp add: target_of_def)
  have r: "r \<notin> set (chain h (L M))" by (rule off_chain[OF inv h]) (use x t in simp_all)
  obtain m where m: "insertFirst h r (rs_mem s) = Some m" "holds h (r # L M) m"
    "\<And>q. q \<notin> set (chain h (r # L M)) \<Longrightarrow> m q = rs_mem s q"
    using insertFirst_holds[OF I(1)[OF h] r] by blast
  let ?g = "if k then incSize h else h"
  let ?s = "s\<lparr>rs_mem := m, rs_mgr := (rs_mgr s)(M \<mapsto> ?g), rs_ref := (rs_ref s)(r \<mapsto> \<lparr>iRefTo = Some M, iRefFrom = src\<rparr>)\<rparr>"
  have "targetObjectBuildLink (ops_of k) r (set_target r (Some M) src s) = Some ?s"
    using h m(1) by (auto simp: ops_of_def map_ops_def group_ops_def map_build_def LinkMember_def add_first_def target_of_def set_target_def)
  moreover have "refs_inv k (L(M := r # L M)) ?s"
  proof (rule change_one[OF inv h, where g = ?g and r = r])
    show "rs_mem ?s q = rs_mem s q" if "q \<notin> set (chain h (L M))" "q \<noteq> r" for q
      using m(3)[of q] that by (auto simp: chain_def)
    show "iSize ?g = (if k then of_nat (length (r # L M)) else 0)" using I(2)[OF h] by simp
  qed (use x t m(2) in \<open>auto simp: target_of_def\<close>)
  ultimately show ?thesis using h by (intro exI[of _ ?s]) auto
qed

lemma link_inv:
  assumes inv: "refs_inv k L s" and x: "rs_ref s r \<noteq> None" and src: "fromObj \<noteq> None" and M: "\<And>M. toObj = Some M \<Longrightarrow> rs_mgr s M \<noteq> None"
  shows "\<exists>s' L'. link (ops_of k) r toObj fromObj s = Some s' \<and> refs_inv k L' s'"
proof -
  obtain x where x: "rs_ref s r = Some x" using x by auto
  have "\<exists>s1 L1 y. (if iRefTo x \<noteq> None then unlink (ops_of k) r s else Some s) = Some s1 \<and> refs_inv k L1 s1
    \<and> rs_ref s1 r = Some y \<and> iRefTo y = None \<and> dom (rs_mgr s1) = dom (rs_mgr s)"
  proof (cases "iRefTo x = None")
    case True
    then show ?thesis using inv x by auto
  next
    case False
    then show ?thesis using unlink_detached[OF inv x] detached_inv[OF inv x, of None] by (auto intro!: exI)
  qed
  then obtain s1 L1 y where s1: "(if iRefTo x \<noteq> None then unlink (ops_of k) r s else Some s) = Some s1" "refs_inv k L1 s1"
    "rs_ref s1 r = Some y" "iRefTo y = None" "dom (rs_mgr s1) = dom (rs_mgr s)" by blast
  have l: "link (ops_of k) r toObj fromObj s = (if toObj = None then Some s1 else targetObjectBuildLink (ops_of k) r (set_target r toObj fromObj s1))"
    using src x s1(1) by (simp add: link_def ref_isValid_def del: not_None_eq)
  show ?thesis
  proof (cases toObj)
    case None then show ?thesis using l s1(2) by auto
  next
    case (Some N)
    then obtain h where "rs_mgr s1 N = Some h" using M[of N] s1(5) by (metis domD domI not_None_eq)
    from attach[OF s1(2,3,4) this, of fromObj] show ?thesis using l Some by auto
  qed
qed

lemma ref_delink_idle: "refs_inv k L s \<Longrightarrow> rs_ref s r \<noteq> None \<Longrightarrow> target_of r s = None \<Longrightarrow> ref_delink r s = s"
  using refs_invD(8)[of k L s r] by (simp add: ref_delink_def delink_not_in_list)

text \<open>\<open>clearReferences\<close> returns, whatever the list holds.\<close>

lemma clear_inv:
  assumes "refs_inv k L s" "rs_mgr s M \<noteq> None"
  shows "\<exists>s'. clearReferences (ops_of k) M s = Some s' \<and> refs_inv k (L(M := [])) s' \<and> dom (rs_mgr s') = dom (rs_mgr s)
    \<and> rs_ref s' = (\<lambda>r. if target_of r s = Some M then map_option (iRefTo_update (\<lambda>_. None)) (rs_ref s r) else rs_ref s r)"
  using assms
proof (induction "L M" arbitrary: L s)
  case Nil
  then obtain h where h: "rs_mgr s M = Some h" by auto
  note I = refs_invD[OF Nil.prems(1)]
  have "getFirst h (rs_mem s) = None" using holds_getFirst[OF I(1)[OF h]] Nil.hyps[symmetric] by simp
  then have "clearReferences (ops_of k) M s = Some s" using h by (subst clearReferences.simps) simp
  moreover have "target_of r s \<noteq> Some M" for r using I(6)[of r M] Nil.hyps[symmetric] by simp
  moreover have "L(M := []) = L" using Nil.hyps by auto
  ultimately show ?case using Nil.prems(1) by simp
next
  case (Cons r xs)
  then obtain h where h: "rs_mgr s M = Some h" by auto
  note I = refs_invD[OF Cons.prems(1)]
  have L: "L M = r # xs" using Cons.hyps(2) by simp
  have tr: "target_of r s = Some M" using I(6)[of r M] L by simp
  then obtain x where x: "rs_ref s r = Some x" "iRefTo x = Some M" by (auto simp: target_of_def split: option.splits)
  let ?s = "detached k r x (iRefFrom x) s" and ?L = "\<lambda>N. remove1 r (L N)"
  note d = detached_inv[OF Cons.prems(1) x(1), of "iRefFrom x"]
  have i: "invalidate (ops_of k) r s = Some ?s" by (rule invalidate_detached[OF Cons.prems(1) x(1)]) (simp add: x(2))
  have "ref_delink r ?s = ?s" by (rule ref_delink_idle[OF d(1)]) (simp_all add: d(2) target_of_def)
  moreover have "getFirst h (rs_mem s) = Some r" using holds_getFirst[OF I(1)[OF h]] L by simp
  ultimately have step: "clearReferences (ops_of k) M s = clearReferences (ops_of k) M ?s"
    using h i by (subst clearReferences.simps) simp
  have alive: "rs_mgr ?s M \<noteq> None" using d(3) h by (metis domI domIff)
  obtain s' where s': "clearReferences (ops_of k) M ?s = Some s'" "refs_inv k (?L(M := [])) s'" "dom (rs_mgr s') = dom (rs_mgr ?s)"
    "rs_ref s' = (\<lambda>q. if target_of q ?s = Some M then map_option (iRefTo_update (\<lambda>_. None)) (rs_ref ?s q) else rs_ref ?s q)"
    using Cons.hyps(1)[of ?L ?s] L d(1) alive by auto
  have "?L(M := []) = L(M := [])"
  proof
    fix N show "(?L(M := [])) N = (L(M := [])) N"
      using I(6)[of r N] tr by (cases "N = M") (simp_all add: remove1_idem)
  qed
  moreover have "rs_ref s' = (\<lambda>q. if target_of q s = Some M then map_option (iRefTo_update (\<lambda>_. None)) (rs_ref s q) else rs_ref s q)"
    unfolding s'(4) using x d(2) by (auto simp: target_of_def fun_eq_iff)
  ultimately show ?case using s' d(3) step by auto
qed

subsection \<open>What holds over every run\<close>

lemma RefManager_new_inv:
  assumes inv: "refs_inv k L s" and M: "rs_mgr s M = None" and f: "f \<noteq> l" "f \<notin> in_use s" "l \<notin> in_use s"
  shows "refs_inv k L (RefManager_new M f l s)"
proof -
  note I = refs_invD[OF inv]
  let ?p = "LinkedListHead_new f l (rs_mem s)"
  note n = LinkedListHead_new_holds[OF f(1), where m = "rs_mem s"]
  have s': "RefManager_new M f l s = s\<lparr>rs_mem := snd ?p, rs_mgr := (rs_mgr s)(M \<mapsto> fst ?p)\<rparr>"
    by (simp add: RefManager_new_def split_beta)
  have tt: "target_of r (RefManager_new M f l s) = target_of r s" for r by (simp add: s' target_of_def)
  have LM: "L M = []"
  proof (rule ccontr)
    assume "L M \<noteq> []"
    then obtain r where "r \<in> set (L M)" by (cases "L M") auto
    then show False using I(6)[of r M] I(7)[of r M] M by auto
  qed
  have off: "f \<notin> set (chain h (L N))" "l \<notin> set (chain h (L N))" if "rs_mgr s N = Some h" for h N
    using chain_free[OF inv that] f by blast+
  have ends: "iFirst (fst ?p) = f" "iLast (fst ?p) = l" by (simp_all add: LinkedListHead_new_def Let_def)
  have free: "rs_ref s f = None" "rs_ref s l = None" using f by (auto simp: in_use_def)
  have keep: "holds h (L N) (snd ?p)" if "rs_mgr s N = Some h" for N h
  proof -
    have "holds h (L N) (snd ?p) = holds h (L N) (rs_mem s)" by (rule holds_cong, rule n(4)) (use off[OF that] in auto)
    then show ?thesis using I(1)[OF that] by simp
  qed
  show ?thesis
  proof (rule refs_invI)
    fix N h assume h: "rs_mgr (RefManager_new M f l s) N = Some h"
    have c: "N = M \<and> h = fst ?p \<or> N \<noteq> M \<and> rs_mgr s N = Some h" using h by (auto simp: s' split: if_splits)
    then show "holds h (L N) (rs_mem (RefManager_new M f l s))" using n(1) LM keep by (auto simp: s')
    show "iSize h = (if k then of_nat (length (L N)) else 0)" using c n(2) LM I(2) by auto
    show "rs_ref (RefManager_new M f l s) (iFirst h) = None" using c ends free I(4) by (auto simp: s')
    show "rs_ref (RefManager_new M f l s) (iLast h) = None" using c ends free I(5) by (auto simp: s')
  next
    fix A B h g assume h: "rs_mgr (RefManager_new M f l s) A = Some h" "rs_mgr (RefManager_new M f l s) B = Some g" "A \<noteq> B"
    have "A = M \<and> h = fst ?p \<and> rs_mgr s B = Some g \<or> B = M \<and> g = fst ?p \<and> rs_mgr s A = Some h \<or> rs_mgr s A = Some h \<and> rs_mgr s B = Some g"
      using h by (auto simp: s' split: if_splits)
    then show "set (chain h (L A)) \<inter> set (chain g (L B)) = {}"
      using n(3) LM off I(3)[of A h B g] h(3) by auto
  next
    fix r assume r: "rs_ref (RefManager_new M f l s) r \<noteq> None" "target_of r (RefManager_new M f l s) = None"
    then have "r \<notin> {f, l}" using free by (auto simp: s')
    then show "\<not> isInList r (rs_mem (RefManager_new M f l s))"
      using I(8)[of r] r tt[of r] n(4)[of r] by (simp add: s' isInList_def)
  qed (use I in \<open>auto simp: s' target_of_def\<close>)
qed

lemma Reference_new_inv:
  assumes inv: "refs_inv k L s" and r: "r \<notin> in_use s"
  shows "refs_inv k L (Reference_new r s)"
proof -
  note I = refs_invD[OF inv]
  have free: "rs_ref s r = None" using r by (auto simp: in_use_def)
  have tt: "target_of q (Reference_new r s) = target_of q s" for q using free by (simp add: Reference_new_def set_target_def target_of_def)
  have m: "rs_mem (Reference_new r s) q = rs_mem s q" if "q \<noteq> r" for q
    using that by (simp add: Reference_new_def set_target_def LinkedListElement_new_def)
  have g: "rs_mgr (Reference_new r s) = rs_mgr s" by (simp add: Reference_new_def set_target_def)
  have rf: "rs_ref (Reference_new r s) q = rs_ref s q" if "q \<noteq> r" for q using that by (simp add: Reference_new_def set_target_def)
  show ?thesis
  proof (rule refs_invI)
    fix M h assume "rs_mgr (Reference_new r s) M = Some h"
    then have h: "rs_mgr s M = Some h" by (simp add: g)
    have off: "r \<notin> set (chain h (L M))" by (rule chain_free[OF inv h r])
    have "holds h (L M) (rs_mem (Reference_new r s)) = holds h (L M) (rs_mem s)" by (rule holds_cong, rule m) (use off in auto)
    then show "holds h (L M) (rs_mem (Reference_new r s))" using I(1)[OF h] by simp
    show "rs_ref (Reference_new r s) (iFirst h) = None" "rs_ref (Reference_new r s) (iLast h) = None"
      using I(4,5)[OF h] rf off by (metis chain_ends)+
  next
    fix q assume q: "rs_ref (Reference_new r s) q \<noteq> None" "target_of q (Reference_new r s) = None"
    show "\<not> isInList q (rs_mem (Reference_new r s))"
    proof (cases "q = r")
      case True
      then show ?thesis by (simp add: Reference_new_def set_target_def LinkedListElement_new_def isInList_def)
    next
      case False
      then show ?thesis using I(8)[of q] q rf tt m by (simp add: isInList_def)
    qed
  qed (use I in \<open>auto simp: tt g\<close>)
qed

lemma ref_gone:
  assumes inv: "refs_inv k L s" and t: "target_of r s = None"
  shows "refs_inv k L (s\<lparr>rs_ref := (rs_ref s)(r := None)\<rparr>)"
proof -
  note I = refs_invD[OF inv]
  have tt: "target_of q (s\<lparr>rs_ref := (rs_ref s)(r := None)\<rparr>) = target_of q s" for q using t by (simp add: target_of_def)
  show ?thesis by (rule refs_invI) (use I tt in \<open>auto split: if_splits\<close>)
qed

lemma manager_gone:
  assumes inv: "refs_inv k L s" and e: "L M = []"
  shows "refs_inv k L (s\<lparr>rs_mgr := (rs_mgr s)(M := None)\<rparr>)"
proof -
  note I = refs_invD[OF inv]
  have tt: "target_of q (s\<lparr>rs_mgr := (rs_mgr s)(M := None)\<rparr>) = target_of q s" for q by (simp add: target_of_def)
  have "target_of q s \<noteq> Some M" for q using I(6)[of q M] e by simp
  then show ?thesis by (intro refs_invI) (use I tt in \<open>auto split: if_splits\<close>)
qed

lemma ref_step_inv:
  assumes "ref_step k s s'" "refs_inv k L s"
  shows "\<exists>L'. refs_inv k L' s'"
  using assms
proof cases
  case (new_manager M f l) then show ?thesis using RefManager_new_inv[OF assms(2)] by blast
next
  case (new_reference r) then show ?thesis using Reference_new_inv[OF assms(2)] by blast
next
  case (linked r toObj fromObj)
  have "fromObj \<noteq> None" using linked(3) by (cases fromObj) (simp_all add: link_def)
  then show ?thesis using link_inv[OF assms(2) linked(1), of fromObj toObj] linked(2,3) by auto
next
  case (unlinked r)
  then obtain x where x: "rs_ref s r = Some x" by auto
  then show ?thesis using unlinked(2) unlink_detached[OF assms(2) x] detached_inv(1)[OF assms(2) x] by auto
next
  case (deleted r)
  then obtain x where x: "rs_ref s r = Some x" by auto
  let ?d = "detached k r x None s"
  note d = detached_inv[OF assms(2) x, of None]
  have t: "target_of r ?d = None" by (simp add: target_of_def d(2))
  have "ref_delink r ?d = ?d" by (rule ref_delink_idle[OF d(1)]) (simp_all add: t d(2))
  then have "s' = ?d\<lparr>rs_ref := (rs_ref ?d)(r := None)\<rparr>"
    using deleted(2) unlink_detached[OF assms(2) x] by (simp add: Reference_delete_def Let_def)
  then show ?thesis using ref_gone[OF d(1) t] by blast
next
  case (cleared M) then show ?thesis using clear_inv[OF assms(2) cleared(1)] by auto
next
  case (manager_deleted M)
  from clear_inv[OF assms(2) manager_deleted(1)] obtain s1 where s1: "clearReferences (ops_of k) M s = Some s1" "refs_inv k (L(M := [])) s1" by blast
  then have "s' = s1\<lparr>rs_mgr := (rs_mgr s1)(M := None)\<rparr>" using manager_deleted(2) by (simp add: RefManager_delete_def)
  then show ?thesis using manager_gone[OF s1(2), of M] by auto
qed

lemma ref_run_inv: "ref_run k s \<Longrightarrow> \<exists>L. refs_inv k L s"
proof (induction rule: ref_run.induct)
  case (start m) show ?case using refs_inv_init by blast
next
  case (step s s') then show ?case using ref_step_inv by blast
qed

text \<open>C32. Over every run of creations, links, unlinks and destructions of references and managers, the list of a manager
  holds exactly the references with that target, each once, and its size is their number modulo 2^32, whether the
  references count themselves (maps) or not (groups).\<close>

theorem references_lists:
  assumes "ref_run k s" "rs_mgr s M = Some h"
  shows "\<exists>xs. holds h xs (rs_mem s) \<and> distinct xs \<and> set xs = {r. target_of r s = Some M}
    \<and> getSize h (rs_mem s) = Some (of_nat (length xs))"
proof -
  obtain L where inv: "refs_inv k L s" using ref_run_inv[OF assms(1)] by blast
  note I = refs_invD[OF inv]
  have "getSize h (rs_mem s) = Some (of_nat (length (L M)))"
    by (rule holds_getSize[OF I(1)[OF assms(2)]]) (use I(2)[OF assms(2)] in \<open>auto split: if_splits\<close>)
  moreover have "distinct (L M)" using I(1)[OF assms(2)] by (simp add: holds_def chain_def)
  ultimately show ?thesis using I(1)[OF assms(2)] I(6)[of _ M] by (intro exI[of _ "L M"]) auto
qed

text \<open>C33. \<open>clearReferences\<close> ends from every reachable state: no reference has the manager as its target any more, each of
  them keeps its source, and all other references are as they were.\<close>

theorem clearReferences_ends:
  assumes "ref_run k s" "rs_mgr s M \<noteq> None"
  shows "\<exists>s'. clearReferences (ops_of k) M s = Some s'
    \<and> (\<forall>r. rs_ref s' r = (if target_of r s = Some M then map_option (iRefTo_update (\<lambda>_. None)) (rs_ref s r) else rs_ref s r))"
  using ref_run_inv[OF assms(1)] clear_inv[OF _ assms(2)] by fastforce

text \<open>A map with two players, the second of whom leaves.\<close>

definition two_players :: "refs" where
  "two_players = the (unlink map_ops 12 (the (link map_ops 12 (Some 0) (Some 2) (the (link map_ops 11 (Some 0) (Some 1)
     (Reference_new 12 (Reference_new 11 (RefManager_new 0 1 2 (refs_init (\<lambda>_. \<lparr>iNext = None, iPrev = None\<rparr>))))))))))"

lemmas ref_ops_defs = ops_of_def map_ops_def map_build_def map_target_destroy_def map_source_destroy_def add_first_def
  link_def unlink_def ref_isValid_def target_of_def set_target_def ref_delink_def Reference_new_def RefManager_new_def
  LinkedListHead_new_def LinkedListElement_new_def Let_def insertFirst_def insertAfter_def delink_def set_next_def set_prev_def
  incSize_def decSize_def refs_init_def

lemma two_players_run: "ref_run True two_players" "\<exists>h. rs_mgr two_players 0 = Some h \<and> iSize h = 1" "target_of 11 two_players = Some 0"
proof -
  let ?m = "\<lambda>_::addr. \<lparr>iNext = None, iPrev = None\<rparr> :: LinkedListElement"
  let ?s0 = "refs_init ?m" let ?s1 = "RefManager_new 0 1 2 ?s0" let ?s2 = "Reference_new 11 ?s1" let ?s3 = "Reference_new 12 ?s2"
  let ?s4 = "the (link map_ops 11 (Some 0) (Some 1) ?s3)" let ?s5 = "the (link map_ops 12 (Some 0) (Some 2) ?s4)"
  have r1: "ref_run True ?s1" by (rule ref_run.step[OF ref_run.start ref_step.new_manager]) (simp_all add: refs_init_def in_use_def)
  have r2: "ref_run True ?s2" by (rule ref_run.step[OF r1 ref_step.new_reference]) (simp add: ref_ops_defs in_use_def)
  have r3: "ref_run True ?s3" by (rule ref_run.step[OF r2 ref_step.new_reference]) (simp add: ref_ops_defs in_use_def)
  have r4: "ref_run True ?s4"
    by (rule ref_run.step[OF r3 ref_step.linked[of _ 11 "Some 0" _ "Some 1"]]) (simp_all add: ref_ops_defs)
  have r5: "ref_run True ?s5"
    by (rule ref_run.step[OF r4 ref_step.linked[of _ 12 "Some 0" _ "Some 2"]]) (simp_all add: ref_ops_defs)
  show "ref_run True two_players"
    unfolding two_players_def by (rule ref_run.step[OF r5 ref_step.unlinked[of _ 12]]) (simp_all add: ref_ops_defs)
  show "\<exists>h. rs_mgr two_players 0 = Some h \<and> iSize h = 1" "target_of 11 two_players = Some 0"
    by (simp_all add: two_players_def ref_ops_defs)
qed

theorem references_lists_witness:
  "\<exists>h xs. rs_mgr two_players 0 = Some h \<and> iSize h = 1 \<and> holds h xs (rs_mem two_players) \<and> 11 \<in> set xs"
proof -
  obtain h where h: "rs_mgr two_players 0 = Some h" "iSize h = 1" using two_players_run(2) by blast
  from references_lists[OF two_players_run(1) h(1)] two_players_run(3) h show ?thesis by auto
qed

theorem clearReferences_ends_witness:
  "\<exists>s'. clearReferences (ops_of True) 0 two_players = Some s' \<and> (\<exists>x. rs_ref s' 11 = Some x \<and> iRefTo x = None)"
proof -
  obtain h where h: "rs_mgr two_players 0 = Some h" using two_players_run(2) by blast
  have "rs_ref two_players 11 \<noteq> None" using two_players_run(3) by (auto simp: target_of_def split: option.splits)
  with clearReferences_ends[OF two_players_run(1), of 0] h two_players_run(3) show ?thesis by fastforce
qed

end
