(* ===== verification/Social.thy ===== *)
theory Social
  imports ChannelHandler
begin

text \<open>
  Friends and ignored players: \<open>src/server/game/Entities/Player/SocialMgr.h\<close> and \<open>SocialMgr.cpp\<close> (the build without
  \<open>CROSS\<close>) with the handlers of \<open>game/Handlers/MiscHandler.cpp\<close> that call them. The list of a player belongs to his
  account in the database. What an operation does outside the manager (statements, packets, queries) is logged.
\<close>

subsection \<open>Data\<close>

definition FRIEND_STATUS_OFFLINE :: u8 where "FRIEND_STATUS_OFFLINE = 0x00"
definition FRIEND_STATUS_ONLINE :: u8 where "FRIEND_STATUS_ONLINE = 0x01"
definition FRIEND_STATUS_AFK :: u8 where "FRIEND_STATUS_AFK = 0x02"
definition FRIEND_STATUS_DND :: u8 where "FRIEND_STATUS_DND = 0x04"
definition FRIEND_STATUS_RAF :: u8 where "FRIEND_STATUS_RAF = 0x08"

definition SOCIAL_FLAG_FRIEND :: u8 where "SOCIAL_FLAG_FRIEND = 0x01"
definition SOCIAL_FLAG_IGNORED :: u8 where "SOCIAL_FLAG_IGNORED = 0x02"

definition SOCIALMGR_FRIEND_LIMIT :: nat where "SOCIALMGR_FRIEND_LIMIT = 50"
definition SOCIALMGR_IGNORE_LIMIT :: nat where "SOCIALMGR_IGNORE_LIMIT = 50"

lemmas social_consts = SOCIAL_FLAG_FRIEND_def SOCIAL_FLAG_IGNORED_def SOCIALMGR_FRIEND_LIMIT_def SOCIALMGR_IGNORE_LIMIT_def

datatype FriendsResult = FRIEND_DB_ERROR | FRIEND_LIST_FULL | FRIEND_ONLINE | FRIEND_OFFLINE | FRIEND_NOT_FOUND | FRIEND_REMOVED
  | FRIEND_ADDED_ONLINE | FRIEND_ADDED_OFFLINE | FRIEND_ALREADY | FRIEND_SELF | FRIEND_ENEMY | FRIEND_IGNORE_FULL
  | FRIEND_IGNORE_SELF | FRIEND_IGNORE_NOT_FOUND | FRIEND_IGNORE_ALREADY | FRIEND_IGNORE_ADDED | FRIEND_IGNORE_REMOVED

fun result_val :: "FriendsResult \<Rightarrow> u8" where
  "result_val FRIEND_DB_ERROR = 0x00"
| "result_val FRIEND_LIST_FULL = 0x01"
| "result_val FRIEND_ONLINE = 0x02"
| "result_val FRIEND_OFFLINE = 0x03"
| "result_val FRIEND_NOT_FOUND = 0x04"
| "result_val FRIEND_REMOVED = 0x05"
| "result_val FRIEND_ADDED_ONLINE = 0x06"
| "result_val FRIEND_ADDED_OFFLINE = 0x07"
| "result_val FRIEND_ALREADY = 0x08"
| "result_val FRIEND_SELF = 0x09"
| "result_val FRIEND_ENEMY = 0x0A"
| "result_val FRIEND_IGNORE_FULL = 0x0B"
| "result_val FRIEND_IGNORE_SELF = 0x0C"
| "result_val FRIEND_IGNORE_NOT_FOUND = 0x0D"
| "result_val FRIEND_IGNORE_ALREADY = 0x0E"
| "result_val FRIEND_IGNORE_ADDED = 0x0F"
| "result_val FRIEND_IGNORE_REMOVED = 0x10"

record FriendInfo =
  fi_Status :: u8
  fi_Flags :: u8
  fi_Area :: u32
  fi_Level :: u8
  fi_Class :: u8
  fi_Note :: cstring

definition FriendInfo_new :: "u8 \<Rightarrow> cstring \<Rightarrow> FriendInfo" where
  "FriendInfo_new flags note = \<lparr>fi_Status = FRIEND_STATUS_OFFLINE, fi_Flags = flags, fi_Area = 0, fi_Level = 0, fi_Class = 0, fi_Note = note\<rparr>"

record PlayerSocial =
  m_playerSocialMap :: "(u32 \<times> FriendInfo) list"
  ps_playerGUID :: u32
  ps_AccountID :: u32

definition PlayerSocial_new :: PlayerSocial where
  "PlayerSocial_new = \<lparr>m_playerSocialMap = [], ps_playerGUID = 0, ps_AccountID = 0\<rparr>"

datatype so_stmt =
    AddFlags u8 u32 u32
  | InsSocial u32 u32 u8
  | DelSocial u32 u32
  | RemFlags u8 u32 u32
  | UpdNote cstring u32 u32

datatype so_opcode = SMSG_CONTACT_LIST | SMSG_FRIEND_STATUS

type_synonym so_packet = "so_opcode \<times> ch_field list"

subsection \<open>The list of a player\<close>

definition has_flag :: "u8 \<Rightarrow> FriendInfo \<Rightarrow> bool" where
  "has_flag flag i \<longleftrightarrow> fi_Flags i AND flag \<noteq> 0"

definition GetNumberOfSocialsWithFlag :: "u8 \<Rightarrow> PlayerSocial \<Rightarrow> nat" where
  "GetNumberOfSocialsWithFlag flag s = scount (\<lambda>x. has_flag flag (snd x)) (m_playerSocialMap s)"

definition AddToSocialList :: "u32 \<Rightarrow> bool \<Rightarrow> PlayerSocial \<Rightarrow> bool \<times> PlayerSocial \<times> so_stmt list" where
  "AddToSocialList friendGuid ignore s =
     (if (if ignore then GetNumberOfSocialsWithFlag SOCIAL_FLAG_IGNORED s \<ge> SOCIALMGR_IGNORE_LIMIT
          else GetNumberOfSocialsWithFlag SOCIAL_FLAG_FRIEND s \<ge> SOCIALMGR_FRIEND_LIMIT)
      then (False, s, [])
      else let flag = (if ignore then SOCIAL_FLAG_IGNORED else SOCIAL_FLAG_FRIEND)
      in case map_of (m_playerSocialMap s) friendGuid of
           Some i \<Rightarrow> (True, s\<lparr>m_playerSocialMap := sm_insert friendGuid (i\<lparr>fi_Flags := fi_Flags i OR flag\<rparr>) (m_playerSocialMap s)\<rparr>,
             [AddFlags flag (ps_AccountID s) friendGuid])
         | None \<Rightarrow> (True, s\<lparr>m_playerSocialMap := sm_insert friendGuid (FriendInfo_new (0 OR flag) []) (m_playerSocialMap s)\<rparr>,
             [InsSocial (ps_AccountID s) friendGuid flag]))"

definition RemoveFromSocialList :: "u32 \<Rightarrow> bool \<Rightarrow> PlayerSocial \<Rightarrow> PlayerSocial \<times> so_stmt list" where
  "RemoveFromSocialList friendGuid ignore s =
     (case map_of (m_playerSocialMap s) friendGuid of
        None \<Rightarrow> (s, [])
      | Some i \<Rightarrow>
          let flag = (if ignore then SOCIAL_FLAG_IGNORED else SOCIAL_FLAG_FRIEND);
              i = i\<lparr>fi_Flags := fi_Flags i AND NOT flag\<rparr>
          in if fi_Flags i = 0
             then (s\<lparr>m_playerSocialMap := sm_erase friendGuid (m_playerSocialMap s)\<rparr>, [DelSocial (ps_AccountID s) friendGuid])
             else (s\<lparr>m_playerSocialMap := sm_insert friendGuid i (m_playerSocialMap s)\<rparr>, [RemFlags flag (ps_AccountID s) friendGuid]))"

text \<open>\<open>None\<close>: the cut of the note writes behind a buffer.\<close>

definition SetFriendNote :: "u32 \<Rightarrow> cstring \<Rightarrow> PlayerSocial \<Rightarrow> (PlayerSocial \<times> so_stmt list) option" where
  "SetFriendNote friendGuid note s =
     (case map_of (m_playerSocialMap s) friendGuid of
        None \<Rightarrow> Some (s, [])
      | Some i \<Rightarrow>
          (case utf8truncate note 48 of
             None \<Rightarrow> None
           | Some note \<Rightarrow> Some (s\<lparr>m_playerSocialMap := sm_insert friendGuid (i\<lparr>fi_Note := note\<rparr>) (m_playerSocialMap s)\<rparr>,
               [UpdNote note (ps_AccountID s) friendGuid])))"

definition HasFriend :: "u32 \<Rightarrow> PlayerSocial \<Rightarrow> bool" where
  "HasFriend g s = (case map_of (m_playerSocialMap s) g of None \<Rightarrow> False | Some i \<Rightarrow> has_flag SOCIAL_FLAG_FRIEND i)"

definition HasIgnore :: "u32 \<Rightarrow> PlayerSocial \<Rightarrow> bool" where
  "HasIgnore g s = (case map_of (m_playerSocialMap s) g of None \<Rightarrow> False | Some i \<Rightarrow> has_flag SOCIAL_FLAG_IGNORED i)"

text \<open>The loop of \<open>LoadFromDB\<close> over the rows (friend, flags, note).\<close>

fun load_social :: "(u32 \<times> u8 \<times> cstring) list \<Rightarrow> (u32 \<times> FriendInfo) list \<Rightarrow> (u32 \<times> FriendInfo) list" where
  "load_social [] m = m"
| "load_social ((g, flags, note) # rows) m =
     (let m = sm_insert g (FriendInfo_new flags note) m
      in if length m \<ge> SOCIALMGR_FRIEND_LIMIT + SOCIALMGR_IGNORE_LIMIT then m else load_social rows m)"

subsection \<open>The manager\<close>

text \<open>What the manager asks of the players and the world besides the environment of the channels.\<close>

record so_env =
  se_base :: ch_env
  se_two_side_who :: bool
  se_two_side_add :: bool
  se_gm_friend :: bool
  se_dnd :: "u64 \<Rightarrow> bool"
  se_afk :: "u64 \<Rightarrow> bool"
  se_zone :: "u64 \<Rightarrow> u32"
  se_level :: "u64 \<Rightarrow> u8"
  se_class :: "u64 \<Rightarrow> u8"
  se_recruiter :: "u64 \<Rightarrow> u32"
  se_account :: "u64 \<Rightarrow> u32"
  se_interrealm :: "u64 \<Rightarrow> u32"
  se_security :: "u32 \<Rightarrow> u32"
  se_race_team :: "u8 \<Rightarrow> u32 option"
  se_stack :: "u32 list"

datatype so_event = SoExec so_stmt | SoSend u64 so_packet | QueryFriend cstring cstring | QueryIgnore cstring

record so_world =
  m_socialMap :: "(u32 \<times> PlayerSocial) list"
  so_log :: "so_event list"

definition so_effect :: "so_event list \<Rightarrow> so_world \<Rightarrow> so_world" where
  "so_effect xs w = w\<lparr>so_log := so_log w @ xs\<rparr>"

definition player_guid :: "u32 \<Rightarrow> u64" where
  "player_guid g = guid_at g 0 HIGHGUID_PLAYER"

definition RemovePlayerSocial :: "u32 \<Rightarrow> so_world \<Rightarrow> so_world" where
  "RemovePlayerSocial g w = w\<lparr>m_socialMap := sm_erase g (m_socialMap w)\<rparr>"

definition LoadSocialFromDB :: "(u32 \<times> u8 \<times> cstring) list \<Rightarrow> u32 \<Rightarrow> u32 \<Rightarrow> so_world \<Rightarrow> so_world" where
  "LoadSocialFromDB rows g account w =
     (let s = (case map_of (m_socialMap w) g of None \<Rightarrow> PlayerSocial_new | Some s \<Rightarrow> s);
          s = s\<lparr>ps_playerGUID := g, ps_AccountID := account\<rparr>
      in w\<lparr>m_socialMap := sm_insert g (s\<lparr>m_playerSocialMap := load_social rows (m_playerSocialMap s)\<rparr>) (m_socialMap w)\<rparr>)"

definition active_status :: "so_env \<Rightarrow> u64 \<Rightarrow> u8" where
  "active_status x f = (if se_dnd x f then FRIEND_STATUS_DND else if se_afk x f then FRIEND_STATUS_AFK else FRIEND_STATUS_ONLINE)"

definition GetFriendInfo :: "so_env \<Rightarrow> ChPlayer \<Rightarrow> PlayerSocial \<Rightarrow> u32 \<Rightarrow> FriendInfo \<Rightarrow> FriendInfo" where
  "GetFriendInfo x player own friendGUID i =
     (let i = i\<lparr>fi_Status := FRIEND_STATUS_OFFLINE, fi_Area := 0, fi_Level := 0, fi_Class := 0\<rparr>
      in case FindPlayer (se_base x) (player_guid friendGUID) of
           None \<Rightarrow>
             (case holder_Find (se_base x) (ucast friendGUID) of
                None \<Rightarrow> i
              | Some f \<Rightarrow>
                  if se_interrealm x (cp_guid f) = 0 then i
                  else i\<lparr>fi_Status := active_status x (cp_guid f), fi_Level := se_level x (cp_guid f), fi_Class := se_class x (cp_guid f),
                    fi_Area := (if se_interrealm x (cp_guid f) > 1 then se_interrealm x (cp_guid f) else 0)\<rparr>)
         | Some f \<Rightarrow>
             let i = (case map_of (m_playerSocialMap own) friendGUID of None \<Rightarrow> i | Some j \<Rightarrow> i\<lparr>fi_Note := fi_Note j\<rparr>)
             in if (\<not> IsPlayerAccount (sec_val (cp_security player))
                    \<or> ((cp_team f = cp_team player \<or> se_two_side_who x) \<and> sec_val (cp_security f) \<le> ce_gm_who_level (se_base x)))
                   \<and> ce_visible (se_base x) (cp_guid f) (cp_guid player)
                then i\<lparr>fi_Status := (if \<not> se_dnd x (cp_guid f) \<and> \<not> se_afk x (cp_guid f)
                           \<and> (se_recruiter x (cp_guid f) = se_account x (cp_guid player) \<or> se_account x (cp_guid f) = se_recruiter x (cp_guid player))
                         then active_status x (cp_guid f) OR FRIEND_STATUS_RAF else active_status x (cp_guid f)),
                       fi_Area := se_zone x (cp_guid f), fi_Level := se_level x (cp_guid f), fi_Class := se_class x (cp_guid f)\<rparr>
                else i)"

definition contact_fields :: "so_env \<Rightarrow> u32 \<times> FriendInfo \<Rightarrow> ch_field list" where
  "contact_fields x e = (case e of (g, i) \<Rightarrow>
     [C_guid (player_guid g), C_guid (guid_at g 0 HIGHGUID_WOW_ACCOUNT), C_u32 (ce_realm (se_base x)), C_u32 (ce_realm (se_base x)),
      C_u32 (ucast (fi_Flags i)), C_u8 (fi_Status i), C_u32 (fi_Area i), C_u32 (ucast (fi_Level i)), C_u32 (ucast (fi_Class i)),
      C_bits 10 (word_of_nat (length (fi_Note i))), C_flush, C_str (fi_Note i)])"

text \<open>\<open>SendSocialList\<close> of a player's own list, as all callers have it: every entry is brought up to date, then written.\<close>

definition SendSocialList :: "so_env \<Rightarrow> ChPlayer \<Rightarrow> PlayerSocial \<Rightarrow> PlayerSocial \<times> so_packet" where
  "SendSocialList x player s =
     (let m = map (\<lambda>(g, i). (g, GetFriendInfo x player s g i)) (m_playerSocialMap s)
      in (s\<lparr>m_playerSocialMap := m\<rparr>,
          (SMSG_CONTACT_LIST, [C_u32 7, C_bits 8 (word_of_nat (length m)), C_flush] @ concat (map (contact_fields x) m))))"

definition status_fields :: "so_env \<Rightarrow> FriendsResult \<Rightarrow> u32 \<Rightarrow> FriendInfo \<Rightarrow> ch_field list" where
  "status_fields x r g i =
     [C_u8 (result_val r), C_guid (player_guid g),
      C_guid (case FindPlayer (se_base x) (player_guid g) of None \<Rightarrow> 0 | Some f \<Rightarrow> cp_account f), C_u32 (ce_realm (se_base x))]
     @ (if r \<in> {FRIEND_ADDED_ONLINE, FRIEND_ONLINE}
        then [C_u8 (fi_Status i), C_u32 (fi_Area i), C_u32 (ucast (fi_Level i)), C_u32 (ucast (fi_Class i))]
        else [C_u8 0, C_u32 0, C_u32 0, C_u32 0])
     @ (if r \<in> {FRIEND_ADDED_OFFLINE, FRIEND_ADDED_ONLINE}
        then [C_bits 10 (word_of_nat (length (fi_Note i))), C_flush, C_str (fi_Note i)]
        else [C_bits 10 0, C_flush])"

definition hears_of :: "so_env \<Rightarrow> ChPlayer \<Rightarrow> u32 \<times> PlayerSocial \<Rightarrow> bool" where
  "hears_of x player e =
     (case map_of (m_playerSocialMap (snd e)) (GUID_LOPART (cp_guid player)) of
        None \<Rightarrow> False
      | Some i \<Rightarrow> has_flag SOCIAL_FLAG_FRIEND i
          \<and> (case FindPlayer (se_base x) (player_guid (fst e)) of
               None \<Rightarrow> False
             | Some f \<Rightarrow> cp_inWorld f
                 \<and> (\<not> IsPlayerAccount (sec_val (cp_security f))
                    \<or> ((cp_team f = cp_team player \<or> se_two_side_who x) \<and> sec_val (cp_security player) \<le> ce_gm_who_level (se_base x)))
                 \<and> ce_visible (se_base x) (cp_guid player) (cp_guid f)))"

definition BroadcastToFriendListers :: "so_env \<Rightarrow> ChPlayer \<Rightarrow> so_packet \<Rightarrow> so_world \<Rightarrow> so_world" where
  "BroadcastToFriendListers x player pkt w =
     fold (\<lambda>e w. if hears_of x player e then so_effect [SoSend (player_guid (fst e)) pkt] w else w) (m_socialMap w) w"

text \<open>The social list a player object points at; \<open>None\<close> is a null pointer.\<close>

definition social_of :: "so_world \<Rightarrow> ChPlayer \<Rightarrow> PlayerSocial option" where
  "social_of w pl = map_of (m_socialMap w) (GUID_LOPART (cp_guid pl))"

definition set_social :: "ChPlayer \<Rightarrow> PlayerSocial \<Rightarrow> so_world \<Rightarrow> so_world" where
  "set_social pl s w = w\<lparr>m_socialMap := sm_insert (GUID_LOPART (cp_guid pl)) s (m_socialMap w)\<rparr>"

definition SendFriendStatus :: "so_env \<Rightarrow> ChPlayer \<Rightarrow> FriendsResult \<Rightarrow> u32 \<Rightarrow> bool \<Rightarrow> so_world \<Rightarrow> so_world option" where
  "SendFriendStatus x pl r g broadcast w =
     map_option (\<lambda>own.
       let pkt = (SMSG_FRIEND_STATUS, status_fields x r g (GetFriendInfo x pl own g (FriendInfo_new 0 [])))
       in if broadcast then BroadcastToFriendListers x pl pkt w else so_effect [SoSend (cp_guid pl) pkt] w) (social_of w pl)"

subsection \<open>The handlers\<close>

definition so_received :: "'a bb \<Rightarrow> ByteBuffer \<Rightarrow> so_world \<Rightarrow> ('a \<Rightarrow> so_world option) \<Rightarrow> so_world option" where
  "so_received m pkt w act = (case fst (m pkt) of Inl _ \<Rightarrow> Some w | Inr a \<Rightarrow> act a)"

definition so_normalized :: "so_env \<Rightarrow> cstring \<Rightarrow> so_world \<Rightarrow> (cstring \<Rightarrow> so_world option) \<Rightarrow> so_world option" where
  "so_normalized x name w act = (case normalizePlayerName (se_stack x) name of None \<Rightarrow> None | Some (ok, n) \<Rightarrow> if \<not> ok then Some w else act n)"

definition with_social :: "ChPlayer \<Rightarrow> so_world \<Rightarrow> (PlayerSocial \<Rightarrow> so_world option) \<Rightarrow> so_world option" where
  "with_social pl w f = Option.bind (social_of w pl) f"

definition HandleContactList :: "so_env \<Rightarrow> ChPlayer \<Rightarrow> ByteBuffer \<Rightarrow> so_world \<Rightarrow> so_world option" where
  "HandleContactList x pl pkt w = so_received (read_val :: u32 bb) pkt w (\<lambda>l_Flags.
     if l_Flags AND 1 \<noteq> 0
     then with_social pl w (\<lambda>s. let (s, p) = SendSocialList x pl s in Some (so_effect [SoSend (cp_guid pl) p] (set_social pl s w)))
     else Some w)"

definition HandleAddFriend :: "so_env \<Rightarrow> ChPlayer \<Rightarrow> ByteBuffer \<Rightarrow> so_world \<Rightarrow> so_world option" where
  "HandleAddFriend x pl pkt w = so_received (two_strings 9 10) pkt w (\<lambda>(name, note).
     so_normalized x name w (\<lambda>name. Some (so_effect [QueryFriend name note] w)))"

definition add_friend :: "so_env \<Rightarrow> ChPlayer \<Rightarrow> u64 \<Rightarrow> u32 \<Rightarrow> PlayerSocial \<Rightarrow> FriendsResult \<times> PlayerSocial \<times> so_stmt list" where
  "add_friend x pl friendGuid team s =
     (if friendGuid = cp_guid pl then (FRIEND_SELF, s, [])
      else if cp_team pl \<noteq> team \<and> \<not> se_two_side_add x \<and> IsPlayerAccount (sec_val (cp_security pl)) then (FRIEND_ENEMY, s, [])
      else if HasFriend (GUID_LOPART friendGuid) s then (FRIEND_ALREADY, s, [])
      else let online = (case FindPlayer (se_base x) friendGuid of None \<Rightarrow> False
                 | Some f \<Rightarrow> cp_inWorld f \<and> ce_visible (se_base x) (cp_guid f) (cp_guid pl));
               (ok, s, st) = AddToSocialList (GUID_LOPART friendGuid) False s
           in (if \<not> ok then FRIEND_LIST_FULL else if online then FRIEND_ADDED_ONLINE else FRIEND_ADDED_OFFLINE, s, st))"

text \<open>The row of the name, if any: guid, race, account.\<close>

definition HandleAddFriendCallBack :: "so_env \<Rightarrow> ChPlayer \<Rightarrow> (u32 \<times> u8 \<times> u32) option \<Rightarrow> cstring \<Rightarrow> so_world \<Rightarrow> so_world option" where
  "HandleAddFriendCallBack x pl result friendNote w =
     (case result of
        None \<Rightarrow> SendFriendStatus x pl FRIEND_NOT_FOUND 0 False w
      | Some (g, race, account) \<Rightarrow>
          let friendGuid = player_guid g
          in if (\<not> IsPlayerAccount (sec_val (cp_security pl)) \<or> se_gm_friend x \<or> IsPlayerAccount (se_security x account)) \<and> friendGuid \<noteq> 0
             then with_social pl w (\<lambda>s.
               case add_friend x pl friendGuid (TeamForRace (se_race_team x) race) s of
                 (r, s, st) \<Rightarrow>
                   Option.bind (SetFriendNote (GUID_LOPART friendGuid) friendNote s) (\<lambda>(s, st').
                   SendFriendStatus x pl r (GUID_LOPART friendGuid) False (so_effect (map SoExec (st @ st')) (set_social pl s w))))
             else SendFriendStatus x pl FRIEND_NOT_FOUND (GUID_LOPART friendGuid) False w)"

definition read_contact :: "u64 bb" where
  "read_contact = bindS (read_val :: u32 bb) (\<lambda>_. readPackGUID)"

definition remove_contact :: "so_env \<Rightarrow> ChPlayer \<Rightarrow> u64 \<Rightarrow> bool \<Rightarrow> FriendsResult \<Rightarrow> so_world \<Rightarrow> so_world option" where
  "remove_contact x pl g ignore r w = with_social pl w (\<lambda>s.
     case RemoveFromSocialList (GUID_LOPART g) ignore s of
       (s, st) \<Rightarrow> SendFriendStatus x pl r (GUID_LOPART g) False (so_effect (map SoExec st) (set_social pl s w)))"

definition HandleDelFriend :: "so_env \<Rightarrow> ChPlayer \<Rightarrow> ByteBuffer \<Rightarrow> so_world \<Rightarrow> so_world option" where
  "HandleDelFriend x pl pkt w = so_received read_contact pkt w (\<lambda>g. remove_contact x pl g False FRIEND_REMOVED w)"

definition HandleAddIgnore :: "so_env \<Rightarrow> ChPlayer \<Rightarrow> ByteBuffer \<Rightarrow> so_world \<Rightarrow> so_world option" where
  "HandleAddIgnore x pl pkt w = so_received (one_string 9) pkt w (\<lambda>name.
     so_normalized x name w (\<lambda>name. Some (so_effect [QueryIgnore name] w)))"

definition add_ignore :: "ChPlayer \<Rightarrow> u64 \<Rightarrow> PlayerSocial \<Rightarrow> FriendsResult \<times> PlayerSocial \<times> so_stmt list" where
  "add_ignore pl ignoreGuid s =
     (if ignoreGuid = cp_guid pl then (FRIEND_IGNORE_SELF, s, [])
      else if HasIgnore (GUID_LOPART ignoreGuid) s then (FRIEND_IGNORE_ALREADY, s, [])
      else case AddToSocialList (GUID_LOPART ignoreGuid) True s of
             (ok, s, st) \<Rightarrow> (if ok then FRIEND_IGNORE_ADDED else FRIEND_IGNORE_FULL, s, st))"

definition HandleAddIgnoreCallBack :: "so_env \<Rightarrow> ChPlayer \<Rightarrow> u32 option \<Rightarrow> so_world \<Rightarrow> so_world option" where
  "HandleAddIgnoreCallBack x pl result w =
     (case result of
        None \<Rightarrow> SendFriendStatus x pl FRIEND_IGNORE_NOT_FOUND 0 False w
      | Some g \<Rightarrow>
          let ignoreGuid = player_guid g
          in if ignoreGuid \<noteq> 0
             then with_social pl w (\<lambda>s.
               case add_ignore pl ignoreGuid s of
                 (r, s, st) \<Rightarrow> SendFriendStatus x pl r (GUID_LOPART ignoreGuid) False (so_effect (map SoExec st) (set_social pl s w)))
             else SendFriendStatus x pl FRIEND_IGNORE_NOT_FOUND (GUID_LOPART ignoreGuid) False w)"

definition HandleDelIgnore :: "so_env \<Rightarrow> ChPlayer \<Rightarrow> ByteBuffer \<Rightarrow> so_world \<Rightarrow> so_world option" where
  "HandleDelIgnore x pl pkt w = so_received read_contact pkt w (\<lambda>g. remove_contact x pl g True FRIEND_IGNORE_REMOVED w)"

definition HandleSetContactNotes :: "so_env \<Rightarrow> ChPlayer \<Rightarrow> ByteBuffer \<Rightarrow> so_world \<Rightarrow> so_world option" where
  "HandleSetContactNotes x pl pkt w =
     so_received (bindS read_contact (\<lambda>g. bindS (one_string 10) (\<lambda>notes. retS (g, notes)))) pkt w (\<lambda>(g, notes).
     with_social pl w (\<lambda>s. map_option (\<lambda>(s, st). so_effect (map SoExec st) (set_social pl s w)) (SetFriendNote (GUID_LOPART g) notes s)))"

end
