(* ===== verification/SocialFacts.thy ===== *)
theory SocialFacts
  imports Social
begin

text \<open>
  The lists of friends against their table: over every run the table holds what the list holds, so that loading restores
  it, and the limits hold. And the cut of notes.
\<close>

subsection \<open>Notes\<close>

text \<open>Cutting a text to a number of characters: a text that fits stays, a longer one keeps its first characters if no
  character is above 0xFFFF, and otherwise the cut writes behind its buffer.\<close>

theorem utf8truncate_cuts:
  assumes "valid_text cps"
  shows "utf8truncate (utext cps) len =
    (if length cps \<le> len then Some (utext cps) else if bmp cps then Some (utext (take len cps)) else None)"
proof (cases "length cps \<le> len")
  case True
  then show ?thesis using distance_text[OF assms] by (simp add: utf8truncate_def)
next
  case False
  note d = distance_text[OF assms] utf8to16_text[OF assms]
  show ?thesis
  proof (cases "bmp cps")
    case True
    have l: "length (units cps) = length cps" using length_units(2)[of cps] True by simp
    have p: "put_units (map ucast (units cps)) (replicate (length cps) (0 :: u32)) = Some cps"
      using l units_bmp[OF True] by (simp add: put_units_def)
    have r: "resize_to len cps = take len cps" using False by (simp add: resize_to_def)
    have v: "valid_text (take len cps)" "bmp (take len cps)"
      using assms True by (auto simp: list_all_iff dest: in_set_takeD)
    have o: "utf16to8 (take len cps) = Inr (utext (take len cps))"
      using utf16to8_units[OF v(1), of "[]"] units_bmp[OF v(2)] by simp
    have "utext cps = utext (take len cps) @ utext (drop len cps)" using utext_simps(3)[of "take len cps" "drop len cps"] by simp
    then have "put_units (utext (take len cps)) (utext cps) = Some (utext cps)" by (simp add: put_units_def)
    moreover have "take (length (utext (take len cps))) (utext cps) = utext (take len cps)"
      using \<open>utext cps = utext (take len cps) @ utext (drop len cps)\<close> by simp
    ultimately show ?thesis using False True d p r o by (simp add: utf8truncate_def)
  next
    case nb: False
    then have "length cps < length (units cps)" using length_units[of cps] by (metis le_neq_implies_less)
    then have "put_units (map ucast (units cps)) (replicate (length cps) (0 :: u32)) = None" by (simp add: put_units_def)
    then show ?thesis using False nb d by (simp add: utf8truncate_def)
  qed
qed

theorem utf8truncate_cuts_witness:
  "utf8truncate (utext [0x5A, 0x6F, 0xEB]) 2 = Some (utext [0x5A, 0x6F])" "utf8truncate (utext [0x5A, 0x1F600]) 1 = None"
  using utf8truncate_cuts[of "[0x5A, 0x6F, 0xEB]" 2] utf8truncate_cuts[of "[0x5A, 0x1F600]" 1]
  by (simp_all add: is_code_point_valid_def is_surrogate_def del: utext_simps)

subsection \<open>The table\<close>

text \<open>Rows by account and friend, with flags and note; \<open>d\<close> is what an insert leaves in the note.\<close>

type_synonym so_table = "u32 \<times> u32 \<Rightarrow> (u8 \<times> cstring) option"

fun exec_so :: "cstring \<Rightarrow> so_stmt \<Rightarrow> so_table \<Rightarrow> so_table" where
  "exec_so d (AddFlags f a g) tbl = tbl((a, g) := map_option (\<lambda>(fl, n). (fl OR f, n)) (tbl (a, g)))"
| "exec_so d (InsSocial a g f) tbl = (case tbl (a, g) of None \<Rightarrow> tbl((a, g) \<mapsto> (f, d)) | Some _ \<Rightarrow> tbl)"
| "exec_so d (DelSocial a g) tbl = tbl((a, g) := None)"
| "exec_so d (RemFlags f a g) tbl = tbl((a, g) := map_option (\<lambda>(fl, n). (fl AND NOT f, n)) (tbl (a, g)))"
| "exec_so d (UpdNote n a g) tbl = tbl((a, g) := map_option (\<lambda>(fl, _). (fl, n)) (tbl (a, g)))"

text \<open>The rows the query for an account returns, in any order: those that join with a character which is not marked as
  deleted (\<open>lv\<close>), at most 255 of them.\<close>

definition social_rows :: "u32 \<Rightarrow> (u32 \<Rightarrow> bool) \<Rightarrow> so_table \<Rightarrow> (u32 \<times> u8 \<times> cstring) list \<Rightarrow> bool" where
  "social_rows a lv tbl rows \<longleftrightarrow> distinct (map fst rows) \<and> length rows \<le> 255 \<and> (\<forall>(g, r) \<in> set rows. lv g \<and> tbl (a, g) = Some r)
     \<and> (length rows < 255 \<longrightarrow> (\<forall>g r. lv g \<and> tbl (a, g) = Some r \<longrightarrow> (g, r) \<in> set rows))"

text \<open>Runs over the list of one account that starts empty. \<open>lv\<close> says which characters exist and are not marked as deleted.
  Other accounts change their own rows; characters are made (under a new guid), marked as deleted (\<open>CHAR_UPD_DELETE_INFO\<close>), or
  deleted with the rows of everybody who knows them (\<open>CHAR_DEL_CHAR_SOCIAL_BY_FRIEND\<close>). No deleted character is restored while
  somebody has it on his list.\<close>

inductive so_run :: "so_env \<Rightarrow> u32 \<Rightarrow> (u32 \<Rightarrow> bool) \<Rightarrow> PlayerSocial \<Rightarrow> so_table \<Rightarrow> bool" for x :: so_env and a :: u32 where
  start: "\<forall>g. tbl (a, g) = None \<Longrightarrow> so_run x a lv (PlayerSocial_new\<lparr>ps_AccountID := a\<rparr>) tbl"
| added: "so_run x a lv s tbl \<Longrightarrow> AddToSocialList g ignore s = (ok, s', st) \<Longrightarrow> so_run x a lv s' (fold (exec_so []) st tbl)"
| removed: "so_run x a lv s tbl \<Longrightarrow> RemoveFromSocialList g ignore s = (s', st) \<Longrightarrow> so_run x a lv s' (fold (exec_so []) st tbl)"
| noted: "so_run x a lv s tbl \<Longrightarrow> SetFriendNote g note s = Some (s', st) \<Longrightarrow> so_run x a lv s' (fold (exec_so []) st tbl)"
| sent: "so_run x a lv s tbl \<Longrightarrow> SendSocialList x pl s = (s', pkt) \<Longrightarrow> so_run x a lv s' tbl"
| elsewhere: "so_run x a lv s tbl \<Longrightarrow> \<forall>g. tbl' (a, g) = tbl (a, g) \<Longrightarrow> so_run x a lv s tbl'"
| characters: "so_run x a lv s tbl \<Longrightarrow> \<forall>g. lv' g \<longrightarrow> lv g \<or> tbl (a, g) = None \<and> map_of (m_playerSocialMap s) g = None \<Longrightarrow> so_run x a lv' s tbl"
| erased: "so_run x a lv s tbl \<Longrightarrow> so_run x a (lv(g := False)) s (\<lambda>(b, h). if h = g then None else tbl (b, h))"
| reloaded: "so_run x a lv s tbl \<Longrightarrow> social_rows a lv tbl rows \<Longrightarrow>
    so_run x a lv (PlayerSocial_new\<lparr>ps_playerGUID := p, ps_AccountID := a, m_playerSocialMap := load_social rows []\<rparr>) tbl"

subsection \<open>Counting in sorted maps\<close>

lemma scount_erase:
  "sm_ok m \<Longrightarrow> scount P (sm_erase k m) + (case map_of m k of None \<Rightarrow> 0 | Some w \<Rightarrow> if P (k, w) then 1 else 0) = scount P m"
proof (induction m)
  case (Cons e m)
  obtain k' v' where e: "e = (k', v')" by (cases e)
  have n: "map_of m k = None" if "k = k'" using Cons.prems that e by (force simp: sm_ok_Cons map_of_eq_None_iff)
  then have "sm_erase k m = m" if "k = k'" using that by (auto simp: sm_erase_def map_of_eq_None_iff intro!: filter_True)
  then show ?case using Cons e n by (auto simp: sm_ok_Cons sm_erase_def)
qed (simp add: sm_erase_def)

lemma sm_eqI:
  assumes "sm_ok m" "sm_ok n" "map_of m = map_of n"
  shows "m = n"
proof (rule map_sorted_distinct_set_unique[where f = fst])
  have d: "distinct (map fst m)" "distinct (map fst n)" using assms sm_ok_distinct by auto
  have "(k, v) \<in> set m \<longleftrightarrow> (k, v) \<in> set n" for k v
    using sm_lookup_iff[OF assms(1), of k v] sm_lookup_iff[OF assms(2), of k v] assms(3) by simp
  then show st: "set m = set n" by auto
  show "inj_on fst (set m \<union> set n)" using d st by (simp add: distinct_map)
  show "sorted (map fst m)" "sorted (map fst n)" using assms by (simp_all add: sm_ok_def strict_sorted_iff)
qed (use sm_ok_distinct assms in auto)

lemma length_insert_new: "sm_ok m \<Longrightarrow> map_of m k = None \<Longrightarrow> length (sm_insert k v m) = Suc (length m)"
  using scount_insert[of m "\<lambda>_. True" k v] by (simp add: scount_def)

lemma load_social_all:
  assumes "distinct (map fst rows)" "sm_ok m" "\<forall>g \<in> fst ` set rows. map_of m g = None" "length m + length rows \<le> 100"
  shows "sm_ok (load_social rows m)
    \<and> map_of (load_social rows m) = map_of m ++ (\<lambda>g. map_option (\<lambda>(fl, n). FriendInfo_new fl n) (map_of rows g))"
  using assms
proof (induction rows m rule: load_social.induct)
  case (2 g flags nt rows m)
  let ?m = "sm_insert g (FriendInfo_new flags nt) m"
  have m: "sm_ok ?m" "length ?m = Suc (length m)" using 2(3,4) length_insert_new[of m g] by auto
  have g: "map_of rows g = None" using 2(2) by (simp add: map_of_eq_None_iff)
  show ?case
  proof (cases "length ?m \<ge> SOCIALMGR_FRIEND_LIMIT + SOCIALMGR_IGNORE_LIMIT")
    case True
    then have "100 \<le> length ?m" by (simp add: social_consts)
    then have "rows = []" using 2(5) m(2) by (cases rows) auto
    then show ?thesis using m True by (auto simp: Let_def map_add_def split: option.split)
  next
    case False
    have n: "\<forall>h \<in> fst ` set rows. map_of ?m h = None" using 2(2,4) by auto
    have "sm_ok (load_social rows ?m) \<and> map_of (load_social rows ?m)
      = map_of ?m ++ (\<lambda>g. map_option (\<lambda>(fl, n). FriendInfo_new fl n) (map_of rows g))"
      by (rule 2(1)[OF refl False]) (use 2(2,5) m n in auto)
    then show ?thesis using False g by (auto simp: Let_def map_add_def split: option.split)
  qed
qed (auto simp: map_add_def)

lemma map_of_map_keyed: "map_of (map (\<lambda>(k, v). (k, f k v)) m) k = map_option (f k) (map_of m k)"
  by (induction m) auto

lemma length_le_scount: "\<forall>e \<in> set m. P e \<or> Q e \<Longrightarrow> length m \<le> scount P m + scount Q m"
  by (induction m) auto

subsection \<open>The invariant\<close>

definition so_inv :: "u32 \<Rightarrow> (u32 \<Rightarrow> bool) \<Rightarrow> PlayerSocial \<Rightarrow> so_table \<Rightarrow> bool" where
  "so_inv a lv s tbl \<longleftrightarrow> sm_ok (m_playerSocialMap s) \<and> ps_AccountID s = a
     \<and> (\<forall>g. lv g \<longrightarrow> map_option (\<lambda>i. (fi_Flags i, fi_Note i)) (map_of (m_playerSocialMap s) g) = tbl (a, g))
     \<and> (\<forall>g i. map_of (m_playerSocialMap s) g = Some i \<longrightarrow> fi_Flags i \<in> {1, 2, 3})
     \<and> GetNumberOfSocialsWithFlag SOCIAL_FLAG_FRIEND s \<le> 50 \<and> GetNumberOfSocialsWithFlag SOCIAL_FLAG_IGNORED s \<le> 50"

lemma so_invI:
  assumes "sm_ok (m_playerSocialMap s)" "ps_AccountID s = a"
    "\<And>g. lv g \<Longrightarrow> map_option (\<lambda>i. (fi_Flags i, fi_Note i)) (map_of (m_playerSocialMap s) g) = tbl (a, g)"
    "\<And>g i. map_of (m_playerSocialMap s) g = Some i \<Longrightarrow> fi_Flags i \<in> {1, 2, 3}"
    "GetNumberOfSocialsWithFlag SOCIAL_FLAG_FRIEND s \<le> 50" "GetNumberOfSocialsWithFlag SOCIAL_FLAG_IGNORED s \<le> 50"
  shows "so_inv a lv s tbl"
  using assms unfolding so_inv_def by blast

lemma so_invD:
  assumes "so_inv a lv s tbl"
  shows "sm_ok (m_playerSocialMap s)" "ps_AccountID s = a"
    "lv g \<Longrightarrow> map_option (\<lambda>i. (fi_Flags i, fi_Note i)) (map_of (m_playerSocialMap s) g) = tbl (a, g)"
    "map_of (m_playerSocialMap s) g = Some i \<Longrightarrow> fi_Flags i \<in> {1, 2, 3}"
    "GetNumberOfSocialsWithFlag SOCIAL_FLAG_FRIEND s \<le> 50" "GetNumberOfSocialsWithFlag SOCIAL_FLAG_IGNORED s \<le> 50"
  using assms unfolding so_inv_def by blast+

text \<open>A change of the entry of one friend.\<close>

definition flagged :: "u8 \<Rightarrow> FriendInfo option \<Rightarrow> nat" where
  "flagged f i = (case i of None \<Rightarrow> 0 | Some i \<Rightarrow> if has_flag f i then 1 else 0)"

lemma so_inv_set:
  assumes inv: "so_inv a lv s tbl" and fl: "fi_Flags i \<in> {1, 2, 3}"
    and row: "lv g \<Longrightarrow> tbl' (a, g) = Some (fi_Flags i, fi_Note i)" "\<And>h. lv h \<Longrightarrow> h \<noteq> g \<Longrightarrow> tbl' (a, h) = tbl (a, h)"
    and room: "\<And>f. f \<in> {SOCIAL_FLAG_FRIEND, SOCIAL_FLAG_IGNORED} \<Longrightarrow> has_flag f i \<Longrightarrow>
      flagged f (map_of (m_playerSocialMap s) g) = 1 \<or> GetNumberOfSocialsWithFlag f s < 50"
  shows "so_inv a lv (s\<lparr>m_playerSocialMap := sm_insert g i (m_playerSocialMap s)\<rparr>) tbl'"
proof (rule so_invI)
  note I = so_invD[OF inv]
  have c: "GetNumberOfSocialsWithFlag f (s\<lparr>m_playerSocialMap := sm_insert g i (m_playerSocialMap s)\<rparr>) \<le> 50"
    if f: "f \<in> {SOCIAL_FLAG_FRIEND, SOCIAL_FLAG_IGNORED}" for f
  proof -
    have "scount (\<lambda>x. has_flag f (snd x)) (sm_insert g i (m_playerSocialMap s)) + flagged f (map_of (m_playerSocialMap s) g)
        = scount (\<lambda>x. has_flag f (snd x)) (m_playerSocialMap s) + (if has_flag f i then 1 else 0)"
      using scount_insert[OF I(1), of "\<lambda>x. has_flag f (snd x)" g i] by (cases "map_of (m_playerSocialMap s) g") (simp_all add: flagged_def)
    then show ?thesis using room[OF f] I(5,6) f by (auto simp: GetNumberOfSocialsWithFlag_def split: if_splits)
  qed
  show "GetNumberOfSocialsWithFlag SOCIAL_FLAG_FRIEND (s\<lparr>m_playerSocialMap := sm_insert g i (m_playerSocialMap s)\<rparr>) \<le> 50"
    "GetNumberOfSocialsWithFlag SOCIAL_FLAG_IGNORED (s\<lparr>m_playerSocialMap := sm_insert g i (m_playerSocialMap s)\<rparr>) \<le> 50"
    using c by simp_all
  show "map_option (\<lambda>i. (fi_Flags i, fi_Note i)) (map_of (m_playerSocialMap (s\<lparr>m_playerSocialMap := sm_insert g i (m_playerSocialMap s)\<rparr>)) h) = tbl' (a, h)"
    if "lv h" for h
    using row(2)[of h] row(1) I(3)[of h] that by (cases "h = g") auto
  show "fi_Flags j \<in> {1, 2, 3}" if "map_of (m_playerSocialMap (s\<lparr>m_playerSocialMap := sm_insert g i (m_playerSocialMap s)\<rparr>)) h = Some j" for h j
    using that fl I(4)[of h j] by (cases "h = g") auto
qed (use so_invD[OF inv] in auto)

lemma so_inv_erase:
  assumes inv: "so_inv a lv s tbl" and row: "tbl' (a, g) = None" "\<And>h. h \<noteq> g \<Longrightarrow> tbl' (a, h) = tbl (a, h)"
  shows "so_inv a lv (s\<lparr>m_playerSocialMap := sm_erase g (m_playerSocialMap s)\<rparr>) tbl'"
proof (rule so_invI)
  note I = so_invD[OF inv]
  have c: "GetNumberOfSocialsWithFlag f (s\<lparr>m_playerSocialMap := sm_erase g (m_playerSocialMap s)\<rparr>) \<le> GetNumberOfSocialsWithFlag f s" for f
    using scount_erase[OF I(1), of "\<lambda>x. has_flag f (snd x)" g] by (simp add: GetNumberOfSocialsWithFlag_def)
  show "GetNumberOfSocialsWithFlag SOCIAL_FLAG_FRIEND (s\<lparr>m_playerSocialMap := sm_erase g (m_playerSocialMap s)\<rparr>) \<le> 50"
    "GetNumberOfSocialsWithFlag SOCIAL_FLAG_IGNORED (s\<lparr>m_playerSocialMap := sm_erase g (m_playerSocialMap s)\<rparr>) \<le> 50"
    using c[of SOCIAL_FLAG_FRIEND] c[of SOCIAL_FLAG_IGNORED] I(5,6) by linarith+
  show "map_option (\<lambda>i. (fi_Flags i, fi_Note i)) (map_of (m_playerSocialMap (s\<lparr>m_playerSocialMap := sm_erase g (m_playerSocialMap s)\<rparr>)) h) = tbl' (a, h)"
    if "lv h" for h
    using row(2)[of h] row(1) I(3)[of h] that by (cases "h = g") auto
  show "fi_Flags j \<in> {1, 2, 3}" if "map_of (m_playerSocialMap (s\<lparr>m_playerSocialMap := sm_erase g (m_playerSocialMap s)\<rparr>)) h = Some j" for h j
    using that I(4)[of h j] by (cases "h = g") auto
qed (use so_invD[OF inv] in auto)

lemma flag_cases [simp]:
  "has_flag SOCIAL_FLAG_FRIEND i \<longleftrightarrow> fi_Flags i AND 1 \<noteq> 0" "has_flag SOCIAL_FLAG_IGNORED i \<longleftrightarrow> fi_Flags i AND 2 \<noteq> 0"
  by (simp_all add: has_flag_def social_consts)

definition social_flag :: "bool \<Rightarrow> u8" where
  "social_flag ignore = (if ignore then SOCIAL_FLAG_IGNORED else SOCIAL_FLAG_FRIEND)"

lemma AddToSocialList_value:
  "AddToSocialList g ignore s =
     (if 50 \<le> GetNumberOfSocialsWithFlag (social_flag ignore) s then (False, s, [])
      else case map_of (m_playerSocialMap s) g of
        Some i \<Rightarrow> (True, s\<lparr>m_playerSocialMap := sm_insert g (i\<lparr>fi_Flags := fi_Flags i OR social_flag ignore\<rparr>) (m_playerSocialMap s)\<rparr>,
          [AddFlags (social_flag ignore) (ps_AccountID s) g])
      | None \<Rightarrow> (True, s\<lparr>m_playerSocialMap := sm_insert g (FriendInfo_new (social_flag ignore) []) (m_playerSocialMap s)\<rparr>,
          [InsSocial (ps_AccountID s) g (social_flag ignore)]))"
  by (cases ignore) (simp_all add: AddToSocialList_def social_flag_def SOCIALMGR_FRIEND_LIMIT_def SOCIALMGR_IGNORE_LIMIT_def Let_def
      cong: option.case_cong)

lemma so_inv_add:
  assumes inv: "so_inv a lv s tbl" and add: "AddToSocialList g ignore s = (ok, s', st)"
  shows "so_inv a lv s' (fold (exec_so []) st tbl)"
proof (cases "50 \<le> GetNumberOfSocialsWithFlag (social_flag ignore) s")
  case True
  then show ?thesis using inv add by (simp add: AddToSocialList_value)
next
  case False
  note I = so_invD[OF inv]
  let ?f = "social_flag ignore"
  show ?thesis
  proof (cases "map_of (m_playerSocialMap s) g")
    case None
    then have r: "s' = s\<lparr>m_playerSocialMap := sm_insert g (FriendInfo_new ?f []) (m_playerSocialMap s)\<rparr>" "st = [InsSocial a g ?f]"
      using add False I(2) by (simp_all add: AddToSocialList_value)
    have "lv g \<Longrightarrow> tbl (a, g) = None" using I(3)[of g] None by simp
    then show ?thesis unfolding r
      by (intro so_inv_set[OF inv]) (use False in \<open>auto simp: FriendInfo_new_def social_flag_def social_consts has_flag_def split: if_splits option.splits\<close>)
  next
    case (Some i)
    then have r: "s' = s\<lparr>m_playerSocialMap := sm_insert g (i\<lparr>fi_Flags := fi_Flags i OR ?f\<rparr>) (m_playerSocialMap s)\<rparr>" "st = [AddFlags ?f a g]"
      using add False I(2) by (simp_all add: AddToSocialList_value)
    have "lv g \<Longrightarrow> tbl (a, g) = Some (fi_Flags i, fi_Note i)" using I(3)[of g] Some by simp
    moreover have "fi_Flags i \<in> {1, 2, 3}" using I(4)[OF Some] .
    ultimately show ?thesis unfolding r
      by (intro so_inv_set[OF inv]) (use False Some in \<open>auto simp: social_flag_def social_consts has_flag_def flagged_def split: if_splits\<close>)
  qed
qed

lemma so_inv_remove:
  assumes inv: "so_inv a lv s tbl" and rem: "RemoveFromSocialList g ignore s = (s', st)"
  shows "so_inv a lv s' (fold (exec_so []) st tbl)"
proof (cases "map_of (m_playerSocialMap s) g")
  case None
  then show ?thesis using inv rem by (simp add: RemoveFromSocialList_def)
next
  case (Some i)
  note I = so_invD[OF inv]
  let ?f = "if ignore then SOCIAL_FLAG_IGNORED else SOCIAL_FLAG_FRIEND"
  have row: "lv g \<Longrightarrow> tbl (a, g) = Some (fi_Flags i, fi_Note i)" using I(3)[of g] Some by simp
  have fl: "fi_Flags i \<in> {1, 2, 3}" using I(4)[OF Some] .
  show ?thesis
  proof (cases "fi_Flags i AND NOT ?f = 0")
    case True
    then have r: "s' = s\<lparr>m_playerSocialMap := sm_erase g (m_playerSocialMap s)\<rparr>" "st = [DelSocial a g]"
      using rem Some I(2) by (simp_all add: RemoveFromSocialList_def Let_def)
    show ?thesis unfolding r by (intro so_inv_erase[OF inv]) simp_all
  next
    case False
    then have r: "s' = s\<lparr>m_playerSocialMap := sm_insert g (i\<lparr>fi_Flags := fi_Flags i AND NOT ?f\<rparr>) (m_playerSocialMap s)\<rparr>" "st = [RemFlags ?f a g]"
      using rem Some I(2) by (simp_all add: RemoveFromSocialList_def Let_def)
    show ?thesis unfolding r
      by (intro so_inv_set[OF inv]) (use False row fl Some in \<open>auto simp: social_consts has_flag_def flagged_def split: if_splits\<close>)
  qed
qed

lemma so_inv_note:
  assumes inv: "so_inv a lv s tbl" and nt: "SetFriendNote g nt s = Some (s', st)"
  shows "so_inv a lv s' (fold (exec_so []) st tbl)"
proof (cases "map_of (m_playerSocialMap s) g")
  case None
  then show ?thesis using inv nt by (simp add: SetFriendNote_def)
next
  case (Some i)
  note I = so_invD[OF inv]
  from nt Some obtain cut where r: "s' = s\<lparr>m_playerSocialMap := sm_insert g (i\<lparr>fi_Note := cut\<rparr>) (m_playerSocialMap s)\<rparr>"
    "st = [UpdNote cut a g]" using I(2) by (auto simp: SetFriendNote_def split: option.splits)
  have "lv g \<Longrightarrow> tbl (a, g) = Some (fi_Flags i, fi_Note i)" using I(3)[of g] Some by simp
  then show ?thesis unfolding r
    by (intro so_inv_set[OF inv]) (use I(4)[OF Some] Some in \<open>auto simp: flagged_def has_flag_def\<close>)
qed

lemma GetFriendInfo_keeps:
  "fi_Flags (GetFriendInfo x pl s g i) = fi_Flags i"
  "map_of (m_playerSocialMap s) g = Some i \<Longrightarrow> fi_Note (GetFriendInfo x pl s g i) = fi_Note i"
  by (auto simp: GetFriendInfo_def Let_def split: option.splits)

lemma so_inv_sent:
  assumes inv: "so_inv a lv s tbl" and snd: "SendSocialList x pl s = (s', pkt)"
  shows "so_inv a lv s' tbl"
proof (rule so_invI)
  note I = so_invD[OF inv]
  have s': "s' = s\<lparr>m_playerSocialMap := map (\<lambda>(g, i). (g, GetFriendInfo x pl s g i)) (m_playerSocialMap s)\<rparr>"
    using snd by (simp add: SendSocialList_def Let_def)
  have m: "map_of (m_playerSocialMap s') g = map_option (GetFriendInfo x pl s g) (map_of (m_playerSocialMap s) g)" for g
    by (simp add: s' map_of_map_keyed)
  have c: "GetNumberOfSocialsWithFlag f s' = GetNumberOfSocialsWithFlag f s" for f
    by (simp add: GetNumberOfSocialsWithFlag_def s' scount_def filter_map comp_def case_prod_beta has_flag_def GetFriendInfo_keeps)
  show "sm_ok (m_playerSocialMap s')" "ps_AccountID s' = a" using I(1,2) by (simp_all add: s')
  show "map_option (\<lambda>i. (fi_Flags i, fi_Note i)) (map_of (m_playerSocialMap s') g) = tbl (a, g)" if "lv g" for g
    using I(3)[of g] that by (cases "map_of (m_playerSocialMap s) g") (simp_all add: m GetFriendInfo_keeps)
  show "fi_Flags i \<in> {1, 2, 3}" if "map_of (m_playerSocialMap s') g = Some i" for g i
    using that I(4)[of g] by (auto simp: m GetFriendInfo_keeps)
  show "GetNumberOfSocialsWithFlag SOCIAL_FLAG_FRIEND s' \<le> 50" "GetNumberOfSocialsWithFlag SOCIAL_FLAG_IGNORED s' \<le> 50"
    using I(5,6) c by simp_all
qed

text \<open>What a list says of each friend, and that loading says the same.\<close>

definition social_contents :: "(u32 \<times> FriendInfo) list \<Rightarrow> (u32 \<times> u8 \<times> cstring) list" where
  "social_contents m = map (\<lambda>(g, i). (g, fi_Flags i, fi_Note i)) m"

lemma social_contents_facts: "sm_ok m \<Longrightarrow> sm_ok (social_contents m)" "map_of (social_contents m) g = map_option (\<lambda>i. (fi_Flags i, fi_Note i)) (map_of m g)"
  "length (social_contents m) = length m"
  by (simp_all add: social_contents_def map_of_map)

lemma so_inv_length:
  assumes inv: "so_inv a lv s tbl"
  shows "length (m_playerSocialMap s) \<le> 100"
proof -
  note I = so_invD[OF inv]
  have "fi_Flags i AND 1 \<noteq> 0 \<or> fi_Flags i AND 2 \<noteq> 0" if "(g, i) \<in> set (m_playerSocialMap s)" for g i
    using I(4)[of g i] that I(1) sm_lookup_iff[of "m_playerSocialMap s" g i] by auto
  then have "\<forall>e \<in> set (m_playerSocialMap s). has_flag SOCIAL_FLAG_FRIEND (snd e) \<or> has_flag SOCIAL_FLAG_IGNORED (snd e)" by auto
  from length_le_scount[OF this] I(5,6) show ?thesis by (simp add: GetNumberOfSocialsWithFlag_def)
qed

text \<open>The friends whose characters are there, as a list says of them.\<close>

abbreviation live_contents :: "(u32 \<Rightarrow> bool) \<Rightarrow> (u32 \<times> FriendInfo) list \<Rightarrow> (u32 \<times> u8 \<times> cstring) list" where
  "live_contents lv m \<equiv> filter (\<lambda>e. lv (fst e)) (social_contents m)"

lemma sm_ok_filter: "sm_ok m \<Longrightarrow> sm_ok (filter P m)"
  by (induction m) (auto simp: sm_ok_Cons)

lemma map_of_filter_key: "map_of (filter (\<lambda>e. P (fst e)) m) k = (if P k then map_of m k else None)"
  by (induction m) auto

lemma so_inv_load:
  assumes inv: "so_inv a lv s tbl" and rows: "social_rows a lv tbl rows"
  shows "sm_ok (load_social rows []) \<and> social_contents (load_social rows []) = live_contents lv (m_playerSocialMap s)"
proof -
  note I = so_invD[OF inv]
  let ?m = "m_playerSocialMap s" and ?c = "live_contents lv (m_playerSocialMap s)"
  have d: "distinct (map fst rows)" and r: "\<And>g r. (g, r) \<in> set rows \<Longrightarrow> lv g \<and> tbl (a, g) = Some r"
    and full: "length rows < 255 \<Longrightarrow> lv g \<Longrightarrow> tbl (a, g) = Some r \<Longrightarrow> (g, r) \<in> set rows" for g r
    using rows unfolding social_rows_def by (blast, blast, cases r) auto
  have ok: "sm_ok ?c" by (rule sm_ok_filter[OF social_contents_facts(1)[OF I(1)]])
  have look: "map_of ?c g = (if lv g then tbl (a, g) else None)" for g
    using I(3)[of g] by (simp add: map_of_filter_key social_contents_facts(2))
  have "(g, v) \<in> set ?c" if "(g, v) \<in> set rows" for g v
    using r[OF that] look[of g] sm_lookup_iff[OF ok, of g v] by simp
  then have sub: "set rows \<subseteq> set ?c" by auto
  have "length ?c \<le> 100" using so_inv_length[OF inv] social_contents_facts(3)[of ?m] by (metis length_filter_le order_trans)
  moreover have "length rows \<le> length ?c"
    using card_mono[OF _ sub] card_length[of ?c] distinct_card[of rows] d by (simp add: distinct_map)
  ultimately have len: "length rows \<le> 100" by simp
  have lookup: "map_of rows g = map_of ?c g" for g
  proof (cases "map_of ?c g")
    case None
    then have "g \<notin> fst ` set ?c" unfolding map_of_eq_None_iff .
    then have "g \<notin> fst ` set rows" using sub by blast
    then have "map_of rows g = None" unfolding map_of_eq_None_iff .
    then show ?thesis using None by simp
  next
    case (Some v)
    then have "lv g" "tbl (a, g) = Some v" using look[of g] by (simp_all split: if_splits)
    then have "(g, v) \<in> set rows" using full len by simp
    then show ?thesis using d Some by simp
  qed
  have l: "sm_ok (load_social rows [])"
    "map_of (load_social rows []) = (\<lambda>g. map_option (\<lambda>(fl, n). FriendInfo_new fl n) (map_of rows g))"
    using load_social_all[OF d, of "[]"] len by (auto simp: map_add_def fun_eq_iff split: option.split)
  have "social_contents (load_social rows []) = ?c"
  proof (rule sm_eqI)
    show "map_of (social_contents (load_social rows [])) = map_of ?c"
      using lookup by (auto simp: fun_eq_iff social_contents_facts(2) l(2) option.map_comp comp_def FriendInfo_new_def case_prod_beta option.map_ident)
  qed (use l(1) ok social_contents_facts(1) in auto)
  with l(1) show ?thesis by simp
qed

lemma so_inv_reloaded:
  assumes inv: "so_inv a lv s tbl" and rows: "social_rows a lv tbl rows"
  shows "so_inv a lv (PlayerSocial_new\<lparr>ps_playerGUID := p, ps_AccountID := a, m_playerSocialMap := load_social rows []\<rparr>) tbl"
proof -
  note I = so_invD[OF inv] and l = so_inv_load[OF inv rows]
  let ?n = "load_social rows []" and ?m = "m_playerSocialMap s"
  have c: "map_option (\<lambda>i. (fi_Flags i, fi_Note i)) (map_of ?n g) =
      (if lv g then map_option (\<lambda>i. (fi_Flags i, fi_Note i)) (map_of ?m g) else None)" for g
    using l social_contents_facts(2)[of ?n g] social_contents_facts(2)[of ?m g] by (auto simp: map_of_filter_key split: if_splits)
  have n: "GetNumberOfSocialsWithFlag f t = scount (\<lambda>x. fst (snd x) AND f \<noteq> 0) (social_contents (m_playerSocialMap t))" for f t
    by (simp add: GetNumberOfSocialsWithFlag_def social_contents_def scount_def filter_map comp_def case_prod_beta has_flag_def)
  have "scount P (filter Q xs) \<le> scount P xs" for P Q and xs :: "(u32 \<times> u8 \<times> cstring) list"
    by (induction xs) (simp_all add: scount_def)
  then have k: "GetNumberOfSocialsWithFlag f (PlayerSocial_new\<lparr>ps_playerGUID := p, ps_AccountID := a, m_playerSocialMap := ?n\<rparr>)
      \<le> GetNumberOfSocialsWithFlag f s" for f using l by (simp add: n)
  show ?thesis
  proof (rule so_invI)
    fix g i assume i: "map_of (m_playerSocialMap (PlayerSocial_new\<lparr>ps_playerGUID := p, ps_AccountID := a, m_playerSocialMap := ?n\<rparr>)) g = Some i"
    then obtain j where "map_of ?m g = Some j" "fi_Flags j = fi_Flags i"
      using c[of g] by (cases "map_of ?m g") (auto split: if_splits)
    then show "fi_Flags i \<in> {1, 2, 3}" using I(4)[of g j] by simp
  qed (use I l c order_trans[OF k I(5)] order_trans[OF k I(6)] in simp_all)
qed

lemma so_run_inv: "so_run x a lv s tbl \<Longrightarrow> so_inv a lv s tbl"
proof (induction rule: so_run.induct)
  case (start tbl lv)
  show ?case by (rule so_invI) (use start in \<open>simp_all add: PlayerSocial_new_def GetNumberOfSocialsWithFlag_def\<close>)
next
  case (elsewhere lv s tbl tbl')
  then show ?case by (simp add: so_inv_def)
next
  case (characters lv s tbl lv')
  note I = so_invD[OF characters.IH]
  show ?case by (rule so_invI) (use I characters.hyps in auto)
next
  case (erased lv s tbl g)
  note I = so_invD[OF erased.IH]
  show ?case by (rule so_invI) (use I in \<open>auto split: if_splits\<close>)
next
  case (added lv s tbl g ignore ok s' st) show ?case by (rule so_inv_add) fact+
next
  case (removed lv s tbl g ignore s' st) show ?case by (rule so_inv_remove) fact+
next
  case (noted lv s tbl g nt s' st) show ?case by (rule so_inv_note) fact+
next
  case (sent lv s tbl pl s' pkt) show ?case by (rule so_inv_sent) fact+
next
  case (reloaded lv s tbl rows p) show ?case by (rule so_inv_reloaded) fact+
qed

text \<open>C35. Over every run in which no deleted character is restored while it is on the list (the loader checks the sum of both
  limits only: \<open>load_checks_sum\<close>), a list holds at most fifty friends and fifty ignored players, and everybody on it is one or
  the other.\<close>

theorem social_limits:
  assumes "so_run x a lv s tbl"
  shows "GetNumberOfSocialsWithFlag SOCIAL_FLAG_FRIEND s \<le> 50 \<and> GetNumberOfSocialsWithFlag SOCIAL_FLAG_IGNORED s \<le> 50
    \<and> (\<forall>g i. map_of (m_playerSocialMap s) g = Some i \<longrightarrow> HasFriend g s \<or> HasIgnore g s)"
proof -
  note I = so_invD[OF so_run_inv[OF assms]]
  have "HasFriend g s \<or> HasIgnore g s" if "map_of (m_playerSocialMap s) g = Some i" for g i
    using I(4)[OF that] that by (auto simp: HasFriend_def HasIgnore_def)
  then show ?thesis using I(5,6) by blast
qed

text \<open>C34. Over every run of changes, notes, reloads and packets, in which friends may be marked as deleted or deleted but are
  not restored while they are on the list: loading the rows the query returns for the account, in whatever order, gives every
  friend whose character is not deleted the flags and the note he has in the list, and nobody else.\<close>

theorem social_reload:
  assumes "so_run x a lv s tbl" "social_rows a lv tbl rows"
  shows "social_contents (load_social rows []) = live_contents lv (m_playerSocialMap s)"
  using so_inv_load[OF so_run_inv[OF assms(1)] assms(2)] by simp

text \<open>The loader takes all rows of friends up to the sum of both limits, so a player can have more than fifty friends after a
  deleted character that was on his list was restored.\<close>

theorem load_checks_sum:
  assumes "distinct (map fst rows)" "length rows \<le> 100" "\<forall>(g, fl, n) \<in> set rows. fl = SOCIAL_FLAG_FRIEND"
  shows "GetNumberOfSocialsWithFlag SOCIAL_FLAG_FRIEND (PlayerSocial_new\<lparr>m_playerSocialMap := load_social rows []\<rparr>) = length rows"
proof -
  let ?n = "load_social rows []"
  have l: "sm_ok ?n" "map_of ?n = (\<lambda>g. map_option (\<lambda>(fl, n). FriendInfo_new fl n) (map_of rows g))"
    using load_social_all[OF assms(1), of "[]"] assms(2) by (auto simp: map_add_def fun_eq_iff split: option.split)
  have "dom (map_of ?n) = dom (map_of rows)" by (auto simp: l(2) dom_def)
  then have "fst ` set ?n = fst ` set rows" by (simp add: dom_map_of_conv_image_fst)
  then have "length ?n = length rows"
    using distinct_card[of "map fst ?n"] distinct_card[of "map fst rows"] assms(1) sm_ok_distinct[OF l(1)] by simp
  moreover have "has_flag SOCIAL_FLAG_FRIEND i" if gi: "(g, i) \<in> set ?n" for g i
  proof -
    have "map_of ?n g = Some i" using sm_lookup_iff[OF l(1)] gi by blast
    then obtain fl n where r: "map_of rows g = Some (fl, n)" "i = FriendInfo_new fl n" by (auto simp: l(2))
    then have "fl = SOCIAL_FLAG_FRIEND" using assms(3) map_of_SomeD[OF r(1)] by fastforce
    then show ?thesis using r(2) by (simp add: FriendInfo_new_def SOCIAL_FLAG_FRIEND_def has_flag_def)
  qed
  then have "filter (\<lambda>x. has_flag SOCIAL_FLAG_FRIEND (snd x)) ?n = ?n" by (auto intro: filter_True)
  ultimately show ?thesis by (simp add: GetNumberOfSocialsWithFlag_def scount_def)
qed

theorem load_checks_sum_witness:
  "GetNumberOfSocialsWithFlag SOCIAL_FLAG_FRIEND (PlayerSocial_new\<lparr>m_playerSocialMap :=
     load_social (map (\<lambda>g. (word_of_nat g, SOCIAL_FLAG_FRIEND, [])) [0..<51]) []\<rparr>) = 51"
proof -
  have "inj_on (word_of_nat :: nat \<Rightarrow> u32) {0..<51}"
    by (rule inj_onI) (simp add: word_of_nat_eq_iff take_bit_nat_eq_self)
  then show ?thesis
    using load_checks_sum[of "map (\<lambda>g. (word_of_nat g :: u32, SOCIAL_FLAG_FRIEND, [])) [0..<51]"]
    by (simp add: distinct_map comp_def del: upt_Suc)
qed

text \<open>An account with one friend, whose character is then marked as deleted.\<close>

lemma one_friend:
  fixes x :: so_env
  defines "s \<equiv> (PlayerSocial_new\<lparr>ps_AccountID := 7\<rparr>)\<lparr>m_playerSocialMap := [(5, FriendInfo_new 1 [])]\<rparr>"
    and "tbl \<equiv> (\<lambda>_. None)((7, 5) \<mapsto> (1, []))"
  shows "so_run x 7 (\<lambda>_. True) s tbl" "social_rows 7 (\<lambda>_. True) tbl [(5, 1, [])]"
    "so_run x 7 (\<lambda>g. g \<noteq> 5) s tbl" "social_rows 7 (\<lambda>g. g \<noteq> 5) tbl []"
proof -
  have "so_run x 7 (\<lambda>_. True) (PlayerSocial_new\<lparr>ps_AccountID := 7\<rparr>) (\<lambda>_. None)" by (rule so_run.start) simp
  moreover have "AddToSocialList 5 False (PlayerSocial_new\<lparr>ps_AccountID := 7\<rparr>) = (True, s, [InsSocial 7 5 1])"
    by (simp add: AddToSocialList_value social_flag_def social_consts s_def PlayerSocial_new_def GetNumberOfSocialsWithFlag_def)
  ultimately have "so_run x 7 (\<lambda>_. True) s (fold (exec_so []) [InsSocial 7 5 1] (\<lambda>_. None))" by (rule so_run.added)
  then show r: "so_run x 7 (\<lambda>_. True) s tbl" by (simp add: tbl_def)
  show "social_rows 7 (\<lambda>_. True) tbl [(5, 1, [])]" "social_rows 7 (\<lambda>g. g \<noteq> 5) tbl []" by (auto simp: social_rows_def tbl_def split: if_splits)
  show "so_run x 7 (\<lambda>g. g \<noteq> 5) s tbl" by (rule so_run.characters[OF r]) simp
qed

theorem social_limits_witness:
  "\<exists>s. HasFriend 5 s \<and> GetNumberOfSocialsWithFlag SOCIAL_FLAG_FRIEND s \<le> 50"
  using social_limits[OF one_friend(1)[of undefined]]
  by (intro exI[of _ "(PlayerSocial_new\<lparr>ps_AccountID := 7\<rparr>)\<lparr>m_playerSocialMap := [(5, FriendInfo_new 1 [])]\<rparr>"])
     (simp add: HasFriend_def FriendInfo_new_def)

theorem social_reload_witness: "social_contents (load_social [(5, 1, [])] []) = [(5, 1, [])] \<and> social_contents (load_social [] []) = []"
  using social_reload[OF one_friend(1)[of undefined] one_friend(2)] social_reload[OF one_friend(3)[of undefined] one_friend(4)]
  by (simp add: social_contents_def FriendInfo_new_def)

subsection \<open>Players of other realms\<close>

text \<open>A friend who is not in the world is shown as offline even while he plays in a battleground between realms: he is
  looked up by the low part of his guid, and no player object is stored under such a key.\<close>

theorem interrealm_friend_offline:
  assumes "\<forall>p \<in> set (ce_objects (se_base x)). IS_PLAYER_GUID (cp_guid p)" "FindPlayer (se_base x) (player_guid g) = None"
  shows "fi_Status (GetFriendInfo x pl own g i) = FRIEND_STATUS_OFFLINE"
proof -
  have "\<not> IS_PLAYER_GUID (ucast g :: u64)"
  proof
    assume "IS_PLAYER_GUID (ucast g :: u64)"
    then have "GUID_HIPART (ucast g :: u64) = 0x18" by (simp add: IS_PLAYER_GUID_def)
    moreover have "drop_bit 48 (ucast g :: u64) = 0" by (rule bit_word_eqI) (auto simp: bit_simps dest: bit_imp_le_length)
    ultimately show False by (simp add: GUID_HIPART_def)
  qed
  then have "holder_Find (se_base x) (ucast g) = None" using assms(1) by (auto simp: holder_Find_def find_None_iff)
  then show ?thesis using assms(2) by (simp add: GetFriendInfo_def Let_def)
qed

definition away_env :: so_env where
  "away_env = (undefined :: so_env)
     \<lparr>se_base := demo_env\<lparr>ce_objects := [(demo_player 5 ''Ann'' SEC_PLAYER)\<lparr>cp_guid := player_guid 5, cp_inWorld := False\<rparr>]\<rparr>,
      se_interrealm := (\<lambda>_. 1), se_dnd := (\<lambda>_. False), se_afk := (\<lambda>_. False)\<rparr>"

theorem interrealm_friend_offline_witness:
  "se_interrealm away_env (player_guid 5) = 1
    \<and> fi_Status (GetFriendInfo away_env (demo_player 7 ''Bob'' SEC_PLAYER) PlayerSocial_new 5 (FriendInfo_new 1 [])) = FRIEND_STATUS_OFFLINE"
proof
  show "se_interrealm away_env (player_guid 5) = 1" by (simp add: away_env_def)
  have "IS_PLAYER_GUID (player_guid 5)"
    using GUID_HIPART_guid_at[of 5 HIGHGUID_PLAYER 0] by (simp add: player_guid_def IS_PLAYER_GUID_def entry_ok_def guid_at_neq_0)
  then show "fi_Status (GetFriendInfo away_env (demo_player 7 ''Bob'' SEC_PLAYER) PlayerSocial_new 5 (FriendInfo_new 1 [])) = FRIEND_STATUS_OFFLINE"
    by (intro interrealm_friend_offline) (simp_all add: away_env_def FindPlayer_def holder_Find_def demo_env_def)
qed

end
