(* ===== verification/Taxi.thy ===== *)
theory Taxi
  imports ChannelMgr
begin

text \<open>
  The flight points a player knows and the flight he is on: \<open>src/server/game/Entities/Player/PlayerTaxi.cpp\<close>. The
  set of known points is an array of 217 bytes, accessed without a check: \<open>None\<close> is an access behind it.
\<close>

subsection \<open>State\<close>

definition TaxiMaskSize :: nat where "TaxiMaskSize = 217"

record PlayerTaxi =
  m_TaxiMask :: "u8 list"
  m_TaxiDestinations :: "u32 list"

definition PlayerTaxi_new :: PlayerTaxi where
  "PlayerTaxi_new = \<lparr>m_TaxiMask = replicate TaxiMaskSize 0, m_TaxiDestinations = []\<rparr>"

text \<open>The stores: all points (\<open>sTaxiNodesMask\<close>), the paths and their prices by source and destination, the mount
  of a point for a team, and the teams of races.\<close>

record taxi_env =
  tx_nodes :: "u8 list"
  tx_paths :: "u32 \<Rightarrow> u32 \<Rightarrow> (u32 \<times> u32) option"
  tx_mount :: "u32 \<Rightarrow> u32 \<Rightarrow> bool \<Rightarrow> u32"
  tx_teams :: "u8 \<Rightarrow> u32 option"

definition strtoul :: "cstring \<Rightarrow> u64" where
  "strtoul s =
     (let t = dropWhile is_space s;
          neg = (t \<noteq> [] \<and> hd t = 45);
          u = (if t \<noteq> [] \<and> (hd t = 45 \<or> hd t = 43) then tl t else t);
          v = digits_val (takeWhile is_digit u)
      in if v > 2 ^ 64 - 1 then word_of_int (2 ^ 64 - 1) else if neg then - word_of_int v else word_of_int v)"

definition atoul :: "cstring \<Rightarrow> u64" where
  "atoul s = strtoul s"

definition GetTaxiPath :: "taxi_env \<Rightarrow> u32 \<Rightarrow> u32 \<Rightarrow> u32 \<times> u32" where
  "GetTaxiPath x source destination = (case tx_paths x source destination of None \<Rightarrow> (0, 0) | Some (ID, price) \<Rightarrow> (ID, price))"

subsection \<open>Known points\<close>

definition l_Field :: "u32 \<Rightarrow> u8" where
  "l_Field p = ucast ((p - 1) div 8)"

definition l_SubMask :: "u32 \<Rightarrow> u32" where
  "l_SubMask p = push_bit (unat ((p - 1) mod 8)) 1"

definition mask_at :: "u8 \<Rightarrow> PlayerTaxi \<Rightarrow> u8 option" where
  "mask_at f t = (if unat f < length (m_TaxiMask t) then Some (m_TaxiMask t ! unat f) else None)"

definition IsTaximaskNodeKnown :: "u32 \<Rightarrow> PlayerTaxi \<Rightarrow> bool option" where
  "IsTaximaskNodeKnown p t = map_option (\<lambda>v. ucast v AND l_SubMask p = l_SubMask p) (mask_at (l_Field p) t)"

definition SetTaximaskNode :: "u32 \<Rightarrow> PlayerTaxi \<Rightarrow> (bool \<times> PlayerTaxi) option" where
  "SetTaximaskNode p t = map_option (\<lambda>v.
     if ucast v AND l_SubMask p \<noteq> l_SubMask p
     then (True, t\<lparr>m_TaxiMask := (m_TaxiMask t)[unat (l_Field p) := ucast (ucast v OR l_SubMask p)]\<rparr>)
     else (False, t)) (mask_at (l_Field p) t)"

definition RemoveTaximaskNode :: "u32 \<Rightarrow> PlayerTaxi \<Rightarrow> (bool \<times> PlayerTaxi) option" where
  "RemoveTaximaskNode p t = map_option (\<lambda>v.
     if ucast v AND l_SubMask p \<noteq> 0
     then (True, t\<lparr>m_TaxiMask := (m_TaxiMask t)[unat (l_Field p) := ucast (ucast v AND NOT (l_SubMask p))]\<rparr>)
     else (False, t)) (mask_at (l_Field p) t)"

fun set_nodes :: "u32 list \<Rightarrow> PlayerTaxi \<Rightarrow> PlayerTaxi option" where
  "set_nodes [] t = Some t"
| "set_nodes (p # ps) t = (case SetTaximaskNode p t of None \<Rightarrow> None | Some (_, t) \<Rightarrow> set_nodes ps t)"

definition alliance_races :: "u32 list" where
  "alliance_races = [1, 3, 4, 7, 11, 22, 25]"

definition horde_races :: "u32 list" where
  "horde_races = [2, 5, 6, 8, 10, 9, 26]"

definition InitTaxiNodesForLevel :: "taxi_env \<Rightarrow> u32 \<Rightarrow> u32 \<Rightarrow> u8 \<Rightarrow> PlayerTaxi \<Rightarrow> PlayerTaxi option" where
  "InitTaxiNodesForLevel x race cls level = set_nodes
     ((if cls = 6 then [315] else [])
      @ (if race \<in> set alliance_races then [2, 6, 26, 27, 49, 94, 456, 457, 582, 589, 619, 620, 624]
         else if race \<in> set horde_races then [11, 22, 23, 69, 82, 384, 402, 460, 536, 537, 625, 631] else [])
      @ (let team = TeamForRace (tx_teams x) (ucast race)
         in if team = ALLIANCE then [100, 26] else if team = HORDE then [99] else [])
      @ (if level \<ge> 68 then [213] else []))"

fun load_mask :: "u8 list \<Rightarrow> cstring list \<Rightarrow> nat \<Rightarrow> u8 list \<Rightarrow> u8 list" where
  "load_mask nodes [] i m = m"
| "load_mask nodes (tok # toks) i m =
     (if i < TaxiMaskSize then load_mask nodes toks (i + 1) (m[i := ucast (ucast (nodes ! i) AND atoul tok)]) else m)"

definition LoadTaxiMask :: "taxi_env \<Rightarrow> cstring \<Rightarrow> PlayerTaxi \<Rightarrow> PlayerTaxi" where
  "LoadTaxiMask x data t = t\<lparr>m_TaxiMask := load_mask (tx_nodes x) (Tokenizer data 32) 0 (m_TaxiMask t)\<rparr>"

definition AppendTaximaskTo :: "taxi_env \<Rightarrow> bool \<Rightarrow> PlayerTaxi \<Rightarrow> unit bb" where
  "AppendTaximaskTo x all_nodes t = forS append_val (if all_nodes then tx_nodes x else m_TaxiMask t)"

definition SaveTaxiMask :: "PlayerTaxi \<Rightarrow> cstring" where
  "SaveTaxiMask t = concat (map (\<lambda>b. decimal (unat b) @ [32]) (m_TaxiMask t))"

subsection \<open>The flight\<close>

definition ClearTaxiDestinations :: "PlayerTaxi \<Rightarrow> PlayerTaxi" where
  "ClearTaxiDestinations t = t\<lparr>m_TaxiDestinations := []\<rparr>"

definition AddTaxiDestination :: "u32 \<Rightarrow> PlayerTaxi \<Rightarrow> PlayerTaxi" where
  "AddTaxiDestination d t = t\<lparr>m_TaxiDestinations := m_TaxiDestinations t @ [d]\<rparr>"

definition SetTaxiDestination :: "u32 list \<Rightarrow> PlayerTaxi \<Rightarrow> PlayerTaxi" where
  "SetTaxiDestination nodes t = t\<lparr>m_TaxiDestinations := nodes\<rparr>"

definition GetTaxiSource :: "PlayerTaxi \<Rightarrow> u32" where
  "GetTaxiSource t = (case m_TaxiDestinations t of [] \<Rightarrow> 0 | d # _ \<Rightarrow> d)"

definition GetTaxiDestination :: "PlayerTaxi \<Rightarrow> u32" where
  "GetTaxiDestination t = (if length (m_TaxiDestinations t) < 2 then 0 else m_TaxiDestinations t ! 1)"

definition GetCurrentTaxiPath :: "taxi_env \<Rightarrow> PlayerTaxi \<Rightarrow> u32" where
  "GetCurrentTaxiPath x t =
     (if length (m_TaxiDestinations t) < 2 then 0 else fst (GetTaxiPath x (m_TaxiDestinations t ! 0) (m_TaxiDestinations t ! 1)))"

text \<open>\<open>pop_front\<close> of an empty queue is undefined.\<close>

definition NextTaxiDestination :: "PlayerTaxi \<Rightarrow> (u32 \<times> PlayerTaxi) option" where
  "NextTaxiDestination t =
     (case m_TaxiDestinations t of
        [] \<Rightarrow> None
      | _ # ds \<Rightarrow> let t = t\<lparr>m_TaxiDestinations := ds\<rparr> in Some (GetTaxiDestination t, t))"

definition IsPathEmpty :: "PlayerTaxi \<Rightarrow> bool" where
  "IsPathEmpty t \<longleftrightarrow> m_TaxiDestinations t = []"

definition LoadTaxiDestinationsFromString :: "taxi_env \<Rightarrow> cstring \<Rightarrow> u32 \<Rightarrow> PlayerTaxi \<Rightarrow> bool \<times> PlayerTaxi" where
  "LoadTaxiDestinationsFromString x s team t =
     (let t = fold (\<lambda>tok t. AddTaxiDestination (ucast (atoul tok)) t) (Tokenizer s 32) (ClearTaxiDestinations t);
          ds = m_TaxiDestinations t
      in (if ds = [] then True
          else if length ds < 2 then False
          else if list_ex (\<lambda>i. fst (GetTaxiPath x (ds ! (i - 1)) (ds ! i)) = 0) [1..<length ds] then False
          else if tx_mount x (GetTaxiSource t) team True = 0 then False
          else True, t))"

definition SaveTaxiDestinationsToString :: "PlayerTaxi \<Rightarrow> cstring" where
  "SaveTaxiDestinationsToString t =
     (if m_TaxiDestinations t = [] then [] else concat (map (\<lambda>d. decimal (unat d) @ [32]) (m_TaxiDestinations t)))"

text \<open>The loop looks for a known stop: the path up to it and whether something is left behind it.\<close>

fun landing_loop :: "PlayerTaxi \<Rightarrow> u32 list \<Rightarrow> u32 list \<Rightarrow> u32 list option option" where
  "landing_loop t kept [] = Some None"
| "landing_loop t kept (d # ds) =
     (case IsTaximaskNodeKnown d t of
        None \<Rightarrow> None
      | Some True \<Rightarrow> if ds = [] then Some None else Some (Some (kept @ [d]))
      | Some False \<Rightarrow> landing_loop t (kept @ [d]) ds)"

definition RequestEarlyLanding :: "PlayerTaxi \<Rightarrow> (bool \<times> PlayerTaxi) option" where
  "RequestEarlyLanding t =
     (if length (m_TaxiDestinations t) \<le> 2 then Some (False, t)
      else map_option (\<lambda>r. case r of None \<Rightarrow> (False, t) | Some ds \<Rightarrow> (True, t\<lparr>m_TaxiDestinations := ds\<rparr>))
        (landing_loop t [hd (m_TaxiDestinations t)] (tl (m_TaxiDestinations t))))"

subsection \<open>The set of known points\<close>

definition taxi_ok :: "PlayerTaxi \<Rightarrow> bool" where
  "taxi_ok t \<longleftrightarrow> length (m_TaxiMask t) = 217"

definition node_ok :: "u32 \<Rightarrow> bool" where
  "node_ok p \<longleftrightarrow> 1 \<le> unat p \<and> unat p \<le> 1736"

definition tfield :: "u32 \<Rightarrow> nat" where "tfield p = (unat p - 1) div 8"
definition tbit :: "u32 \<Rightarrow> nat" where "tbit p = (unat p - 1) mod 8"
definition smask :: "nat \<Rightarrow> u32" where "smask n = push_bit n 1"

definition known :: "PlayerTaxi \<Rightarrow> u32 \<Rightarrow> bool" where
  "known t p \<longleftrightarrow> bit (m_TaxiMask t ! tfield p) (tbit p)"

lemma tbit_less [simp]: "tbit p < 8"
  by (simp add: tbit_def)

lemma unat_pred: "node_ok p \<Longrightarrow> unat (p - 1) = unat p - 1"
  by (auto simp: node_ok_def unat_sub word_le_nat_alt)

lemma unat_field: "node_ok p \<Longrightarrow> unat (l_Field p) = tfield p"
  using unat_pred[of p] by (auto simp: l_Field_def tfield_def node_ok_def unsigned_ucast_eq take_bit_eq_mod unat_div)

lemma field_in: "node_ok p \<Longrightarrow> taxi_ok t \<Longrightarrow> tfield p < length (m_TaxiMask t)"
  by (auto simp: node_ok_def taxi_ok_def tfield_def)

lemma submask: "node_ok p \<Longrightarrow> l_SubMask p = smask (tbit p)"
  using unat_pred[of p] by (simp add: l_SubMask_def smask_def tbit_def unat_mod)

lemma bit_smask: "bit (smask n) m \<longleftrightarrow> m = n \<and> n < 32"
  by (auto simp: smask_def bit_simps)

lemma and_bit: "n < 8 \<Longrightarrow> (ucast (v :: u8) AND smask n = smask n) \<longleftrightarrow> bit v n"
proof
  assume n: "n < 8" and "ucast v AND smask n = smask n"
  then have "bit (ucast v AND smask n) n = bit (smask n) n" by simp
  then show "bit v n" using n by (simp add: bit_simps bit_smask)
next
  assume n: "n < 8" and "bit v n"
  then show "ucast v AND smask n = smask n" by (intro bit_word_eqI) (auto simp: bit_simps bit_smask)
qed

lemma and_bit_zero: "n < 8 \<Longrightarrow> (ucast (v :: u8) AND smask n = 0) \<longleftrightarrow> \<not> bit v n"
proof
  assume n: "n < 8" and "ucast v AND smask n = 0"
  then have "bit (ucast v AND smask n) n = bit (0 :: u32) n" by simp
  then show "\<not> bit v n" using n by (simp add: bit_simps bit_smask)
next
  assume n: "n < 8" and "\<not> bit v n"
  then show "ucast v AND smask n = 0" by (intro bit_word_eqI) (auto simp: bit_simps bit_smask)
qed

lemma or_bit: "m < 8 \<Longrightarrow> n < 8 \<Longrightarrow> bit (ucast (ucast (v :: u8) OR smask n) :: u8) m \<longleftrightarrow> bit v m \<or> m = n"
  by (auto simp: bit_simps bit_smask)

lemma and_not_bit: "m < 8 \<Longrightarrow> n < 8 \<Longrightarrow> bit (ucast (ucast (v :: u8) AND NOT (smask n)) :: u8) m \<longleftrightarrow> bit v m \<and> m \<noteq> n"
  by (auto simp: bit_simps bit_smask)

lemma IsTaximaskNodeKnown_known: "node_ok p \<Longrightarrow> taxi_ok t \<Longrightarrow> IsTaximaskNodeKnown p t = Some (known t p)"
  by (simp add: IsTaximaskNodeKnown_def mask_at_def unat_field field_in submask and_bit known_def)

lemma node_eq_iff:
  assumes "node_ok p" "node_ok q"
  shows "p = q \<longleftrightarrow> tfield p = tfield q \<and> tbit p = tbit q"
proof
  assume "tfield p = tfield q \<and> tbit p = tbit q"
  then have "unat p - 1 = unat q - 1" unfolding tfield_def tbit_def by (metis div_mult_mod_eq)
  then have "unat p = unat q" using assms unfolding node_ok_def by linarith
  then show "p = q" by (simp add: word_unat_eq_iff)
qed simp

text \<open>C37. Learning a point makes exactly this point known besides those known before and says whether it is new;
  forgetting one is its inverse. Neither leaves the array, for the 1736 points it has room for.\<close>

theorem taxi_points:
  assumes t: "taxi_ok t" and p: "node_ok p"
  shows "\<exists>s f. SetTaximaskNode p t = Some (\<not> known t p, s) \<and> RemoveTaximaskNode p t = Some (known t p, f) \<and> taxi_ok s \<and> taxi_ok f
    \<and> (\<forall>q. node_ok q \<longrightarrow> IsTaximaskNodeKnown q s = Some (q = p \<or> known t q) \<and> IsTaximaskNodeKnown q f = Some (q \<noteq> p \<and> known t q))"
proof -
  let ?i = "tfield p" and ?n = "tbit p"
  let ?v = "m_TaxiMask t ! ?i"
  have i: "?i < length (m_TaxiMask t)" using field_in[OF p t] .
  let ?s = "if known t p then t else t\<lparr>m_TaxiMask := (m_TaxiMask t)[?i := ucast (ucast ?v OR smask ?n)]\<rparr>"
  let ?f = "if known t p then t\<lparr>m_TaxiMask := (m_TaxiMask t)[?i := ucast (ucast ?v AND NOT (smask ?n))]\<rparr> else t"
  have "SetTaximaskNode p t = Some (\<not> known t p, ?s)" "RemoveTaximaskNode p t = Some (known t p, ?f)"
    using i by (simp_all add: SetTaximaskNode_def RemoveTaximaskNode_def mask_at_def unat_field[OF p] submask[OF p] and_bit and_bit_zero known_def)
  moreover have ok: "taxi_ok ?s" "taxi_ok ?f" using t by (simp_all add: taxi_ok_def)
  moreover have "known ?s q = (q = p \<or> known t q) \<and> known ?f q = (q \<noteq> p \<and> known t q)" if q: "node_ok q" for q
  proof (cases "tfield q = ?i")
    case True
    have eq: "q = p \<longleftrightarrow> tbit q = ?n" using node_eq_iff[OF q p] True by simp
    show ?thesis
    proof (cases "known t p")
      case kp: True
      have "known ?f q \<longleftrightarrow> known t q \<and> tbit q \<noteq> ?n" using kp i True and_not_bit[where m = "tbit q" and n = ?n and v = ?v] by (simp add: known_def)
      then show ?thesis using kp eq by auto
    next
      case nk: False
      have "known ?s q \<longleftrightarrow> known t q \<or> tbit q = ?n" using nk i True or_bit[where m = "tbit q" and n = ?n and v = ?v] by (simp add: known_def)
      then show ?thesis using nk eq by auto
    qed
  next
    case False
    then have "q \<noteq> p" "known ?s q = known t q" "known ?f q = known t q" by (auto simp: known_def)
    then show ?thesis by simp
  qed
  ultimately show ?thesis using IsTaximaskNodeKnown_known by (intro exI[of _ ?s] exI[of _ ?f]) simp
qed

theorem taxi_points_witness: "\<exists>s. SetTaximaskNode 23 PlayerTaxi_new = Some (True, s) \<and> IsTaximaskNodeKnown 23 s = Some True"
proof -
  have "taxi_ok PlayerTaxi_new" "node_ok 23" "node_ok 23" "\<not> known PlayerTaxi_new 23"
    by (simp_all add: taxi_ok_def PlayerTaxi_new_def TaxiMaskSize_def node_ok_def known_def tfield_def)
  then show ?thesis using taxi_points[of PlayerTaxi_new 23] by auto
qed

subsection \<open>Saving\<close>

lemma strtoul_decimal:
  assumes "n < 2 ^ 64"
  shows "atoul (decimal n) = word_of_nat n"
proof -
  have all: "\<forall>c\<in>set (decimal n). is_digit c" using decimal_chars by blast
  then have h: "is_digit (hd (decimal n))" by simp
  note s = digit_no_sign[OF h]
  have "dropWhile is_space (decimal n) = decimal n" using s by (cases "decimal n") auto
  moreover have tw: "takeWhile is_digit (decimal n) = decimal n" using all by simp
  ultimately show ?thesis using s assms by (simp add: atoul_def strtoul_def Let_def tw digits_val_decimal)
qed

lemma tokens_decimals: "Tokenizer (concat (map (\<lambda>n. decimal n @ [32]) ns)) 32 = map decimal ns"
proof -
  have "tok_loop 32 [] (concat (map (\<lambda>n. decimal n @ [32]) ns)) = map decimal ns"
  proof (induction ns)
    case (Cons n ns)
    have "\<forall>c\<in>set (decimal n). c \<noteq> 0 \<and> c \<noteq> 32" using decimal_chars digit_no_sign by blast
    from tok_loop_word[OF this, of "[]"] Cons show ?case by simp
  qed simp
  then show ?thesis by (simp add: Tokenizer_def)
qed

text \<open>Saving and loading the flight gives the same stops, and the load succeeds exactly if there is no flight, or
  every leg has a path and the first stop a mount.\<close>

theorem taxi_destinations_saved:
  "LoadTaxiDestinationsFromString x (SaveTaxiDestinationsToString t) team t0
    = (let ds = m_TaxiDestinations t
       in ds = [] \<or> 2 \<le> length ds \<and> (\<forall>i \<in> {1..<length ds}. fst (GetTaxiPath x (ds ! (i - 1)) (ds ! i)) \<noteq> 0) \<and> tx_mount x (hd ds) team True \<noteq> 0,
       t0\<lparr>m_TaxiDestinations := m_TaxiDestinations t\<rparr>)"
proof -
  let ?ds = "m_TaxiDestinations t"
  have add: "fold (\<lambda>tok t. AddTaxiDestination (ucast (atoul tok)) t) (map decimal (map unat ds)) u
      = u\<lparr>m_TaxiDestinations := m_TaxiDestinations u @ ds\<rparr>" for ds :: "u32 list" and u
  proof (induction ds arbitrary: u)
    case (Cons d ds)
    have "unat d < 2 ^ 32" using unsigned_less[of d] by simp
    then have "unat d < 2 ^ 64" by simp
    then have "(ucast (atoul (decimal (unat d))) :: u32) = d" by (simp add: strtoul_decimal)
    then show ?case using Cons by (simp add: AddTaxiDestination_def)
  qed simp
  have "Tokenizer (SaveTaxiDestinationsToString t) 32 = map decimal (map unat ?ds)"
    using tokens_decimals[of "map unat ?ds"] by (simp add: SaveTaxiDestinationsToString_def comp_def Tokenizer_def)
  then have "fold (\<lambda>tok t. AddTaxiDestination (ucast (atoul tok)) t) (Tokenizer (SaveTaxiDestinationsToString t) 32) (ClearTaxiDestinations t0)
      = t0\<lparr>m_TaxiDestinations := ?ds\<rparr>"
    using add[of ?ds "ClearTaxiDestinations t0"] by (simp add: ClearTaxiDestinations_def)
  then show ?thesis
    by (auto simp: LoadTaxiDestinationsFromString_def Let_def GetTaxiSource_def list_ex_iff split: list.split)
qed

definition demo_taxi_env :: taxi_env where
  "demo_taxi_env = \<lparr>tx_nodes = replicate 217 0x0F, tx_paths = (\<lambda>_ _. Some (9, 50)), tx_mount = (\<lambda>_ _ _. 541), tx_teams = (\<lambda>_. None)\<rparr>"

theorem taxi_destinations_saved_witness:
  "LoadTaxiDestinationsFromString demo_taxi_env (SaveTaxiDestinationsToString (PlayerTaxi_new\<lparr>m_TaxiDestinations := [2, 6, 26]\<rparr>)) ALLIANCE PlayerTaxi_new
    = (True, PlayerTaxi_new\<lparr>m_TaxiDestinations := [2, 6, 26]\<rparr>)"
  using taxi_destinations_saved[of demo_taxi_env "PlayerTaxi_new\<lparr>m_TaxiDestinations := [2, 6, 26]\<rparr>" ALLIANCE PlayerTaxi_new]
  by (simp add: demo_taxi_env_def GetTaxiPath_def)

lemma load_mask_all:
  "length bs + i = 217 \<Longrightarrow> length m = 217 \<Longrightarrow>
    load_mask nodes (map (\<lambda>b. decimal (unat b)) bs) i m = take i m @ map (\<lambda>j. nodes ! (i + j) AND bs ! j) [0..<length bs]"
proof (induction bs arbitrary: i m)
  case (Cons b bs)
  have "unat b < 2 ^ 8" using unsigned_less[of b] by simp
  then have lt: "unat b < 2 ^ 64" by simp
  have v: "ucast (ucast (nodes ! i) AND atoul (decimal (unat b))) = nodes ! i AND b"
    unfolding strtoul_decimal[OF lt] by (rule bit_word_eqI) (auto simp: bit_simps dest: bit_imp_le_length)
  let ?m = "m[i := nodes ! i AND b]"
  have i: "i < length m" using Cons.prems by simp
  have IH: "load_mask nodes (map (\<lambda>b. decimal (unat b)) bs) (i + 1) ?m
      = take (i + 1) ?m @ map (\<lambda>j. nodes ! (i + 1 + j) AND bs ! j) [0..<length bs]"
    by (rule Cons.IH) (use Cons.prems in simp_all)
  have t: "take (i + 1) ?m = take i m @ [nodes ! i AND b]" using i by (simp add: take_Suc_conv_app_nth)
  have u: "map (\<lambda>j. nodes ! (i + j) AND (b # bs) ! j) [0..<length (b # bs)]
      = (nodes ! i AND b) # map (\<lambda>j. nodes ! (i + 1 + j) AND bs ! j) [0..<length bs]"
    by (simp add: upt_conv_Cons map_Suc_upt[symmetric] comp_def del: upt_Suc)
  show ?case using Cons.prems(1) v IH t u by (simp add: TaxiMaskSize_def)
qed simp

text \<open>After saving and loading a player knows exactly the points he knew that still exist.\<close>

theorem taxi_mask_saved:
  assumes "taxi_ok t" "taxi_ok t0" "length (tx_nodes x) = 217" "node_ok p"
  shows "IsTaximaskNodeKnown p (LoadTaxiMask x (SaveTaxiMask t) t0)
    = Some (known t p \<and> bit (tx_nodes x ! tfield p) (tbit p))"
proof -
  have "Tokenizer (SaveTaxiMask t) 32 = map (\<lambda>b. decimal (unat b)) (m_TaxiMask t)"
    using tokens_decimals[of "map unat (m_TaxiMask t)"] by (simp add: SaveTaxiMask_def comp_def)
  then have m: "m_TaxiMask (LoadTaxiMask x (SaveTaxiMask t) t0) = map (\<lambda>j. tx_nodes x ! j AND m_TaxiMask t ! j) [0..<217]"
    using load_mask_all[of "m_TaxiMask t" 0 "m_TaxiMask t0"] assms(1,2) by (simp add: LoadTaxiMask_def taxi_ok_def)
  then have "taxi_ok (LoadTaxiMask x (SaveTaxiMask t) t0)" by (simp add: taxi_ok_def)
  moreover have "tfield p < 217" using field_in[OF assms(4,1)] assms(1) by (simp add: taxi_ok_def)
  ultimately show ?thesis using IsTaximaskNodeKnown_known[OF assms(4)] by (auto simp: known_def m bit_simps)
qed

theorem taxi_mask_saved_witness:
  "IsTaximaskNodeKnown 2 (LoadTaxiMask demo_taxi_env (SaveTaxiMask (PlayerTaxi_new\<lparr>m_TaxiMask := replicate 217 2\<rparr>)) PlayerTaxi_new) = Some True"
  using taxi_mask_saved[of "PlayerTaxi_new\<lparr>m_TaxiMask := replicate 217 2\<rparr>" PlayerTaxi_new demo_taxi_env 2]
  by (simp add: taxi_ok_def PlayerTaxi_new_def TaxiMaskSize_def demo_taxi_env_def node_ok_def known_def tfield_def tbit_def
      bit_numeral_rec(1) flip: numeral_2_eq_2)

subsection \<open>Landing early\<close>

lemma landing_loop_value:
  assumes "taxi_ok t" "\<forall>d \<in> set ds. node_ok d"
  shows "landing_loop t kept ds = Some (if \<exists>d \<in> set (butlast ds). known t d
    then Some (kept @ takeWhile (\<lambda>d. \<not> known t d) ds @ [hd (dropWhile (\<lambda>d. \<not> known t d) ds)]) else None)"
  using assms(2)
proof (induction ds arbitrary: kept)
  case (Cons d ds)
  have k: "IsTaximaskNodeKnown d t = Some (known t d)" using IsTaximaskNodeKnown_known assms(1) Cons.prems by simp
  show ?case
  proof (cases "known t d")
    case True then show ?thesis using k by auto
  next
    case False
    then have "(\<exists>e \<in> set (butlast (d # ds)). known t e) \<longleftrightarrow> (\<exists>e \<in> set (butlast ds). known t e)" by auto
    then show ?thesis using k False Cons by simp
  qed
qed simp

text \<open>C36. A request to land early succeeds exactly if a stop before the last one is known; the flight then ends at the
  first known stop and keeps the way there, otherwise it stays as it is.\<close>

theorem early_landing:
  assumes "taxi_ok t" "\<forall>d \<in> set (m_TaxiDestinations t). node_ok d"
  shows "RequestEarlyLanding t =
    (let ds = m_TaxiDestinations t
     in if \<exists>d \<in> set (butlast (tl ds)). known t d
        then Some (True, t\<lparr>m_TaxiDestinations := hd ds # takeWhile (\<lambda>d. \<not> known t d) (tl ds) @ [hd (dropWhile (\<lambda>d. \<not> known t d) (tl ds))]\<rparr>)
        else Some (False, t))"
proof (cases "length (m_TaxiDestinations t) \<le> 2")
  case True
  then have "butlast (tl (m_TaxiDestinations t)) = []" by (cases "m_TaxiDestinations t"; cases "tl (m_TaxiDestinations t)") auto
  then show ?thesis using True by (simp add: RequestEarlyLanding_def)
next
  case False
  have "\<forall>d \<in> set (tl (m_TaxiDestinations t)). node_ok d" using assms(2) by (cases "m_TaxiDestinations t") auto
  from landing_loop_value[OF assms(1) this] False show ?thesis by (simp add: RequestEarlyLanding_def Let_def)
qed

theorem early_landing_witness:
  "RequestEarlyLanding (PlayerTaxi_new\<lparr>m_TaxiMask := replicate 217 2, m_TaxiDestinations := [5, 7, 10, 12, 13]\<rparr>)
    = Some (True, PlayerTaxi_new\<lparr>m_TaxiMask := replicate 217 2, m_TaxiDestinations := [5, 7, 10]\<rparr>)"
  using early_landing[of "PlayerTaxi_new\<lparr>m_TaxiMask := replicate 217 2, m_TaxiDestinations := [5, 7, 10, 12, 13]\<rparr>"]
  by (simp add: taxi_ok_def node_ok_def known_def tfield_def tbit_def Let_def)

end
