(* ===== verification/Threat.thy ===== *)
theory Threat
  imports FloatArith "HOL-Library.Monad_Syntax"
begin

text \<open>
  The threat list of a creature: \<open>src/server/game/Combat/ThreatManager.h\<close> and \<open>ThreatManager.cpp\<close>. References to the
  units the creature hates lie at addresses; the manager holds one list of references that are online and one of those
  that are not. \<open>None\<close> is the use of an object that does not live or a failed assertion. Amounts are rounded rationals.
\<close>

subsection \<open>State\<close>

record HostileReference =
  hr_threat :: rat
  hr_temp :: rat
  hr_guid :: u64
  hr_online :: bool
  hr_access :: bool
  hr_target :: "u64 option"

datatype tm_event = ChangeVictim nat | RemoveFromClientList nat | AddHatedBy u64 nat

record ThreatManager =
  tm_online :: "nat list"
  tm_offline :: "nat list"
  tm_victim :: "nat option"
  tm_dirty :: bool
  tm_timer :: u32
  tm_refs :: "nat \<Rightarrow> HostileReference option"
  tm_next :: nat
  tm_log :: "tm_event list"

definition THREAT_UPDATE_INTERVAL :: u32 where "THREAT_UPDATE_INTERVAL = 1000"

definition ThreatManager_new :: ThreatManager where
  "ThreatManager_new = \<lparr>tm_online = [], tm_offline = [], tm_victim = None, tm_dirty = False, tm_timer = THREAT_UPDATE_INTERVAL,
     tm_refs = (\<lambda>_. None), tm_next = 0, tm_log = []\<rparr>"

text \<open>A unit as the manager looks at it. \<open>tu_spellMod\<close> is the amount after the modifiers of the talents of the player who
  controls it; \<open>tu_second\<close>: immune to the creature's blows or under a crowd control that damage breaks.\<close>

record threat_unit =
  tu_player :: bool
  tu_gm :: bool
  tu_alive :: bool
  tu_inFlight :: bool
  tu_inMap :: bool
  tu_inPhase :: bool
  tu_accessible :: bool
  tu_inCombatRange :: bool
  tu_owner :: "u64 option"
  tu_vengeance :: bool
  tu_reducedPercent :: u32
  tu_misdirection :: "u64 option"
  tu_spellMod :: "u32 \<Rightarrow> rat \<Rightarrow> rat"
  tu_threatAura :: bool
  tu_threatMod :: "nat \<Rightarrow> rat"
  tu_second :: bool
  tu_attackable :: bool
  tu_melee :: bool

record threat_spell =
  ts_Id :: u32
  ts_pctMod :: "rat option"
  ts_energize :: bool
  ts_noThreat :: bool

record threat_env =
  te_unit :: "u64 \<Rightarrow> threat_unit option"
  te_owner :: u64
  te_ownerAlive :: bool

text \<open>The constants and operations of \<open>float\<close>.\<close>

definition f_1_1 :: rat where "f_1_1 = fl 24 (11 / 10)"
definition f_1_3 :: rat where "f_1_3 = fl 24 (13 / 10)"
definition f_1_4 :: rat where "f_1_4 = fl 24 (14 / 10)"
definition f32_sub :: "rat \<Rightarrow> rat \<Rightarrow> rat" where "f32_sub x y = fl 24 (x - y)"
definition f32_div :: "rat \<Rightarrow> rat \<Rightarrow> rat" where "f32_div x y = fl 24 (x / y)"

definition AddPct :: "rat \<Rightarrow> int \<Rightarrow> rat" where
  "AddPct b pct = f32_add b (f32_div (f32_mul b (f32_of_int pct)) 100)"

subsection \<open>The calculation of an amount\<close>

definition SPELL_SCHOOL_MASK_NORMAL :: u32 where "SPELL_SCHOOL_MASK_NORMAL = 1"
definition SPELL_SCHOOL_MASK_ALL :: u32 where "SPELL_SCHOOL_MASK_ALL = 127"

definition GetFirstSchoolInMask :: "u32 \<Rightarrow> nat" where
  "GetFirstSchoolInMask m =
     (if m = SPELL_SCHOOL_MASK_ALL then 1
      else case find (\<lambda>i. and m (push_bit i 1) \<noteq> 0) [0..<7] of Some i \<Rightarrow> i | None \<Rightarrow> 0)"

definition ApplyTotalThreatModifier :: "threat_unit \<Rightarrow> rat \<Rightarrow> u32 \<Rightarrow> rat" where
  "ApplyTotalThreatModifier u fThreat schoolMask =
     (if \<not> tu_threatAura u \<or> fThreat < 0 then fThreat else f32_mul fThreat (tu_threatMod u (GetFirstSchoolInMask schoolMask)))"

definition calcThreat :: "threat_unit \<Rightarrow> rat \<Rightarrow> u32 \<Rightarrow> threat_spell option \<Rightarrow> rat" where
  "calcThreat hated threat schoolMask spell =
     (case spell of
        None \<Rightarrow> ApplyTotalThreatModifier hated threat schoolMask
      | Some sp \<Rightarrow>
          let threat = (case ts_pctMod sp of None \<Rightarrow> threat | Some m \<Rightarrow> if m \<noteq> 1 then f32_mul threat m else threat)
          in if ts_energize sp then threat else ApplyTotalThreatModifier hated (tu_spellMod hated (ts_Id sp) threat) schoolMask)"

definition isValidProcess :: "threat_env \<Rightarrow> u64 \<Rightarrow> threat_spell option \<Rightarrow> bool" where
  "isValidProcess x hated spell =
     (case te_unit x hated of
        None \<Rightarrow> False
      | Some u \<Rightarrow> hated \<noteq> te_owner x \<and> \<not> (tu_player u \<and> tu_gm u) \<and> tu_alive u \<and> te_ownerAlive x \<and> tu_inMap u \<and> tu_inPhase u
          \<and> \<not> (case spell of None \<Rightarrow> False | Some sp \<Rightarrow> ts_noThreat sp))"

subsection \<open>References and events\<close>

definition upd_ref :: "nat \<Rightarrow> (HostileReference \<Rightarrow> HostileReference) \<Rightarrow> ThreatManager \<Rightarrow> ThreatManager option" where
  "upd_ref r f s = map_option (\<lambda>h. s\<lparr>tm_refs := (tm_refs s)(r \<mapsto> f h)\<rparr>) (tm_refs s r)"

definition tm_effect :: "tm_event \<Rightarrow> ThreatManager \<Rightarrow> ThreatManager" where
  "tm_effect e s = s\<lparr>tm_log := tm_log s @ [e]\<rparr>"

definition setDirty :: "bool \<Rightarrow> ThreatManager \<Rightarrow> ThreatManager" where
  "setDirty d s = s\<lparr>tm_dirty := d\<rparr>"

definition setCurrentVictim :: "nat option \<Rightarrow> ThreatManager \<Rightarrow> ThreatManager" where
  "setCurrentVictim v s =
     (let s = (case v of None \<Rightarrow> s | Some r \<Rightarrow> if v \<noteq> tm_victim s then tm_effect (ChangeVictim r) s else s)
      in s\<lparr>tm_victim := v\<rparr>)"

datatype threat_change = ThreatChange rat | OnlineStatus | AccessibleStatus | RemoveFromList

definition lose_victim :: "nat \<Rightarrow> ThreatManager \<Rightarrow> ThreatManager" where
  "lose_victim r s = (if tm_victim s = Some r then setDirty True (setCurrentVictim None s) else s)"

fun processThreatEvent :: "nat \<Rightarrow> threat_change \<Rightarrow> ThreatManager \<Rightarrow> ThreatManager option" where
  "processThreatEvent r (ThreatChange f) s =
     Some (if (tm_victim s = Some r \<and> f < 0) \<or> (tm_victim s \<noteq> Some r \<and> f > 0) then setDirty True s else s)"
| "processThreatEvent r OnlineStatus s = do {
     h \<leftarrow> tm_refs s r;
     if \<not> hr_online h
     then (let s = tm_effect (RemoveFromClientList r) (lose_victim r s)
           in Some (s\<lparr>tm_online := removeAll r (tm_online s), tm_offline := tm_offline s @ [r]\<rparr>))
     else do {
       s \<leftarrow> (case tm_victim s of
              None \<Rightarrow> Some s
            | Some v \<Rightarrow> do { hv \<leftarrow> tm_refs s v;
                Some (if hr_threat h > f32_mul f_1_1 (hr_threat hv) then setDirty True s else s) });
       Some (s\<lparr>tm_online := tm_online s @ [r], tm_offline := removeAll r (tm_offline s)\<rparr>) } }"
| "processThreatEvent r AccessibleStatus s = Some s"
| "processThreatEvent r RemoveFromList s = do {
     h \<leftarrow> tm_refs s r;
     let s = tm_effect (RemoveFromClientList r) (lose_victim r s);
     Some (if hr_online h then s\<lparr>tm_online := removeAll r (tm_online s)\<rparr> else s\<lparr>tm_offline := removeAll r (tm_offline s)\<rparr>) }"

definition setAccessibleState :: "bool \<Rightarrow> nat \<Rightarrow> ThreatManager \<Rightarrow> ThreatManager option" where
  "setAccessibleState b r s = do {
     h \<leftarrow> tm_refs s r;
     if hr_access h \<noteq> b
     then do { s \<leftarrow> upd_ref r (hr_access_update (\<lambda>_. b)) s; processThreatEvent r AccessibleStatus s }
     else Some s }"

definition setOnlineOfflineState :: "bool \<Rightarrow> nat \<Rightarrow> ThreatManager \<Rightarrow> ThreatManager option" where
  "setOnlineOfflineState b r s = do {
     h \<leftarrow> tm_refs s r;
     if hr_online h \<noteq> b
     then do {
       s \<leftarrow> upd_ref r (hr_online_update (\<lambda>_. b)) s;
       s \<leftarrow> (if \<not> b then setAccessibleState False r s else Some s);
       processThreatEvent r OnlineStatus s }
     else Some s }"

definition hr_invalidate :: "nat \<Rightarrow> ThreatManager \<Rightarrow> ThreatManager option" where
  "hr_invalidate r s = do { s \<leftarrow> setOnlineOfflineState False r s; upd_ref r (hr_target_update (\<lambda>_. None)) s }"

text \<open>\<open>removeReference\<close>, and the deletion that follows at every caller.\<close>

definition removeReference :: "nat \<Rightarrow> ThreatManager \<Rightarrow> ThreatManager option" where
  "removeReference r s = do { s \<leftarrow> hr_invalidate r s; processThreatEvent r RemoveFromList s }"

definition delete_ref :: "nat \<Rightarrow> ThreatManager \<Rightarrow> ThreatManager option" where
  "delete_ref r s = (case tm_refs s r of None \<Rightarrow> None | Some _ \<Rightarrow> Some (s\<lparr>tm_refs := (tm_refs s)(r := None)\<rparr>))"

definition link_target :: "nat \<Rightarrow> u64 \<Rightarrow> ThreatManager \<Rightarrow> ThreatManager option" where
  "link_target r g s = do { s \<leftarrow> upd_ref r (hr_target_update (\<lambda>_. Some g)) s; Some (tm_effect (AddHatedBy g r) s) }"

definition hr_reachable :: "threat_unit \<Rightarrow> bool" where
  "hr_reachable u \<longleftrightarrow> (\<not> tu_player u \<or> \<not> tu_gm u) \<and> \<not> tu_inFlight u \<and> tu_inMap u \<and> tu_inPhase u"

definition updateOnlineStatus :: "threat_env \<Rightarrow> nat \<Rightarrow> ThreatManager \<Rightarrow> ThreatManager option" where
  "updateOnlineStatus x r s = do {
     h \<leftarrow> tm_refs s r;
     s \<leftarrow> (if hr_target h = None \<and> te_unit x (hr_guid h) \<noteq> None then link_target r (hr_guid h) s else Some s);
     h \<leftarrow> tm_refs s r;
     (online, accessible) \<leftarrow> (case hr_target h of
          None \<Rightarrow> Some (False, False)
        | Some g \<Rightarrow> do { u \<leftarrow> te_unit x g;
            Some (if hr_reachable u then (tu_accessible u \<or> tu_inCombatRange u, tu_accessible u) else (False, False)) });
     s \<leftarrow> setAccessibleState accessible r s;
     setOnlineOfflineState online r s }"

text \<open>\<open>onOwner\<close> is what \<open>addThreat\<close> of the manager does with the owner of the target.\<close>

definition hr_addThreat :: "threat_env \<Rightarrow> (u64 \<Rightarrow> ThreatManager \<Rightarrow> ThreatManager option) \<Rightarrow> rat \<Rightarrow> nat \<Rightarrow> ThreatManager \<Rightarrow> ThreatManager option" where
  "hr_addThreat x onOwner modThreat r s = do {
     s \<leftarrow> upd_ref r (\<lambda>h. h\<lparr>hr_threat := f32_add (hr_threat h) modThreat\<rparr>) s;
     h \<leftarrow> tm_refs s r;
     s \<leftarrow> (if \<not> hr_online h then updateOnlineStatus x r s else Some s);
     s \<leftarrow> (if modThreat \<noteq> 0 then processThreatEvent r (ThreatChange modThreat) s else Some s);
     h \<leftarrow> tm_refs s r;
     (case hr_target h of
        None \<Rightarrow> Some s
      | Some g \<Rightarrow>
          if modThreat \<ge> 0
          then do { u \<leftarrow> te_unit x g;
            (case tu_owner u of
               None \<Rightarrow> Some s
             | Some o' \<Rightarrow> do { ou \<leftarrow> te_unit x o'; if tu_alive ou then onOwner o' s else Some s }) }
          else Some s) }"

definition getReferenceByTarget :: "u64 \<Rightarrow> nat list \<Rightarrow> ThreatManager \<Rightarrow> nat option" where
  "getReferenceByTarget g rs s = find (\<lambda>r. map_option hr_guid (tm_refs s r) = Some g) rs"

subsection \<open>The manager\<close>

definition new_reference :: "u64 \<Rightarrow> ThreatManager \<Rightarrow> nat \<times> ThreatManager" where
  "new_reference g s =
     (let r = tm_next s
      in (r, tm_effect (AddHatedBy g r) (s\<lparr>tm_next := r + 1, tm_refs := (tm_refs s)(r \<mapsto>
           \<lparr>hr_threat = 0, hr_temp = 0, hr_guid = g, hr_online = True, hr_access = True, hr_target = Some g\<rparr>),
           tm_online := tm_online s @ [r]\<rparr>)))"

definition tm_addThreat_to :: "threat_env \<Rightarrow> (u64 \<Rightarrow> ThreatManager \<Rightarrow> ThreatManager option) \<Rightarrow> u64 \<Rightarrow> rat \<Rightarrow> ThreatManager \<Rightarrow> ThreatManager option" where
  "tm_addThreat_to x onOwner victim threat s =
     (case getReferenceByTarget victim (tm_online s) s of
        Some r \<Rightarrow> hr_addThreat x onOwner threat r s
      | None \<Rightarrow>
          (case getReferenceByTarget victim (tm_offline s) s of
             Some r \<Rightarrow> hr_addThreat x onOwner threat r s
           | None \<Rightarrow> do {
               let (r, s) = new_reference victim s;
               s \<leftarrow> hr_addThreat x onOwner threat r s;
               u \<leftarrow> te_unit x victim;
               if tu_player u \<and> tu_gm u then setOnlineOfflineState False r s else Some s }))"

definition doAddThreat_on :: "threat_env \<Rightarrow> (u64 \<Rightarrow> ThreatManager \<Rightarrow> ThreatManager option) \<Rightarrow> u64 \<Rightarrow> rat \<Rightarrow> ThreatManager \<Rightarrow> ThreatManager option" where
  "doAddThreat_on x onOwner victim threat s = do {
     u \<leftarrow> te_unit x victim;
     if threat > 0 \<and> tu_reducedPercent u \<noteq> 0
     then (let reduced = f32_div (f32_mul threat (f32_of_int (uint (tu_reducedPercent u)))) 100
           in do {
             s \<leftarrow> (case tu_misdirection u of None \<Rightarrow> Some s | Some m \<Rightarrow> tm_addThreat_to x onOwner m reduced s);
             tm_addThreat_to x onOwner victim (f32_sub threat reduced) s })
     else tm_addThreat_to x onOwner victim threat s }"

text \<open>\<open>n\<close> bounds the length of the chain of owners that is followed.\<close>

fun tm_addThreat :: "threat_env \<Rightarrow> nat \<Rightarrow> u64 \<Rightarrow> rat \<Rightarrow> u32 \<Rightarrow> threat_spell option \<Rightarrow> ThreatManager \<Rightarrow> ThreatManager option" where
  "tm_addThreat x 0 victim threat schoolMask spell s = None"
| "tm_addThreat x (Suc n) victim threat schoolMask spell s =
     (if \<not> isValidProcess x victim spell then Some s
      else do {
        u \<leftarrow> te_unit x victim;
        let threat = (if tu_vengeance u then f32_mul threat f_1_4 else threat);
        doAddThreat_on x (\<lambda>w. tm_addThreat x n w 0 SPELL_SCHOOL_MASK_NORMAL None) victim (calcThreat u threat schoolMask spell) s })"

abbreviation owner_threat :: "threat_env \<Rightarrow> nat \<Rightarrow> u64 \<Rightarrow> ThreatManager \<Rightarrow> ThreatManager option" where
  "owner_threat x n \<equiv> \<lambda>w. tm_addThreat x n w 0 SPELL_SCHOOL_MASK_NORMAL None"

definition doAddThreat :: "threat_env \<Rightarrow> nat \<Rightarrow> u64 \<Rightarrow> rat \<Rightarrow> ThreatManager \<Rightarrow> ThreatManager option" where
  "doAddThreat x n = doAddThreat_on x (owner_threat x n)"

definition hr_addThreatPercent :: "threat_env \<Rightarrow> nat \<Rightarrow> int \<Rightarrow> nat \<Rightarrow> ThreatManager \<Rightarrow> ThreatManager option" where
  "hr_addThreatPercent x n pct r s = do {
     h \<leftarrow> tm_refs s r;
     hr_addThreat x (owner_threat x n) (f32_sub (AddPct (hr_threat h) pct) (hr_threat h)) r s }"

definition setThreat :: "threat_env \<Rightarrow> nat \<Rightarrow> rat \<Rightarrow> nat \<Rightarrow> ThreatManager \<Rightarrow> ThreatManager option" where
  "setThreat x n threat r s = do { h \<leftarrow> tm_refs s r; hr_addThreat x (owner_threat x n) (f32_sub threat (hr_threat h)) r s }"

definition addTempThreat :: "threat_env \<Rightarrow> nat \<Rightarrow> rat \<Rightarrow> nat \<Rightarrow> ThreatManager \<Rightarrow> ThreatManager option" where
  "addTempThreat x n threat r s = do {
     s \<leftarrow> upd_ref r (hr_temp_update (\<lambda>_. threat)) s;
     if threat \<noteq> 0 then hr_addThreat x (owner_threat x n) threat r s else Some s }"

definition setTempThreat :: "threat_env \<Rightarrow> nat \<Rightarrow> rat \<Rightarrow> nat \<Rightarrow> ThreatManager \<Rightarrow> ThreatManager option" where
  "setTempThreat x n threat r s = do { h \<leftarrow> tm_refs s r; addTempThreat x n (f32_sub threat (hr_threat h)) r s }"

definition resetTempThreat :: "threat_env \<Rightarrow> nat \<Rightarrow> nat \<Rightarrow> ThreatManager \<Rightarrow> ThreatManager option" where
  "resetTempThreat x n r s = do {
     h \<leftarrow> tm_refs s r;
     if hr_temp h \<noteq> 0
     then do { s \<leftarrow> hr_addThreat x (owner_threat x n) (- hr_temp h) r s; upd_ref r (hr_temp_update (\<lambda>_. 0)) s }
     else Some s }"

definition modifyThreatPercent :: "threat_env \<Rightarrow> nat \<Rightarrow> u64 \<Rightarrow> int \<Rightarrow> ThreatManager \<Rightarrow> ThreatManager option" where
  "modifyThreatPercent x n victim pct s =
     (case getReferenceByTarget victim (tm_online s) s of None \<Rightarrow> Some s | Some r \<Rightarrow> hr_addThreatPercent x n pct r s)"

definition tm_getThreat :: "u64 \<Rightarrow> bool \<Rightarrow> ThreatManager \<Rightarrow> rat" where
  "tm_getThreat victim alsoSearchOfflineList s =
     (case (case getReferenceByTarget victim (tm_online s) s of
              Some r \<Rightarrow> Some r
            | None \<Rightarrow> if alsoSearchOfflineList then getReferenceByTarget victim (tm_offline s) s else None) of
        None \<Rightarrow> 0
      | Some r \<Rightarrow> (case tm_refs s r of None \<Rightarrow> 0 | Some h \<Rightarrow> hr_threat h))"

definition tauntApply :: "threat_env \<Rightarrow> nat \<Rightarrow> u64 \<Rightarrow> ThreatManager \<Rightarrow> ThreatManager option" where
  "tauntApply x n taunter s =
     (case (tm_victim s, getReferenceByTarget taunter (tm_online s) s) of
        (Some v, Some r) \<Rightarrow> do {
          h \<leftarrow> tm_refs s r;
          hv \<leftarrow> tm_refs s v;
          if hr_threat h < hr_threat hv \<and> hr_temp h = 0 then setTempThreat x n (hr_threat hv) r s else Some s }
      | _ \<Rightarrow> Some s)"

definition tauntFadeOut :: "threat_env \<Rightarrow> nat \<Rightarrow> u64 \<Rightarrow> ThreatManager \<Rightarrow> ThreatManager option" where
  "tauntFadeOut x n taunter s =
     (case getReferenceByTarget taunter (tm_online s) s of None \<Rightarrow> Some s | Some r \<Rightarrow> resetTempThreat x n r s)"

definition HaveInThreatList :: "u64 \<Rightarrow> ThreatManager \<Rightarrow> bool" where
  "HaveInThreatList g s \<longleftrightarrow> getReferenceByTarget g (tm_online s) s \<noteq> None"

definition isNeedUpdateToClient :: "u32 \<Rightarrow> ThreatManager \<Rightarrow> bool \<times> ThreatManager" where
  "isNeedUpdateToClient time s =
     (if tm_online s = [] then (False, s)
      else if time \<ge> tm_timer s then (True, s\<lparr>tm_timer := THREAT_UPDATE_INTERVAL\<rparr>)
      else (False, s\<lparr>tm_timer := tm_timer s - time\<rparr>))"

definition tc_clearReferences :: "nat list \<Rightarrow> ThreatManager \<Rightarrow> ThreatManager option" where
  "tc_clearReferences rs s = fold (\<lambda>r so. do { s \<leftarrow> so; delete_ref r s }) rs (Some s)"

definition tm_clearReferences :: "ThreatManager \<Rightarrow> ThreatManager option" where
  "tm_clearReferences s = do {
     s \<leftarrow> tc_clearReferences (tm_online s) s;
     let s = s\<lparr>tm_online := []\<rparr>;
     s \<leftarrow> tc_clearReferences (tm_offline s) s;
     Some (s\<lparr>tm_offline := [], tm_victim := None, tm_timer := THREAT_UPDATE_INTERVAL\<rparr>) }"

subsection \<open>The choice of a victim\<close>

text \<open>The list is sorted by falling threat if something changed (\<open>std::list::sort\<close> is stable).\<close>

definition threat_of :: "ThreatManager \<Rightarrow> nat \<Rightarrow> rat" where
  "threat_of s r = (case tm_refs s r of None \<Rightarrow> 0 | Some h \<Rightarrow> hr_threat h)"

definition tc_update :: "ThreatManager \<Rightarrow> ThreatManager" where
  "tc_update s =
     (let s = (if tm_dirty s \<and> length (tm_online s) > 1 then s\<lparr>tm_online := sort_key (\<lambda>r. - threat_of s r) (tm_online s)\<rparr> else s)
      in s\<lparr>tm_dirty := False\<rparr>)"

definition target_unit :: "threat_env \<Rightarrow> ThreatManager \<Rightarrow> nat \<Rightarrow> threat_unit option" where
  "target_unit x s r = do { h \<leftarrow> tm_refs s r; g \<leftarrow> hr_target h; te_unit x g }"

text \<open>The iterator to the last element takes a list that is not empty. The loop: the whole list, whether all were found to be a second choice, the current victim, and the rest of the list.\<close>

function select_loop :: "threat_env \<Rightarrow> ThreatManager \<Rightarrow> nat list \<Rightarrow> bool \<Rightarrow> nat option \<Rightarrow> nat list \<Rightarrow> nat option option" where
  "select_loop x s l np cv [] = Some None"
| "select_loop x s l np cv (r # rs) = do {
     u \<leftarrow> target_unit x s r;
     if \<not> np \<and> tu_second u
     then if rs \<noteq> []
          then select_loop x s l np (if cv = Some r then None else cv) rs
          else select_loop x s l True cv l
     else if tu_attackable u
     then (case cv of
             None \<Rightarrow> Some (Some r)
           | Some v \<Rightarrow>
               if v = r \<or> threat_of s r \<le> f32_mul f_1_1 (threat_of s v)
               then if v \<noteq> r
                    then do { uv \<leftarrow> target_unit x s v; Some (Some (if tu_attackable uv then v else r)) }
                    else Some (Some r)
               else if threat_of s r > f32_mul f_1_3 (threat_of s v)
                       \<or> (threat_of s r > f32_mul f_1_1 (threat_of s v) \<and> tu_melee u)
               then Some (Some r)
               else select_loop x s l np cv rs)
     else select_loop x s l np cv rs }"
  by pat_completeness auto

termination
  by (relation "measure (\<lambda>(x, s, l, np, cv, rest). (if np then 0 else Suc (length l)) + length rest)") auto

definition selectNextVictim :: "threat_env \<Rightarrow> nat option \<Rightarrow> ThreatManager \<Rightarrow> nat option option" where
  "selectNextVictim x cv s = (if tm_online s = [] then None else select_loop x s (tm_online s) False cv (tm_online s))"

definition getHostilTarget :: "threat_env \<Rightarrow> ThreatManager \<Rightarrow> (u64 option \<times> ThreatManager) option" where
  "getHostilTarget x s = do {
     let s = tc_update s;
     v \<leftarrow> selectNextVictim x (tm_victim s) s;
     let s = setCurrentVictim v s;
     (case v of None \<Rightarrow> Some (None, s) | Some r \<Rightarrow> do { h \<leftarrow> tm_refs s r; Some (hr_target h, s) }) }"

text \<open>The loops of \<open>resetAllAggro\<close> and \<open>resetAggro\<close> walk along the list of references that are online while the body may
  append to it; \<open>k\<close> bounds the number of steps. An iterator to an element that was removed is \<open>None\<close>.\<close>

definition next_online :: "nat \<Rightarrow> ThreatManager \<Rightarrow> nat option option" where
  "next_online r s = (case dropWhile (\<lambda>q. q \<noteq> r) (tm_online s) of [] \<Rightarrow> None | [_] \<Rightarrow> Some None | _ # q # _ \<Rightarrow> Some (Some q))"

fun for_online :: "(nat \<Rightarrow> ThreatManager \<Rightarrow> ThreatManager option) \<Rightarrow> nat \<Rightarrow> nat \<Rightarrow> ThreatManager \<Rightarrow> ThreatManager option" where
  "for_online f 0 r s = None"
| "for_online f (Suc k) r s = do {
     s \<leftarrow> f r s;
     q \<leftarrow> next_online r s;
     (case q of None \<Rightarrow> Some s | Some r \<Rightarrow> for_online f k r s) }"

definition resetAllAggro :: "threat_env \<Rightarrow> nat \<Rightarrow> nat \<Rightarrow> ThreatManager \<Rightarrow> ThreatManager option" where
  "resetAllAggro x n k s =
     (case tm_online s of [] \<Rightarrow> Some s | r # _ \<Rightarrow> do { s \<leftarrow> for_online (setThreat x n 0) k r s; Some (setDirty True s) })"

definition resetAggro :: "threat_env \<Rightarrow> nat \<Rightarrow> nat \<Rightarrow> (u64 option \<Rightarrow> bool) \<Rightarrow> ThreatManager \<Rightarrow> ThreatManager option" where
  "resetAggro x n k predicate s =
     (case tm_online s of
        [] \<Rightarrow> Some s
      | r # _ \<Rightarrow> for_online (\<lambda>r s. do {
          h \<leftarrow> tm_refs s r;
          if predicate (hr_target h) then do { s \<leftarrow> setThreat x n 0 r s; Some (setDirty True s) } else Some s }) k r s)"

end
