(* ===== verification/ThreatFacts.thy ===== *)
theory ThreatFacts
  imports Threat
begin

text \<open>
  The lists of a threat manager over every run, that its operations return, and whom the creature attacks.
\<close>

subsection \<open>The invariant\<close>

definition unique_guids :: "(nat \<Rightarrow> HostileReference option) \<Rightarrow> bool" where
  "unique_guids refs \<longleftrightarrow> (\<forall>r r' h h'. refs r = Some h \<longrightarrow> refs r' = Some h' \<longrightarrow> hr_guid h = hr_guid h' \<longrightarrow> r = r')"

lemma unique_guids_upd: "unique_guids refs \<Longrightarrow> refs r = Some h \<Longrightarrow> hr_guid h' = hr_guid h \<Longrightarrow> unique_guids (refs(r \<mapsto> h'))"
  unfolding unique_guids_def fun_upd_apply by (metis option.inject)

lemma unique_guids_new:
  "unique_guids refs \<Longrightarrow> (\<And>q k. refs q = Some k \<Longrightarrow> hr_guid k \<noteq> hr_guid h) \<Longrightarrow> unique_guids (refs(r \<mapsto> h))"
  unfolding unique_guids_def fun_upd_apply by (metis option.inject)

lemma unique_guids_del: "unique_guids refs \<Longrightarrow> unique_guids (refs(r := None))"
  unfolding unique_guids_def fun_upd_apply by (metis option.distinct(1))

definition tm_ok :: "nat list \<Rightarrow> nat list \<Rightarrow> nat option \<Rightarrow> (nat \<Rightarrow> HostileReference option) \<Rightarrow> nat \<Rightarrow> bool" where
  "tm_ok on off v refs nx \<longleftrightarrow>
     distinct on \<and> distinct off \<and> set on \<inter> set off = {} \<and> dom refs = set on \<union> set off \<and> (\<forall>r \<in> dom refs. r < nx)
     \<and> (\<forall>r h. refs r = Some h \<longrightarrow> hr_online h = (r \<in> set on))
     \<and> (\<forall>r h. refs r = Some h \<longrightarrow> r \<in> set on \<longrightarrow> hr_target h \<noteq> None)
     \<and> (\<forall>r h g. refs r = Some h \<longrightarrow> hr_target h = Some g \<longrightarrow> g = hr_guid h)
     \<and> unique_guids refs
     \<and> (\<forall>w. v = Some w \<longrightarrow> w \<in> set on)"

definition tm_inv :: "ThreatManager \<Rightarrow> bool" where
  "tm_inv s = tm_ok (tm_online s) (tm_offline s) (tm_victim s) (tm_refs s) (tm_next s)"

text \<open>The units that references point to and the owners of units live.\<close>

definition env_ok :: "threat_env \<Rightarrow> (nat \<Rightarrow> HostileReference option) \<Rightarrow> bool" where
  "env_ok x refs \<longleftrightarrow> (\<forall>r h g. refs r = Some h \<longrightarrow> hr_target h = Some g \<longrightarrow> te_unit x g \<noteq> None)
     \<and> (\<forall>g u w. te_unit x g = Some u \<longrightarrow> tu_owner u = Some w \<or> tu_misdirection u = Some w \<longrightarrow> te_unit x w \<noteq> None)"

definition tm_grows :: "ThreatManager \<Rightarrow> ThreatManager \<Rightarrow> bool" where
  "tm_grows s s' \<longleftrightarrow> (\<forall>r h. tm_refs s r = Some h \<longrightarrow>
     (\<exists>h'. tm_refs s' r = Some h' \<and> hr_guid h' = hr_guid h \<and> (hr_target h \<noteq> None \<longrightarrow> hr_target h' \<noteq> None)))"

definition ok_to :: "threat_env \<Rightarrow> ThreatManager \<Rightarrow> ThreatManager option \<Rightarrow> bool" where
  "ok_to x s m \<longleftrightarrow> (\<exists>s'. m = Some s' \<and> tm_inv s' \<and> env_ok x (tm_refs s') \<and> tm_grows s s')"

lemma tm_grows_refl: "tm_grows s s" by (auto simp: tm_grows_def)

lemma tm_grows_trans: "tm_grows s s' \<Longrightarrow> tm_grows s' s'' \<Longrightarrow> tm_grows s s''"
  unfolding tm_grows_def by metis

lemma tm_growsD: "tm_grows s s' \<Longrightarrow> tm_refs s r = Some h \<Longrightarrow> \<exists>h'. tm_refs s' r = Some h' \<and> hr_guid h' = hr_guid h"
  unfolding tm_grows_def by metis

lemma ok_to_same: "tm_inv s \<Longrightarrow> env_ok x (tm_refs s) \<Longrightarrow> ok_to x s (Some s)"
  by (simp add: ok_to_def tm_grows_refl)

lemma ok_to_Some: "tm_inv s' \<Longrightarrow> env_ok x (tm_refs s') \<Longrightarrow> tm_grows s s' \<Longrightarrow> ok_to x s (Some s')"
  by (simp add: ok_to_def)

lemma ok_to_bind:
  assumes "ok_to x s m"
      and "\<And>s'. m = Some s' \<Longrightarrow> tm_inv s' \<Longrightarrow> env_ok x (tm_refs s') \<Longrightarrow> tm_grows s s' \<Longrightarrow> ok_to x s' (f s')"
  shows "ok_to x s (m \<bind> f)"
  using assms tm_grows_trans unfolding ok_to_def by fastforce

lemma tm_invD:
  assumes "tm_inv s"
  shows "distinct (tm_online s)" "distinct (tm_offline s)" "set (tm_online s) \<inter> set (tm_offline s) = {}"
    "dom (tm_refs s) = set (tm_online s) \<union> set (tm_offline s)" "\<And>r h. tm_refs s r = Some h \<Longrightarrow> r < tm_next s"
    "\<And>r h. tm_refs s r = Some h \<Longrightarrow> hr_online h = (r \<in> set (tm_online s))"
    "\<And>r h. tm_refs s r = Some h \<Longrightarrow> r \<in> set (tm_online s) \<Longrightarrow> hr_target h \<noteq> None"
    "\<And>r h g. tm_refs s r = Some h \<Longrightarrow> hr_target h = Some g \<Longrightarrow> g = hr_guid h"
    "unique_guids (tm_refs s)"
    "\<And>w. tm_victim s = Some w \<Longrightarrow> w \<in> set (tm_online s)"
  using assms unfolding tm_inv_def tm_ok_def by (blast dest: domI)+

lemma env_okD:
  assumes "env_ok x refs"
  shows "\<And>r h g. refs r = Some h \<Longrightarrow> hr_target h = Some g \<Longrightarrow> te_unit x g \<noteq> None"
    "\<And>g u w. te_unit x g = Some u \<Longrightarrow> tu_owner u = Some w \<Longrightarrow> te_unit x w \<noteq> None"
    "\<And>g u w. te_unit x g = Some u \<Longrightarrow> tu_misdirection u = Some w \<Longrightarrow> te_unit x w \<noteq> None"
  using assms unfolding env_ok_def by blast+

lemma tm_refs_in: "tm_inv s \<Longrightarrow> r \<in> set (tm_online s) \<or> r \<in> set (tm_offline s) \<Longrightarrow> \<exists>h. tm_refs s r = Some h"
  using tm_invD(4)[of s] by blast

text \<open>Changing fields of one reference that the invariant does not look at.\<close>

lemma tm_inv_upd:
  assumes "tm_inv s" and "tm_refs s r = Some h" and "hr_online h' = hr_online h" and "hr_guid h' = hr_guid h"
      and "hr_target h' = hr_target h \<or> hr_target h' = Some (hr_guid h)"
  shows "tm_inv (s\<lparr>tm_refs := (tm_refs s)(r \<mapsto> h')\<rparr>)"
proof -
  note I = tm_invD[OF assms(1)]
  have d: "dom ((tm_refs s)(r \<mapsto> h')) = dom (tm_refs s)" using assms(2) by auto
  show ?thesis
    unfolding tm_inv_def tm_ok_def
  proof (intro conjI allI impI)
    show "\<forall>q \<in> dom (tm_refs (s\<lparr>tm_refs := (tm_refs s)(r \<mapsto> h')\<rparr>)). q < tm_next (s\<lparr>tm_refs := (tm_refs s)(r \<mapsto> h')\<rparr>)"
      using I(5) assms(2) by (auto split: if_splits)
  qed (use I(1-8,10) unique_guids_upd[OF I(9) assms(2,4)] assms d in \<open>auto split: if_splits\<close>)
qed

lemma env_ok_upd:
  assumes "env_ok x refs" and "\<And>g. hr_target h' = Some g \<Longrightarrow> te_unit x g \<noteq> None"
  shows "env_ok x (refs(r \<mapsto> h'))"
  using assms unfolding env_ok_def by (auto split: if_splits)

lemma tm_grows_upd:
  "tm_refs s r = Some h \<Longrightarrow> hr_guid h' = hr_guid h \<Longrightarrow> (hr_target h \<noteq> None \<Longrightarrow> hr_target h' \<noteq> None)
   \<Longrightarrow> tm_refs s' = (tm_refs s)(r \<mapsto> h') \<Longrightarrow> tm_grows s s'"
  unfolding tm_grows_def by auto

text \<open>The log, the timer and the mark of an unsorted list do not matter.\<close>

lemma tm_inv_cong:
  "tm_online s' = tm_online s \<Longrightarrow> tm_offline s' = tm_offline s \<Longrightarrow> tm_victim s' = tm_victim s \<or> tm_victim s' = None \<Longrightarrow> tm_refs s' = tm_refs s
   \<Longrightarrow> tm_next s' = tm_next s \<Longrightarrow> tm_inv s \<Longrightarrow> tm_inv s'"
  unfolding tm_inv_def tm_ok_def by (elim disjE) simp_all

subsection \<open>States of a reference\<close>

lemma setAccessibleState_eq:
  "tm_refs s r = Some h \<Longrightarrow> setAccessibleState b r s = Some (s\<lparr>tm_refs := (tm_refs s)(r \<mapsto> h\<lparr>hr_access := b\<rparr>)\<rparr>)"
  by (auto simp: setAccessibleState_def upd_ref_def fun_upd_idem)

lemma setOnlineOfflineState_ok:
  assumes "tm_inv s" and "env_ok x (tm_refs s)" and h: "tm_refs s r = Some h" and "b \<Longrightarrow> hr_target h \<noteq> None"
  shows "ok_to x s (setOnlineOfflineState b r s)"
proof (cases "hr_online h = b")
  case True
  then show ?thesis using assms by (simp add: setOnlineOfflineState_def ok_to_same)
next
  case False
  note I = tm_invD[OF assms(1)]
  show ?thesis
  proof (cases b)
    case True
    define h' where "h' = h\<lparr>hr_online := True\<rparr>"
    obtain d where d: "setOnlineOfflineState b r s = Some (s\<lparr>tm_refs := (tm_refs s)(r \<mapsto> h'), tm_dirty := d,
        tm_online := tm_online s @ [r], tm_offline := removeAll r (tm_offline s)\<rparr>)"
    proof (cases "tm_victim s")
      case None
      then show ?thesis using that[of "tm_dirty s"] h False True
        by (simp add: setOnlineOfflineState_def upd_ref_def h'_def)
    next
      case (Some v)
      then obtain hv where hv: "tm_refs s v = Some hv" using I(10) tm_refs_in[OF assms(1)] by blast
      have "v \<noteq> r" using I(6)[OF h] I(10)[OF Some] False True by auto
      then show ?thesis using that[of "hr_threat h > f32_mul f_1_1 (hr_threat hv) \<or> tm_dirty s"] h False True Some hv
        by (cases "hr_threat h > f32_mul f_1_1 (hr_threat hv)")
           (simp_all add: setOnlineOfflineState_def upd_ref_def h'_def setDirty_def)
    qed
    have off: "r \<in> set (tm_offline s)" "r \<notin> set (tm_online s)" using I(4) I(6)[OF h] h False True by blast+
    show ?thesis unfolding d
    proof (rule ok_to_Some)
      show "tm_inv (s\<lparr>tm_refs := (tm_refs s)(r \<mapsto> h'), tm_dirty := d, tm_online := tm_online s @ [r],
        tm_offline := removeAll r (tm_offline s)\<rparr>)"
        unfolding tm_inv_def tm_ok_def using I(1-8,10) unique_guids_upd[OF I(9) h, of h'] off h True assms(4)
        by (auto simp: h'_def distinct_removeAll split: if_splits)
    qed (use assms h True in \<open>auto simp: h'_def env_ok_def tm_grows_def\<close>)
  next
    case b: False
    define h' where "h' = h\<lparr>hr_online := False, hr_access := False\<rparr>"
    have on: "r \<in> set (tm_online s)" "r \<notin> set (tm_offline s)" using I(3,6) h False b by auto
    obtain d l v where d: "setOnlineOfflineState b r s = Some (s\<lparr>tm_refs := (tm_refs s)(r \<mapsto> h'), tm_dirty := d,
        tm_victim := v, tm_log := l, tm_online := removeAll r (tm_online s), tm_offline := tm_offline s @ [r]\<rparr>)"
      and v: "v = (if tm_victim s = Some r then None else tm_victim s)"
    proof (cases "tm_victim s = Some r")
      case True
      then show ?thesis using that[of "tm_log s @ [RemoveFromClientList r]" None True] h False b
        by (simp add: setOnlineOfflineState_def upd_ref_def setAccessibleState_eq h'_def lose_victim_def
            setCurrentVictim_def setDirty_def tm_effect_def)
    next
      case False
      then show ?thesis using that[of "tm_log s @ [RemoveFromClientList r]" "tm_victim s" "tm_dirty s"] h \<open>hr_online h \<noteq> b\<close> b
        by (simp add: setOnlineOfflineState_def upd_ref_def setAccessibleState_eq h'_def lose_victim_def tm_effect_def)
    qed
    show ?thesis unfolding d
    proof (rule ok_to_Some)
      show "tm_inv (s\<lparr>tm_refs := (tm_refs s)(r \<mapsto> h'), tm_dirty := d,
        tm_victim := v, tm_log := l, tm_online := removeAll r (tm_online s), tm_offline := tm_offline s @ [r]\<rparr>)"
        unfolding tm_inv_def tm_ok_def
        using I(1-8,10) unique_guids_upd[OF I(9) h, of h'] on h
        by (auto simp: h'_def v distinct_removeAll split: if_splits)
    qed (use assms h in \<open>auto simp: h'_def env_ok_def tm_grows_def\<close>)
  qed
qed

text \<open>A unit whose end the manager is told of, and a reference that is deleted.\<close>

lemma hr_invalidate_ok:
  assumes "tm_inv s" and "env_ok x (tm_refs s)" and h: "tm_refs s r = Some h"
  obtains s' h' where "hr_invalidate r s = Some s'" "tm_inv s'" "env_ok x (tm_refs s')" "r \<notin> set (tm_online s')"
    "tm_refs s' r = Some h'" "hr_guid h' = hr_guid h" "hr_target h' = None"
proof -
  obtain s1 where s1: "setOnlineOfflineState False r s = Some s1" "tm_inv s1" "env_ok x (tm_refs s1)" "tm_grows s s1"
    using setOnlineOfflineState_ok[OF assms(1,2) h, of False] unfolding ok_to_def by blast
  obtain h1 where h1: "tm_refs s1 r = Some h1" "hr_guid h1 = hr_guid h" using tm_growsD[OF s1(4) h] by blast
  define s' where "s' = s1\<lparr>tm_refs := (tm_refs s1)(r \<mapsto> h1\<lparr>hr_target := None\<rparr>)\<rparr>"
  note I = tm_invD[OF s1(2)]
  have "\<not> hr_online h1"
    using s1(1) h1(1) h
    by (auto simp: setOnlineOfflineState_def upd_ref_def setAccessibleState_eq lose_victim_def setCurrentVictim_def setDirty_def
        tm_effect_def split: if_splits)
  then have r: "r \<notin> set (tm_online s1)" using I(6)[OF h1(1)] by simp
  show thesis
  proof (rule that[of s' "h1\<lparr>hr_target := None\<rparr>"])
    show "hr_invalidate r s = Some s'" using s1(1) h1(1) by (simp add: hr_invalidate_def upd_ref_def s'_def)
    show "tm_inv s'" unfolding s'_def tm_inv_def tm_ok_def
      using I(1-8,10) unique_guids_upd[OF I(9) h1(1), of "h1\<lparr>hr_target := None\<rparr>"] r h1 by (auto split: if_splits)
    show "env_ok x (tm_refs s')" unfolding s'_def by simp (rule env_ok_upd[OF s1(3)], simp)
  qed (use r h1 in \<open>simp_all add: s'_def\<close>)
qed

lemma removeReference_ok:
  assumes "tm_inv s" and "env_ok x (tm_refs s)" and h: "tm_refs s r = Some h"
  shows "\<exists>s'. (removeReference r s \<bind> delete_ref r) = Some s' \<and> tm_inv s' \<and> env_ok x (tm_refs s') \<and> tm_refs s' r = None"
proof -
  obtain s1 h1 where s1: "hr_invalidate r s = Some s1" "tm_inv s1" "env_ok x (tm_refs s1)" "r \<notin> set (tm_online s1)"
    "tm_refs s1 r = Some h1" by (rule hr_invalidate_ok[OF assms])
  note I = tm_invD[OF s1(2)]
  have v: "tm_victim s1 \<noteq> Some r" using I(10) s1(4) by blast
  define s' where "s' = s1\<lparr>tm_log := tm_log s1 @ [RemoveFromClientList r], tm_offline := removeAll r (tm_offline s1),
     tm_refs := (tm_refs s1)(r := None)\<rparr>"
  have "(removeReference r s \<bind> delete_ref r) = Some s'"
    using s1(1,5) v I(6)[OF s1(5)] s1(4)
    by (simp add: removeReference_def delete_ref_def s'_def lose_victim_def tm_effect_def)
  moreover have "tm_inv s'"
    unfolding s'_def tm_inv_def tm_ok_def using I(1-8,10) unique_guids_del[OF I(9)] s1(4) v
    by (auto simp: distinct_removeAll split: if_splits)
  moreover have "env_ok x (tm_refs s')" using s1(3) by (auto simp: s'_def env_ok_def split: if_splits)
  ultimately show ?thesis by (auto simp: s'_def)
qed

lemma upd_ref_ok:
  assumes "tm_inv s" and "env_ok x (tm_refs s)" and "tm_refs s r = Some h"
      and "\<And>k. hr_online (f k) = hr_online k" and "\<And>k. hr_guid (f k) = hr_guid k" and "\<And>k. hr_target (f k) = hr_target k"
  shows "ok_to x s (upd_ref r f s)"
proof -
  have e: "upd_ref r f s = Some (s\<lparr>tm_refs := (tm_refs s)(r \<mapsto> f h)\<rparr>)" using assms(3) by (simp add: upd_ref_def)
  show ?thesis unfolding e
  proof (rule ok_to_Some)
    show "tm_inv (s\<lparr>tm_refs := (tm_refs s)(r \<mapsto> f h)\<rparr>)" by (rule tm_inv_upd[OF assms(1,3)]) (simp_all add: assms)
    show "tm_grows s (s\<lparr>tm_refs := (tm_refs s)(r \<mapsto> f h)\<rparr>)" by (rule tm_grows_upd[OF assms(3)]) (simp_all add: assms)
    show "env_ok x (tm_refs (s\<lparr>tm_refs := (tm_refs s)(r \<mapsto> f h)\<rparr>))"
      using env_ok_upd[OF assms(2), of "f h" r] env_okD(1)[OF assms(2,3)] assms(6) by simp
  qed
qed

lemma processThreatEvent_threat_ok:
  assumes "tm_inv s" and "env_ok x (tm_refs s)"
  shows "ok_to x s (processThreatEvent r (ThreatChange f) s)"
  unfolding processThreatEvent.simps setDirty_def
  by (rule ok_to_Some) (use assms in \<open>auto intro: tm_inv_cong[of _ s] simp: tm_grows_def\<close>)

lemma updateOnlineStatus_ok:
  assumes "tm_inv s" and "env_ok x (tm_refs s)" and h: "tm_refs s r = Some h"
  shows "ok_to x s (updateOnlineStatus x r s)"
proof -
  define relink where "relink \<longleftrightarrow> hr_target h = None \<and> te_unit x (hr_guid h) \<noteq> None"
  define h1 where "h1 = (if relink then h\<lparr>hr_target := Some (hr_guid h)\<rparr> else h)"
  define l where "l = (if relink then tm_log s @ [AddHatedBy (hr_guid h) r] else tm_log s)"
  define s1 where "s1 = s\<lparr>tm_refs := (tm_refs s)(r \<mapsto> h1), tm_log := l\<rparr>"
  have link: "(if hr_target h = None \<and> te_unit x (hr_guid h) \<noteq> None then link_target r (hr_guid h) s else Some s) = Some s1"
    using h by (auto simp: link_target_def upd_ref_def tm_effect_def s1_def h1_def l_def relink_def fun_upd_idem)
  have inv1: "tm_inv s1"
    using tm_inv_upd[OF assms(1) h, of h1] tm_inv_cong[of s1 "s\<lparr>tm_refs := (tm_refs s)(r \<mapsto> h1)\<rparr>"]
    by (auto simp: s1_def h1_def)
  have r1: "tm_refs s1 r = Some h1" by (simp add: s1_def)
  have t1: "te_unit x g \<noteq> None" if "hr_target h1 = Some g" for g
    using that env_okD(1)[OF assms(2) h, of g] by (auto simp: h1_def relink_def split: if_splits)
  have env1: "env_ok x (tm_refs s1)" unfolding s1_def by simp (rule env_ok_upd[OF assms(2) t1])
  have gr: "tm_grows s s1" by (rule tm_grows_upd[OF h, of h1]) (auto simp: s1_def h1_def)
  obtain online accessible where oa:
    "(case hr_target h1 of None \<Rightarrow> Some (False, False)
        | Some g \<Rightarrow> do { u \<leftarrow> te_unit x g;
            Some (if hr_reachable u then (tu_accessible u \<or> tu_inCombatRange u, tu_accessible u) else (False, False)) })
     = Some (online, accessible)" and on: "online \<Longrightarrow> hr_target h1 \<noteq> None"
  proof (cases "hr_target h1")
    case None
    then show thesis using that[of False False] by simp
  next
    case (Some g)
    then obtain u where "te_unit x g = Some u" using t1 by blast
    then show thesis using Some that by (cases "hr_reachable u") auto
  qed
  define s2 where "s2 = s1\<lparr>tm_refs := (tm_refs s1)(r \<mapsto> h1\<lparr>hr_access := accessible\<rparr>)\<rparr>"
  have up: "updateOnlineStatus x r s = setOnlineOfflineState online r s2"
    unfolding updateOnlineStatus_def using h link r1 oa setAccessibleState_eq[OF r1, of accessible]
    by (simp add: s2_def)
  have "ok_to x s2 (setOnlineOfflineState online r s2)"
  proof (rule setOnlineOfflineState_ok[where h = "h1\<lparr>hr_access := accessible\<rparr>"])
    show "tm_inv s2" unfolding s2_def by (rule tm_inv_upd[OF inv1 r1]) simp_all
    show "env_ok x (tm_refs s2)" unfolding s2_def by simp (rule env_ok_upd[OF env1], use t1 in simp)
  qed (use on in \<open>simp_all add: s2_def\<close>)
  moreover have "tm_grows s1 s2" by (rule tm_grows_upd[OF r1, of "h1\<lparr>hr_access := accessible\<rparr>"]) (simp_all add: s2_def)
  ultimately show ?thesis unfolding up ok_to_def using gr tm_grows_trans by blast
qed

subsection \<open>Adding threat returns\<close>

text \<open>The chain of owners of a unit has at most \<open>n\<close> units.\<close>

fun owner_chain :: "threat_env \<Rightarrow> nat \<Rightarrow> u64 \<Rightarrow> bool" where
  "owner_chain x 0 g = False"
| "owner_chain x (Suc n) g =
     (case te_unit x g of None \<Rightarrow> True | Some u \<Rightarrow> (case tu_owner u of None \<Rightarrow> True | Some w \<Rightarrow> owner_chain x n w))"

definition owner_ok :: "threat_env \<Rightarrow> (u64 \<Rightarrow> ThreatManager \<Rightarrow> ThreatManager option) \<Rightarrow> u64 \<Rightarrow> bool" where
  "owner_ok x onOwner g \<longleftrightarrow> (\<forall>u w s. te_unit x g = Some u \<longrightarrow> tu_owner u = Some w \<longrightarrow> tm_inv s \<longrightarrow> env_ok x (tm_refs s)
     \<longrightarrow> ok_to x s (onOwner w s))"

lemma hr_addThreat_ok:
  assumes I: "tm_inv s" and E: "env_ok x (tm_refs s)" and h: "tm_refs s r = Some h" and ow: "owner_ok x onOwner (hr_guid h)"
  shows "ok_to x s (hr_addThreat x onOwner m r s)"
  unfolding hr_addThreat_def
proof (rule ok_to_bind)
  show "ok_to x s (upd_ref r (\<lambda>h. h\<lparr>hr_threat := f32_add (hr_threat h) m\<rparr>) s)" by (rule upd_ref_ok[OF I E h]) simp_all
  fix s1 assume I1: "tm_inv s1" and E1: "env_ok x (tm_refs s1)" and "tm_grows s s1"
  then obtain h1 where h1: "tm_refs s1 r = Some h1" "hr_guid h1 = hr_guid h" using tm_growsD h by blast
  show "ok_to x s1 (tm_refs s1 r \<bind> (\<lambda>h. (if \<not> hr_online h then updateOnlineStatus x r s1 else Some s1) \<bind>
      (\<lambda>s. (if m \<noteq> 0 then processThreatEvent r (ThreatChange m) s else Some s) \<bind>
      (\<lambda>s. tm_refs s r \<bind> (\<lambda>h. case hr_target h of None \<Rightarrow> Some s
        | Some g \<Rightarrow> if 0 \<le> m then te_unit x g \<bind> (\<lambda>u. case tu_owner u of None \<Rightarrow> Some s
            | Some o' \<Rightarrow> te_unit x o' \<bind> (\<lambda>ou. if tu_alive ou then onOwner o' s else Some s)) else Some s)))))"
    unfolding h1(1) bind.bind_lunit
  proof (rule ok_to_bind)
    show "ok_to x s1 (if \<not> hr_online h1 then updateOnlineStatus x r s1 else Some s1)"
      using updateOnlineStatus_ok[OF I1 E1 h1(1)] ok_to_same[OF I1 E1] by simp
    fix s2 assume I2: "tm_inv s2" and E2: "env_ok x (tm_refs s2)" and "tm_grows s1 s2"
    then obtain h2 where h2: "tm_refs s2 r = Some h2" "hr_guid h2 = hr_guid h" using tm_growsD h1 by fastforce
    show "ok_to x s2 ((if m \<noteq> 0 then processThreatEvent r (ThreatChange m) s2 else Some s2) \<bind>
      (\<lambda>s. tm_refs s r \<bind> (\<lambda>h. case hr_target h of None \<Rightarrow> Some s
        | Some g \<Rightarrow> if 0 \<le> m then te_unit x g \<bind> (\<lambda>u. case tu_owner u of None \<Rightarrow> Some s
            | Some o' \<Rightarrow> te_unit x o' \<bind> (\<lambda>ou. if tu_alive ou then onOwner o' s else Some s)) else Some s)))"
    proof (rule ok_to_bind)
      show "ok_to x s2 (if m \<noteq> 0 then processThreatEvent r (ThreatChange m) s2 else Some s2)"
        using processThreatEvent_threat_ok[OF I2 E2] ok_to_same[OF I2 E2] by simp
      fix s3 assume I3: "tm_inv s3" and E3: "env_ok x (tm_refs s3)" and "tm_grows s2 s3"
      then obtain h3 where h3: "tm_refs s3 r = Some h3" "hr_guid h3 = hr_guid h" using tm_growsD h2 by fastforce
      show "ok_to x s3 (tm_refs s3 r \<bind> (\<lambda>h. case hr_target h of None \<Rightarrow> Some s3
        | Some g \<Rightarrow> if 0 \<le> m then te_unit x g \<bind> (\<lambda>u. case tu_owner u of None \<Rightarrow> Some s3
            | Some o' \<Rightarrow> te_unit x o' \<bind> (\<lambda>ou. if tu_alive ou then onOwner o' s3 else Some s3)) else Some s3))"
      proof (cases "hr_target h3")
        case None
        then show ?thesis using ok_to_same[OF I3 E3] h3(1) by simp
      next
        case (Some g)
        then have g: "g = hr_guid h" using tm_invD(8)[OF I3 h3(1)] h3(2) by simp
        obtain u where u: "te_unit x g = Some u" using env_okD(1)[OF E3 h3(1) Some] by blast
        show ?thesis
        proof (cases "tu_owner u")
          case None
          then show ?thesis using ok_to_same[OF I3 E3] h3(1) Some u by simp
        next
          case w: (Some w)
          obtain ou where ou: "te_unit x w = Some ou" using env_okD(2)[OF E3 u w] by blast
          have "ok_to x s3 (onOwner w s3)" using ow u w I3 E3 unfolding owner_ok_def g by blast
          then show ?thesis using ok_to_same[OF I3 E3] h3(1) Some u w ou by simp
        qed
      qed
    qed
  qed
qed

lemma getReferenceByTarget_Some:
  assumes "getReferenceByTarget g rs s = Some r"
  shows "r \<in> set rs" "\<exists>h. tm_refs s r = Some h \<and> hr_guid h = g"
  using assms by (auto simp: getReferenceByTarget_def find_Some_iff)

lemma getReferenceByTarget_None:
  "getReferenceByTarget g rs s = None \<Longrightarrow> r \<in> set rs \<Longrightarrow> tm_refs s r = Some h \<Longrightarrow> hr_guid h \<noteq> g"
  by (force simp: getReferenceByTarget_def find_None_iff)

lemma new_reference_ok:
  assumes I: "tm_inv s" and E: "env_ok x (tm_refs s)" and u: "te_unit x g \<noteq> None"
      and "getReferenceByTarget g (tm_online s) s = None" and "getReferenceByTarget g (tm_offline s) s = None"
      and n: "new_reference g s = (r, s')"
  shows "tm_inv s'" "env_ok x (tm_refs s')" "tm_grows s s'" "\<exists>h. tm_refs s' r = Some h \<and> hr_guid h = g"
proof -
  note T = tm_invD[OF I]
  have r: "r = tm_next s" using n by (simp add: new_reference_def Let_def)
  define h where "h = \<lparr>hr_threat = 0, hr_temp = 0, hr_guid = g, hr_online = True, hr_access = True, hr_target = Some g\<rparr>"
  have s': "s' = s\<lparr>tm_next := r + 1, tm_refs := (tm_refs s)(r \<mapsto> h), tm_online := tm_online s @ [r], tm_log := tm_log s @ [AddHatedBy g r]\<rparr>"
    using n by (simp add: new_reference_def Let_def h_def tm_effect_def r)
  have new: "tm_refs s r = None" using T(5)[of r] r by (cases "tm_refs s r") auto
  then have ni: "r \<notin> set (tm_online s)" "r \<notin> set (tm_offline s)" using T(4) by (auto simp: domIff)
  have g: "hr_guid k \<noteq> g" if "tm_refs s q = Some k" for q k
    using getReferenceByTarget_None[OF assms(4) _ that] getReferenceByTarget_None[OF assms(5) _ that] T(4) that by blast
  show "tm_inv s'" unfolding s' tm_inv_def tm_ok_def
  proof (simp, intro conjI allI impI)
    show "\<forall>q\<in>dom (tm_refs s). q < Suc r" using T(5) r by (auto simp: less_Suc_eq)
  qed (use T(1-8,10) unique_guids_new[OF T(9), of h r] g ni new in \<open>auto simp: h_def split: if_splits\<close>)
  show "env_ok x (tm_refs s')" unfolding s' by simp (rule env_ok_upd[OF E], use u in \<open>simp add: h_def\<close>)
  show "tm_grows s s'" using new by (auto simp: s' tm_grows_def)
  show "\<exists>h. tm_refs s' r = Some h \<and> hr_guid h = g" by (simp add: s' h_def)
qed

lemma tm_addThreat_to_ok:
  assumes I: "tm_inv s" and E: "env_ok x (tm_refs s)" and u: "te_unit x g = Some u" and ow: "owner_ok x onOwner g"
  shows "ok_to x s (tm_addThreat_to x onOwner g t s)"
proof (cases "getReferenceByTarget g (tm_online s) s")
  case (Some r)
  then show ?thesis using getReferenceByTarget_Some(2)[OF Some] hr_addThreat_ok[OF I E] ow by (auto simp: tm_addThreat_to_def)
next
  case on: None
  show ?thesis
  proof (cases "getReferenceByTarget g (tm_offline s) s")
    case (Some r)
    then show ?thesis using getReferenceByTarget_Some(2)[OF Some] hr_addThreat_ok[OF I E] ow on by (auto simp: tm_addThreat_to_def)
  next
    case None
    obtain r s1 where n: "new_reference g s = (r, s1)" by (cases "new_reference g s")
    note N = new_reference_ok[OF I E _ on None n]
    have u': "te_unit x g \<noteq> None" using u by simp
    obtain h where h: "tm_refs s1 r = Some h" "hr_guid h = g" using N(4)[OF u'] by blast
    have "ok_to x s1 (hr_addThreat x onOwner t r s1 \<bind> (\<lambda>s. te_unit x g \<bind>
        (\<lambda>u. if tu_player u \<and> tu_gm u then setOnlineOfflineState False r s else Some s)))"
    proof (rule ok_to_bind)
      show "ok_to x s1 (hr_addThreat x onOwner t r s1)" by (rule hr_addThreat_ok[OF N(1,2)[OF u'] h(1)]) (simp add: ow h)
      fix s2 assume I2: "tm_inv s2" and E2: "env_ok x (tm_refs s2)" and "tm_grows s1 s2"
      then obtain h2 where h2: "tm_refs s2 r = Some h2" using tm_growsD h by blast
      show "ok_to x s2 (te_unit x g \<bind> (\<lambda>u. if tu_player u \<and> tu_gm u then setOnlineOfflineState False r s2 else Some s2))"
        using setOnlineOfflineState_ok[OF I2 E2 h2, of False] ok_to_same[OF I2 E2] by (simp add: u)
    qed
    then show ?thesis using N(3)[OF u'] tm_grows_trans unfolding tm_addThreat_to_def on None ok_to_def
      by (fastforce simp: n)
  qed
qed

lemma doAddThreat_on_ok:
  assumes I: "tm_inv s" and E: "env_ok x (tm_refs s)" and u: "te_unit x g = Some u" and ow: "owner_ok x onOwner g"
      and mis: "\<And>m. 0 < t \<Longrightarrow> tu_misdirection u = Some m \<Longrightarrow> owner_ok x onOwner m"
  shows "ok_to x s (doAddThreat_on x onOwner g t s)"
proof (cases "t > 0 \<and> tu_reducedPercent u \<noteq> 0")
  case True
  define red where "red = f32_div (f32_mul t (f32_of_int (uint (tu_reducedPercent u)))) 100"
  have "ok_to x s ((case tu_misdirection u of None \<Rightarrow> Some s | Some m \<Rightarrow> tm_addThreat_to x onOwner m red s) \<bind>
      (\<lambda>s. tm_addThreat_to x onOwner g (f32_sub t red) s))"
  proof (rule ok_to_bind)
    show "ok_to x s (case tu_misdirection u of None \<Rightarrow> Some s | Some m \<Rightarrow> tm_addThreat_to x onOwner m red s)"
    proof (cases "tu_misdirection u")
      case None
      then show ?thesis using ok_to_same[OF I E] by simp
    next
      case (Some m)
      obtain um where "te_unit x m = Some um" using env_okD(3)[OF E u Some] by blast
      from tm_addThreat_to_ok[OF I E this] mis[OF _ Some] True Some show ?thesis by simp
    qed
  qed (rule tm_addThreat_to_ok[OF _ _ u ow])
  then show ?thesis using True u unfolding red_def by (simp add: doAddThreat_on_def Let_def)
next
  case False
  then show ?thesis using tm_addThreat_to_ok[OF I E u ow] u by (auto simp: doAddThreat_on_def)
qed

lemma owner_ok_chain:
  assumes "\<And>w s. owner_chain x n w \<Longrightarrow> tm_inv s \<Longrightarrow> env_ok x (tm_refs s) \<Longrightarrow> ok_to x s (onOwner w s)"
      and "owner_chain x (Suc n) g"
  shows "owner_ok x onOwner g"
  using assms unfolding owner_ok_def by auto

text \<open>The threat given to an owner is zero, so that nothing of it is redirected.\<close>

lemma owner_threat_ok:
  "owner_chain x n g \<Longrightarrow> tm_inv s \<Longrightarrow> env_ok x (tm_refs s) \<Longrightarrow> ok_to x s (owner_threat x n g s)"
proof (induction n arbitrary: g s)
  case (Suc n)
  show ?case
  proof (cases "isValidProcess x g None")
    case False
    then show ?thesis using ok_to_same[OF Suc.prems(2,3)] by simp
  next
    case True
    then obtain u where u: "te_unit x g = Some u" by (auto simp: isValidProcess_def split: option.splits)
    have z: "calcThreat u (if tu_vengeance u then f32_mul 0 f_1_4 else 0) SPELL_SCHOOL_MASK_NORMAL None = 0"
      by (simp add: calcThreat_def ApplyTotalThreatModifier_def f32_mul_def fl_def)
    have "ok_to x s (doAddThreat_on x (owner_threat x n) g 0 s)"
      by (rule doAddThreat_on_ok[OF Suc.prems(2,3) u owner_ok_chain[OF Suc.IH Suc.prems(1)]]) simp_all
    then show ?thesis using True u by (simp only: tm_addThreat.simps z Let_def if_True simp_thms if_False u bind.bind_lunit)
  qed
qed simp

definition chains_ok :: "threat_env \<Rightarrow> nat \<Rightarrow> bool" where
  "chains_ok x n \<longleftrightarrow> (\<forall>g. owner_chain x n g)"

lemma owner_chain_Suc: "owner_chain x n g \<Longrightarrow> owner_chain x (Suc n) g"
proof (induction n arbitrary: g)
  case (Suc n)
  show ?case
  proof (cases "te_unit x g")
    case (Some u)
    then show ?thesis using Suc by (cases "tu_owner u") (simp_all del: owner_chain.simps add: owner_chain.simps(2)[of x _ g])
  qed simp
qed simp

lemma chains_owner_ok: "chains_ok x n \<Longrightarrow> owner_ok x (owner_threat x n) g"
  by (rule owner_ok_chain[where n = n, OF owner_threat_ok]) (assumption | simp only: chains_ok_def owner_chain_Suc)+

lemma doAddThreat_ok:
  "tm_inv s \<Longrightarrow> env_ok x (tm_refs s) \<Longrightarrow> chains_ok x n \<Longrightarrow> te_unit x g \<noteq> None \<Longrightarrow> ok_to x s (doAddThreat x n g t s)"
  unfolding doAddThreat_def using doAddThreat_on_ok[of s x g] chains_owner_ok by blast

lemma tm_addThreat_ok:
  assumes I: "tm_inv s" and E: "env_ok x (tm_refs s)" and C: "chains_ok x n"
  shows "ok_to x s (tm_addThreat x (Suc n) g t sch sp s)"
proof (cases "isValidProcess x g sp")
  case False
  then show ?thesis using ok_to_same[OF I E] by simp
next
  case True
  then obtain u where u: "te_unit x g = Some u" by (auto simp: isValidProcess_def split: option.splits)
  have "ok_to x s (doAddThreat_on x (owner_threat x n) g r s)" for r
    by (rule doAddThreat_on_ok[OF I E u]) (simp_all add: chains_owner_ok[OF C])
  then show ?thesis using True u by simp
qed

lemma hr_addThreat_chain_ok:
  "tm_inv s \<Longrightarrow> env_ok x (tm_refs s) \<Longrightarrow> chains_ok x n \<Longrightarrow> tm_refs s r = Some h \<Longrightarrow> ok_to x s (hr_addThreat x (owner_threat x n) t r s)"
  using hr_addThreat_ok chains_owner_ok by blast

lemma hr_addThreatPercent_ok:
  "tm_inv s \<Longrightarrow> env_ok x (tm_refs s) \<Longrightarrow> chains_ok x n \<Longrightarrow> tm_refs s r = Some h \<Longrightarrow> ok_to x s (hr_addThreatPercent x n p r s)"
  by (simp add: hr_addThreatPercent_def hr_addThreat_chain_ok)

lemma setThreat_ok:
  "tm_inv s \<Longrightarrow> env_ok x (tm_refs s) \<Longrightarrow> chains_ok x n \<Longrightarrow> tm_refs s r = Some h \<Longrightarrow> ok_to x s (setThreat x n t r s)"
  by (simp add: setThreat_def hr_addThreat_chain_ok)

lemma addTempThreat_ok:
  assumes I: "tm_inv s" and E: "env_ok x (tm_refs s)" and C: "chains_ok x n" and h: "tm_refs s r = Some h"
  shows "ok_to x s (addTempThreat x n t r s)"
  unfolding addTempThreat_def
proof (rule ok_to_bind)
  show "ok_to x s (upd_ref r (hr_temp_update (\<lambda>_. t)) s)" by (rule upd_ref_ok[OF I E h]) simp_all
  fix s' assume I': "tm_inv s'" and E': "env_ok x (tm_refs s')" and "tm_grows s s'"
  then obtain h' where "tm_refs s' r = Some h'" using tm_growsD h by blast
  then show "ok_to x s' (if t \<noteq> 0 then hr_addThreat x (owner_threat x n) t r s' else Some s')"
    using hr_addThreat_chain_ok[OF I' E' C] ok_to_same[OF I' E'] by simp
qed

lemma setTempThreat_ok:
  "tm_inv s \<Longrightarrow> env_ok x (tm_refs s) \<Longrightarrow> chains_ok x n \<Longrightarrow> tm_refs s r = Some h \<Longrightarrow> ok_to x s (setTempThreat x n t r s)"
  by (simp add: setTempThreat_def addTempThreat_ok)

lemma resetTempThreat_ok:
  assumes I: "tm_inv s" and E: "env_ok x (tm_refs s)" and C: "chains_ok x n" and h: "tm_refs s r = Some h"
  shows "ok_to x s (resetTempThreat x n r s)"
proof -
  have "ok_to x s (hr_addThreat x (owner_threat x n) (- hr_temp h) r s \<bind> upd_ref r (hr_temp_update (\<lambda>_. 0)))"
  proof (rule ok_to_bind[OF hr_addThreat_chain_ok[OF I E C h]])
    fix s' assume I': "tm_inv s'" and E': "env_ok x (tm_refs s')" and "tm_grows s s'"
    then obtain h' where h': "tm_refs s' r = Some h'" using tm_growsD h by blast
    show "ok_to x s' (upd_ref r (hr_temp_update (\<lambda>_. 0)) s')" by (rule upd_ref_ok[OF I' E' h']) simp_all
  qed
  then show ?thesis using ok_to_same[OF I E] by (simp add: resetTempThreat_def h)
qed

lemma modifyThreatPercent_ok:
  assumes I: "tm_inv s" and E: "env_ok x (tm_refs s)" and C: "chains_ok x n"
  shows "ok_to x s (modifyThreatPercent x n g p s)"
proof (cases "getReferenceByTarget g (tm_online s) s")
  case (Some r)
  then show ?thesis using getReferenceByTarget_Some(2)[OF Some] hr_addThreatPercent_ok[OF I E C] by (auto simp: modifyThreatPercent_def)
qed (simp add: modifyThreatPercent_def ok_to_same[OF I E])

lemma tauntApply_ok:
  assumes I: "tm_inv s" and E: "env_ok x (tm_refs s)" and C: "chains_ok x n"
  shows "ok_to x s (tauntApply x n g s)"
proof (cases "tm_victim s")
  case v: (Some v)
  then obtain hv where hv: "tm_refs s v = Some hv" using tm_refs_in[OF I] tm_invD(10)[OF I] by blast
  show ?thesis
  proof (cases "getReferenceByTarget g (tm_online s) s")
    case (Some r)
    then show ?thesis using getReferenceByTarget_Some(2)[OF Some] v hv ok_to_same[OF I E] setTempThreat_ok[OF I E C]
      by (auto simp: tauntApply_def)
  qed (simp add: tauntApply_def ok_to_same[OF I E] v)
qed (simp add: tauntApply_def ok_to_same[OF I E])

lemma tauntFadeOut_ok:
  assumes I: "tm_inv s" and E: "env_ok x (tm_refs s)" and C: "chains_ok x n"
  shows "ok_to x s (tauntFadeOut x n g s)"
proof (cases "getReferenceByTarget g (tm_online s) s")
  case (Some r)
  then show ?thesis using getReferenceByTarget_Some(2)[OF Some] resetTempThreat_ok[OF I E C] by (auto simp: tauntFadeOut_def)
qed (simp add: tauntFadeOut_def ok_to_same[OF I E])

lemma tc_clearReferences_eq:
  "distinct rs \<Longrightarrow> set rs \<subseteq> dom (tm_refs s) \<Longrightarrow>
   tc_clearReferences rs s = Some (s\<lparr>tm_refs := (\<lambda>r. if r \<in> set rs then None else tm_refs s r)\<rparr>)"
proof (induction rs arbitrary: s)
  case (Cons r rs)
  then obtain h where h: "tm_refs s r = Some h" by auto
  have "tc_clearReferences (r # rs) s = tc_clearReferences rs (s\<lparr>tm_refs := (tm_refs s)(r := None)\<rparr>)"
    by (simp add: tc_clearReferences_def delete_ref_def h)
  also have "\<dots> = Some (s\<lparr>tm_refs := (\<lambda>q. if q \<in> set (r # rs) then None else tm_refs s q)\<rparr>)"
    using Cons.prems by (subst Cons.IH) (auto intro!: arg_cong[where f = "\<lambda>f. s\<lparr>tm_refs := f\<rparr>"])
  finally show ?case .
qed (simp add: tc_clearReferences_def)

lemma tm_clearReferences_eq:
  assumes "tm_inv s"
  shows "tm_clearReferences s = Some (s\<lparr>tm_refs := (\<lambda>_. None), tm_online := [], tm_offline := [], tm_victim := None,
    tm_timer := THREAT_UPDATE_INTERVAL\<rparr>)"
proof -
  note I = tm_invD[OF assms]
  define f where "f = (\<lambda>r. if r \<in> set (tm_online s) then None else tm_refs s r)"
  have on: "tc_clearReferences (tm_online s) s = Some (s\<lparr>tm_refs := f\<rparr>)"
    unfolding f_def by (rule tc_clearReferences_eq) (use I in auto)
  have sub: "set (tm_offline s) \<subseteq> dom f"
  proof
    fix r assume r: "r \<in> set (tm_offline s)"
    then obtain h where "tm_refs s r = Some h" using I(4) by blast
    then show "r \<in> dom f" using I(3) r by (auto simp: f_def)
  qed
  have "tc_clearReferences (tm_offline s) (s\<lparr>tm_refs := f, tm_online := []\<rparr>)
    = Some (s\<lparr>tm_refs := (\<lambda>r. if r \<in> set (tm_offline s) then None else f r), tm_online := []\<rparr>)"
    by (subst tc_clearReferences_eq) (use I(2) sub in \<open>simp_all cong: if_cong\<close>)
  moreover have "(\<lambda>r. if r \<in> set (tm_offline s) then None else f r) = (\<lambda>_. None)"
    using I(4) by (auto simp: fun_eq_iff domIff f_def)
  ultimately show ?thesis by (simp add: tm_clearReferences_def on)
qed

lemma tm_inv_empty: "tm_refs s = (\<lambda>_. None) \<Longrightarrow> tm_online s = [] \<Longrightarrow> tm_offline s = [] \<Longrightarrow> tm_victim s = None \<Longrightarrow> tm_inv s"
  by (simp add: tm_inv_def tm_ok_def unique_guids_def)

subsection \<open>The choice of a victim\<close>

definition can_attack :: "threat_env \<Rightarrow> ThreatManager \<Rightarrow> nat \<Rightarrow> bool" where
  "can_attack x s r \<longleftrightarrow> (case target_unit x s r of None \<Rightarrow> False | Some u \<Rightarrow> tu_attackable u)"

lemma select_loop_second:
  "target_unit x s r = Some u \<Longrightarrow> \<not> np \<Longrightarrow> tu_second u \<Longrightarrow> select_loop x s l np cv (r # rs) =
     (if rs \<noteq> [] then select_loop x s l np (if cv = Some r then None else cv) rs else select_loop x s l True cv l)"
  by simp

lemma select_loop_skip:
  "target_unit x s r = Some u \<Longrightarrow> np \<or> \<not> tu_second u \<Longrightarrow> \<not> tu_attackable u \<Longrightarrow>
   select_loop x s l np cv (r # rs) = select_loop x s l np cv rs"
  by auto

lemma select_loop_any:
  "target_unit x s r = Some u \<Longrightarrow> np \<or> \<not> tu_second u \<Longrightarrow> tu_attackable u \<Longrightarrow> select_loop x s l np None (r # rs) = Some (Some r)"
  by auto

lemma select_loop_compare:
  "target_unit x s r = Some u \<Longrightarrow> np \<or> \<not> tu_second u \<Longrightarrow> tu_attackable u \<Longrightarrow> select_loop x s l np (Some v) (r # rs) =
     (if v = r \<or> threat_of s r \<le> f32_mul f_1_1 (threat_of s v)
      then if v \<noteq> r then target_unit x s v \<bind> (\<lambda>uv. Some (Some (if tu_attackable uv then v else r))) else Some (Some r)
      else if threat_of s r > f32_mul f_1_3 (threat_of s v) \<or> tu_melee u
      then Some (Some r) else select_loop x s l np (Some v) rs)"
  by auto

declare select_loop.simps(2) [simp del]

lemma select_loop_result:
  assumes "\<forall>r \<in> set l \<union> set rs \<union> set_option cv. target_unit x s r \<noteq> None"
  shows "\<exists>v. select_loop x s l np cv rs = Some v \<and> (\<forall>r. v = Some r \<longrightarrow> r \<in> set l \<union> set rs \<union> set_option cv \<and> can_attack x s r)"
  using assms
proof (induction x s l np cv rs rule: select_loop.induct)
  case (2 x s l np cv r rs)
  obtain u where u: "target_unit x s r = Some u" using "2.prems" by fastforce
  show ?case
  proof (cases "\<not> np \<and> tu_second u")
    case True
    show ?thesis
    proof (cases "rs = []")
      case rs: True
      have "\<exists>v. select_loop x s l True cv l = Some v
        \<and> (\<forall>q. v = Some q \<longrightarrow> q \<in> set l \<union> set l \<union> set_option cv \<and> can_attack x s q)"
        by (rule "2.IH"(2)[OF u True]) (use rs "2.prems" in auto)
      then show ?thesis using True rs by (auto simp: select_loop_second[OF u])
    next
      case False
      have "\<exists>v. select_loop x s l np (if cv = Some r then None else cv) rs = Some v
        \<and> (\<forall>q. v = Some q \<longrightarrow> q \<in> set l \<union> set rs \<union> set_option (if cv = Some r then None else cv) \<and> can_attack x s q)"
        by (rule "2.IH"(1)[OF u True False]) (use "2.prems" in \<open>auto split: if_splits\<close>)
      then show ?thesis using True False by (auto simp: select_loop_second[OF u] split: if_splits)
    qed
  next
    case first: False
    then have np: "np \<or> \<not> tu_second u" by blast
    show ?thesis
    proof (cases "tu_attackable u")
      case False
      have "\<exists>v. select_loop x s l np cv rs = Some v
        \<and> (\<forall>q. v = Some q \<longrightarrow> q \<in> set l \<union> set rs \<union> set_option cv \<and> can_attack x s q)"
        by (rule "2.IH"(4)[OF u first False]) (use "2.prems" in auto)
      then show ?thesis unfolding select_loop_skip[OF u np False] by auto
    next
      case att: True
      have r: "can_attack x s r" using att u by (simp add: can_attack_def)
      show ?thesis
      proof (cases cv)
        case None
        then show ?thesis using select_loop_any[OF u np att] r by simp
      next
        case (Some v)
        obtain uv where uv: "target_unit x s v = Some uv" using "2.prems" Some by fastforce
        have v: "can_attack x s v = tu_attackable uv" using uv by (simp add: can_attack_def)
        note C = select_loop_compare[OF u np att, of l v rs]
        show ?thesis
        proof (cases "v = r \<or> threat_of s r \<le> f32_mul f_1_1 (threat_of s v)")
          case True
          then show ?thesis using r uv v unfolding Some C by auto
        next
          case le: False
          show ?thesis
          proof (cases "threat_of s r > f32_mul f_1_3 (threat_of s v) \<or> tu_melee u")
            case True
            then show ?thesis using r le unfolding Some C by auto
          next
            case False
            have "\<exists>v. select_loop x s l np cv rs = Some v
              \<and> (\<forall>q. v = Some q \<longrightarrow> q \<in> set l \<union> set rs \<union> set_option cv \<and> can_attack x s q)"
              by (rule "2.IH"(3)[OF u first att Some le]) (use False "2.prems" in auto)
            then show ?thesis using le False unfolding Some C by auto
          qed
        qed
      qed
    qed
  qed
qed simp

text \<open>Who takes over from the current victim \<open>v\<close>: 110 percent of his threat in melee, 130 percent at range.\<close>

definition overtakes :: "threat_env \<Rightarrow> ThreatManager \<Rightarrow> nat \<Rightarrow> nat \<Rightarrow> bool" where
  "overtakes x s v r \<longleftrightarrow> (case target_unit x s r of None \<Rightarrow> False
     | Some u \<Rightarrow> \<not> tu_second u \<and> tu_attackable u \<and> threat_of s r > f32_mul f_1_1 (threat_of s v)
         \<and> (threat_of s r > f32_mul f_1_3 (threat_of s v) \<or> tu_melee u))"

definition prime_victim :: "threat_env \<Rightarrow> ThreatManager \<Rightarrow> nat \<Rightarrow> bool" where
  "prime_victim x s v \<longleftrightarrow> (case target_unit x s v of None \<Rightarrow> False | Some u \<Rightarrow> \<not> tu_second u \<and> tu_attackable u)"

lemma select_loop_rule:
  assumes "sorted_wrt (\<lambda>a b. threat_of s b \<le> threat_of s a) rs" and "v \<in> set rs" and "prime_victim x s v"
      and "\<forall>r \<in> set rs. target_unit x s r \<noteq> None"
  shows "select_loop x s l False (Some v) rs
     = Some (Some (case find (overtakes x s v) (takeWhile (\<lambda>r. r \<noteq> v) rs) of Some r \<Rightarrow> r | None \<Rightarrow> v))"
  using assms
proof (induction rs)
  case (Cons r rs)
  obtain u where u: "target_unit x s r = Some u" using Cons.prems(4) by auto
  obtain uv where uv: "target_unit x s v = Some uv" and pv: "\<not> tu_second uv" "tu_attackable uv"
    using Cons.prems(3) by (auto simp: prime_victim_def split: option.splits)
  show ?case
  proof (cases "r = v")
    case True
    then have "u = uv" using u uv by simp
    then show ?thesis using select_loop_compare[OF u, of False l v rs] pv True by simp
  next
    case rv: False
    then have v: "v \<in> set rs" using Cons.prems(2) by simp
    have IH: "select_loop x s l False (Some v) rs
      = Some (Some (case find (overtakes x s v) (takeWhile (\<lambda>r. r \<noteq> v) rs) of Some r \<Rightarrow> r | None \<Rightarrow> v))"
      by (rule Cons.IH) (use Cons.prems v in simp_all)
    have ov: "overtakes x s v r \<longleftrightarrow> \<not> tu_second u \<and> tu_attackable u \<and> threat_of s r > f32_mul f_1_1 (threat_of s v)
         \<and> (threat_of s r > f32_mul f_1_3 (threat_of s v) \<or> tu_melee u)" by (simp add: overtakes_def u)
    show ?thesis
    proof (cases "tu_second u \<or> \<not> tu_attackable u")
      case True
      have "select_loop x s l False (Some v) (r # rs) = select_loop x s l False (Some v) rs"
      proof (cases "tu_second u")
        case True
        then show ?thesis using select_loop_second[OF u, of False l "Some v" rs] rv v by auto
      next
        case False
        then show ?thesis using select_loop_skip[OF u] True by simp
      qed
      then show ?thesis using IH rv ov True by auto
    next
      case first: False
      note C = select_loop_compare[OF u, of False l v rs]
      show ?thesis
      proof (cases "threat_of s r \<le> f32_mul f_1_1 (threat_of s v)")
        case True
        have "\<not> overtakes x s v q" if "q \<in> set rs" for q
        proof -
          have "threat_of s q \<le> threat_of s r" using Cons.prems(1) that by simp
          then show ?thesis using True by (auto simp: overtakes_def split: option.splits)
        qed
        then have "find (overtakes x s v) (takeWhile (\<lambda>r. r \<noteq> v) rs) = None"
          by (auto simp: find_None_iff dest: set_takeWhileD)
        then show ?thesis using C True first ov rv uv pv by simp
      next
        case False
        then show ?thesis using C IH first ov rv by auto
      qed
    qed
  qed
qed simp

lemma find_sorted_max:
  assumes "sorted_wrt (\<lambda>a b. (f b :: rat) \<le> f a) l" and "find P l = Some r" and "q \<in> set l" and "P q"
  shows "f q \<le> f r"
  using assms by (induction l) (auto split: if_splits)

text \<open>The same, without the order of the list: the strongest who takes over, or the current victim if nobody does.\<close>

lemma selectNextVictim_rule:
  assumes "sorted_wrt (\<lambda>a b. threat_of s b \<le> threat_of s a) (tm_online s)" and "v \<in> set (tm_online s)" and "prime_victim x s v"
      and "\<forall>r \<in> set (tm_online s). target_unit x s r \<noteq> None" and pos: "threat_of s v \<le> f32_mul f_1_1 (threat_of s v)"
  shows "\<exists>w. selectNextVictim x (Some v) s = Some (Some w)
     \<and> (if \<exists>r \<in> set (tm_online s). overtakes x s v r
        then w \<in> set (tm_online s) \<and> overtakes x s v w \<and> (\<forall>r \<in> set (tm_online s). overtakes x s v r \<longrightarrow> threat_of s r \<le> threat_of s w)
        else w = v)"
proof -
  let ?l = "tm_online s" and ?p = "takeWhile (\<lambda>r. r \<noteq> v) (tm_online s)"
  have behind: "r \<in> set ?p" if r: "r \<in> set ?l" "overtakes x s v r" for r
  proof (rule ccontr)
    assume n: "r \<notin> set ?p"
    obtain ys where l: "?l = ?p @ v # ys"
      using assms(2) by (metis (mono_tags, lifting) dropWhile_eq_Cons_conv dropWhile_eq_Nil_conv list.exhaust takeWhile_dropWhile_id)
    then have "r = v \<or> r \<in> set ys" using r(1) n by (metis Un_iff set_ConsD set_append)
    moreover have "threat_of s q \<le> threat_of s v" if "q \<in> set ys" for q
      using assms(1) l that by (metis sorted_wrt.simps(2) sorted_wrt_append)
    ultimately have "threat_of s r \<le> threat_of s v" by auto
    then show False using r(2) pos by (auto simp: overtakes_def split: option.splits)
  qed
  have srt: "sorted_wrt (\<lambda>a b. threat_of s b \<le> threat_of s a) ?p"
    using assms(1) takeWhile_dropWhile_id[of "\<lambda>r. r \<noteq> v" ?l] by (metis sorted_wrt_append)
  have sel: "selectNextVictim x (Some v) s = Some (Some (case find (overtakes x s v) ?p of Some r \<Rightarrow> r | None \<Rightarrow> v))"
    using select_loop_rule[OF assms(1-4)] assms(2) by (auto simp: selectNextVictim_def)
  show ?thesis
  proof (cases "find (overtakes x s v) ?p")
    case None
    then have "\<not> (\<exists>r \<in> set ?l. overtakes x s v r)" using behind by (auto simp: find_None_iff)
    then show ?thesis using sel None by simp
  next
    case (Some w)
    then have w: "w \<in> set ?p" "overtakes x s v w" by (auto simp: find_Some_iff)
    then have "w \<in> set ?l" by (auto dest: set_takeWhileD)
    moreover have "threat_of s r \<le> threat_of s w" if "r \<in> set ?l" "overtakes x s v r" for r
      by (rule find_sorted_max[OF srt Some behind[OF that] that(2)])
    ultimately show ?thesis using sel Some w(2) by auto
  qed
qed

subsection \<open>Runs\<close>

lemma tc_update_simps [simp]:
  "tm_refs (tc_update s) = tm_refs s" "tm_victim (tc_update s) = tm_victim s" "tm_offline (tc_update s) = tm_offline s"
  "tm_next (tc_update s) = tm_next s" "set (tm_online (tc_update s)) = set (tm_online s)"
  "threat_of (tc_update s) = threat_of s" "target_unit x (tc_update s) = target_unit x s"
  by (simp_all add: tc_update_def Let_def threat_of_def fun_eq_iff target_unit_def)

lemma tc_update_inv: "tm_inv s \<Longrightarrow> tm_inv (tc_update s)"
  unfolding tm_inv_def tm_ok_def by (simp add: tc_update_def Let_def)

lemma tc_update_sorted:
  assumes "tm_dirty s" shows "sorted_wrt (\<lambda>a b. threat_of s b \<le> threat_of s a) (tm_online (tc_update s))"
proof (cases "length (tm_online s) > 1")
  case True
  have "sorted (map (\<lambda>r. - threat_of s r) (sort_key (\<lambda>r. - threat_of s r) (tm_online s)))" by (rule sorted_sort_key)
  then show ?thesis using assms True by (simp add: tc_update_def Let_def sorted_map)
next
  case False
  then show ?thesis using assms by (cases "tm_online s"; cases "tl (tm_online s)") (auto simp: tc_update_def Let_def)
qed

lemma online_target_unit:
  assumes I: "tm_inv s" and E: "env_ok x (tm_refs s)" and "r \<in> set (tm_online s)"
  shows "target_unit x s r \<noteq> None"
proof -
  obtain h where h: "tm_refs s r = Some h" using tm_refs_in[OF I] assms(3) by blast
  obtain g where g: "hr_target h = Some g" using tm_invD(7)[OF I h assms(3)] by blast
  show ?thesis using env_okD(1)[OF E h g] by (simp add: target_unit_def h g)
qed

lemma setCurrentVictim_simps [simp]:
  "tm_refs (setCurrentVictim v s) = tm_refs s" "tm_online (setCurrentVictim v s) = tm_online s"
  "tm_offline (setCurrentVictim v s) = tm_offline s" "tm_next (setCurrentVictim v s) = tm_next s"
  "tm_victim (setCurrentVictim v s) = v"
  by (simp_all add: setCurrentVictim_def tm_effect_def Let_def split: option.splits)

lemma getHostilTarget_ok:
  assumes I: "tm_inv s" and E: "env_ok x (tm_refs s)" and ne: "tm_online s \<noteq> []"
  shows "\<exists>t s'. getHostilTarget x s = Some (t, s') \<and> tm_inv s' \<and> tm_refs s' = tm_refs s
     \<and> selectNextVictim x (tm_victim s) (tc_update s) = Some (tm_victim s')
     \<and> (case tm_victim s' of None \<Rightarrow> t = None
          | Some r \<Rightarrow> \<exists>u h. tm_refs s r = Some h \<and> t = hr_target h \<and> target_unit x s r = Some u \<and> tu_attackable u)"
proof -
  let ?s = "tc_update s"
  have ne': "tm_online ?s \<noteq> []" using ne by (metis empty_set set_empty2 tc_update_simps(5))
  have vic: "set_option (tm_victim s) \<subseteq> set (tm_online s)" using tm_invD(10)[OF I] by auto
  have "\<forall>r \<in> set (tm_online ?s) \<union> set (tm_online ?s) \<union> set_option (tm_victim s). target_unit x ?s r \<noteq> None"
    using online_target_unit[OF I E] vic by auto
  from select_loop_result[OF this, of False] obtain v where v: "selectNextVictim x (tm_victim s) ?s = Some v"
    and r: "\<And>r. v = Some r \<Longrightarrow> r \<in> set (tm_online s) \<and> can_attack x ?s r"
    using ne' vic unfolding selectNextVictim_def by fastforce
  have inv: "tm_inv (setCurrentVictim v ?s)"
    using tc_update_inv[OF I] r unfolding tm_inv_def tm_ok_def by auto
  show ?thesis
  proof (cases v)
    case None
    then show ?thesis using v inv by (simp add: getHostilTarget_def)
  next
    case (Some w)
    then obtain h u where h: "tm_refs s w = Some h" and u: "target_unit x s w = Some u" "tu_attackable u"
      using tm_refs_in[OF I] r[OF Some] by (force simp: can_attack_def split: option.splits)
    then show ?thesis using v inv Some by (simp add: getHostilTarget_def)
  qed
qed

text \<open>One step of a threat manager: \<open>x\<close> is what it sees of the units at that time.\<close>

inductive tm_step :: "ThreatManager \<Rightarrow> ThreatManager \<Rightarrow> bool" where
  tm_add: "env_ok x (tm_refs s) \<Longrightarrow> chains_ok x n \<Longrightarrow> tm_addThreat x (Suc n) g t sch sp s = Some s' \<Longrightarrow> tm_step s s'"
| tm_doAdd: "env_ok x (tm_refs s) \<Longrightarrow> chains_ok x n \<Longrightarrow> te_unit x g \<noteq> None \<Longrightarrow> doAddThreat x n g t s = Some s' \<Longrightarrow> tm_step s s'"
| tm_percent: "env_ok x (tm_refs s) \<Longrightarrow> chains_ok x n \<Longrightarrow> hr_addThreatPercent x n p r s = Some s' \<Longrightarrow> tm_step s s'"
| tm_set: "env_ok x (tm_refs s) \<Longrightarrow> chains_ok x n \<Longrightarrow> setThreat x n t r s = Some s' \<Longrightarrow> tm_step s s'"
| tm_temp: "env_ok x (tm_refs s) \<Longrightarrow> chains_ok x n \<Longrightarrow> addTempThreat x n t r s = Some s' \<Longrightarrow> tm_step s s'"
| tm_reset: "env_ok x (tm_refs s) \<Longrightarrow> chains_ok x n \<Longrightarrow> resetTempThreat x n r s = Some s' \<Longrightarrow> tm_step s s'"
| tm_resetAll: "env_ok x (tm_refs s) \<Longrightarrow> chains_ok x n \<Longrightarrow> resetAllAggro x n k s = Some s' \<Longrightarrow> tm_step s s'"
| tm_resetIf: "env_ok x (tm_refs s) \<Longrightarrow> chains_ok x n \<Longrightarrow> resetAggro x n k pr s = Some s' \<Longrightarrow> tm_step s s'"
| tm_modify: "env_ok x (tm_refs s) \<Longrightarrow> chains_ok x n \<Longrightarrow> modifyThreatPercent x n g p s = Some s' \<Longrightarrow> tm_step s s'"
| tm_taunt: "env_ok x (tm_refs s) \<Longrightarrow> chains_ok x n \<Longrightarrow> tauntApply x n g s = Some s' \<Longrightarrow> tm_step s s'"
| tm_fade: "env_ok x (tm_refs s) \<Longrightarrow> chains_ok x n \<Longrightarrow> tauntFadeOut x n g s = Some s' \<Longrightarrow> tm_step s s'"
| tm_status: "env_ok x (tm_refs s) \<Longrightarrow> updateOnlineStatus x r s = Some s' \<Longrightarrow> tm_step s s'"
| tm_online: "env_ok x (tm_refs s) \<Longrightarrow> tm_refs s r = Some h \<Longrightarrow> hr_target h \<noteq> None \<Longrightarrow> setOnlineOfflineState b r s = Some s' \<Longrightarrow> tm_step s s'"
| tm_gone: "env_ok x (tm_refs s) \<Longrightarrow> hr_invalidate r s = Some s' \<Longrightarrow> tm_step s s'"
| tm_remove: "env_ok x (tm_refs s) \<Longrightarrow> (removeReference r s \<bind> delete_ref r) = Some s' \<Longrightarrow> tm_step s s'"
| tm_clear: "tm_clearReferences s = Some s' \<Longrightarrow> tm_step s s'"
| tm_tick: "tm_step s (snd (isNeedUpdateToClient time s))"
| tm_select: "env_ok x (tm_refs s) \<Longrightarrow> tm_online s \<noteq> [] \<Longrightarrow> getHostilTarget x s = Some (t, s') \<Longrightarrow> tm_step s s'"

inductive tm_run :: "ThreatManager \<Rightarrow> bool" where
  tm_run_new: "tm_run ThreatManager_new"
| tm_run_step: "tm_run s \<Longrightarrow> tm_step s s' \<Longrightarrow> tm_run s'"

lemma ok_to_inv: "ok_to x s m \<Longrightarrow> m = Some s' \<Longrightarrow> tm_inv s'"
  by (simp add: ok_to_def)

lemma needs_ref:
  "hr_addThreatPercent x n p r s = Some s' \<Longrightarrow> \<exists>h. tm_refs s r = Some h"
  "setThreat x n t r s = Some s' \<Longrightarrow> \<exists>h. tm_refs s r = Some h"
  "addTempThreat x n t r s = Some s' \<Longrightarrow> \<exists>h. tm_refs s r = Some h"
  "resetTempThreat x n r s = Some s' \<Longrightarrow> \<exists>h. tm_refs s r = Some h"
  "updateOnlineStatus x r s = Some s' \<Longrightarrow> \<exists>h. tm_refs s r = Some h"
  "hr_invalidate r s = Some s' \<Longrightarrow> \<exists>h. tm_refs s r = Some h"
  "(removeReference r s \<bind> delete_ref r) = Some s' \<Longrightarrow> \<exists>h. tm_refs s r = Some h"
  by (auto simp: hr_addThreatPercent_def setThreat_def addTempThreat_def resetTempThreat_def updateOnlineStatus_def upd_ref_def
      removeReference_def hr_invalidate_def setOnlineOfflineState_def split: bind_splits)

lemma for_online_inv:
  assumes "\<And>r s s'. tm_inv s \<Longrightarrow> env_ok x (tm_refs s) \<Longrightarrow> f r s = Some s' \<Longrightarrow> tm_inv s' \<and> env_ok x (tm_refs s')"
  shows "for_online f k r s = Some s' \<Longrightarrow> tm_inv s \<Longrightarrow> env_ok x (tm_refs s) \<Longrightarrow> tm_inv s' \<and> env_ok x (tm_refs s')"
proof (induction k arbitrary: r s)
  case (Suc k)
  then obtain s1 q where s1: "f r s = Some s1" and q: "next_online r s1 = Some q"
    and s': "(case q of None \<Rightarrow> Some s1 | Some r \<Rightarrow> for_online f k r s1) = Some s'" by (auto split: bind_splits)
  have "tm_inv s1 \<and> env_ok x (tm_refs s1)" by (rule assms[OF Suc.prems(2,3) s1])
  then show ?case using s' Suc.IH by (cases q) auto
qed simp

lemma setThreat_inv:
  assumes "tm_inv s" and "env_ok x (tm_refs s)" and "chains_ok x n" and "setThreat x n t r s = Some s'"
  shows "tm_inv s' \<and> env_ok x (tm_refs s')"
proof -
  obtain h where "tm_refs s r = Some h" using needs_ref(2)[OF assms(4)] by blast
  from setThreat_ok[OF assms(1-3) this, of t] show ?thesis by (simp add: ok_to_def assms(4))
qed

lemma setDirty_inv: "tm_inv s \<Longrightarrow> tm_inv (setDirty d s)" "tm_refs (setDirty d s) = tm_refs s"
  by (rule tm_inv_cong[of _ s]) (simp_all add: setDirty_def)

lemma resetAggro_inv:
  assumes I: "tm_inv s" and E: "env_ok x (tm_refs s)" and C: "chains_ok x n"
  shows "resetAllAggro x n k s = Some s' \<Longrightarrow> tm_inv s'" and "resetAggro x n k pr s = Some s' \<Longrightarrow> tm_inv s'"
proof -
  assume a: "resetAllAggro x n k s = Some s'"
  show "tm_inv s'"
  proof (cases "tm_online s")
    case Nil
    then show ?thesis using a I by (simp add: resetAllAggro_def)
  next
    case (Cons r rs)
    then obtain s1 where s1: "for_online (setThreat x n 0) k r s = Some s1" "s' = setDirty True s1"
      using a by (auto simp: resetAllAggro_def split: bind_splits)
    have "tm_inv s1 \<and> env_ok x (tm_refs s1)" by (rule for_online_inv[OF setThreat_inv[OF _ _ C] s1(1) I E])
    then show ?thesis using setDirty_inv(1) s1(2) by blast
  qed
next
  let ?f = "\<lambda>r s. tm_refs s r \<bind> (\<lambda>h. if pr (hr_target h) then setThreat x n 0 r s \<bind> (\<lambda>s. Some (setDirty True s)) else Some s)"
  have f: "tm_inv q' \<and> env_ok x (tm_refs q')" if q: "tm_inv q" "env_ok x (tm_refs q)" and "?f r q = Some q'" for r q q'
  proof -
    obtain h :: HostileReference where h: "(if pr (hr_target h) then setThreat x n 0 r q \<bind> (\<lambda>s. Some (setDirty True s)) else Some q) = Some q'"
      using \<open>?f r q = Some q'\<close> by (cases "tm_refs q r") auto
    show ?thesis
    proof (cases "pr (hr_target h)")
      case True
      then obtain q1 where q1: "setThreat x n 0 r q = Some q1" "q' = setDirty True q1" using h by (auto split: bind_splits)
      show ?thesis using setThreat_inv[OF q C q1(1)] setDirty_inv q1(2) by simp
    qed (use h q in simp)
  qed
  assume a: "resetAggro x n k pr s = Some s'"
  show "tm_inv s'"
  proof (cases "tm_online s")
    case Nil
    then show ?thesis using a I by (simp add: resetAggro_def)
  next
    case (Cons r rs)
    then have "for_online ?f k r s = Some s'" using a by (simp add: resetAggro_def)
    have "tm_inv s' \<and> env_ok x (tm_refs s')"
      by (rule for_online_inv[OF _ \<open>for_online ?f k r s = Some s'\<close> I E]) (rule f)
    then show ?thesis by blast
  qed
qed

lemma tm_step_inv:
  assumes "tm_step s s'" and I: "tm_inv s"
  shows "tm_inv s'"
  using assms(1)
proof cases
  case (tm_add x n g t sch sp) then show ?thesis using ok_to_inv[OF tm_addThreat_ok[OF I]] by blast
next
  case (tm_doAdd x n g t) then show ?thesis using ok_to_inv[OF doAddThreat_ok[OF I]] by blast
next
  case (tm_percent x n p r) then show ?thesis using ok_to_inv[OF hr_addThreatPercent_ok[OF I]] needs_ref(1) by blast
next
  case (tm_set x n t r) then show ?thesis using ok_to_inv[OF setThreat_ok[OF I]] needs_ref(2) by blast
next
  case (tm_temp x n t r) then show ?thesis using ok_to_inv[OF addTempThreat_ok[OF I]] needs_ref(3) by blast
next
  case (tm_reset x n r) then show ?thesis using ok_to_inv[OF resetTempThreat_ok[OF I]] needs_ref(4) by blast
next
  case (tm_resetAll x n k) then show ?thesis using resetAggro_inv(1)[OF I] by blast
next
  case (tm_resetIf x n k pr) then show ?thesis using resetAggro_inv(2)[OF I] by blast
next
  case (tm_modify x n g p) then show ?thesis using ok_to_inv[OF modifyThreatPercent_ok[OF I]] by blast
next
  case (tm_taunt x n g) then show ?thesis using ok_to_inv[OF tauntApply_ok[OF I]] by blast
next
  case (tm_fade x n g) then show ?thesis using ok_to_inv[OF tauntFadeOut_ok[OF I]] by blast
next
  case (tm_status x r) then show ?thesis using ok_to_inv[OF updateOnlineStatus_ok[OF I]] needs_ref(5) by blast
next
  case (tm_online x r h b) then show ?thesis using ok_to_inv[OF setOnlineOfflineState_ok[OF I]] by blast
next
  case (tm_gone x r)
  obtain h where h: "tm_refs s r = Some h" using needs_ref(6)[OF tm_gone(2)] by blast
  show ?thesis by (rule hr_invalidate_ok[OF I tm_gone(1) h]) (use tm_gone(2) in simp)
next
  case (tm_remove x r)
  obtain h where h: "tm_refs s r = Some h" using needs_ref(7)[OF tm_remove(2)] by blast
  show ?thesis using removeReference_ok[OF I tm_remove(1) h] tm_remove(2) by auto
next
  case tm_clear then show ?thesis using tm_clearReferences_eq[OF I] by (auto intro: tm_inv_empty)
next
  case (tm_tick time) then show ?thesis using tm_inv_cong[of s' s] I by (simp add: isNeedUpdateToClient_def split: if_splits)
next
  case (tm_select x t) then show ?thesis using getHostilTarget_ok[OF I] by fastforce
qed

lemma tm_run_inv: "tm_run s \<Longrightarrow> tm_inv s"
proof (induction rule: tm_run.induct)
  case tm_run_new show ?case by (rule tm_inv_empty) (simp_all add: ThreatManager_new_def)
qed (rule tm_step_inv)

lemma fl24_int: "\<bar>x\<bar> < 2 ^ 24 \<Longrightarrow> fl 24 (of_int x) = of_int x"
  using f32_of_int_exact by (simp add: f32_of_int_def)

lemma factors: "f_1_1 = 9227469 / 8388608" "f_1_3 = 5452595 / 4194304"
  by code_simp+

subsection \<open>A run in which the list is not sorted\<close>

definition tdemo_unit :: "bool \<Rightarrow> threat_unit" where
  "tdemo_unit melee = \<lparr>tu_player = True, tu_gm = False, tu_alive = True, tu_inFlight = False, tu_inMap = True, tu_inPhase = True,
     tu_accessible = True, tu_inCombatRange = True, tu_owner = None, tu_vengeance = False, tu_reducedPercent = 0,
     tu_misdirection = None, tu_spellMod = (\<lambda>_ t. t), tu_threatAura = False, tu_threatMod = (\<lambda>_. 1), tu_second = False,
     tu_attackable = True, tu_melee = melee\<rparr>"

definition tdemo_env :: "u64 set \<Rightarrow> threat_env" where
  "tdemo_env ms = \<lparr>te_unit = (\<lambda>g. Some (tdemo_unit (g \<in> ms))), te_owner = 9, te_ownerAlive = True\<rparr>"

definition tdemo_href :: "u64 \<Rightarrow> rat \<Rightarrow> HostileReference" where
  "tdemo_href g t = \<lparr>hr_threat = t, hr_temp = 0, hr_guid = g, hr_online = True, hr_access = True, hr_target = Some g\<rparr>"

definition tdemo_state :: "(u64 \<times> rat) list \<Rightarrow> nat list \<Rightarrow> nat option \<Rightarrow> bool \<Rightarrow> tm_event list \<Rightarrow> ThreatManager" where
  "tdemo_state rs l v d lg = \<lparr>tm_online = l, tm_offline = [], tm_victim = v, tm_dirty = d, tm_timer = 1000,
     tm_refs = (\<lambda>r. if r < length rs then Some (tdemo_href (fst (rs ! r)) (snd (rs ! r))) else None), tm_next = length rs, tm_log = lg\<rparr>"

lemma tdemo_env_ok: "env_ok (tdemo_env ms) refs" "chains_ok (tdemo_env ms) 1"
  by (simp_all add: env_ok_def tdemo_env_def tdemo_unit_def chains_ok_def)

lemma tdemo_int: "fl 24 128 = 128" "fl 24 150 = 150" "fl 24 15 = 15" "fl 24 (-135) = -135" "fl 24 (-90) = -90" "fl 24 (-13500) = -13500"
  using fl24_int[of 128] fl24_int[of 150] fl24_int[of 15] fl24_int[of "-135"] fl24_int[of "-90"] fl24_int[of "-13500"] by simp_all

lemmas tdemo_threat_defs = isValidProcess_def tdemo_env_def tdemo_unit_def calcThreat_def ApplyTotalThreatModifier_def doAddThreat_on_def
  tm_addThreat_to_def getReferenceByTarget_def ThreatManager_new_def new_reference_def tm_effect_def hr_addThreat_def
  upd_ref_def setDirty_def tdemo_state_def tdemo_href_def f32_add_def tdemo_int THREAT_UPDATE_INTERVAL_def

definition tdemo_log :: "tm_event list" where
  "tdemo_log = [AddHatedBy 1 0, ChangeVictim 0, AddHatedBy 2 1, AddHatedBy 3 2]"

definition tdemo_full :: ThreatManager where
  "tdemo_full = tdemo_state [(1, 128), (2, 150), (3, 150)] [0, 1, 2] (Some 0) True tdemo_log"

definition tdemo_stale :: ThreatManager where
  "tdemo_stale = tdemo_state [(1, 128), (2, 15), (3, 150)] [1, 2, 0] (Some 0) False tdemo_log"

lemma tdemo_add_1: "tm_addThreat (tdemo_env {}) (Suc 1) 1 128 1 None ThreatManager_new = Some (tdemo_state [(1, 128)] [0] None True (take 1 tdemo_log))"
  by (simp add: tdemo_threat_defs tdemo_log_def Let_def fun_eq_iff)

lemma tdemo_add_2: "tm_addThreat (tdemo_env {}) (Suc 1) 2 150 1 None (tdemo_state [(1, 128)] [0] (Some 0) False (take 2 tdemo_log))
  = Some (tdemo_state [(1, 128), (2, 150)] [0, 1] (Some 0) True (take 3 tdemo_log))"
  by (simp add: tdemo_threat_defs tdemo_log_def Let_def fun_eq_iff less_Suc_eq nth_Cons')

lemma tdemo_add_3: "tm_addThreat (tdemo_env {}) (Suc 1) 3 150 1 None (tdemo_state [(1, 128), (2, 150)] [0, 1] (Some 0) True (take 3 tdemo_log))
  = Some tdemo_full"
  by (simp add: tdemo_full_def tdemo_threat_defs tdemo_log_def Let_def fun_eq_iff less_Suc_eq nth_Cons')

lemma tdemo_mul: "f32_mul f_1_1 128 = 9227469 / 65536" "f32_mul f_1_3 128 = 5452595 / 32768"
  using fl_exact[of "9227469 / 65536" 9227469 16 24] fl_exact[of "5452595 / 32768" 5452595 15 24]
  by (simp_all add: f32_mul_def factors power_int_def)

lemmas tdemo_select_defs = getHostilTarget_def tc_update_def selectNextVictim_def setCurrentVictim_def target_unit_def threat_of_def
  select_loop.simps(2)

lemma tdemo_select_1: "getHostilTarget (tdemo_env {}) (tdemo_state [(1, 128)] [0] None True (take 1 tdemo_log))
  = Some (Some 1, tdemo_state [(1, 128)] [0] (Some 0) False (take 2 tdemo_log))"
  by (simp add: tdemo_select_defs tdemo_threat_defs tdemo_log_def Let_def)

lemma tdemo_select_full: "getHostilTarget (tdemo_env {}) tdemo_full
  = Some (Some 1, tdemo_state [(1, 128), (2, 150), (3, 150)] [1, 2, 0] (Some 0) False tdemo_log)"
  by (simp add: tdemo_full_def tdemo_select_defs tdemo_threat_defs tdemo_log_def tdemo_mul Let_def)

lemma tdemo_modify: "modifyThreatPercent (tdemo_env {}) 1 2 (-90) (tdemo_state [(1, 128), (2, 150), (3, 150)] [1, 2, 0] (Some 0) False tdemo_log)
  = Some tdemo_stale"
  by (simp add: tdemo_stale_def modifyThreatPercent_def hr_addThreatPercent_def AddPct_def f32_sub_def f32_div_def f32_mul_def f32_of_int_def
      tdemo_threat_defs tdemo_log_def Let_def fun_eq_iff less_Suc_eq nth_Cons')

lemma tdemo_full_run: "tm_run tdemo_full"
proof -
  have "tm_run (tdemo_state [(1, 128)] [0] None True (take 1 tdemo_log))"
    by (rule tm_run_step[OF tm_run_new tm_add[OF tdemo_env_ok(1,2) tdemo_add_1]])
  then have "tm_run (tdemo_state [(1, 128)] [0] (Some 0) False (take 2 tdemo_log))"
    by (rule tm_run_step[OF _ tm_select[OF tdemo_env_ok(1) _ tdemo_select_1]]) (simp add: tdemo_state_def)
  then have "tm_run (tdemo_state [(1, 128), (2, 150)] [0, 1] (Some 0) True (take 3 tdemo_log))"
    by (rule tm_run_step[OF _ tm_add[OF tdemo_env_ok(1,2) tdemo_add_2]])
  then show ?thesis by (rule tm_run_step[OF _ tm_add[OF tdemo_env_ok(1,2) tdemo_add_3]])
qed

lemma tdemo_stale_run: "tm_run tdemo_stale"
proof -
  have "tm_run (tdemo_state [(1, 128), (2, 150), (3, 150)] [1, 2, 0] (Some 0) False tdemo_log)"
    by (rule tm_run_step[OF tdemo_full_run tm_select[OF tdemo_env_ok(1) _ tdemo_select_full]]) (simp add: tdemo_full_def tdemo_state_def)
  then show ?thesis by (rule tm_run_step[OF _ tm_modify[OF tdemo_env_ok(1,2) tdemo_modify]])
qed

text \<open>A loss of threat of somebody who is not the victim does not mark the list: the loop, which stops at the first weak
  reference, then keeps the victim although another takes over by the rule.\<close>

theorem stale_order:
  "\<exists>s x v r. tm_run s \<and> env_ok x (tm_refs s) \<and> tm_victim s = Some v \<and> prime_victim x s v \<and> r \<in> set (tm_online s)
     \<and> overtakes x s v r \<and> (\<exists>a s'. getHostilTarget x s = Some (a, s') \<and> tm_victim s' = Some v)"
proof -
  have "getHostilTarget (tdemo_env {3}) tdemo_stale = Some (Some 1, tdemo_stale)"
    by (simp add: tdemo_stale_def tdemo_select_defs tdemo_threat_defs tdemo_log_def tdemo_mul Let_def)
  moreover have "tm_victim tdemo_stale = Some 0" "2 \<in> set (tm_online tdemo_stale)" by (simp_all add: tdemo_stale_def tdemo_state_def)
  moreover have "prime_victim (tdemo_env {3}) tdemo_stale 0" "overtakes (tdemo_env {3}) tdemo_stale 0 2"
    by (simp_all add: tdemo_stale_def overtakes_def prime_victim_def tdemo_select_defs tdemo_threat_defs tdemo_mul)
  ultimately show ?thesis using tdemo_stale_run tdemo_env_ok(1) by blast
qed

text \<open>C38. Over every run the two lists are disjoint and without repetition and hold exactly the references of the manager,
  each in the list its state says; there is at most one reference per unit, one that is online points to its unit, and
  the current victim is online.\<close>

theorem threat_lists:
  assumes "tm_run s"
  shows "distinct (tm_online s @ tm_offline s)
    \<and> (\<forall>r. tm_refs s r \<noteq> None \<longleftrightarrow> r \<in> set (tm_online s @ tm_offline s))
    \<and> (\<forall>r h. tm_refs s r = Some h \<longrightarrow> (hr_online h \<longleftrightarrow> r \<in> set (tm_online s)) \<and> (hr_online h \<longrightarrow> hr_target h = Some (hr_guid h)))
    \<and> (\<forall>r r' h h'. tm_refs s r = Some h \<longrightarrow> tm_refs s r' = Some h' \<longrightarrow> hr_guid h = hr_guid h' \<longrightarrow> r = r')
    \<and> (\<forall>v. tm_victim s = Some v \<longrightarrow> v \<in> set (tm_online s))"
proof -
  note I = tm_invD[OF tm_run_inv[OF assms]]
  have a: "distinct (tm_online s @ tm_offline s)" using I(1-3) by simp
  have b: "\<forall>r. tm_refs s r \<noteq> None \<longleftrightarrow> r \<in> set (tm_online s @ tm_offline s)" using I(4) by (simp add: set_eq_iff domIff del: not_None_eq)
  have c: "\<forall>r h. tm_refs s r = Some h \<longrightarrow> (hr_online h \<longleftrightarrow> r \<in> set (tm_online s)) \<and> (hr_online h \<longrightarrow> hr_target h = Some (hr_guid h))"
    using I(6-8) by (metis not_None_eq)
  show ?thesis using a b c I(9,10) unfolding unique_guids_def by blast
qed

text \<open>C39. From every reachable state, if the units the references point to and the owners of units live and no chain of owners
  is endless: adding threat returns; the choice of a target returns exactly if the list of references online is not empty
  (the code takes the iterator before the end of the list; its caller asks first), so the assertion in the loop holds; and
  the chosen target is one the creature can attack.\<close>

theorem threat_returns:
  assumes "tm_run s" and "env_ok x (tm_refs s)" and "chains_ok x n"
  shows "(\<exists>s'. tm_addThreat x (Suc n) g t sch sp s = Some s' \<and> tm_run s')
    \<and> (tm_online s = [] \<longrightarrow> getHostilTarget x s = None)
    \<and> (tm_online s \<noteq> [] \<longrightarrow> (\<exists>a s'. getHostilTarget x s = Some (a, s') \<and> tm_run s'
         \<and> (\<forall>w. a = Some w \<longrightarrow> (\<exists>u. te_unit x w = Some u \<and> tu_attackable u))))"
proof (intro conjI impI)
  note I = tm_run_inv[OF assms(1)]
  obtain s' where s': "tm_addThreat x (Suc n) g t sch sp s = Some s'"
    using tm_addThreat_ok[OF I assms(2,3)] unfolding ok_to_def by blast
  then show "\<exists>s'. tm_addThreat x (Suc n) g t sch sp s = Some s' \<and> tm_run s'"
    using tm_run_step[OF assms(1) tm_add[OF assms(2,3) s']] by blast
  show "getHostilTarget x s = None" if "tm_online s = []"
    using that by (simp add: getHostilTarget_def tc_update_def selectNextVictim_def Let_def)
  assume ne: "tm_online s \<noteq> []"
  from getHostilTarget_ok[OF I assms(2) ne] obtain a q where q: "getHostilTarget x s = Some (a, q)"
    and v: "case tm_victim q of None \<Rightarrow> a = None
          | Some r \<Rightarrow> \<exists>u h. tm_refs s r = Some h \<and> a = hr_target h \<and> target_unit x s r = Some u \<and> tu_attackable u" by blast
  have "\<exists>u. te_unit x w = Some u \<and> tu_attackable u" if "a = Some w" for w
    using v that[symmetric] by (cases "tm_victim q") (auto simp: target_unit_def dest: sym)
  then show "\<exists>a s'. getHostilTarget x s = Some (a, s') \<and> tm_run s'
         \<and> (\<forall>w. a = Some w \<longrightarrow> (\<exists>u. te_unit x w = Some u \<and> tu_attackable u))"
    using q tm_run_step[OF assms(1) tm_select[OF assms(2) ne q]] by blast
qed

text \<open>C40. If the units the references point to and the owners of units live, the list is marked unsorted, the creature can
  attack its current victim \<open>v\<close>, \<open>v\<close> is not a second choice (immune or in a breakable crowd control), and 1.1 times the
  threat of \<open>v\<close>, rounded, is not below it (it is not for amounts that are not negative), then the choice follows the rule
  of 110 percent in melee and 130 percent at range: the new victim is the strongest of the attackable first choices who
  take over from \<open>v\<close>, and \<open>v\<close> if nobody does.\<close>

theorem victim_rule:
  assumes "tm_run s" and "env_ok x (tm_refs s)" and "tm_dirty s" and "tm_victim s = Some v" and "prime_victim x s v"
      and "threat_of s v \<le> f32_mul f_1_1 (threat_of s v)"
  shows "\<exists>a s' w. getHostilTarget x s = Some (a, s') \<and> tm_victim s' = Some w \<and> \<not> tm_dirty s'
     \<and> (if \<exists>r \<in> set (tm_online s). overtakes x s v r
        then w \<in> set (tm_online s) \<and> overtakes x s v w \<and> (\<forall>r \<in> set (tm_online s). overtakes x s v r \<longrightarrow> threat_of s r \<le> threat_of s w)
        else w = v)"
proof -
  note I = tm_run_inv[OF assms(1)]
  let ?s = "tc_update s"
  have v: "v \<in> set (tm_online s)" using tm_invD(10)[OF I assms(4)] .
  have o': "overtakes x ?s = overtakes x s" "prime_victim x ?s = prime_victim x s"
    by (simp_all add: overtakes_def prime_victim_def fun_eq_iff cong: option.case_cong)
  have "\<exists>w. selectNextVictim x (Some v) ?s = Some (Some w)
     \<and> (if \<exists>r \<in> set (tm_online s). overtakes x s v r
        then w \<in> set (tm_online s) \<and> overtakes x s v w \<and> (\<forall>r \<in> set (tm_online s). overtakes x s v r \<longrightarrow> threat_of s r \<le> threat_of s w)
        else w = v)"
    using selectNextVictim_rule[of ?s v x] tc_update_sorted[OF assms(3)] v assms(5,6) online_target_unit[OF I assms(2)]
    by (simp add: o' cong: if_cong)
  then obtain w where w: "selectNextVictim x (Some v) ?s = Some (Some w)"
    and r: "if \<exists>r \<in> set (tm_online s). overtakes x s v r
        then w \<in> set (tm_online s) \<and> overtakes x s v w \<and> (\<forall>r \<in> set (tm_online s). overtakes x s v r \<longrightarrow> threat_of s r \<le> threat_of s w)
        else w = v" by blast
  from getHostilTarget_ok[OF I assms(2)] v obtain a q where q: "getHostilTarget x s = Some (a, q)"
    and qv: "selectNextVictim x (tm_victim s) ?s = Some (tm_victim q)" by fastforce
  have "tm_victim q = Some w" using qv w assms(4) by simp
  moreover have "\<not> tm_dirty q"
    using q w assms(4) by (auto simp: getHostilTarget_def setCurrentVictim_def tm_effect_def tc_update_def Let_def split: bind_splits option.splits if_splits)
  ultimately show ?thesis using q r by blast
qed

theorem threat_lists_witness:
  "distinct (tm_online tdemo_stale @ tm_offline tdemo_stale)
    \<and> (\<forall>r. tm_refs tdemo_stale r \<noteq> None \<longleftrightarrow> r \<in> set (tm_online tdemo_stale @ tm_offline tdemo_stale))"
  using threat_lists[OF tdemo_stale_run] by blast

theorem threat_returns_witness:
  "(\<exists>s'. tm_addThreat (tdemo_env {3}) (Suc 1) 4 10 1 None tdemo_stale = Some s' \<and> tm_run s')
   \<and> (\<exists>a s'. getHostilTarget (tdemo_env {3}) tdemo_stale = Some (a, s') \<and> tm_run s')
   \<and> getHostilTarget (tdemo_env {3}) ThreatManager_new = None"
proof -
  have "tm_online tdemo_stale \<noteq> []" by (simp add: tdemo_stale_def tdemo_state_def)
  moreover have "tm_online ThreatManager_new = []" by (simp add: ThreatManager_new_def)
  ultimately show ?thesis
    using threat_returns[OF tdemo_stale_run tdemo_env_ok(1,2)] threat_returns[OF tm_run_new tdemo_env_ok(1,2)] by blast
qed

theorem victim_rule_witness:
  "\<exists>a s' w. getHostilTarget (tdemo_env {3}) tdemo_full = Some (a, s') \<and> tm_victim s' = Some w \<and> overtakes (tdemo_env {3}) tdemo_full 0 w"
proof -
  have f: "tm_dirty tdemo_full" "tm_victim tdemo_full = Some 0" "prime_victim (tdemo_env {3}) tdemo_full 0"
    "threat_of tdemo_full 0 \<le> f32_mul f_1_1 (threat_of tdemo_full 0)" "overtakes (tdemo_env {3}) tdemo_full 0 2" "2 \<in> set (tm_online tdemo_full)"
    by (simp_all add: tdemo_full_def overtakes_def prime_victim_def tdemo_select_defs tdemo_threat_defs tdemo_mul)
  then have ex: "\<exists>r \<in> set (tm_online tdemo_full). overtakes (tdemo_env {3}) tdemo_full 0 r" by blast
  show ?thesis using victim_rule[OF tdemo_full_run tdemo_env_ok(1) f(1-4)] unfolding if_P[OF ex] by blast
qed

end
