(* ===== verification/Spec2Isabelle.thy ===== *)
theory Spec2Isabelle
  imports BufferSafety GameEvents Timers EventQueue Queues ReputationFacts ChannelRuns References SocialFacts Taxi ThreatFacts
begin

text \<open>
  Parts of the server of a massively multiplayer game (Draenor 6.2.3, C++), modelled as functions on explicit states.

  The program. A world process holds players, creatures and maps and advances them once per tick; packets of the
  clients arrive in queues, handlers parse them from a \<open>ByteBuffer\<close> and call managers (chat channels, friends, flight
  points, reputations, game events), and what must survive a restart goes to the database as prepared statements. The
  modelled parts are those whose logic stands on its own state: the packet layer, the shared utilities under it, and
  seven managers above it. What they ask of the rest of the server (players, units, settings, client files) is an
  environment, a record that is an argument of the operations; what they do to it (packets, statements, calls) is
  appended to a log or returned.

  Conventions. A class is a record with a field per member variable, in the names of the code, and every method is a
  function of the same name; a suffix or prefix is added only where a name clashes. Integers are words of their width
  (\<open>u8\<close> to \<open>u64\<close>, so that they wrap), or \<open>int\<close> with the wrap-around written out; \<open>float\<close> is a rational rounded to 24
  bits after each operation; text is a list of bytes. \<open>std::map\<close> is the list of its entries in key order (SortedMap).
  An exception is \<open>Inl\<close> of the result type in Prelude; behaviour that C++ leaves undefined (a pointer to a deleted
  object, an access behind an array or buffer, a failed assertion) is \<open>None\<close>, so that a theorem that an operation
  returns \<open>Some\<close> says that it is safe. The build is the one without CROSS.

  The theories, in the order they build on each other.

  Prelude: the result type of operations that throw, sequencing, the bytes of an integer, generic lemmas.
  Bits, ByteBuffer, PackedData, BufferSafety: \<open>shared/Packets/ByteBuffer.h\<close>. The buffer has a byte vector, read and
  write positions for bytes and bits and the pending bits. Bits states the interface of a codec as the locale
  \<open>packet_codec\<close> (what is written as a field is read back as that field, whatever follows); ByteBuffer interprets it
  on the code's operations as \<open>bb\<close>, and the round trip of whole packets follows. BufferSafety shows that no read
  leaves the storage.
  Guid: \<open>shared/Guid.h\<close> and \<open>Guid.cpp\<close>, identifiers of 64 and 128 bits and their conversion.
  Timers, EventQueue, Queues: \<open>shared/Utilities/Timer.h\<close>, \<open>EventProcessor.cpp\<close>, \<open>shared/Threading\<close>. What an event
  does is the parameter of the locale \<open>event_behaviour\<close>, interpreted on the class of lambda events; the two queues
  share the locale \<open>fifo\<close>, interpreted on both. The event loop need not end in the code, so it is a partial function;
  that it ends if events only add later ones is a theorem. Threads are interleaved operations under their mutex.
  LinkedList, References: \<open>shared/Dynamic/LinkedList.h\<close>, \<open>LinkedReference/\<close>, \<open>MapReference.h\<close>, \<open>GroupReference.cpp\<close>.
  Elements lie at addresses of a memory; the invariant ties the pointers to a list without repetition. The loop of
  \<open>clearReferences\<close> is a partial function, with a theorem that it ends from every reachable state.
  FloatArith, SortedMap: rounding, and ordered maps.
  Threat, ThreatFacts: \<open>game/Combat/ThreatManager.cpp\<close>. The two lists of references of a creature, the events between a
  reference and its manager, threat redirected to other units and passed to owners, and the choice of a victim. The
  recursion along owners has fuel; \<open>chains_ok\<close> says that it is at least the longest chain, and then it returns.
  Reputation, ReputationFacts: \<open>game/Reputation/ReputationMgr.cpp\<close>. Standings, flags, ranks (an instance of
  \<open>linorder\<close>), the counters, spillover, saving and loading.
  GameEvents: \<open>game/Events/GameEventMgr.cpp\<close>. The calendar of events, their states, quest conditions and tables.
  Utf8, Utf8Codec, Utf8Facts: \<open>dep/utf8cpp\<close> and the text functions of \<open>shared/Utilities/Util.cpp\<close>.
  ChannelData, Channels, ChannelRules, ChannelFacts, ChannelTable: \<open>game/Chat/Channels/Channel.cpp\<close>. One channel: its
  members, owner, bans, its packets and its row in the database.
  ChannelMgr, ChannelHandler, ChannelWorld, ChannelRuns: \<open>ChannelMgr.cpp\<close>, \<open>game/Handlers/ChannelHandler.cpp\<close> and the
  channel functions of \<open>Player.cpp\<close>, \<open>WorldSession.cpp\<close> and the message handler. All channels in a store, the lists of
  the players that point to them, and runs of packets, zone changes, returns from another realm and logouts in any order.
  Social, SocialFacts: \<open>game/Entities/Player/SocialMgr.cpp\<close> and the handlers of friends in \<open>MiscHandler.cpp\<close>.
  Taxi: \<open>game/Entities/Player/PlayerTaxi.cpp\<close>.

  How the parts meet. Packets of reputations, channels and friends are built with the operations of ByteBuffer;
  handlers parse with them, and an exception drops the packet. Channels and names rest on the text functions: the
  buffer overruns of \<open>Utf8toWStr\<close> are the reason for the hypothesis on names in \<open>chat_safe\<close>. Friends use the player
  lookup of ChannelData, flight points the tokenizer of the channels, threat the rounding that reputations use.

  What the theorems show. Invariants over all runs (an inductive step relation, or all sequences of operations, from
  the constructor): of references and their lists, a channel, the world of channels, threat lists, reputations and
  their counters, friends against their table. Round trips of encodings and of saving against loading. Safety: which
  operations cannot reach undefined behaviour and under which condition. Functional behaviour of operations on every
  branch, errors included. Where a theorem needs a hypothesis, the text before it says so and a second theorem applies it
  to a concrete state. Runs of one channel come in two relations: \<open>ch_step\<close> leaves out the owner who kicks or bans
  himself, guid 0, and joining a channel its last member left, \<open>ch_any\<close> is any operation. Runs of a friend list include
  friends that are deleted; restoring one that is still listed is left out and shown to break the limit. Where
  the code does not do what it means to, a theorem shows the case: a stale order of the threat list, a channel whose
  owner kicks or bans himself, a conversion that writes behind its buffer, bonuses that compound.

  Bounds and fuel. Read loops of strings have as fuel the bytes left, the clean-up of a logout the channels of the
  player, additions of threat the chain of owners; lemmas show that this is enough. The reset loops of threat take
  the bound on their steps as an argument; that they end is not shown. All other loops are structural.

  Not modelled. Entities, spells, auras, maps, instances, battlegrounds, groups, guilds, items and the economy: their
  operations change each other's state and read tables of the client that are not in the repository, so that a model
  would have to invent most of what it computes. Scripts and generated or vendored code, the connection pool, sockets,
  ciphers and logging, which wrap libraries outside the repository. Floating point geometry. Of the modelled parts: log
  dumps of the packet buffer, vectors of three floats, the loading of the tables of world events that name creatures
  and models, the removal of channel rows nobody has used for long, widths of database columns, and the manager of the references to one hated unit, which only calls operations of Threat.
\<close>

end
